(* ===== verification/RD_Prelude.thy ===== *)
theory RD_Prelude
  imports Main "HOL-Library.Word"
begin

text \<open>
  The prelude of the development: the machine types of the program (an x86 Windows
  build: little-endian, 32-bit \<open>size_t\<close>, \<open>int\<close> and \<open>long\<close>), the byte image of an
  integer as \<open>memcpy\<close> sees it, a contract for fixed-width codecs with its instances for
  the four integer widths, and the list lemmas that the component theories share.
\<close>

unbundle bit_operations_syntax

section \<open>Machine types\<close>

type_synonym byte = "8 word"
type_synonym u16 = "16 word"
type_synonym u32 = "32 word"
type_synonym u64 = "64 word"

named_theorems rd_simps "rewrite rules shared by the component proofs"

section \<open>Lists\<close>

lemma take_append_exact [rd_simps]: "length xs = n \<Longrightarrow> take n (xs @ ys) = xs"
  by simp

lemma drop_append_exact [rd_simps]: "length xs = n \<Longrightarrow> drop n (xs @ ys) = ys"
  by simp

lemma take_drop_append_exact [rd_simps]:
  "length xs = n \<Longrightarrow> length ys = m \<Longrightarrow> take m (drop n (xs @ ys @ zs)) = ys"
  by simp

lemma take_min_drop: "take (min k (length xs - m)) (drop m xs) = take k (drop m xs)"
  by (metis length_drop min.cobounded1 min.commute take_all_iff take_take min_def order_refl)

lemma unat_of_nat_u32 [rd_simps]: "n < 2 ^ 32 \<Longrightarrow> unat (of_nat n :: u32) = n"
  by (simp add: unat_of_nat take_bit_nat_eq_self)

lemma unat_add_u32:
  fixes a b :: u32
  assumes "unat a + unat b < 2 ^ 32"
  shows "unat (a + b) = unat a + unat b"
  using assms by (simp add: unat_word_ariths)

lemma unat_sub_u32:
  fixes a b :: u32
  shows "b \<le> a \<Longrightarrow> unat (a - b) = unat a - unat b"
  by (simp add: unat_sub)

lemma unat_less_u32: "unat (w :: u32) < 2 ^ 32"
  using unsigned_less [of w] by simp

text \<open>Overwriting a segment of a buffer, which is what \<open>memcpy\<close> does to its destination.\<close>

definition blit :: "nat \<Rightarrow> 'a list \<Rightarrow> 'a list \<Rightarrow> 'a list" where
  "blit n src dst = take n dst @ src @ drop (n + length src) dst"

lemma length_blit [simp]: "n + length src \<le> length dst \<Longrightarrow> length (blit n src dst) = length dst"
  by (simp add: blit_def)

lemma take_drop_blit [simp]:
  "n + length src \<le> length dst \<Longrightarrow> take (length src) (drop n (blit n src dst)) = src"
  by (simp add: blit_def)

lemma blit_at_end: "length pre = n \<Longrightarrow> length src \<le> length post \<Longrightarrow>
  blit n src (pre @ post) = pre @ src @ drop (length src) post"
  by (simp add: blit_def)

lemma nth_blit:
  "n + length src \<le> length dst \<Longrightarrow> i < length dst \<Longrightarrow>
   blit n src dst ! i = (if n \<le> i \<and> i < n + length src then src ! (i - n) else dst ! i)"
  by (auto simp: blit_def nth_append min_def)

lemma blit_Nil [simp]: "blit n [] dst = dst"
  by (simp add: blit_def)

text \<open>The \<open>n\<close> bytes from offset \<open>k\<close> on, and how a \<open>blit\<close> changes them.\<close>

definition seg :: "nat \<Rightarrow> nat \<Rightarrow> 'a list \<Rightarrow> 'a list" where
  "seg k n xs = take n (drop k xs)"

lemma length_seg [simp]: "k + n \<le> length xs \<Longrightarrow> length (seg k n xs) = n"
  by (simp add: seg_def)

lemma seg_0 [simp]: "seg k 0 xs = []"
  by (simp add: seg_def)

lemma seg_blit_same: "length src = n \<Longrightarrow> k + n \<le> length dst \<Longrightarrow> seg k n (blit k src dst) = src"
  by (simp add: seg_def blit_def)

lemma seg_blit_other:
  assumes "k + n \<le> m \<or> m + length src \<le> k" and "m + length src \<le> length dst"
  shows "seg k n (blit m src dst) = seg k n dst"
  using assms(1)
proof
  assume "k + n \<le> m"
  then have "take (k + n) (blit m src dst) = take (k + n) dst"
    using assms(2) by (simp add: blit_def)
  then show ?thesis by (metis seg_def take_drop add.commute)
next
  assume le: "m + length src \<le> k"
  have "drop (m + length src) (blit m src dst) = drop (m + length src) dst"
    using assms(2) by (simp add: blit_def)
  then have "drop k (blit m src dst) = drop k dst"
    using le by (metis drop_drop le_add_diff_inverse2)
  then show ?thesis by (simp add: seg_def)
qed

lemma drop_blit: "k + length src \<le> m \<Longrightarrow> k + length src \<le> length dst \<Longrightarrow> drop m (blit k src dst) = drop m dst"
  by (auto simp: blit_def)

lemma length_concat_uniform: "list_all (\<lambda>r. length r = n) rows \<Longrightarrow> length (concat rows) = length rows * n"
  by (induction rows) auto

lemma seg_concat:
  "list_all (\<lambda>r. length r = n) rows \<Longrightarrow> j < length rows \<Longrightarrow> seg (j * n) n (concat rows) = rows ! j"
proof (induction rows arbitrary: j)
  case Nil
  then show ?case by simp
next
  case (Cons r rows)
  then show ?case by (cases j) (auto simp: seg_def)
qed

lemma nth_seg: "i < n \<Longrightarrow> k + i < length xs \<Longrightarrow> seg k n xs ! i = xs ! (k + i)"
  by (simp add: seg_def)

text \<open>\<open>memcpy\<close> between two objects: \<open>None\<close> when it leaves one of them.\<close>

definition memcpy :: "nat \<Rightarrow> 'a list \<Rightarrow> nat \<Rightarrow> nat \<Rightarrow> 'a list \<Rightarrow> 'a list option" where
  "memcpy doff src soff n dst =
     (if soff + n \<le> length src \<and> doff + n \<le> length dst then Some (blit doff (seg soff n src) dst) else None)"

lemma memcpy_ok:
  "soff + n \<le> length src \<Longrightarrow> doff + n \<le> length dst \<Longrightarrow> memcpy doff src soff n dst = Some (blit doff (seg soff n src) dst)"
  by (simp add: memcpy_def)

text \<open>A loop over a range whose body may fault.\<close>

fun foldM :: "('i \<Rightarrow> 's \<Rightarrow> 's option) \<Rightarrow> 'i list \<Rightarrow> 's \<Rightarrow> 's option" where
  "foldM f [] s = Some s"
| "foldM f (i # is) s = (case f i s of None \<Rightarrow> None | Some s' \<Rightarrow> foldM f is s')"

lemma foldM_append: "foldM f (xs @ ys) s = (case foldM f xs s of None \<Rightarrow> None | Some s' \<Rightarrow> foldM f ys s')"
  by (induction xs arbitrary: s) (auto split: option.splits)

lemma foldM_cong: "(\<And>i s. i \<in> set xs \<Longrightarrow> f i s = g i s) \<Longrightarrow> foldM f xs s = foldM g xs s"
  by (induction xs arbitrary: s) (auto split: option.splits)

text \<open>The loop rule: an invariant indexed by the number of rounds done.\<close>

lemma foldM_invariant:
  assumes "P 0 s" and "\<And>k s. k < length is \<Longrightarrow> P k s \<Longrightarrow> \<exists>s'. f (is ! k) s = Some s' \<and> P (Suc k) s'"
  shows "\<exists>s'. foldM f is s = Some s' \<and> P (length is) s'"
  using assms
proof (induction "is" arbitrary: s rule: rev_induct)
  case Nil
  then show ?case by simp
next
  case (snoc i xs)
  have "\<exists>s'. foldM f xs s = Some s' \<and> P (length xs) s'"
  proof (rule snoc.IH [OF snoc.prems(1)])
    fix k s assume "k < length xs" "P k s"
    then show "\<exists>s'. f (xs ! k) s = Some s' \<and> P (Suc k) s'"
      using snoc.prems(2) [of k s] by (simp add: nth_append)
  qed
  then obtain s1 where s1: "foldM f xs s = Some s1" "P (length xs) s1" by blast
  then obtain s2 where "f i s1 = Some s2" "P (Suc (length xs)) s2"
    using snoc.prems(2) [of "length xs" s1] by auto
  with s1 show ?case by (simp add: foldM_append)
qed

lemma foldM_range_invariant:
  assumes "P 0 s" and "\<And>k s. k < n \<Longrightarrow> P k s \<Longrightarrow> \<exists>s'. f k s = Some s' \<and> P (Suc k) s'"
  shows "\<exists>s'. foldM f [0..<n] s = Some s' \<and> P n s'"
  using foldM_invariant [of P s "[0..<n]" f] assms by simp

text \<open>When the state after each round is known.\<close>

lemma foldM_states:
  assumes "\<And>k. k < length xs \<Longrightarrow> f (xs ! k) (S k) = Some (S (Suc k))"
  shows "foldM f xs (S 0) = Some (S (length xs))"
  using foldM_invariant [of "\<lambda>k s. s = S k" "S 0" xs f] assms by blast

lemma foldM_range_states:
  "(\<And>k. k < n \<Longrightarrow> f k (S k) = Some (S (Suc k))) \<Longrightarrow> foldM f [0..<n] (S 0) = Some (S n)"
  using foldM_states [of "[0..<n]" f S] by simp

section \<open>The byte image of an integer\<close>

text \<open>
  \<open>memcpy(dst, &n, sizeof(n))\<close> on a little-endian machine writes the low byte first.
\<close>

fun le_enc :: "nat \<Rightarrow> 'a::len word \<Rightarrow> byte list" where
  "le_enc 0 w = []"
| "le_enc (Suc k) w = ucast w # le_enc k (drop_bit 8 w)"

fun le_dec :: "byte list \<Rightarrow> 'a::len word" where
  "le_dec [] = 0"
| "le_dec (b # bs) = (ucast b OR push_bit 8 (le_dec bs))"

lemma length_le_enc [simp]: "length (le_enc k w) = k"
  by (induction k arbitrary: w) auto

lemma le_enc_numeral: "le_enc (numeral k) w = ucast w # le_enc (pred_numeral k) (drop_bit 8 w)"
  by (simp add: numeral_eq_Suc)

text \<open>For evaluating the image of a constant.\<close>

lemmas le_enc_eval = le_enc_numeral

lemma bit_le_dec:
  "bit (le_dec bs :: 'a::len word) i \<longleftrightarrow>
     i < LENGTH('a) \<and> i div 8 < length bs \<and> bit (bs ! (i div 8)) (i mod 8)"
proof (induction bs arbitrary: i)
  case Nil
  then show ?case by simp
next
  case (Cons b bs)
  show ?case
  proof (cases "i < 8")
    case True
    then show ?thesis by (auto simp: bit_simps)
  next
    case False
    then have "i div 8 = Suc ((i - 8) div 8)" and "i mod 8 = (i - 8) mod 8"
      by (auto simp: le_div_geq le_mod_geq)
    moreover have "\<not> bit b i"
      using False by (auto dest: bit_imp_le_length)
    ultimately show ?thesis
      using False Cons.IH [of "i - 8"] by (auto simp: bit_simps)
  qed
qed

lemma nth_le_enc: "j < k \<Longrightarrow> le_enc k w ! j = ucast (drop_bit (8 * j) w)"
  by (induction k arbitrary: j w) (auto simp: nth_Cons' drop_bit_drop_bit algebra_simps)

lemma le_dec_enc:
  assumes "LENGTH('a) \<le> 8 * k"
  shows "le_dec (le_enc k (w :: 'a::len word)) = w"
proof (rule bit_word_eqI)
  fix i
  assume i: "i < LENGTH('a)"
  with assms have "i div 8 < k" by auto
  with i show "bit (le_dec (le_enc k w) :: 'a word) i = bit w i"
    by (simp add: bit_le_dec nth_le_enc bit_simps)
qed

lemma le_enc_dec:
  assumes "8 * length bs \<le> LENGTH('a)"
  shows "le_enc (length bs) (le_dec bs :: 'a::len word) = bs"
proof (rule nth_equalityI)
  fix j
  assume j: "j < length (le_enc (length bs) (le_dec bs :: 'a word))"
  have "bit (le_enc (length bs) (le_dec bs :: 'a word) ! j) i = bit (bs ! j) i" if "i < 8" for i
    using that j assms by (simp add: nth_le_enc bit_simps bit_le_dec)
  then show "le_enc (length bs) (le_dec bs :: 'a word) ! j = bs ! j"
    by (auto intro: bit_word_eqI)
qed simp

section \<open>Contract of a fixed-width codec\<close>

text \<open>
  What a reader of the wire format relies on: every value has an image of the same
  length, and the image determines the value.
\<close>

locale fixed_codec =
  fixes width :: nat
    and enc :: "'v \<Rightarrow> byte list"
    and dec :: "byte list \<Rightarrow> 'v"
  assumes length_enc: "length (enc v) = width"
    and dec_enc: "dec (enc v) = v"
begin

lemma enc_inj: "enc v = enc w \<Longrightarrow> v = w"
  by (metis dec_enc)

lemma enc_append_eq: "enc v @ xs = enc w @ ys \<longleftrightarrow> v = w \<and> xs = ys"
  by (metis append_eq_append_conv enc_inj length_enc)

lemma dec_take_enc: "dec (take width (enc v @ rest)) = v"
  by (simp add: length_enc dec_enc)

lemma drop_enc: "drop width (enc v @ rest) = rest"
  by (simp add: length_enc)

end

interpretation codec8: fixed_codec 1 "le_enc 1 :: byte \<Rightarrow> byte list" le_dec
  by unfold_locales (simp_all add: le_dec_enc)

interpretation codec16: fixed_codec 2 "le_enc 2 :: u16 \<Rightarrow> byte list" le_dec
  by unfold_locales (simp_all add: le_dec_enc)

interpretation codec32: fixed_codec 4 "le_enc 4 :: u32 \<Rightarrow> byte list" le_dec
  by unfold_locales (simp_all add: le_dec_enc)

interpretation codec64: fixed_codec 8 "le_enc 8 :: u64 \<Rightarrow> byte list" le_dec
  by unfold_locales (simp_all add: le_dec_enc)

section \<open>\<open>atoi\<close>\<close>

text \<open>
  The C library's \<open>atoi\<close> on the codes of the characters up to the terminating NUL: skip
  white space, an optional sign, then the longest run of digits.  Values outside \<open>int\<close>
  saturate, as in the Microsoft C runtime the program is built with.
\<close>

definition c_isspace :: "nat \<Rightarrow> bool" where
  "c_isspace c \<longleftrightarrow> c = 32 \<or> 9 \<le> c \<and> c \<le> 13"

definition c_isdigit :: "nat \<Rightarrow> bool" where
  "c_isdigit c \<longleftrightarrow> 48 \<le> c \<and> c \<le> 57"

fun digits_val :: "int \<Rightarrow> nat list \<Rightarrow> int" where
  "digits_val acc [] = acc"
| "digits_val acc (c # cs) = (if c_isdigit c then digits_val (10 * acc + int (c - 48)) cs else acc)"

definition clamp_int :: "int \<Rightarrow> int" where
  "clamp_int n = max (- (2 ^ 31)) (min (2 ^ 31 - 1) n)"

definition atoi :: "nat list \<Rightarrow> int" where
  "atoi s =
     (case dropWhile c_isspace s of
        [] \<Rightarrow> 0
      | c # cs \<Rightarrow>
          if c = 45 then clamp_int (- digits_val 0 cs)
          else if c = 43 then clamp_int (digits_val 0 cs)
          else clamp_int (digits_val 0 (c # cs)))"

lemma clamp_int_bounds: "- (2 ^ 31) \<le> clamp_int n \<and> clamp_int n < 2 ^ 31"
  by (simp add: clamp_int_def)

text \<open>Decimal output (\<open>%d\<close>, \<open>%u\<close>, \<open>_itoa\<close> with base 10), as character codes.\<close>

fun udec :: "nat \<Rightarrow> nat list" where
  "udec n = (if n < 10 then [48 + n] else udec (n div 10) @ [48 + n mod 10])"

declare udec.simps [simp del]

lemma udec_digits: "list_all c_isdigit (udec n)"
proof (induction n rule: udec.induct)
  case (1 n)
  have "n mod 10 \<le> 9" using mod_less_divisor [of 10 n] by linarith
  with 1 show ?case by (subst udec.simps) (simp add: c_isdigit_def [abs_def])
qed

lemma udec_nonempty [simp]: "udec n \<noteq> []"
  by (subst udec.simps) simp

lemma digits_val_append:
  "list_all c_isdigit xs \<Longrightarrow> digits_val acc (xs @ ys) = digits_val (digits_val acc xs) ys"
  by (induction xs arbitrary: acc) auto

lemma digits_val_udec: "digits_val 0 (udec n) = int n"
proof (induction n rule: udec.induct)
  case (1 n)
  show ?case
  proof (cases "n < 10")
    case True
    then show ?thesis by (subst udec.simps) (simp add: c_isdigit_def)
  next
    case False
    with 1 have IH: "digits_val 0 (udec (n div 10)) = int (n div 10)" by simp
    from False have "digits_val 0 (udec n) = 10 * int (n div 10) + int (n mod 10)"
      by (subst udec.simps) (simp add: digits_val_append udec_digits IH c_isdigit_def)
    also have "\<dots> = int n" by (metis mult_div_mod_eq of_nat_add of_nat_mult of_nat_numeral)
    finally show ?thesis .
  qed
qed

lemma digits_val_stop:
  "\<not> c_isdigit c \<Longrightarrow> digits_val 0 (udec n @ c # cs) = int n"
  by (simp add: digits_val_append udec_digits digits_val_udec)

lemma hd_udec: "c_isdigit (hd (udec n))"
  using udec_digits [of n] by (cases "udec n") auto

lemma atoi_udec:
  assumes "n < 2 ^ 31"
  shows "atoi (udec n) = int n"
proof -
  obtain c cs where u: "udec n = c # cs" by (cases "udec n") auto
  have d: "c_isdigit c" using hd_udec [of n] u by simp
  then have "dropWhile c_isspace (udec n) = c # cs" "c \<noteq> 45" "c \<noteq> 43"
    by (auto simp: u c_isspace_def c_isdigit_def)
  then show ?thesis
    using assms digits_val_udec [of n] by (simp add: atoi_def u clamp_int_def)
qed

end
