(* ===== verification/Stream_Buffer.thy ===== *)
theory Stream_Buffer
  imports RD_Prelude
begin

text \<open>
  \<^verbatim>\<open>common/stream_buffer.h\<close>: the buffer every command is built in and parsed from.
  The object is a record with the class's fields; \<open>size_t\<close> is a 32-bit word, so
  \<open>m_nPos + length\<close> wraps as it does in the program.  The memory behind \<open>m_pBuffer\<close> is
  the list of its bytes; a \<open>memcpy\<close> or \<open>memset\<close> that leaves it is the outcome \<open>MemFault\<close>,
  a throwing \<open>new\<close> in the code that uses the buffer is \<open>BadAlloc\<close>, and a library's
  error handler that ends the process is \<open>LibExit\<close>.
  \<open>malloc\<close> and \<open>realloc\<close> may fail: \<open>can_alloc n\<close> says whether a request of \<open>n\<close> bytes succeeds.
\<close>

section \<open>The object\<close>

datatype sb_error = E_INVALIDARG | E_OUTOFMEMORY | MemFault | BadAlloc | LibExit

record stream_buffer =
  m_pBuffer :: "byte list option"
  m_nPos :: u32
  m_nBufferSize :: u32
  m_nMaxSize :: u32
  m_bOwner :: bool

definition SBS_BASE_BUFFER_SIZE :: u32 where
  "SBS_BASE_BUFFER_SIZE = 1024"

text \<open>
  The constructor.  When \<open>malloc\<close> fails the source leaves \<open>m_nMaxSize\<close> uninitialised; no
  operation looks at it then, because every one tests \<open>m_pBuffer\<close> first.
\<close>

definition new_stream_buffer :: "(u32 \<Rightarrow> bool) \<Rightarrow> byte list option \<Rightarrow> u32 \<Rightarrow> bool \<Rightarrow> stream_buffer" where
  "new_stream_buffer can_alloc buffer len owner =
     (case buffer of
        Some buf \<Rightarrow>
          if len > 0 then
            \<lparr>m_pBuffer = Some buf, m_nPos = 0, m_nBufferSize = len, m_nMaxSize = len, m_bOwner = owner\<rparr>
          else if can_alloc SBS_BASE_BUFFER_SIZE then
            \<lparr>m_pBuffer = Some (replicate (unat SBS_BASE_BUFFER_SIZE) 0), m_nPos = 0, m_nBufferSize = 0,
             m_nMaxSize = SBS_BASE_BUFFER_SIZE, m_bOwner = True\<rparr>
          else \<lparr>m_pBuffer = None, m_nPos = 0, m_nBufferSize = 0, m_nMaxSize = 0, m_bOwner = True\<rparr>
      | None \<Rightarrow>
          if can_alloc SBS_BASE_BUFFER_SIZE then
            \<lparr>m_pBuffer = Some (replicate (unat SBS_BASE_BUFFER_SIZE) 0), m_nPos = 0, m_nBufferSize = 0,
             m_nMaxSize = SBS_BASE_BUFFER_SIZE, m_bOwner = True\<rparr>
          else \<lparr>m_pBuffer = None, m_nPos = 0, m_nBufferSize = 0, m_nMaxSize = 0, m_bOwner = True\<rparr>)"

section \<open>Growing the buffer\<close>

text \<open>
  \<open>Resize\<close>: \<open>realloc\<close> keeps the first bytes, \<open>memset\<close> clears from the old capacity on.
  A capacity that wrapped below the old one makes the \<open>memset\<close> length wrap too.
\<close>

definition Resize :: "(u32 \<Rightarrow> bool) \<Rightarrow> u32 \<Rightarrow> stream_buffer \<Rightarrow> sb_error option \<times> stream_buffer" where
  "Resize can_alloc length' sb =
     (let nSize = max (m_nMaxSize sb + SBS_BASE_BUFFER_SIZE) (m_nPos sb + length') in
      case m_pBuffer sb of
        None \<Rightarrow> (Some E_OUTOFMEMORY, sb)
      | Some buf \<Rightarrow>
          if \<not> can_alloc nSize then (Some E_OUTOFMEMORY, sb\<lparr>m_pBuffer := None\<rparr>)
          else if nSize < m_nMaxSize sb then (Some MemFault, sb)
          else (None, sb\<lparr>m_pBuffer := Some (take (unat (m_nMaxSize sb)) buf
                                           @ replicate (unat (nSize - m_nMaxSize sb)) 0),
                         m_nMaxSize := nSize\<rparr>))"

text \<open>The macros \<open>CHECK_BUFFER_VALID\<close> and \<open>CHECK_BUFFER_SIZE\<close>.\<close>

definition CHECK_BUFFER :: "(u32 \<Rightarrow> bool) \<Rightarrow> u32 \<Rightarrow> stream_buffer \<Rightarrow> sb_error option \<times> stream_buffer" where
  "CHECK_BUFFER can_alloc length' sb =
     (if m_pBuffer sb = None then (Some E_INVALIDARG, sb)
      else if m_nPos sb + length' > m_nMaxSize sb then Resize can_alloc length' sb
      else (None, sb))"

section \<open>Writing\<close>

text \<open>
  The tail of every write: \<open>memcpy\<close> to the position, advance, raise the size.
\<close>

definition store_bytes :: "byte list \<Rightarrow> stream_buffer \<Rightarrow> sb_error option \<times> stream_buffer" where
  "store_bytes bs sb =
     (case m_pBuffer sb of
        None \<Rightarrow> (Some MemFault, sb)
      | Some buf \<Rightarrow>
          if unat (m_nPos sb) + length bs > length buf then (Some MemFault, sb)
          else
            let nPos = m_nPos sb + of_nat (length bs) in
            (None, sb\<lparr>m_pBuffer := Some (blit (unat (m_nPos sb)) bs buf), m_nPos := nPos,
                      m_nBufferSize := (if nPos > m_nBufferSize sb then nPos else m_nBufferSize sb)\<rparr>))"

text \<open>\<open>WriteStringUTF8(const char* p, size_t length)\<close>; \<open>p\<close> is the memory from \<open>p\<close> on.\<close>

definition WriteStringUTF8_ptr ::
  "(u32 \<Rightarrow> bool) \<Rightarrow> byte list \<Rightarrow> u32 \<Rightarrow> stream_buffer \<Rightarrow> sb_error option \<times> stream_buffer" where
  "WriteStringUTF8_ptr can_alloc p length' sb =
     (case CHECK_BUFFER can_alloc length' sb of
        (Some e, sb1) \<Rightarrow> (Some e, sb1)
      | (None, sb1) \<Rightarrow>
          if length' = 0 then (None, sb1)
          else if length p < unat length' then (Some MemFault, sb1)
          else store_bytes (take (unat length') p) sb1)"

text \<open>\<open>WriteStringUTF8(const std::string& str)\<close>.\<close>

definition WriteStringUTF8 ::
  "(u32 \<Rightarrow> bool) \<Rightarrow> byte list \<Rightarrow> stream_buffer \<Rightarrow> sb_error option \<times> stream_buffer" where
  "WriteStringUTF8 can_alloc str sb =
     (case CHECK_BUFFER can_alloc (of_nat (length str)) sb of
        (Some e, sb1) \<Rightarrow> (Some e, sb1)
      | (None, sb1) \<Rightarrow> if str = [] then (None, sb1) else store_bytes str sb1)"

text \<open>The integer writers share their body; each copies the bytes of its argument.\<close>

definition write_pod ::
  "(u32 \<Rightarrow> bool) \<Rightarrow> byte list \<Rightarrow> stream_buffer \<Rightarrow> sb_error option \<times> stream_buffer" where
  "write_pod can_alloc bs sb =
     (case CHECK_BUFFER can_alloc (of_nat (length bs)) sb of
        (Some e, sb1) \<Rightarrow> (Some e, sb1)
      | (None, sb1) \<Rightarrow> store_bytes bs sb1)"

definition WriteUInt8 :: "(u32 \<Rightarrow> bool) \<Rightarrow> byte \<Rightarrow> stream_buffer \<Rightarrow> sb_error option \<times> stream_buffer" where
  "WriteUInt8 can_alloc n = write_pod can_alloc (le_enc 1 n)"

definition WriteUInt16 :: "(u32 \<Rightarrow> bool) \<Rightarrow> u16 \<Rightarrow> stream_buffer \<Rightarrow> sb_error option \<times> stream_buffer" where
  "WriteUInt16 can_alloc n = write_pod can_alloc (le_enc 2 n)"

definition WriteUInt32 :: "(u32 \<Rightarrow> bool) \<Rightarrow> u32 \<Rightarrow> stream_buffer \<Rightarrow> sb_error option \<times> stream_buffer" where
  "WriteUInt32 can_alloc n = write_pod can_alloc (le_enc 4 n)"

definition WriteInt32 :: "(u32 \<Rightarrow> bool) \<Rightarrow> u32 \<Rightarrow> stream_buffer \<Rightarrow> sb_error option \<times> stream_buffer" where
  "WriteInt32 can_alloc n = write_pod can_alloc (le_enc 4 n)"

definition WriteUInt64 :: "(u32 \<Rightarrow> bool) \<Rightarrow> u64 \<Rightarrow> stream_buffer \<Rightarrow> sb_error option \<times> stream_buffer" where
  "WriteUInt64 can_alloc n = write_pod can_alloc (le_enc 8 n)"

definition WriteInt64 :: "(u32 \<Rightarrow> bool) \<Rightarrow> u64 \<Rightarrow> stream_buffer \<Rightarrow> sb_error option \<times> stream_buffer" where
  "WriteInt64 can_alloc n = write_pod can_alloc (le_enc 8 n)"

text \<open>
  The two wide-string writers reserve \<open>length\<close> bytes, but the first copies
  \<open>length + sizeof(wchar_t)\<close> and the second \<open>length * sizeof(wchar_t)\<close>.
\<close>

definition WriteWString_ptr ::
  "(u32 \<Rightarrow> bool) \<Rightarrow> byte list \<Rightarrow> u32 \<Rightarrow> stream_buffer \<Rightarrow> sb_error option \<times> stream_buffer" where
  "WriteWString_ptr can_alloc p length' sb =
     (case CHECK_BUFFER can_alloc length' sb of
        (Some e, sb1) \<Rightarrow> (Some e, sb1)
      | (None, sb1) \<Rightarrow>
          if length' = 0 then (None, sb1)
          else if length p < unat (length' + 2) then (Some MemFault, sb1)
          else store_bytes (take (unat (length' + 2)) p) sb1)"

definition WriteWString ::
  "(u32 \<Rightarrow> bool) \<Rightarrow> u16 list \<Rightarrow> stream_buffer \<Rightarrow> sb_error option \<times> stream_buffer" where
  "WriteWString can_alloc str sb =
     (case CHECK_BUFFER can_alloc (of_nat (length str)) sb of
        (Some e, sb1) \<Rightarrow> (Some e, sb1)
      | (None, sb1) \<Rightarrow>
          if str = [] then (None, sb1) else store_bytes (concat (map (le_enc 2) str)) sb1)"

section \<open>Reading\<close>

text \<open>
  \<open>fetch_bytes n\<close>: read \<open>n\<close> bytes at the position.
\<close>

definition fetch_bytes :: "nat \<Rightarrow> stream_buffer \<Rightarrow> sb_error + byte list" where
  "fetch_bytes n sb =
     (case m_pBuffer sb of
        None \<Rightarrow> Inl MemFault
      | Some buf \<Rightarrow>
          if unat (m_nPos sb) + n > length buf then Inl MemFault
          else Inr (take n (drop (unat (m_nPos sb)) buf)))"

text \<open>
  \<open>ReadStringUTF8(std::string& str, uint32_t& length)\<close>.  The result is the new value of
  \<open>str\<close> and of \<open>length\<close>, and the buffer with its position advanced; \<open>str\<close> keeps its old
  value when \<open>length\<close> is zero.
\<close>

definition ReadStringUTF8 ::
  "byte list \<Rightarrow> u32 \<Rightarrow> stream_buffer \<Rightarrow> sb_error + (byte list \<times> u32 \<times> stream_buffer)" where
  "ReadStringUTF8 str length' sb =
     (if m_pBuffer sb = None then Inl E_INVALIDARG
      else if length' = 0 then Inr (str, length', sb)
      else
        let nEndPos = min (m_nMaxSize sb) (m_nPos sb + length');
            len = nEndPos - m_nPos sb in
        case fetch_bytes (unat len) sb of
          Inl e \<Rightarrow> Inl e
        | Inr bs \<Rightarrow> Inr (bs, len, sb\<lparr>m_nPos := m_nPos sb + len\<rparr>))"

text \<open>
  \<open>ReadStringUTF8(char* p, uint32_t& length)\<close>: the same read into the caller's memory
  \<open>p\<close>, which must be long enough.
\<close>

definition ReadStringUTF8_ptr ::
  "byte list \<Rightarrow> u32 \<Rightarrow> stream_buffer \<Rightarrow> sb_error + (byte list \<times> u32 \<times> stream_buffer)" where
  "ReadStringUTF8_ptr p length' sb =
     (if m_pBuffer sb = None then Inl E_INVALIDARG
      else if length' = 0 then Inr (p, length', sb)
      else
        let nEndPos = min (m_nMaxSize sb) (m_nPos sb + length');
            len = nEndPos - m_nPos sb in
        case fetch_bytes (unat len) sb of
          Inl e \<Rightarrow> Inl e
        | Inr bs \<Rightarrow>
            if length p < length bs then Inl MemFault
            else Inr (blit 0 bs p, len, sb\<lparr>m_nPos := m_nPos sb + len\<rparr>))"

text \<open>The integer readers share their body.\<close>

definition read_pod ::
  "nat \<Rightarrow> (byte list \<Rightarrow> 'v) \<Rightarrow> stream_buffer \<Rightarrow> sb_error + ('v \<times> stream_buffer)" where
  "read_pod width dec sb =
     (if m_pBuffer sb = None then Inl E_INVALIDARG
      else if m_nPos sb + of_nat width > m_nMaxSize sb then Inl E_OUTOFMEMORY
      else
        case fetch_bytes width sb of
          Inl e \<Rightarrow> Inl e
        | Inr bs \<Rightarrow> Inr (dec bs, sb\<lparr>m_nPos := m_nPos sb + of_nat width\<rparr>))"

definition ReadUInt8 :: "stream_buffer \<Rightarrow> sb_error + (byte \<times> stream_buffer)" where
  "ReadUInt8 = read_pod 1 le_dec"

definition ReadUInt16 :: "stream_buffer \<Rightarrow> sb_error + (u16 \<times> stream_buffer)" where
  "ReadUInt16 = read_pod 2 le_dec"

definition ReadUInt32 :: "stream_buffer \<Rightarrow> sb_error + (u32 \<times> stream_buffer)" where
  "ReadUInt32 = read_pod 4 le_dec"

definition ReadInt32 :: "stream_buffer \<Rightarrow> sb_error + (u32 \<times> stream_buffer)" where
  "ReadInt32 = read_pod 4 le_dec"

definition ReadUInt64 :: "stream_buffer \<Rightarrow> sb_error + (u64 \<times> stream_buffer)" where
  "ReadUInt64 = read_pod 8 le_dec"

definition ReadInt64 :: "stream_buffer \<Rightarrow> sb_error + (u64 \<times> stream_buffer)" where
  "ReadInt64 = read_pod 8 le_dec"

text \<open>
  The wide-string readers.  The first bounds the read by \<open>length * 2\<close> bytes, stores that
  byte count in \<open>length\<close> and then copies twice as much; the second bounds it by \<open>length\<close>
  and copies and advances by twice that.
\<close>

definition ReadWString_ptr ::
  "byte list \<Rightarrow> u32 \<Rightarrow> stream_buffer \<Rightarrow> sb_error + (byte list \<times> u32 \<times> stream_buffer)" where
  "ReadWString_ptr p length' sb =
     (if m_pBuffer sb = None then Inl E_INVALIDARG
      else if length' = 0 then Inr (p, length', sb)
      else
        let nEndPos = min (m_nMaxSize sb) (m_nPos sb + length' * 2);
            len = nEndPos - m_nPos sb in
        case fetch_bytes (unat (len * 2)) sb of
          Inl e \<Rightarrow> Inl e
        | Inr bs \<Rightarrow>
            if length p < length bs then Inl MemFault
            else Inr (blit 0 bs p, len, sb\<lparr>m_nPos := m_nPos sb + len\<rparr>))"

definition ReadWString ::
  "byte list \<Rightarrow> u32 \<Rightarrow> stream_buffer \<Rightarrow> sb_error + (byte list \<times> u32 \<times> stream_buffer)" where
  "ReadWString str length' sb =
     (if m_pBuffer sb = None then Inl E_INVALIDARG
      else if length' = 0 then Inr (str, length', sb)
      else
        let nEndPos = min (m_nMaxSize sb) (m_nPos sb + length');
            len = nEndPos - m_nPos sb in
        case fetch_bytes (2 * unat len) sb of
          Inl e \<Rightarrow> Inl e
        | Inr bs \<Rightarrow> Inr (bs, len, sb\<lparr>m_nPos := m_nPos sb + len * 2\<rparr>))"

section \<open>Positioning\<close>

definition Seek :: "u32 \<Rightarrow> stream_buffer \<Rightarrow> sb_error option \<times> stream_buffer" where
  "Seek pos sb =
     (if m_pBuffer sb = None then (Some E_INVALIDARG, sb)
      else if pos > m_nBufferSize sb then (Some E_OUTOFMEMORY, sb)
      else (None, sb\<lparr>m_nPos := pos\<rparr>))"

definition Pass :: "u32 \<Rightarrow> stream_buffer \<Rightarrow> sb_error option \<times> stream_buffer" where
  "Pass pos sb =
     (if m_pBuffer sb = None then (Some E_INVALIDARG, sb)
      else if m_nPos sb + pos > m_nBufferSize sb then (Some E_OUTOFMEMORY, sb)
      else (None, sb\<lparr>m_nPos := m_nPos sb + pos\<rparr>))"

definition GetCurrentPos :: "stream_buffer \<Rightarrow> u32" where
  "GetCurrentPos sb = m_nPos sb"

definition IsEnd :: "stream_buffer \<Rightarrow> bool" where
  "IsEnd sb \<longleftrightarrow> m_nPos sb = m_nBufferSize sb"

definition GetBufferSize :: "stream_buffer \<Rightarrow> u32" where
  "GetBufferSize sb = m_nBufferSize sb"

section \<open>Well-formedness\<close>

text \<open>
  What the class keeps true of its fields: the capacity is the length of the memory, and
  position and size stay within it.
\<close>

definition sb_wf :: "stream_buffer \<Rightarrow> bool" where
  "sb_wf sb \<longleftrightarrow>
     (case m_pBuffer sb of
        None \<Rightarrow> True
      | Some buf \<Rightarrow> length buf = unat (m_nMaxSize sb) \<and> m_nPos sb \<le> m_nMaxSize sb
                  \<and> m_nBufferSize sb \<le> m_nMaxSize sb)"

text \<open>
  The requests for which \<open>size_t\<close> arithmetic does not wrap.
\<close>

definition sb_fits :: "nat \<Rightarrow> stream_buffer \<Rightarrow> bool" where
  "sb_fits n sb \<longleftrightarrow> unat (m_nPos sb) + n < 2 ^ 32 \<and> unat (m_nMaxSize sb) + 1024 < 2 ^ 32"

lemma sb_wf_Some [simp]:
  "m_pBuffer sb = Some buf \<Longrightarrow>
   sb_wf sb \<longleftrightarrow> length buf = unat (m_nMaxSize sb) \<and> m_nPos sb \<le> m_nMaxSize sb
                \<and> m_nBufferSize sb \<le> m_nMaxSize sb"
  by (simp add: sb_wf_def)

lemma sb_wf_new:
  "(\<And>buf. buffer = Some buf \<Longrightarrow> length buf = unat len) \<Longrightarrow> sb_wf (new_stream_buffer can_alloc buffer len owner)"
  by (auto simp: new_stream_buffer_def sb_wf_def SBS_BASE_BUFFER_SIZE_def split: option.splits)

text \<open>A successful \<open>Resize\<close>, when nothing wraps, makes room and keeps the content.\<close>

lemma Resize_ok:
  assumes "sb_wf sb" and "sb_fits (unat n) sb" and "m_pBuffer sb = Some buf"
    and "Resize can_alloc n sb = (e, sb1)"
  shows "(e = Some E_OUTOFMEMORY \<and> m_pBuffer sb1 = None) \<or>
         (e = None \<and> (\<exists>k. m_pBuffer sb1 = Some (buf @ replicate k 0)) \<and> sb_wf sb1
          \<and> unat (m_nPos sb1) + unat n \<le> unat (m_nMaxSize sb1)
          \<and> m_nPos sb1 = m_nPos sb \<and> m_nBufferSize sb1 = m_nBufferSize sb)"
proof -
  let ?max = "m_nMaxSize sb" and ?pos = "m_nPos sb"
  let ?size = "max (?max + SBS_BASE_BUFFER_SIZE) (?pos + n)"
  have cap: "unat (?max + SBS_BASE_BUFFER_SIZE) = unat ?max + 1024"
    using assms(2) by (simp add: sb_fits_def SBS_BASE_BUFFER_SIZE_def unat_add_u32)
  have req: "unat (?pos + n) = unat ?pos + unat n"
    using assms(2) by (simp add: sb_fits_def unat_add_u32)
  have size: "unat ?size = max (unat ?max + 1024) (unat ?pos + unat n)"
    by (auto simp: max_def word_le_nat_alt cap req)
  have "?max \<le> ?size" by (simp add: word_le_nat_alt size)
  then have ge: "\<not> ?size < ?max" by (simp only: not_less)
  have diff: "unat (?size - ?max) = unat ?size - unat ?max"
    using \<open>?max \<le> ?size\<close> by (rule unat_sub_u32)
  show ?thesis
  proof (cases "can_alloc ?size")
    case False
    with assms(3,4) show ?thesis by (auto simp: Resize_def Let_def)
  next
    case True
    with assms(1,3,4) ge
    have e: "e = None" and sb1: "sb1 = sb\<lparr>m_pBuffer := Some (buf @ replicate (unat (?size - ?max)) 0), m_nMaxSize := ?size\<rparr>"
      by (auto simp: Resize_def Let_def)
    moreover have "sb_wf sb1"
      using assms(1,3) \<open>?max \<le> ?size\<close>
      by (auto simp: sb1 diff size word_le_nat_alt)
    moreover have "unat ?pos + unat n \<le> unat ?size" by (simp add: size)
    ultimately show ?thesis by auto
  qed
qed

lemma CHECK_BUFFER_ok:
  assumes "sb_wf sb" and "sb_fits (unat n) sb" and "CHECK_BUFFER can_alloc n sb = (e, sb1)"
  shows "(e = Some E_INVALIDARG \<and> m_pBuffer sb = None \<and> sb1 = sb)
       \<or> (e = Some E_OUTOFMEMORY \<and> m_pBuffer sb1 = None)
       \<or> (e = None \<and> (\<exists>buf k. m_pBuffer sb = Some buf \<and> m_pBuffer sb1 = Some (buf @ replicate k 0)) \<and> sb_wf sb1
          \<and> unat (m_nPos sb1) + unat n \<le> unat (m_nMaxSize sb1)
          \<and> m_nPos sb1 = m_nPos sb \<and> m_nBufferSize sb1 = m_nBufferSize sb)"
proof (cases "m_pBuffer sb")
  case None
  with assms(3) show ?thesis by (auto simp: CHECK_BUFFER_def)
next
  case (Some buf)
  show ?thesis
  proof (cases "m_nPos sb + n > m_nMaxSize sb")
    case True
    with Some assms(3) have "Resize can_alloc n sb = (e, sb1)" by (simp add: CHECK_BUFFER_def)
    from Resize_ok [OF assms(1,2) Some this] Some show ?thesis by auto
  next
    case False
    with Some assms(3) have "e = None" "sb1 = sb" by (auto simp: CHECK_BUFFER_def)
    moreover have "unat (m_nPos sb) + unat n \<le> unat (m_nMaxSize sb)"
      using False assms(2) by (simp add: not_less word_le_nat_alt sb_fits_def unat_add_u32)
    moreover have "m_pBuffer sb = Some (buf @ replicate 0 0)" by (simp add: Some)
    ultimately show ?thesis using assms(1) Some by blast
  qed
qed

lemma store_bytes_ok:
  assumes "sb_wf sb" and "m_pBuffer sb = Some buf"
    and "unat (m_nPos sb) + length bs \<le> unat (m_nMaxSize sb)"
  shows "\<exists>sb1. store_bytes bs sb = (None, sb1) \<and> sb_wf sb1
           \<and> m_pBuffer sb1 = Some (blit (unat (m_nPos sb)) bs buf)
           \<and> unat (m_nPos sb1) = unat (m_nPos sb) + length bs
           \<and> m_nMaxSize sb1 = m_nMaxSize sb
           \<and> unat (m_nBufferSize sb1) = max (unat (m_nPos sb) + length bs) (unat (m_nBufferSize sb))"
proof -
  have "unat (m_nPos sb) + length bs < 2 ^ 32"
    using assms(3) unat_less_u32 [of "m_nMaxSize sb"] by linarith
  then have pos: "unat (m_nPos sb + of_nat (length bs)) = unat (m_nPos sb) + length bs"
    by (subst unat_add_u32) (simp_all add: unat_of_nat_u32)
  show ?thesis
    using assms by (auto simp: store_bytes_def Let_def word_le_nat_alt word_less_nat_alt pos)
qed

text \<open>
  The body that all the writers share, once: with a request that fits, it either reports an
  error (no buffer, or no memory) or writes the bytes at the position, and never faults.
\<close>

lemma checked_store_ok:
  assumes "sb_wf sb" and "sb_fits (length bs) sb"
    and "CHECK_BUFFER can_alloc (of_nat (length bs)) sb = (None, sb1)"
  shows "\<exists>sb2 buf k. store_bytes bs sb1 = (None, sb2) \<and> sb_wf sb2
           \<and> m_pBuffer sb = Some buf
           \<and> m_pBuffer sb2 = Some (blit (unat (m_nPos sb)) bs (buf @ replicate k 0))
           \<and> unat (m_nPos sb2) = unat (m_nPos sb) + length bs
           \<and> unat (m_nPos sb2) \<le> unat (m_nBufferSize sb2)"
proof -
  have n: "unat (of_nat (length bs) :: u32) = length bs"
    using assms(2) by (simp add: sb_fits_def unat_of_nat_u32)
  obtain buf k where buf: "m_pBuffer sb = Some buf" "m_pBuffer sb1 = Some (buf @ replicate k 0)"
    and wf: "sb_wf sb1" and room: "unat (m_nPos sb1) + length bs \<le> unat (m_nMaxSize sb1)"
    and pos: "m_nPos sb1 = m_nPos sb"
    using CHECK_BUFFER_ok [OF assms(1) _ assms(3)] assms(2) by (auto simp: n)
  from store_bytes_ok [OF wf buf(2) room] buf(1) show ?thesis
    by (auto simp: pos)
qed

section \<open>A buffer in the middle of a read\<close>

text \<open>
  \<open>reader pre rest\<close>: the bytes \<open>pre\<close> have been read, \<open>rest\<close> is to come.  The readers are
  rewritten over this shape by the rules below, one per outcome.
\<close>

definition reader :: "byte list \<Rightarrow> byte list \<Rightarrow> u32 \<Rightarrow> bool \<Rightarrow> stream_buffer" where
  "reader pre rest sz owner =
     \<lparr>m_pBuffer = Some (pre @ rest), m_nPos = of_nat (length pre), m_nBufferSize = sz,
      m_nMaxSize = of_nat (length pre + length rest), m_bOwner = owner\<rparr>"

lemma new_stream_buffer_reader:
  assumes "buf \<noteq> []" and "length buf < 2 ^ 32"
  shows "new_stream_buffer can_alloc (Some buf) (of_nat (length buf)) owner
       = reader [] buf (of_nat (length buf)) owner"
proof -
  have "unat (of_nat (length buf) :: u32) = length buf"
    using assms(2) by (rule unat_of_nat_u32)
  then have "(0 :: u32) < of_nat (length buf)"
    using assms(1) by (simp add: word_less_nat_alt)
  then show ?thesis by (simp add: new_stream_buffer_def reader_def)
qed

lemma new_stream_buffer_empty:
  "can_alloc 1024 \<Longrightarrow> new_stream_buffer can_alloc (Some []) 0 owner = reader [] (replicate 1024 0) 0 True"
  by (simp add: new_stream_buffer_def reader_def SBS_BASE_BUFFER_SIZE_def)

lemma fetch_bytes_reader:
  assumes "length pre + length rest < 2 ^ 32"
  shows "fetch_bytes n (reader pre rest sz owner) =
    (if n \<le> length rest then Inr (take n rest) else Inl MemFault)"
proof -
  have "unat (of_nat (length pre) :: u32) = length pre"
    using assms by (intro unat_of_nat_u32) linarith
  then show ?thesis by (simp add: fetch_bytes_def reader_def)
qed

lemma read_pod_reader:
  assumes "length bs = width" and "length pre + width + length rest < 2 ^ 32"
  shows "read_pod width dec (reader pre (bs @ rest) sz owner) = Inr (dec bs, reader (pre @ bs) rest sz owner)"
proof -
  have a: "(of_nat (length pre) :: u32) + of_nat width = of_nat (length pre + width)" by simp
  have "\<not> (of_nat (length pre + (width + length rest)) :: u32) < of_nat (length pre + width)"
    using assms(2) by (simp only: word_less_nat_alt unat_of_nat_u32)
  then have "\<not> m_nMaxSize (reader pre (bs @ rest) sz owner) < m_nPos (reader pre (bs @ rest) sz owner) + of_nat width"
    by (simp add: reader_def assms(1) algebra_simps)
  moreover have "fetch_bytes width (reader pre (bs @ rest) sz owner) = Inr bs"
    using assms by (simp add: fetch_bytes_reader)
  ultimately show ?thesis
    using assms(1) by (simp add: read_pod_def reader_def algebra_simps)
qed

lemma read_pod_reader_short:
  assumes "length rest < width" and "length pre + width < 2 ^ 32"
  shows "read_pod width dec (reader pre rest sz owner) = Inl E_OUTOFMEMORY"
proof -
  have "(of_nat (length pre + length rest) :: u32) < of_nat (length pre + width)"
    using assms by (simp only: word_less_nat_alt unat_of_nat_u32)
  then show ?thesis by (simp add: read_pod_def reader_def)
qed

text \<open>
  The string reader: what it returns when the arithmetic does not wrap, and the fault when
  it does.
\<close>

lemma ReadStringUTF8_reader:
  assumes "n \<noteq> 0" and "length pre + unat n < 2 ^ 32" and "length pre + length rest < 2 ^ 32"
  shows "ReadStringUTF8 str n (reader pre rest sz owner) =
    (let k = min (unat n) (length rest)
     in Inr (take k rest, of_nat k, reader (pre @ take k rest) (drop k rest) sz owner))"
proof -
  let ?k = "min (unat n) (length rest)"
  let ?pos = "of_nat (length pre) :: u32" and ?max = "of_nat (length pre + length rest) :: u32"
  have pos: "unat ?pos = length pre" using assms(3) by (intro unat_of_nat_u32) linarith
  have mx: "unat ?max = length pre + length rest" using assms(3) by (intro unat_of_nat_u32)
  have add: "unat (?pos + n) = length pre + unat n"
    using assms(2) by (subst unat_add_u32) (simp_all add: pos)
  have "min ?max (?pos + n) = of_nat (length pre + ?k)"
  proof (cases "?max \<le> ?pos + n")
    case True
    then have "length rest \<le> unat n" by (simp only: word_le_nat_alt add mx)
    with True show ?thesis by (simp add: min_def)
  next
    case False
    then have lt: "unat n < length rest" by (simp only: word_le_nat_alt add mx)
    then have "of_nat (length pre + ?k) = ?pos + n" by (simp add: min_def)
    with False show ?thesis by (simp only: min_def if_False)
  qed
  then have len: "min ?max (?pos + n) - ?pos = of_nat ?k" by simp
  have k: "unat (of_nat ?k :: u32) = ?k"
    using unat_less_u32 [of n] by (intro unat_of_nat_u32) linarith
  have fetch: "fetch_bytes ?k (reader pre rest sz owner) = Inr (take ?k rest)"
    using assms(3) by (simp add: fetch_bytes_reader)
  have upd: "reader pre rest sz owner \<lparr>m_nPos := ?pos + of_nat ?k\<rparr>
      = reader (pre @ take ?k rest) (drop ?k rest) sz owner"
    by (simp add: reader_def min_def)
  have m: "m_pBuffer (reader pre rest sz owner) \<noteq> None"
    and mm: "m_nMaxSize (reader pre rest sz owner) = ?max"
    and mp: "m_nPos (reader pre rest sz owner) = ?pos" by (simp_all add: reader_def)
  show ?thesis
    using assms(1) m
    by (simp only: ReadStringUTF8_def Let_def mm mp len k fetch upd if_False sum.case)
qed

lemma ReadStringUTF8_reader_wraps:
  assumes "2 ^ 32 \<le> length pre + unat n" and "length pre + length rest < 2 ^ 32"
  shows "ReadStringUTF8 str n (reader pre rest sz owner) = Inl MemFault"
proof -
  let ?pos = "of_nat (length pre) :: u32" and ?max = "of_nat (length pre + length rest) :: u32"
  have pos: "unat ?pos = length pre" using assms(2) by (intro unat_of_nat_u32) linarith
  have mx: "unat ?max = length pre + length rest" using assms(2) by (intro unat_of_nat_u32)
  have "unat (?pos + n) = (length pre + unat n) mod 2 ^ 32"
    by (simp add: unat_word_ariths pos)
  also have "\<dots> = length pre + unat n - 2 ^ 32"
    using assms unat_less_u32 [of n] by (simp add: mod_if)
  finally have add: "unat (?pos + n) = length pre + unat n - 2 ^ 32" .
  have "unat (?pos + n) \<le> unat ?max"
    using assms unat_less_u32 [of n] unfolding add mx by linarith
  then have "?pos + n \<le> ?max" by (simp only: word_le_nat_alt)
  then have "min ?max (?pos + n) = ?pos + n" by (rule min_absorb2)
  then have len: "min ?max (?pos + n) - ?pos = n" by simp
  have n0: "n \<noteq> 0" using assms by auto
  have m: "m_pBuffer (reader pre rest sz owner) \<noteq> None"
    and mm: "m_nMaxSize (reader pre rest sz owner) = ?max"
    and mp: "m_nPos (reader pre rest sz owner) = ?pos" by (simp_all add: reader_def)
  have "\<not> unat n \<le> length rest" using assms by linarith
  then have "fetch_bytes (unat n) (reader pre rest sz owner) = Inl MemFault"
    using assms(2) by (simp add: fetch_bytes_reader)
  then show ?thesis
    using n0 m by (simp only: ReadStringUTF8_def Let_def mm mp len if_False sum.case)
qed

lemma ReadStringUTF8_zero [simp]:
  "m_pBuffer sb \<noteq> None \<Longrightarrow> ReadStringUTF8 str 0 sb = Inr (str, 0, sb)"
  by (simp add: ReadStringUTF8_def)

lemma m_pBuffer_reader [simp]: "m_pBuffer (reader pre rest sz owner) = Some (pre @ rest)"
  by (simp add: reader_def)

text \<open>Writing into a caller's array of exactly the right size: no growth, no fault.\<close>

lemma store_bytes_reader:
  assumes "length bs \<le> length rest" and "length pre + length rest < 2 ^ 32"
  shows "store_bytes bs (reader pre rest (of_nat (length pre + length rest)) ow)
       = (None, reader (pre @ bs) (drop (length bs) rest) (of_nat (length pre + length rest)) ow)"
proof -
  have pos: "unat (of_nat (length pre) :: u32) = length pre"
    using assms(2) by (intro unat_of_nat_u32) linarith
  have "\<not> (of_nat (length pre + length rest) :: u32) < of_nat (length pre + length bs)"
    using assms by (simp only: word_less_nat_alt unat_of_nat_u32)
  then show ?thesis
    using assms by (simp add: store_bytes_def reader_def Let_def pos blit_at_end flip: of_nat_add)
qed

lemma CHECK_BUFFER_reader:
  assumes "n \<le> length rest" and "length pre + length rest < 2 ^ 32"
  shows "CHECK_BUFFER can_alloc (of_nat n) (reader pre rest sz ow) = (None, reader pre rest sz ow)"
proof -
  have "\<not> (of_nat (length pre + length rest) :: u32) < of_nat (length pre + n)"
    using assms by (simp only: word_less_nat_alt unat_of_nat_u32)
  then show ?thesis by (simp add: CHECK_BUFFER_def reader_def)
qed

lemma write_pod_reader:
  assumes "length bs \<le> length rest" and "length pre + length rest < 2 ^ 32"
  shows "write_pod can_alloc bs (reader pre rest (of_nat (length pre + length rest)) ow)
       = (None, reader (pre @ bs) (drop (length bs) rest) (of_nat (length pre + length rest)) ow)"
  using assms by (simp add: write_pod_def CHECK_BUFFER_reader store_bytes_reader del: of_nat_add)

lemma WriteStringUTF8_reader:
  assumes "length bs \<le> length rest" and "length pre + length rest < 2 ^ 32"
  shows "WriteStringUTF8 can_alloc bs (reader pre rest (of_nat (length pre + length rest)) ow)
       = (None, reader (pre @ bs) (drop (length bs) rest) (of_nat (length pre + length rest)) ow)"
  using assms by (simp add: WriteStringUTF8_def CHECK_BUFFER_reader store_bytes_reader del: of_nat_add)

section \<open>Records of fields\<close>

text \<open>
  How the buffer is used: a sequence of fields is written one after the other and read back
  in the same order, a string after its length is known.
\<close>

datatype field = F8 byte | F16 u16 | F32 u32 | F64 u64 | FStr "byte list"

fun field_bytes :: "field \<Rightarrow> byte list" where
  "field_bytes (F8 n) = le_enc 1 n"
| "field_bytes (F16 n) = le_enc 2 n"
| "field_bytes (F32 n) = le_enc 4 n"
| "field_bytes (F64 n) = le_enc 8 n"
| "field_bytes (FStr s) = s"

fun write_field :: "(u32 \<Rightarrow> bool) \<Rightarrow> field \<Rightarrow> stream_buffer \<Rightarrow> sb_error option \<times> stream_buffer" where
  "write_field can_alloc (F8 n) sb = WriteUInt8 can_alloc n sb"
| "write_field can_alloc (F16 n) sb = WriteUInt16 can_alloc n sb"
| "write_field can_alloc (F32 n) sb = WriteUInt32 can_alloc n sb"
| "write_field can_alloc (F64 n) sb = WriteUInt64 can_alloc n sb"
| "write_field can_alloc (FStr s) sb = WriteStringUTF8 can_alloc s sb"

fun write_fields :: "(u32 \<Rightarrow> bool) \<Rightarrow> field list \<Rightarrow> stream_buffer \<Rightarrow> sb_error option \<times> stream_buffer" where
  "write_fields can_alloc [] sb = (None, sb)"
| "write_fields can_alloc (f # fs) sb =
     (case write_field can_alloc f sb of
        (Some e, sb1) \<Rightarrow> (Some e, sb1)
      | (None, sb1) \<Rightarrow> write_fields can_alloc fs sb1)"

text \<open>Reading a field of the same shape; the value in the argument is ignored.\<close>

fun read_field :: "field \<Rightarrow> stream_buffer \<Rightarrow> sb_error + (field \<times> stream_buffer)" where
  "read_field (F8 _) sb = map_sum id (map_prod F8 id) (ReadUInt8 sb)"
| "read_field (F16 _) sb = map_sum id (map_prod F16 id) (ReadUInt16 sb)"
| "read_field (F32 _) sb = map_sum id (map_prod F32 id) (ReadUInt32 sb)"
| "read_field (F64 _) sb = map_sum id (map_prod F64 id) (ReadUInt64 sb)"
| "read_field (FStr s) sb =
     map_sum id (\<lambda>(str, _, sb1). (FStr str, sb1)) (ReadStringUTF8 [] (of_nat (length s)) sb)"

fun read_fields :: "field list \<Rightarrow> stream_buffer \<Rightarrow> sb_error + (field list \<times> stream_buffer)" where
  "read_fields [] sb = Inr ([], sb)"
| "read_fields (f # fs) sb =
     (case read_field f sb of
        Inl e \<Rightarrow> Inl e
      | Inr (v, sb1) \<Rightarrow>
          (case read_fields fs sb1 of
             Inl e \<Rightarrow> Inl e
           | Inr (vs, sb2) \<Rightarrow> Inr (v # vs, sb2)))"

text \<open>
  A buffer that has only been appended to: its content is \<open>xs\<close>, then spare zeroes; \<open>n\<close> bounds
  how much more than the initial kilobyte may be spare.
\<close>

definition appended :: "nat \<Rightarrow> byte list \<Rightarrow> stream_buffer \<Rightarrow> bool" where
  "appended n xs sb \<longleftrightarrow>
     (\<exists>k. m_pBuffer sb = Some (xs @ replicate k 0)) \<and> sb_wf sb \<and> unat (m_nPos sb) = length xs
     \<and> unat (m_nBufferSize sb) = length xs \<and> unat (m_nMaxSize sb) \<le> length xs + n + 1024"

lemma appended_new: "appended 0 [] (new_stream_buffer (\<lambda>_. True) None len owner)"
  by (auto simp: appended_def new_stream_buffer_def sb_wf_def SBS_BASE_BUFFER_SIZE_def)

lemma appended_check:
  assumes "appended 0 xs sb" and "length xs + length bs + 2048 < 2 ^ 32"
  shows "\<exists>sb1. CHECK_BUFFER (\<lambda>_. True) (of_nat (length bs)) sb = (None, sb1) \<and> appended (length bs) xs sb1
           \<and> length xs + length bs \<le> unat (m_nMaxSize sb1)"
proof -
  let ?n = "of_nat (length bs) :: u32"
  obtain k where buf: "m_pBuffer sb = Some (xs @ replicate k 0)" and wf: "sb_wf sb"
    and pos: "unat (m_nPos sb) = length xs" and sz: "unat (m_nBufferSize sb) = length xs"
    and mx: "unat (m_nMaxSize sb) \<le> length xs + 1024"
    using assms(1) by (auto simp: appended_def)
  have n: "unat ?n = length bs" using assms(2) by (intro unat_of_nat_u32) linarith
  have fits: "sb_fits (unat ?n) sb" using assms(2) mx by (simp add: sb_fits_def n pos)
  have req: "unat (m_nPos sb + ?n) = length xs + length bs"
    using assms(2) by (simp add: unat_add_u32 pos n)
  show ?thesis
  proof (cases "m_nPos sb + ?n > m_nMaxSize sb")
    case False
    then have "CHECK_BUFFER (\<lambda>_. True) ?n sb = (None, sb)"
      using buf by (simp add: CHECK_BUFFER_def)
    moreover have "length xs + length bs \<le> unat (m_nMaxSize sb)"
      using False by (simp add: not_less word_le_nat_alt req)
    ultimately show ?thesis using assms(1) by (auto simp: appended_def)
  next
    case True
    let ?size = "max (m_nMaxSize sb + SBS_BASE_BUFFER_SIZE) (m_nPos sb + ?n)"
    have cap: "unat (m_nMaxSize sb + SBS_BASE_BUFFER_SIZE) = unat (m_nMaxSize sb) + 1024"
      using assms(2) mx by (simp add: SBS_BASE_BUFFER_SIZE_def unat_add_u32)
    have size: "unat ?size = max (unat (m_nMaxSize sb) + 1024) (length xs + length bs)"
      by (auto simp: max_def word_le_nat_alt cap req)
    obtain e sb1 where res: "Resize (\<lambda>_. True) ?n sb = (e, sb1)" by fastforce
    have "\<not> ?size < m_nMaxSize sb" using size by (simp only: not_less word_le_nat_alt)
    with res buf have e: "e = None" and m: "m_nMaxSize sb1 = ?size"
      by (auto simp: Resize_def Let_def split: if_splits)
    from Resize_ok [OF wf fits buf res] e obtain j where
      "m_pBuffer sb1 = Some ((xs @ replicate k 0) @ replicate j 0)" "sb_wf sb1"
      "m_nPos sb1 = m_nPos sb" "m_nBufferSize sb1 = m_nBufferSize sb" by auto
    moreover have "unat (m_nMaxSize sb) < length xs + length bs"
      using True by (simp add: word_less_nat_alt req)
    moreover have "CHECK_BUFFER (\<lambda>_. True) ?n sb = (None, sb1)"
      using True buf res e by (simp add: CHECK_BUFFER_def)
    ultimately show ?thesis
      using pos sz mx by (intro exI [of _ sb1]) (auto simp: appended_def m size simp flip: replicate_add)
  qed
qed

lemma appended_store:
  assumes "appended (length bs) xs sb" and "length xs + length bs \<le> unat (m_nMaxSize sb)"
  shows "\<exists>sb1. store_bytes bs sb = (None, sb1) \<and> appended 0 (xs @ bs) sb1"
proof -
  obtain k where buf: "m_pBuffer sb = Some (xs @ replicate k 0)" and wf: "sb_wf sb"
    and pos: "unat (m_nPos sb) = length xs"
    using assms(1) by (auto simp: appended_def)
  have "length bs \<le> k" using assms(2) wf buf by simp
  then have "blit (unat (m_nPos sb)) bs (xs @ replicate k 0) = (xs @ bs) @ replicate (k - length bs) 0"
    by (simp add: pos blit_at_end)
  moreover have "unat (m_nPos sb) + length bs \<le> unat (m_nMaxSize sb)"
    using assms(2) by (simp add: pos)
  ultimately obtain sb1 where "store_bytes bs sb = (None, sb1)" "sb_wf sb1"
    "m_pBuffer sb1 = Some ((xs @ bs) @ replicate (k - length bs) 0)"
    "unat (m_nPos sb1) = length xs + length bs" "m_nMaxSize sb1 = m_nMaxSize sb"
    "unat (m_nBufferSize sb1) = max (length xs + length bs) (unat (m_nBufferSize sb))"
    using store_bytes_ok [OF wf buf, of bs] by (auto simp: pos)
  with assms show ?thesis by (auto simp: appended_def)
qed

lemma write_pod_appended:
  assumes "appended 0 xs sb" and "length xs + length bs + 2048 < 2 ^ 32"
  shows "\<exists>sb1. write_pod (\<lambda>_. True) bs sb = (None, sb1) \<and> appended 0 (xs @ bs) sb1"
proof -
  from appended_check [OF assms] obtain sb1 where
    chk: "CHECK_BUFFER (\<lambda>_. True) (of_nat (length bs)) sb = (None, sb1)"
    and a: "appended (length bs) xs sb1" and room: "length xs + length bs \<le> unat (m_nMaxSize sb1)" by blast
  from appended_store [OF a room] chk show ?thesis by (auto simp: write_pod_def)
qed

lemma WriteStringUTF8_appended:
  assumes "appended 0 xs sb" and "length xs + length bs + 2048 < 2 ^ 32"
  shows "\<exists>sb1. WriteStringUTF8 (\<lambda>_. True) bs sb = (None, sb1) \<and> appended 0 (xs @ bs) sb1"
proof -
  from appended_check [OF assms] obtain sb1 where
    chk: "CHECK_BUFFER (\<lambda>_. True) (of_nat (length bs)) sb = (None, sb1)"
    and a: "appended (length bs) xs sb1" and room: "length xs + length bs \<le> unat (m_nMaxSize sb1)" by blast
  from appended_store [OF a room] chk a show ?thesis by (cases "bs = []") (auto simp: WriteStringUTF8_def)
qed

lemma write_field_appended:
  assumes "appended 0 xs sb" and "length xs + length (field_bytes f) + 2048 < 2 ^ 32"
  shows "\<exists>sb1. write_field (\<lambda>_. True) f sb = (None, sb1) \<and> appended 0 (xs @ field_bytes f) sb1"
  using write_pod_appended [OF assms] WriteStringUTF8_appended [OF assms]
  by (cases f) (auto simp: WriteUInt8_def WriteUInt16_def WriteUInt32_def WriteUInt64_def)

lemma write_fields_appended:
  "appended 0 xs sb \<Longrightarrow> length xs + length (concat (map field_bytes fs)) + 2048 < 2 ^ 32 \<Longrightarrow>
   \<exists>sb1. write_fields (\<lambda>_. True) fs sb = (None, sb1) \<and> appended 0 (xs @ concat (map field_bytes fs)) sb1"
proof (induction fs arbitrary: xs sb)
  case Nil
  then show ?case by simp
next
  case (Cons f fs)
  from Cons.prems write_field_appended [of xs sb f] obtain sb1 where
    w: "write_field (\<lambda>_. True) f sb = (None, sb1)" and a: "appended 0 (xs @ field_bytes f) sb1" by auto
  from Cons.IH [OF a] Cons.prems w show ?case by auto
qed

text \<open>After the last write, \<open>Seek(0)\<close> turns the writer into a reader of the same bytes.\<close>

lemma Seek_appended:
  assumes "appended 0 xs sb"
  shows "\<exists>k ow. Seek 0 sb = (None, reader [] (xs @ replicate k 0) (of_nat (length xs)) ow)
           \<and> k \<le> 1024"
proof -
  obtain k where buf: "m_pBuffer sb = Some (xs @ replicate k 0)" and wf: "sb_wf sb"
    and sz: "unat (m_nBufferSize sb) = length xs" and mx: "unat (m_nMaxSize sb) \<le> length xs + 1024"
    using assms by (auto simp: appended_def)
  have "m_nBufferSize sb = of_nat (length xs)" using sz [symmetric] by simp
  moreover have "m_nMaxSize sb = of_nat (length xs + k)"
  proof -
    have "m_nMaxSize sb = of_nat (unat (m_nMaxSize sb))" by simp
    also have "unat (m_nMaxSize sb) = length xs + k" using wf buf by simp
    finally show ?thesis .
  qed
  moreover have "k \<le> 1024" using wf buf mx by simp
  ultimately show ?thesis
    using buf by (intro exI [of _ k] exI [of _ "m_bOwner sb"]) (simp add: Seek_def reader_def)
qed

lemma read_field_reader:
  assumes "length pre + length (field_bytes f) + length rest < 2 ^ 32"
  shows "read_field f (reader pre (field_bytes f @ rest) sz ow)
       = Inr (f, reader (pre @ field_bytes f) rest sz ow)"
proof (cases f)
  case (FStr s)
  have n: "unat (of_nat (length s) :: u32) = length s"
    using assms FStr by (intro unat_of_nat_u32) simp
  show ?thesis
  proof (cases "s = []")
    case True
    then show ?thesis using FStr by simp
  next
    case False
    then have "(of_nat (length s) :: u32) \<noteq> 0" using n by (metis length_0_conv unat_0)
    then show ?thesis
      using assms FStr by (simp add: ReadStringUTF8_reader n Let_def)
  qed
qed (use assms in \<open>simp_all add: ReadUInt8_def ReadUInt16_def ReadUInt32_def ReadUInt64_def
       read_pod_reader le_dec_enc del: le_enc.simps One_nat_def\<close>)

lemma read_fields_reader:
  "length pre + length (concat (map field_bytes fs)) + length rest < 2 ^ 32 \<Longrightarrow>
   read_fields fs (reader pre (concat (map field_bytes fs) @ rest) sz ow)
   = Inr (fs, reader (pre @ concat (map field_bytes fs)) rest sz ow)"
proof (induction fs arbitrary: pre)
  case Nil
  then show ?case by simp
next
  case (Cons f fs)
  have "read_field f (reader pre (field_bytes f @ concat (map field_bytes fs) @ rest) sz ow)
      = Inr (f, reader (pre @ field_bytes f) (concat (map field_bytes fs) @ rest) sz ow)"
    using Cons.prems by (intro read_field_reader) simp
  then show ?case using Cons.prems Cons.IH [of "pre @ field_bytes f"] by simp
qed

section \<open>Properties\<close>

text \<open>
  Any sequence of fields written to a fresh buffer (which grows as needed) and read
  back from its start comes back unchanged, the reads end exactly at the recorded size, and
  neither writing nor reading fails or faults.
\<close>

lemma fields_roundtrip:
  assumes "length (concat (map field_bytes fs)) + 4096 < 2 ^ 32"
  shows "\<exists>sb1 sb2 sb3. write_fields (\<lambda>_. True) fs (new_stream_buffer (\<lambda>_. True) None 0 False) = (None, sb1)
           \<and> Seek 0 sb1 = (None, sb2) \<and> read_fields fs sb2 = Inr (fs, sb3) \<and> IsEnd sb3"
proof -
  let ?bytes = "concat (map field_bytes fs)"
  from write_fields_appended [OF appended_new, of fs] assms obtain sb1 where
    w: "write_fields (\<lambda>_. True) fs (new_stream_buffer (\<lambda>_. True) None 0 False) = (None, sb1)"
    and a: "appended 0 ?bytes sb1" by fastforce
  from Seek_appended [OF a] obtain k ow where
    s: "Seek 0 sb1 = (None, reader [] (?bytes @ replicate k 0) (of_nat (length ?bytes)) ow)"
    and k: "k \<le> 1024" by blast
  have "read_fields fs (reader [] (?bytes @ replicate k 0) (of_nat (length ?bytes)) ow)
      = Inr (fs, reader ?bytes (replicate k 0) (of_nat (length ?bytes)) ow)"
    using read_fields_reader [of "[]" fs "replicate k 0"] assms k by simp
  moreover have "IsEnd (reader ?bytes (replicate k 0) (of_nat (length ?bytes)) ow)"
    by (simp add: IsEnd_def reader_def)
  ultimately show ?thesis using w s by blast
qed

lemma fields_roundtrip_witness:
  "\<exists>sb1 sb2 sb3. write_fields (\<lambda>_. True) [F32 7, FStr [1, 2, 3], F8 9] (new_stream_buffer (\<lambda>_. True) None 0 False) = (None, sb1)
     \<and> Seek 0 sb1 = (None, sb2) \<and> read_fields [F32 7, FStr [1, 2, 3], F8 9] sb2 = Inr ([F32 7, FStr [1, 2, 3], F8 9], sb3)
     \<and> IsEnd sb3"
  by (rule fields_roundtrip) simp

text \<open>
  Memory safety of the string writer: on a well-formed buffer, a write whose end does
  not wrap past \<open>2 ^ 32\<close> never touches memory outside the buffer, whatever the allocator
  answers, and leaves the buffer well-formed; when it succeeds the bytes lie at the old
  position and the rest of the buffer is untouched.
\<close>

lemma WriteStringUTF8_safe:
  assumes "sb_wf sb" and "sb_fits (length str) sb"
    and "WriteStringUTF8 can_alloc str sb = (e, sb1)"
  shows "e \<noteq> Some MemFault \<and> sb_wf sb1
       \<and> (e = None \<longrightarrow> (\<exists>buf k. m_pBuffer sb = Some buf
             \<and> m_pBuffer sb1 = Some (blit (unat (m_nPos sb)) str (buf @ replicate k 0))
             \<and> unat (m_nPos sb1) = unat (m_nPos sb) + length str))"
proof -
  obtain c sb0 where c: "CHECK_BUFFER can_alloc (of_nat (length str)) sb = (c, sb0)" by fastforce
  have n: "unat (of_nat (length str) :: u32) = length str"
    using assms(2) by (simp add: sb_fits_def unat_of_nat_u32)
  have chk: "(c = Some E_INVALIDARG \<and> m_pBuffer sb = None \<and> sb0 = sb)
       \<or> (c = Some E_OUTOFMEMORY \<and> m_pBuffer sb0 = None)
       \<or> (c = None \<and> (\<exists>buf k. m_pBuffer sb = Some buf \<and> m_pBuffer sb0 = Some (buf @ replicate k 0)) \<and> sb_wf sb0
          \<and> unat (m_nPos sb0) + length str \<le> unat (m_nMaxSize sb0)
          \<and> m_nPos sb0 = m_nPos sb \<and> m_nBufferSize sb0 = m_nBufferSize sb)"
    using CHECK_BUFFER_ok [OF assms(1) _ c] assms(2) by (simp only: n)
  show ?thesis
  proof (cases c)
    case None
    from None c checked_store_ok [OF assms(1,2)] obtain sb2 buf k where
      "store_bytes str sb0 = (None, sb2)" "sb_wf sb2" "m_pBuffer sb = Some buf"
      "m_pBuffer sb2 = Some (blit (unat (m_nPos sb)) str (buf @ replicate k 0))"
      "unat (m_nPos sb2) = unat (m_nPos sb) + length str" by blast
    then show ?thesis
      using None c chk assms(3) by (auto simp: WriteStringUTF8_def split: if_splits)
  next
    case (Some a)
    then show ?thesis
      using c chk assms(1,3) by (auto simp: WriteStringUTF8_def sb_wf_def)
  qed
qed

lemma WriteStringUTF8_safe_witness:
  "\<exists>e sb1. WriteStringUTF8 (\<lambda>_. True) [1, 2, 3] (new_stream_buffer (\<lambda>_. True) None 0 False) = (e, sb1)
     \<and> e \<noteq> Some MemFault \<and> sb_wf sb1"
proof -
  let ?sb = "new_stream_buffer (\<lambda>_. True) None 0 False"
  have "sb_wf ?sb" "sb_fits (length [1, 2, 3 :: byte]) ?sb"
    by (simp_all add: sb_wf_def sb_fits_def new_stream_buffer_def SBS_BASE_BUFFER_SIZE_def)
  from WriteStringUTF8_safe [OF this, of "\<lambda>_. True"] show ?thesis
    by (metis surj_pair)
qed

end
