(* ===== verification/Commands.thy ===== *)
theory Commands
  imports Stream_Buffer
begin

text \<open>
  \<^verbatim>\<open>common/def.h\<close> and \<^verbatim>\<open>common/cmd.h\<close>: the codes of the protocol, the connection
  states with their numeric order, the command object and one constructor function per
  command class.  A \<open>std::string\<close> is the list of its bytes; a raw pointer argument is the
  list of the bytes it points to, and copying more bytes than that is \<open>None\<close>.
\<close>

section \<open>Codes\<close>

text \<open>
  \<open>RD_CMD_CODE\<close>: the wire carries any 32-bit value and the receiver casts it to the enum,
  so a code is a word, and the enumerators are constants.
\<close>

definition RDCC_INVALID :: u32 where [simp]: "RDCC_INVALID = 0x0"
definition RDCC_PROTOCOL_VERSION :: u32 where [simp]: "RDCC_PROTOCOL_VERSION = 0x110"
definition RDCC_LOGON :: u32 where [simp]: "RDCC_LOGON = 0x120"
definition RDCC_LOGON_RESULT :: u32 where [simp]: "RDCC_LOGON_RESULT = 0x121"
definition RDCC_COMPRESS_MODE :: u32 where [simp]: "RDCC_COMPRESS_MODE = 0x130"
definition RDCC_TRANSFER_BITMAP :: u32 where [simp]: "RDCC_TRANSFER_BITMAP = 0x140"
definition RDCC_TRANSFER_MODIFY_BITMAP :: u32 where [simp]: "RDCC_TRANSFER_MODIFY_BITMAP = 0x141"
definition RDCC_TRANSFER_MOUSE_EVENT :: u32 where [simp]: "RDCC_TRANSFER_MOUSE_EVENT = 0x142"
definition RDCC_TRANSFER_KEYBOARD_EVENT :: u32 where [simp]: "RDCC_TRANSFER_KEYBOARD_EVENT = 0x143"
definition RDCC_TRANSFER_CLIPBOARD :: u32 where [simp]: "RDCC_TRANSFER_CLIPBOARD = 0x144"
definition RDCC_TRANSFER_FILE :: u32 where [simp]: "RDCC_TRANSFER_FILE = 0x145"
definition RDCC_TRANSFER_DIRECTORY :: u32 where [simp]: "RDCC_TRANSFER_DIRECTORY = 0x146"
definition RDCC_TRANSFER_BITMAP_RESPONSE :: u32 where [simp]: "RDCC_TRANSFER_BITMAP_RESPONSE = 0x147"
definition RDCC_DISCONNECT :: u32 where [simp]: "RDCC_DISCONNECT = 0x200"

text \<open>The enum's underlying type is \<open>int\<close>, so codes compare as signed numbers.\<close>

definition code_less :: "u32 \<Rightarrow> u32 \<Rightarrow> bool" where
  "code_less a b \<longleftrightarrow> sint a < sint b"

text \<open>\<open>RD_CONNECTION_STATE\<close>: only ever assigned by the program itself; compared by value.\<close>

datatype rd_state =
    RDCS_INVALID | RDCS_CONNECTED | RDCS_PROTOCOL_VERSION | RDCS_LOGON | RDCS_LOGON_RESULT
  | RDCS_COMPRESS_MODE | RDCS_TRANSFER | RDCS_DISCONNECTED

fun state_val :: "rd_state \<Rightarrow> nat" where
  "state_val RDCS_INVALID = 0x0"
| "state_val RDCS_CONNECTED = 0x100"
| "state_val RDCS_PROTOCOL_VERSION = 0x110"
| "state_val RDCS_LOGON = 0x120"
| "state_val RDCS_LOGON_RESULT = 0x121"
| "state_val RDCS_COMPRESS_MODE = 0x130"
| "state_val RDCS_TRANSFER = 0x140"
| "state_val RDCS_DISCONNECTED = 0x200"

lemma state_val_inj: "state_val a = state_val b \<Longrightarrow> a = b"
  by (cases a; cases b; simp)

instantiation rd_state :: linorder
begin

definition less_eq_rd_state :: "rd_state \<Rightarrow> rd_state \<Rightarrow> bool" where
  "less_eq_rd_state a b \<longleftrightarrow> state_val a \<le> state_val b"

definition less_rd_state :: "rd_state \<Rightarrow> rd_state \<Rightarrow> bool" where
  "less_rd_state a b \<longleftrightarrow> state_val a < state_val b"

instance
  by standard (auto simp: less_eq_rd_state_def less_rd_state_def state_val_inj)

end

lemmas rd_state_order = less_eq_rd_state_def less_rd_state_def

definition RDCM_RAW :: u32 where [simp]: "RDCM_RAW = 0x0"
definition RDCM_ZIP :: u32 where [simp]: "RDCM_ZIP = 0x1"

definition RDEC_SUCCEEDED :: u32 where [simp]: "RDEC_SUCCEEDED = 0x0"
definition RDEC_CONNECT_FAILED :: u32 where [simp]: "RDEC_CONNECT_FAILED = 0x100"
definition RDEC_PROTOCOL_VERSION_FAILED :: u32 where [simp]: "RDEC_PROTOCOL_VERSION_FAILED = 0x110"
definition RDEC_COMPRESS_MODE_NOT_SUPPORT :: u32 where [simp]: "RDEC_COMPRESS_MODE_NOT_SUPPORT = 0x130"
definition RDEC_TRANSFER_BITMAP_RESPONSE_FAILED :: u32 where [simp]: "RDEC_TRANSFER_BITMAP_RESPONSE_FAILED = 0x150"

definition CMD_ITEM_SIZE_MAX :: u32 where "CMD_ITEM_SIZE_MAX = 10485760"

text \<open>String constants, as bytes.\<close>

definition RD_PROTOCAL_VERSION :: "byte list" where
  "RD_PROTOCAL_VERSION = [49, 46, 48]"

definition BITMAP_SUFFIX_BMP :: "byte list" where
  "BITMAP_SUFFIX_BMP = [46, 98, 109, 112]"

definition BITMAP_SUFFIX_JPEG :: "byte list" where
  "BITMAP_SUFFIX_JPEG = [46, 106, 112, 103]"

section \<open>Bitmap headers\<close>

text \<open>
  \<open>BITMAPINFOHEADER\<close> followed by the 1024-byte colour union; the bytes of the object are
  what \<open>append((char*)&m_bitmapInfo, sizeof(BitmapInfo))\<close> copies.
\<close>

record bitmap_info =
  biSize :: u32
  biWidth :: u32
  biHeight :: u32
  biPlanes :: u16
  biBitCount :: u16
  biCompression :: u32
  biSizeImage :: u32
  biXPelsPerMeter :: u32
  biYPelsPerMeter :: u32
  biClrUsed :: u32
  biClrImportant :: u32
  bmiColors :: "byte list"

definition sizeof_BitmapInfo :: nat where "sizeof_BitmapInfo = 1064"

definition bitmap_info_bytes :: "bitmap_info \<Rightarrow> byte list" where
  "bitmap_info_bytes b =
     le_enc 4 (biSize b) @ le_enc 4 (biWidth b) @ le_enc 4 (biHeight b) @ le_enc 2 (biPlanes b)
     @ le_enc 2 (biBitCount b) @ le_enc 4 (biCompression b) @ le_enc 4 (biSizeImage b)
     @ le_enc 4 (biXPelsPerMeter b) @ le_enc 4 (biYPelsPerMeter b) @ le_enc 4 (biClrUsed b)
     @ le_enc 4 (biClrImportant b) @ bmiColors b"

definition bitmap_info_of_bytes :: "byte list \<Rightarrow> bitmap_info" where
  "bitmap_info_of_bytes bs =
     \<lparr>biSize = le_dec (take 4 bs), biWidth = le_dec (take 4 (drop 4 bs)),
      biHeight = le_dec (take 4 (drop 8 bs)), biPlanes = le_dec (take 2 (drop 12 bs)),
      biBitCount = le_dec (take 2 (drop 14 bs)), biCompression = le_dec (take 4 (drop 16 bs)),
      biSizeImage = le_dec (take 4 (drop 20 bs)), biXPelsPerMeter = le_dec (take 4 (drop 24 bs)),
      biYPelsPerMeter = le_dec (take 4 (drop 28 bs)), biClrUsed = le_dec (take 4 (drop 32 bs)),
      biClrImportant = le_dec (take 4 (drop 36 bs)), bmiColors = drop 40 bs\<rparr>"

lemma length_bitmap_info_bytes [simp]:
  "length (bitmap_info_bytes b) = 40 + length (bmiColors b)"
  by (simp add: bitmap_info_bytes_def del: le_enc.simps)

lemma bitmap_info_roundtrip: "bitmap_info_of_bytes (bitmap_info_bytes b) = b"
  by (simp add: bitmap_info_of_bytes_def bitmap_info_bytes_def le_dec_enc del: le_enc.simps)

section \<open>The command object\<close>

record command_data =
  cd_code :: u32
  cd_data :: "byte list"
  cd_length :: u32

text \<open>A command class fills \<open>data\<close> and then sets \<open>length\<close> to \<open>data.length()\<close>.\<close>

definition mk_command :: "u32 \<Rightarrow> byte list \<Rightarrow> command_data" where
  "mk_command code data = \<lparr>cd_code = code, cd_data = data, cd_length = of_nat (length data)\<rparr>"

definition CommandBase :: "u32 \<Rightarrow> command_data" where
  "CommandBase c = \<lparr>cd_code = c, cd_data = [], cd_length = 0\<rparr>"

definition cmd_Clear :: "command_data \<Rightarrow> command_data" where
  "cmd_Clear c = c\<lparr>cd_code := RDCC_INVALID, cd_data := [], cd_length := 0\<rparr>"

text \<open>
  \<open>MakeStream\<close>: the frame is written into a freshly allocated, uninitialised array
  (\<open>junk\<close> is its content) through a \<open>stream_buffer\<close> that does not own it.  The results of
  the three writes are ignored by the source; the frame is whatever the array holds then.
\<close>

definition MakeStream :: "(u32 \<Rightarrow> bool) \<Rightarrow> byte list \<Rightarrow> command_data \<Rightarrow> byte list option" where
  "MakeStream can_alloc junk c =
     (if cd_code c = RDCC_INVALID then None
      else
        let len = of_nat (4 + 4 + length (cd_data c)) :: u32;
            buffer0 = new_stream_buffer can_alloc (Some (take (unat len) junk)) len False;
            buffer1 = snd (WriteUInt32 can_alloc (cd_code c) buffer0);
            buffer2 = snd (WriteUInt32 can_alloc (of_nat (length (cd_data c))) buffer1);
            buffer3 = snd (WriteStringUTF8 can_alloc (cd_data c) buffer2)
        in m_pBuffer buffer3)"

text \<open>The frame on the wire: code, length, content.\<close>

definition frame :: "command_data \<Rightarrow> byte list" where
  "frame c = le_enc 4 (cd_code c) @ le_enc 4 (of_nat (length (cd_data c)) :: u32) @ cd_data c"

section \<open>The command classes\<close>

text \<open>A string field: its length as \<open>uint32_t\<close> (or \<open>int\<close>), then its bytes.\<close>

definition str_field :: "byte list \<Rightarrow> byte list" where
  "str_field s = le_enc 4 (of_nat (length s) :: u32) @ s"

definition CCommandProtocalVersion :: "byte list \<Rightarrow> byte list \<Rightarrow> command_data" where
  "CCommandProtocalVersion strProtocalVersion strClientVersion =
     mk_command RDCC_PROTOCOL_VERSION (str_field strProtocalVersion @ str_field strClientVersion)"

definition CCommandLogon :: "byte list \<Rightarrow> byte list \<Rightarrow> command_data" where
  "CCommandLogon strUserName strPassword =
     mk_command RDCC_LOGON (str_field strUserName @ str_field strPassword)"

definition CCommandLogonResult :: "u32 \<Rightarrow> command_data" where
  "CCommandLogonResult nResult = mk_command RDCC_LOGON_RESULT (le_enc 4 nResult)"

definition CCommandCompressMode :: "u32 \<Rightarrow> command_data" where
  "CCommandCompressMode mode = mk_command RDCC_COMPRESS_MODE (le_enc 4 mode)"

definition CCommandTransferBitmapClient :: "byte list \<Rightarrow> command_data" where
  "CCommandTransferBitmapClient strSuffix = mk_command RDCC_TRANSFER_BITMAP (str_field strSuffix)"

definition CCommandTransferBitmapServer :: "bitmap_info \<Rightarrow> u16 \<Rightarrow> byte list \<Rightarrow> command_data option" where
  "CCommandTransferBitmapServer bitmapInfo wPixelBytes pBuffer =
     (if length pBuffer < unat (biSizeImage bitmapInfo) then None
      else Some (mk_command RDCC_TRANSFER_BITMAP
        (bitmap_info_bytes bitmapInfo @ le_enc 2 wPixelBytes @ le_enc 4 (biSizeImage bitmapInfo)
         @ take (unat (biSizeImage bitmapInfo)) pBuffer)))"

definition CCommandTransferBitmapServerJPEG :: "u16 \<Rightarrow> byte list \<Rightarrow> u32 \<Rightarrow> command_data option" where
  "CCommandTransferBitmapServerJPEG wPixelBytes pBuffer nSize =
     (if length pBuffer < unat nSize then None
      else Some (mk_command RDCC_TRANSFER_BITMAP
        (le_enc 2 wPixelBytes @ le_enc 4 nSize @ take (unat nSize) pBuffer)))"

definition CCommandTransferBitmapClientResponse :: "u32 \<Rightarrow> command_data" where
  "CCommandTransferBitmapClientResponse nResult = mk_command RDCC_TRANSFER_BITMAP_RESPONSE (le_enc 4 nResult)"

definition CCommandTransferModifyBitmap ::
  "u32 \<Rightarrow> u32 list \<Rightarrow> u32 \<Rightarrow> byte list \<Rightarrow> command_data option" where
  "CCommandTransferModifyBitmap nModifiedBlockCount pnModifiedBlocks nBufferSize pBuffer =
     (if length pnModifiedBlocks < unat nModifiedBlockCount \<or> length pBuffer < unat nBufferSize then None
      else Some (mk_command RDCC_TRANSFER_MODIFY_BITMAP
        (le_enc 4 nModifiedBlockCount
         @ concat (map (le_enc 4) (take (unat nModifiedBlockCount) pnModifiedBlocks))
         @ le_enc 4 nBufferSize @ take (unat nBufferSize) pBuffer)))"

definition CCommandTransferMouseEvent :: "u32 \<Rightarrow> u32 \<Rightarrow> u32 \<Rightarrow> u32 \<Rightarrow> command_data" where
  "CCommandTransferMouseEvent dwFlags pt_x pt_y dwData =
     mk_command RDCC_TRANSFER_MOUSE_EVENT
       (le_enc 4 dwFlags @ le_enc 4 pt_x @ le_enc 4 pt_y @ le_enc 4 dwData)"

definition CCommandTransferKeyboardEvent :: "byte \<Rightarrow> u32 \<Rightarrow> command_data" where
  "CCommandTransferKeyboardEvent bVk dwFlags =
     mk_command RDCC_TRANSFER_KEYBOARD_EVENT (le_enc 1 bVk @ le_enc 4 dwFlags)"

definition CCommandTransferClipboard :: "u32 \<Rightarrow> byte list \<Rightarrow> u32 \<Rightarrow> command_data option" where
  "CCommandTransferClipboard uFormat pData nLength =
     (if length pData < unat nLength then None
      else Some (mk_command RDCC_TRANSFER_CLIPBOARD
        (le_enc 4 uFormat @ le_enc 4 nLength @ take (unat nLength) pData)))"

definition CCommandTransferFile :: "byte list \<Rightarrow> u64 \<Rightarrow> command_data" where
  "CCommandTransferFile strFilePath ullFileSize =
     mk_command RDCC_TRANSFER_FILE (str_field strFilePath @ le_enc 8 ullFileSize)"

text \<open>The constructor of the directory command takes a file count and does not send it.\<close>

definition CCommandTransferDirectory :: "byte list \<Rightarrow> u32 \<Rightarrow> u64 \<Rightarrow> command_data" where
  "CCommandTransferDirectory strDirPath nFileCount ullDirSize =
     mk_command RDCC_TRANSFER_DIRECTORY (str_field strDirPath @ le_enc 8 ullDirSize)"

definition CCommandDisconnect :: "u32 \<Rightarrow> command_data" where
  "CCommandDisconnect nDisconnectCode = mk_command RDCC_DISCONNECT (le_enc 4 nDisconnectCode)"

lemmas command_defs =
  CCommandProtocalVersion_def CCommandLogon_def CCommandLogonResult_def CCommandCompressMode_def
  CCommandTransferBitmapClient_def CCommandTransferBitmapServer_def
  CCommandTransferBitmapServerJPEG_def CCommandTransferBitmapClientResponse_def
  CCommandTransferModifyBitmap_def CCommandTransferMouseEvent_def
  CCommandTransferKeyboardEvent_def CCommandTransferClipboard_def CCommandTransferFile_def
  CCommandTransferDirectory_def CCommandDisconnect_def

lemma mk_command_sel [simp]:
  "cd_code (mk_command c d) = c" "cd_data (mk_command c d) = d" "cd_length (mk_command c d) = of_nat (length d)"
  by (simp_all add: mk_command_def)

section \<open>Properties\<close>

lemma MakeStream_makes_frame:
  assumes "cd_code c \<noteq> RDCC_INVALID" and "8 + length (cd_data c) < 2 ^ 32"
    and "length junk = 8 + length (cd_data c)"
  shows "MakeStream can_alloc junk c = Some (frame c)"
proof -
  let ?n = "8 + length (cd_data c)"
  let ?code = "le_enc 4 (cd_code c)" and ?len = "le_enc 4 (of_nat (length (cd_data c)) :: u32)"
  have n: "unat (of_nat ?n :: u32) = ?n" using assms(2) by (rule unat_of_nat_u32)
  have "junk \<noteq> []" using assms(3) by auto
  then have b0: "new_stream_buffer can_alloc (Some junk) (of_nat ?n) False = reader [] junk (of_nat ?n) False"
    using new_stream_buffer_reader [of junk can_alloc False] assms(2,3) by simp
  have w1: "WriteUInt32 can_alloc (cd_code c) (reader [] junk (of_nat ?n) False)
      = (None, reader ?code (drop 4 junk) (of_nat ?n) False)"
    using write_pod_reader [of ?code junk "[]" can_alloc False] assms(2,3)
    by (simp add: WriteUInt32_def del: le_enc.simps of_nat_add)
  have w2: "WriteUInt32 can_alloc (of_nat (length (cd_data c))) (reader ?code (drop 4 junk) (of_nat ?n) False)
      = (None, reader (?code @ ?len) (drop 8 junk) (of_nat ?n) False)"
    using write_pod_reader [of ?len "drop 4 junk" ?code can_alloc False] assms(2,3)
    by (simp add: WriteUInt32_def del: le_enc.simps of_nat_add)
  have w3: "WriteStringUTF8 can_alloc (cd_data c) (reader (?code @ ?len) (drop 8 junk) (of_nat ?n) False)
      = (None, reader (?code @ ?len @ cd_data c) (drop ?n junk) (of_nat ?n) False)"
    using WriteStringUTF8_reader [of "cd_data c" "drop 8 junk" "?code @ ?len" can_alloc False] assms(2,3)
    by (simp del: le_enc.simps of_nat_add)
  have four: "4 + 4 + length (cd_data c) = ?n" by simp
  show ?thesis
    using assms(1,3)
    unfolding MakeStream_def Let_def four n frame_def
    by (simp add: b0 w1 w2 w3 del: le_enc.simps of_nat_add)
qed

text \<open>
  The stream a command is sent as is its code, its length and its content, in that
  order, with nothing left of the uninitialised array it is built in, for every command
  whose frame is shorter than 4 GB.
\<close>

lemma MakeStream_frame:
  assumes "cd_code c \<noteq> RDCC_INVALID" and "8 + length (cd_data c) < 2 ^ 32"
    and "length junk = 8 + length (cd_data c)"
  shows "MakeStream can_alloc junk c = Some (frame c)"
  using assms by (rule MakeStream_makes_frame)
lemma MakeStream_frame_witness:
  "MakeStream (\<lambda>_. False) (replicate 12 77) (CCommandDisconnect 5) = Some [0, 2, 0, 0, 4, 0, 0, 0, 5, 0, 0, 0]"
proof -
  have "MakeStream (\<lambda>_. False) (replicate 12 77) (CCommandDisconnect 5) = Some (frame (CCommandDisconnect 5))"
    by (rule MakeStream_frame) (simp_all add: CCommandDisconnect_def)
  also have "frame (CCommandDisconnect 5) = [0, 2, 0, 0, 4, 0, 0, 0, 5, 0, 0, 0]"
    by (simp add: frame_def CCommandDisconnect_def le_enc_eval)
  finally show ?thesis .
qed

end
