(* ===== verification/Server_Recv.thy ===== *)
theory Server_Recv
  imports Commands
begin

text \<open>
  \<^verbatim>\<open>RemoteDesktopServer/ServerReciveCmd.cpp\<close> and \<^verbatim>\<open>ServerReciveCmdFactory.h\<close>: the
  server's parsers, one per command code, and the factory that picks one.  A parser returns
  the callback it makes on the connection, as a value of \<open>server_event\<close>; \<open>Inl e\<close> is the
  early \<open>return false\<close> on a failed read (or the fault, for \<open>MemFault\<close> and \<open>BadAlloc\<close>).
\<close>

section \<open>Sequencing\<close>

definition rd_bind :: "'e + 'a \<Rightarrow> ('a \<Rightarrow> 'e + 'b) \<Rightarrow> 'e + 'b" where
  "rd_bind m f = (case m of Inl e \<Rightarrow> Inl e | Inr a \<Rightarrow> f a)"

lemma rd_bind_simps [simp]: "rd_bind (Inl e) f = Inl e" "rd_bind (Inr a) f = f a"
  by (simp_all add: rd_bind_def)

text \<open>\<open>stream_buffer buffer((void* )commandData.data.c_str(), commandData.data.length())\<close>.\<close>

definition open_data :: "(u32 \<Rightarrow> bool) \<Rightarrow> command_data \<Rightarrow> stream_buffer" where
  "open_data can_alloc c =
     new_stream_buffer can_alloc (Some (cd_data c)) (of_nat (length (cd_data c))) False"

section \<open>The parsers\<close>

datatype server_event =
    OnGetProtocalVersion "byte list" "byte list"
  | OnGetLogon "byte list" "byte list"
  | OnGetCompressMode u32
  | OnGetTransferBitmap "byte list"
  | OnGetTransferBitmapResult u32
  | OnGetTransferMouseEvent u32 u32 u32 u32
  | OnGetTransferKeyboardEvent byte u32
  | OnGetTransferClipboardEvent u32 "byte list" u32
  | OnGetTransferFile "byte list" u64
  | OnGetTransferDirectory "byte list" u32 u64
  | OnGetDisconnect u32

definition parse_ProtocalVersion :: "(u32 \<Rightarrow> bool) \<Rightarrow> command_data \<Rightarrow> sb_error + server_event" where
  "parse_ProtocalVersion can_alloc c =
     rd_bind (ReadUInt32 (open_data can_alloc c)) (\<lambda>(nLength, b1).
     rd_bind (ReadStringUTF8 [] nLength b1) (\<lambda>(strProtocalVersion, _, b2).
     rd_bind (ReadUInt32 b2) (\<lambda>(nLength2, b3).
     rd_bind (ReadStringUTF8 [] nLength2 b3) (\<lambda>(strClientVersion, _, _).
     Inr (OnGetProtocalVersion strProtocalVersion strClientVersion)))))"

definition parse_Logon :: "(u32 \<Rightarrow> bool) \<Rightarrow> command_data \<Rightarrow> sb_error + server_event" where
  "parse_Logon can_alloc c =
     rd_bind (ReadUInt32 (open_data can_alloc c)) (\<lambda>(nLength, b1).
     rd_bind (ReadStringUTF8 [] nLength b1) (\<lambda>(strUserName, _, b2).
     rd_bind (ReadUInt32 b2) (\<lambda>(nLength2, b3).
     rd_bind (ReadStringUTF8 [] nLength2 b3) (\<lambda>(strPassword, _, _).
     Inr (OnGetLogon strUserName strPassword)))))"

definition parse_CompressMode :: "(u32 \<Rightarrow> bool) \<Rightarrow> command_data \<Rightarrow> sb_error + server_event" where
  "parse_CompressMode can_alloc c =
     rd_bind (ReadInt32 (open_data can_alloc c)) (\<lambda>(mode, _). Inr (OnGetCompressMode mode))"

definition parse_TransferBitmap :: "(u32 \<Rightarrow> bool) \<Rightarrow> command_data \<Rightarrow> sb_error + server_event" where
  "parse_TransferBitmap can_alloc c =
     rd_bind (ReadUInt32 (open_data can_alloc c)) (\<lambda>(nLength, b1).
     rd_bind (ReadStringUTF8 [] nLength b1) (\<lambda>(strSuffix, _, _).
     Inr (OnGetTransferBitmap strSuffix)))"

definition parse_TransferBitmapResponse :: "(u32 \<Rightarrow> bool) \<Rightarrow> command_data \<Rightarrow> sb_error + server_event" where
  "parse_TransferBitmapResponse can_alloc c =
     rd_bind (ReadInt32 (open_data can_alloc c)) (\<lambda>(nResult, _). Inr (OnGetTransferBitmapResult nResult))"

definition parse_TransferMouseEvent :: "(u32 \<Rightarrow> bool) \<Rightarrow> command_data \<Rightarrow> sb_error + server_event" where
  "parse_TransferMouseEvent can_alloc c =
     rd_bind (ReadUInt32 (open_data can_alloc c)) (\<lambda>(dwFlags, b1).
     rd_bind (ReadInt32 b1) (\<lambda>(x, b2).
     rd_bind (ReadInt32 b2) (\<lambda>(y, b3).
     rd_bind (ReadUInt32 b3) (\<lambda>(dwData, _).
     Inr (OnGetTransferMouseEvent dwFlags x y dwData)))))"

definition parse_TransferKeyboardEvent :: "(u32 \<Rightarrow> bool) \<Rightarrow> command_data \<Rightarrow> sb_error + server_event" where
  "parse_TransferKeyboardEvent can_alloc c =
     rd_bind (ReadUInt8 (open_data can_alloc c)) (\<lambda>(bVk, b1).
     rd_bind (ReadUInt32 b1) (\<lambda>(dwFlags, _).
     Inr (OnGetTransferKeyboardEvent bVk dwFlags)))"

text \<open>The clipboard data is read into a zeroed array of the announced length.\<close>

definition parse_TransferClipboard :: "(u32 \<Rightarrow> bool) \<Rightarrow> command_data \<Rightarrow> sb_error + server_event" where
  "parse_TransferClipboard can_alloc c =
     rd_bind (ReadUInt32 (open_data can_alloc c)) (\<lambda>(uFormat, b1).
     rd_bind (ReadUInt32 b1) (\<lambda>(nLength, b2).
     if \<not> can_alloc nLength then Inl BadAlloc
     else
     rd_bind (ReadStringUTF8_ptr (replicate (unat nLength) 0) nLength b2) (\<lambda>(pData, nLength2, _).
     Inr (OnGetTransferClipboardEvent uFormat pData nLength2))))"

definition parse_TransferFile :: "(u32 \<Rightarrow> bool) \<Rightarrow> command_data \<Rightarrow> sb_error + server_event" where
  "parse_TransferFile can_alloc c =
     rd_bind (ReadUInt32 (open_data can_alloc c)) (\<lambda>(len, b1).
     rd_bind (ReadStringUTF8 [] len b1) (\<lambda>(strFilePath, _, b2).
     rd_bind (ReadUInt64 b2) (\<lambda>(ullFileSize, _).
     Inr (OnGetTransferFile strFilePath ullFileSize))))"

definition parse_TransferDirectory :: "(u32 \<Rightarrow> bool) \<Rightarrow> command_data \<Rightarrow> sb_error + server_event" where
  "parse_TransferDirectory can_alloc c =
     rd_bind (ReadUInt32 (open_data can_alloc c)) (\<lambda>(len, b1).
     rd_bind (ReadStringUTF8 [] len b1) (\<lambda>(strDirPath, _, b2).
     rd_bind (ReadUInt32 b2) (\<lambda>(nFileCount, b3).
     rd_bind (ReadUInt64 b3) (\<lambda>(ullDirSize, _).
     Inr (OnGetTransferDirectory strDirPath nFileCount ullDirSize)))))"

definition parse_Disconnect :: "(u32 \<Rightarrow> bool) \<Rightarrow> command_data \<Rightarrow> sb_error + server_event" where
  "parse_Disconnect can_alloc c =
     rd_bind (ReadInt32 (open_data can_alloc c)) (\<lambda>(nDisconnectCode, _). Inr (OnGetDisconnect nDisconnectCode))"

lemmas parse_defs =
  parse_ProtocalVersion_def parse_Logon_def parse_CompressMode_def parse_TransferBitmap_def
  parse_TransferBitmapResponse_def parse_TransferMouseEvent_def parse_TransferKeyboardEvent_def
  parse_TransferClipboard_def parse_TransferFile_def parse_TransferDirectory_def parse_Disconnect_def

section \<open>The factory\<close>

definition CServerReciveCmdFactory_CreateCmd ::
  "u32 \<Rightarrow> ((u32 \<Rightarrow> bool) \<Rightarrow> command_data \<Rightarrow> sb_error + server_event) option" where
  "CServerReciveCmdFactory_CreateCmd code =
     (if code = RDCC_PROTOCOL_VERSION then Some parse_ProtocalVersion
      else if code = RDCC_LOGON then Some parse_Logon
      else if code = RDCC_COMPRESS_MODE then Some parse_CompressMode
      else if code = RDCC_TRANSFER_BITMAP then Some parse_TransferBitmap
      else if code = RDCC_TRANSFER_BITMAP_RESPONSE then Some parse_TransferBitmapResponse
      else if code = RDCC_TRANSFER_MOUSE_EVENT then Some parse_TransferMouseEvent
      else if code = RDCC_TRANSFER_KEYBOARD_EVENT then Some parse_TransferKeyboardEvent
      else if code = RDCC_TRANSFER_CLIPBOARD then Some parse_TransferClipboard
      else if code = RDCC_TRANSFER_FILE then Some parse_TransferFile
      else if code = RDCC_TRANSFER_DIRECTORY then Some parse_TransferDirectory
      else if code = RDCC_DISCONNECT then Some parse_Disconnect
      else None)"

text \<open>What \<open>OnReciveCommand\<close> does with an accepted command: create the parser and run it.\<close>

definition server_parse :: "(u32 \<Rightarrow> bool) \<Rightarrow> command_data \<Rightarrow> (sb_error + server_event) option" where
  "server_parse can_alloc c =
     map_option (\<lambda>parse. parse can_alloc c) (CServerReciveCmdFactory_CreateCmd (cd_code c))"

section \<open>Reading back what the client wrote\<close>

lemma open_data_reader:
  assumes "cd_data c \<noteq> []" and "length (cd_data c) < 2 ^ 32"
  shows "open_data can_alloc c = reader [] (cd_data c) (of_nat (length (cd_data c))) False"
  using assms by (simp add: open_data_def new_stream_buffer_reader)

text \<open>
  One rewrite rule per reader, over a buffer whose next bytes are the image of a value.
\<close>

lemma read_u8 [rd_simps]:
  "length pre + 1 + length rest < 2 ^ 32 \<Longrightarrow>
   ReadUInt8 (reader pre (le_enc 1 n @ rest) sz ow) = Inr (n, reader (pre @ le_enc 1 n) rest sz ow)"
  by (simp add: ReadUInt8_def read_pod_reader le_dec_enc del: le_enc.simps One_nat_def)

lemma read_u16 [rd_simps]:
  "length pre + 2 + length rest < 2 ^ 32 \<Longrightarrow>
   ReadUInt16 (reader pre (le_enc 2 n @ rest) sz ow) = Inr (n, reader (pre @ le_enc 2 n) rest sz ow)"
  by (simp add: ReadUInt16_def read_pod_reader le_dec_enc del: le_enc.simps)

lemma read_u32 [rd_simps]:
  "length pre + 4 + length rest < 2 ^ 32 \<Longrightarrow>
   ReadUInt32 (reader pre (le_enc 4 n @ rest) sz ow) = Inr (n, reader (pre @ le_enc 4 n) rest sz ow)"
  by (simp add: ReadUInt32_def read_pod_reader le_dec_enc del: le_enc.simps)

lemma read_i32 [rd_simps]:
  "length pre + 4 + length rest < 2 ^ 32 \<Longrightarrow>
   ReadInt32 (reader pre (le_enc 4 n @ rest) sz ow) = Inr (n, reader (pre @ le_enc 4 n) rest sz ow)"
  by (simp add: ReadInt32_def read_pod_reader le_dec_enc del: le_enc.simps)

lemma read_u64 [rd_simps]:
  "length pre + 8 + length rest < 2 ^ 32 \<Longrightarrow>
   ReadUInt64 (reader pre (le_enc 8 n @ rest) sz ow) = Inr (n, reader (pre @ le_enc 8 n) rest sz ow)"
  by (simp add: ReadUInt64_def read_pod_reader le_dec_enc del: le_enc.simps)

lemma read_str [rd_simps]:
  assumes "length pre + length s + length rest < 2 ^ 32"
  shows "ReadStringUTF8 [] (of_nat (length s)) (reader pre (s @ rest) sz ow)
       = Inr (s, of_nat (length s), reader (pre @ s) rest sz ow)"
proof (cases "s = []")
  case False
  have n: "unat (of_nat (length s) :: u32) = length s"
    using assms by (intro unat_of_nat_u32) linarith
  then have "(of_nat (length s) :: u32) \<noteq> 0" using False by (metis length_0_conv unat_0)
  then show ?thesis using assms by (simp add: ReadStringUTF8_reader n Let_def)
qed simp

lemmas read_last = read_u32 [where rest = "[]", simplified] read_i32 [where rest = "[]", simplified]
  read_u64 [where rest = "[]", simplified] read_str [where rest = "[]", simplified]

lemmas parse_simps = rd_simps read_last open_data_reader str_field_def

text \<open>The length prefix makes every command's data non-empty.\<close>

lemma le_enc_ne [simp]: "0 < k \<Longrightarrow> le_enc k w \<noteq> []"
  by (cases k) auto

section \<open>Properties\<close>

text \<open>
  The command whose parser makes a given callback, and the size and allocation conditions
  under which it is sent and received whole.
\<close>

fun event_command :: "server_event \<Rightarrow> command_data option" where
  "event_command (OnGetProtocalVersion sp sc) = Some (CCommandProtocalVersion sp sc)"
| "event_command (OnGetLogon su sp) = Some (CCommandLogon su sp)"
| "event_command (OnGetCompressMode m) = Some (CCommandCompressMode m)"
| "event_command (OnGetTransferBitmap s) = Some (CCommandTransferBitmapClient s)"
| "event_command (OnGetTransferBitmapResult n) = Some (CCommandTransferBitmapClientResponse n)"
| "event_command (OnGetTransferMouseEvent f x y d) = Some (CCommandTransferMouseEvent f x y d)"
| "event_command (OnGetTransferKeyboardEvent vk f) = Some (CCommandTransferKeyboardEvent vk f)"
| "event_command (OnGetTransferClipboardEvent f d n) = CCommandTransferClipboard f d n"
| "event_command (OnGetTransferFile p n) = Some (CCommandTransferFile p n)"
| "event_command (OnGetTransferDirectory p k n) = Some (CCommandTransferDirectory p k n)"
| "event_command (OnGetDisconnect n) = Some (CCommandDisconnect n)"

fun event_sendable :: "(u32 \<Rightarrow> bool) \<Rightarrow> server_event \<Rightarrow> bool" where
  "event_sendable can_alloc (OnGetProtocalVersion sp sc) \<longleftrightarrow> 8 + length sp + length sc < 2 ^ 32"
| "event_sendable can_alloc (OnGetLogon su sp) \<longleftrightarrow> 8 + length su + length sp < 2 ^ 32"
| "event_sendable can_alloc (OnGetTransferBitmap s) \<longleftrightarrow> 4 + length s < 2 ^ 32"
| "event_sendable can_alloc (OnGetTransferClipboardEvent f d n) \<longleftrightarrow>
     8 + length d < 2 ^ 32 \<and> unat n = length d \<and> can_alloc n"
| "event_sendable can_alloc (OnGetTransferFile p n) \<longleftrightarrow> 12 + length p < 2 ^ 32"
| "event_sendable can_alloc (OnGetTransferDirectory p k n) \<longleftrightarrow> False"
| "event_sendable can_alloc e \<longleftrightarrow> True"

lemma read_ptr_all:
  assumes "unat n = length s" and "length pre + length s < 2 ^ 32"
  shows "ReadStringUTF8_ptr (replicate (length s) 0) n (reader pre s sz ow)
       = Inr (s, n, reader (pre @ s) [] sz ow)"
proof (cases "s = []")
  case True
  then have "n = 0" using assms(1) by (simp add: unat_eq_zero)
  with True show ?thesis by (simp add: ReadStringUTF8_ptr_def)
next
  case False
  then have n0: "n \<noteq> 0" using assms(1) by auto
  have n: "of_nat (length s) = n" by (simp flip: assms(1))
  have "ReadStringUTF8 [] n (reader pre s sz ow) = Inr (s, n, reader (pre @ s) [] sz ow)"
    using ReadStringUTF8_reader [of n pre s] n0 assms by (simp add: Let_def n)
  then show ?thesis
    using n0 assms(1)
    by (auto simp: ReadStringUTF8_ptr_def ReadStringUTF8_def Let_def blit_def split: sum.splits)
qed

lemma server_parse_sent:
  assumes "event_sendable can_alloc e"
  shows "\<exists>c. event_command e = Some c \<and> server_parse can_alloc c = Some (Inr e)"
  using assms
  by (cases e) (simp_all add: server_parse_def CServerReciveCmdFactory_CreateCmd_def command_defs
      parse_defs parse_simps read_ptr_all del: le_enc.simps One_nat_def)

text \<open>
  C26. Wire round trip, client to server: for every callback of the server except the
  directory one, the command class the client uses for it, parsed by the parser the factory
  selects for its code, makes exactly that callback with the same arguments.
\<close>

theorem server_parse_roundtrip:
  assumes "event_sendable can_alloc e"
  shows "\<exists>c. event_command e = Some c \<and> server_parse can_alloc c = Some (Inr e)"
  using assms by (rule server_parse_sent)
theorem server_parse_roundtrip_witness:
  "\<exists>c. event_command (OnGetTransferClipboardEvent 1 [104, 105] 2) = Some c
     \<and> server_parse (\<lambda>_. True) c = Some (Inr (OnGetTransferClipboardEvent 1 [104, 105] 2))"
  by (rule server_parse_roundtrip) simp

text \<open>
  The directory command is never understood: its constructor omits the file count that
  the server's parser reads, so the parser runs out of bytes and no directory transfer is
  ever announced, whatever the path, count and size.
\<close>

lemma directory_command_rejected:
  assumes "16 + length strDirPath < 2 ^ 32"
  shows "server_parse can_alloc (CCommandTransferDirectory strDirPath nFileCount ullDirSize)
       = Some (Inl E_OUTOFMEMORY)"
proof -
  have split: "le_enc 8 ullDirSize = le_enc 4 (ucast ullDirSize :: u32) @ le_enc 4 (drop_bit 32 ullDirSize)"
    by (simp add: le_enc_eval drop_bit_drop_bit bit_eq_iff bit_simps)
  have len: "length strDirPath + 16 < 2 ^ 32" using assms by simp
  show ?thesis
    using len
    by (simp add: server_parse_def CServerReciveCmdFactory_CreateCmd_def CCommandTransferDirectory_def
        parse_TransferDirectory_def parse_simps split ReadUInt64_def read_pod_reader_short
        del: le_enc.simps)
qed

lemma directory_command_rejected_witness:
  "server_parse (\<lambda>_. True) (CCommandTransferDirectory [67, 58] 3 4096) = Some (Inl E_OUTOFMEMORY)"
  by (rule directory_command_rejected) simp

lemma le_enc4_le_dec: "length bs = 4 \<Longrightarrow> le_enc 4 (le_dec bs :: u32) = bs"
  using le_enc_dec [of bs, where 'a = 32] by simp



end
