(* ===== verification/Framing.thy ===== *)
theory Framing
  imports Server_Recv
begin

text \<open>
  \<open>DecodeBuffer\<close> of \<^verbatim>\<open>RemoteDesktopServer/RemoteServer.cpp\<close> and of
  \<^verbatim>\<open>RemoteDesktopClient/RemoteClient.cpp\<close>: cutting the byte stream of the socket into
  commands.  \<open>m_Command\<close> holds the command that is only partly there; every complete
  command is handed to the window procedure with \<open>SendMessage\<close>, which returns after the
  handler has run, so a call's result is the list of commands it delivered and the new
  \<open>m_Command\<close>.  The buffer passed to a call is never empty: both callers test the length.
\<close>

section \<open>The decoder\<close>

definition InitCommandData :: command_data where
  "InitCommandData = \<lparr>cd_code = RDCC_INVALID, cd_data = [], cd_length = 0\<rparr>"

lemma InitCommandData_sel [simp]:
  "cd_code InitCommandData = 0" "cd_data InitCommandData = []" "cd_length InitCommandData = 0"
  by (simp_all add: InitCommandData_def)

lemma of_nat_u32_gt: "(of_nat n :: u32) > w \<Longrightarrow> unat w < n"
proof -
  assume "(of_nat n :: u32) > w"
  then have "unat w < unat (of_nat n :: u32)" by (simp add: word_less_nat_alt)
  also have "\<dots> \<le> n" by (simp add: unat_of_nat take_bit_nat_less_eq_self)
  finally show ?thesis .
qed

lemma of_nat_u32_gt_len: "(of_nat (length buf) :: u32) > w \<Longrightarrow> 0 < unat w + n \<Longrightarrow> length buf - (unat w + n) < length buf"
  using of_nat_u32_gt [of w "length buf"] by linarith

text \<open>
  Termination: the recursive calls work on a shorter buffer, or (a pending command that was
  already complete) on the same one with nothing pending.
\<close>

function DecodeBuffer ::
  "(u32 \<Rightarrow> bool) \<Rightarrow> command_data \<Rightarrow> byte list \<Rightarrow> command_data list \<times> command_data" where
  "DecodeBuffer can_alloc cmd buf =
     (let total = of_nat (length buf) :: u32;
          buffer = new_stream_buffer can_alloc (Some buf) total False in
      if cd_code cmd = RDCC_INVALID then
        (case ReadUInt32 buffer of
           Inl _ \<Rightarrow> ([], cmd)
         | Inr (ncode, b1) \<Rightarrow>
             if ncode = RDCC_INVALID then ([], cmd)
             else
               (case ReadUInt32 b1 of
                  Inl _ \<Rightarrow> ([], cmd)
                | Inr (nLength, b2) \<Rightarrow>
                    if nLength > CMD_ITEM_SIZE_MAX then ([], cmd)
                    else
                      (case ReadStringUTF8 (cd_data cmd) nLength b2 of
                         Inl _ \<Rightarrow> ([], cmd)
                       | Inr (data, nReadLength, _) \<Rightarrow>
                           let cmd1 = \<lparr>cd_code = ncode, cd_data = data, cd_length = nLength\<rparr> in
                           if nReadLength \<noteq> nLength then ([], cmd1)
                           else if total > nLength + 4 * 2 then
                             (case DecodeBuffer can_alloc InitCommandData (drop (unat nLength + 4 * 2) buf) of
                                (out, cmd2) \<Rightarrow> (cmd1 # out, cmd2))
                           else ([cmd1], InitCommandData))))
      else
        let nLeaveLength = cd_length cmd - of_nat (length (cd_data cmd)) in
        case ReadStringUTF8 [] nLeaveLength buffer of
          Inl _ \<Rightarrow> ([], InitCommandData)
        | Inr (strNext, nReadLength, _) \<Rightarrow>
            let cmd1 = cmd\<lparr>cd_data := cd_data cmd @ strNext\<rparr> in
            if nReadLength \<noteq> nLeaveLength then ([], cmd1)
            else if total > nReadLength then
              (case DecodeBuffer can_alloc InitCommandData (drop (unat nReadLength) buf) of
                 (out, cmd2) \<Rightarrow> (cmd1 # out, cmd2))
            else ([cmd1], InitCommandData))"
  by pat_completeness auto

termination
  by (relation "measures [\<lambda>(_, _, buf). length buf, \<lambda>(_, cmd, _). of_bool (cd_code cmd \<noteq> 0)]")
     (auto dest: of_nat_u32_gt simp: unat_gt_0)

declare DecodeBuffer.simps [simp del]

text \<open>The client's decoder has the same text.\<close>

definition client_DecodeBuffer ::
  "(u32 \<Rightarrow> bool) \<Rightarrow> command_data \<Rightarrow> byte list \<Rightarrow> command_data list \<times> command_data" where
  "client_DecodeBuffer = DecodeBuffer"

text \<open>Successive reads of the socket.\<close>

fun feed :: "(u32 \<Rightarrow> bool) \<Rightarrow> command_data \<Rightarrow> byte list list \<Rightarrow> command_data list \<times> command_data" where
  "feed can_alloc cmd [] = ([], cmd)"
| "feed can_alloc cmd (buf # bufs) =
     (case DecodeBuffer can_alloc cmd buf of
        (out1, cmd1) \<Rightarrow> (case feed can_alloc cmd1 bufs of (out2, cmd2) \<Rightarrow> (out1 @ out2, cmd2)))"

section \<open>Steps of the decoder on a well-formed stream\<close>

text \<open>A command that the senders produce: a real code, and at most 10 MB of content.\<close>

definition sendable :: "command_data \<Rightarrow> bool" where
  "sendable c \<longleftrightarrow> cd_code c \<noteq> 0 \<and> length (cd_data c) \<le> 10485760 \<and> cd_length c = of_nat (length (cd_data c))"

lemma length_frame [simp]: "length (frame c) = 8 + length (cd_data c)"
  by (simp add: frame_def del: le_enc.simps)

text \<open>The command with only its first \<open>j\<close> content bytes there.\<close>

definition pending :: "command_data \<Rightarrow> nat \<Rightarrow> command_data" where
  "pending c j = c\<lparr>cd_data := take j (cd_data c)\<rparr>"

lemma pending_code [simp]: "cd_code (pending c j) = cd_code c"
  by (simp add: pending_def)

lemma sendable_simps:
  assumes "sendable c"
  shows "unat (cd_length c) = length (cd_data c)" "\<not> CMD_ITEM_SIZE_MAX < cd_length c"
    "unat (cd_length c + 8) = length (cd_data c) + 8"
proof -
  show l: "unat (cd_length c) = length (cd_data c)"
    using assms by (simp add: sendable_def unat_of_nat_u32)
  show "\<not> CMD_ITEM_SIZE_MAX < cd_length c"
    using assms by (simp add: word_less_nat_alt l CMD_ITEM_SIZE_MAX_def) (simp add: sendable_def)
  show "unat (cd_length c + 8) = length (cd_data c) + 8"
    using assms by (subst unat_add_u32) (simp_all add: l, simp add: sendable_def)
qed

lemma of_nat_gt_u32: "n < 2 ^ 32 \<Longrightarrow> (of_nat n :: u32) > w \<longleftrightarrow> unat w < n"
  by (simp add: word_less_nat_alt unat_of_nat_u32)

text \<open>
  A fresh call on a buffer that starts with a header: the content is read as far as the
  buffer goes.
\<close>

lemma Decode_header:
  assumes "sendable c" and "length buf = 8 + length body" and "length buf < 2 ^ 32"
    and "buf = le_enc 4 (cd_code c) @ le_enc 4 (cd_length c) @ body"
  shows "DecodeBuffer can_alloc InitCommandData buf =
    (if length body < length (cd_data c) then ([], \<lparr>cd_code = cd_code c, cd_data = body, cd_length = cd_length c\<rparr>)
     else
       let cmd1 = \<lparr>cd_code = cd_code c, cd_data = take (length (cd_data c)) body, cd_length = cd_length c\<rparr>;
           rest = drop (length (cd_data c)) body in
       if rest = [] then ([cmd1], InitCommandData)
       else (case DecodeBuffer can_alloc InitCommandData rest of (out, cmd2) \<Rightarrow> (cmd1 # out, cmd2)))"
proof -
  let ?n = "cd_length c" and ?sz = "of_nat (length buf) :: u32"
  note s = sendable_simps [OF assms(1)]
  have ne: "buf \<noteq> []" using assms(2) by auto
  have buffer: "new_stream_buffer can_alloc (Some buf) ?sz False
      = reader [] (le_enc 4 (cd_code c) @ le_enc 4 ?n @ body) ?sz False"
    using new_stream_buffer_reader [OF ne assms(3), of can_alloc False] assms(4) by simp
  have r1: "ReadUInt32 (reader [] (le_enc 4 (cd_code c) @ le_enc 4 ?n @ body) ?sz False)
      = Inr (cd_code c, reader (le_enc 4 (cd_code c)) (le_enc 4 ?n @ body) ?sz False)"
    using assms(2,3) read_u32 [of "[]" "le_enc 4 ?n @ body"] by simp
  have r2: "ReadUInt32 (reader (le_enc 4 (cd_code c)) (le_enc 4 ?n @ body) ?sz False)
      = Inr (?n, reader (le_enc 4 (cd_code c) @ le_enc 4 ?n) body ?sz False)"
    using assms(2,3) by (simp add: read_u32)
  let ?k = "min (length (cd_data c)) (length body)"
  have r3: "\<exists>b. ReadStringUTF8 [] ?n (reader (le_enc 4 (cd_code c) @ le_enc 4 ?n) body ?sz False)
      = Inr (take ?k body, of_nat ?k, b)"
  proof (cases "?n = 0")
    case True
    then have "length (cd_data c) = 0" using s(1) by simp
    with True show ?thesis by simp
  next
    case False
    then show ?thesis
      using assms(1,2,3) by (subst ReadStringUTF8_reader) (simp_all add: s(1) Let_def, simp add: sendable_def)
  qed
  then obtain b where r3: "ReadStringUTF8 [] ?n (reader (le_enc 4 (cd_code c) @ le_enc 4 ?n) body ?sz False)
      = Inr (take ?k body, of_nat ?k, b)" by blast
  have k: "unat (of_nat ?k :: u32) = ?k" using assms(2,3) by (intro unat_of_nat_u32) linarith
  have neq: "(of_nat ?k :: u32) \<noteq> ?n \<longleftrightarrow> length body < length (cd_data c)"
    using s(1) k by (auto simp: word_unat_eq_iff)
  define k where "k = ?k"
  have "?n + 8 < ?sz \<longleftrightarrow> length (cd_data c) + 8 < length buf"
    by (simp only: of_nat_gt_u32 [OF assms(3)] s(3))
  then have gt: "?n + 8 < ?sz \<longleftrightarrow> length (cd_data c) < length body"
    unfolding assms(2) by linarith
  have code: "cd_code c \<noteq> 0" using assms(1) by (simp add: sendable_def)
  have dr: "drop (length (cd_data c) + 8) buf = drop (length (cd_data c)) body"
    by (simp add: assms(4) del: le_enc.simps)
  note rules = Let_def buffer r1 r2 r3 [folded k_def] neq [folded k_def] gt s(1) dr
  show ?thesis
    using code s(2)
    by (cases "length body < length (cd_data c)"; subst DecodeBuffer.simps)
       (simp_all add: rules del: le_enc.simps, simp_all add: k_def)
qed

text \<open>A call while a command is pending.\<close>

lemma Decode_pending:
  assumes "sendable c" and "j < length (cd_data c)" and "buf \<noteq> []" and "length buf < 2 ^ 31"
  shows "DecodeBuffer can_alloc (pending c j) buf =
    (let k = length (cd_data c) - j in
     if length buf < k then ([], (pending c j)\<lparr>cd_data := take j (cd_data c) @ buf\<rparr>)
     else
       let cmd1 = (pending c j)\<lparr>cd_data := take j (cd_data c) @ take k buf\<rparr>; rest = drop k buf in
       if rest = [] then ([cmd1], InitCommandData)
       else (case DecodeBuffer can_alloc InitCommandData rest of (out, cmd2) \<Rightarrow> (cmd1 # out, cmd2)))"
proof -
  let ?k = "length (cd_data c) - j" and ?sz = "of_nat (length buf) :: u32"
  note s = sendable_simps [OF assms(1)]
  have lt: "length buf < 2 ^ 32" using assms(4) by simp
  have buffer: "new_stream_buffer can_alloc (Some buf) ?sz False = reader [] buf ?sz False"
    by (rule new_stream_buffer_reader [OF assms(3) lt])
  have leave: "cd_length (pending c j) - of_nat (length (cd_data (pending c j))) = (of_nat ?k :: u32)"
    using assms(1,2) by (simp add: pending_def sendable_def of_nat_diff)
  have small: "length (cd_data c) < 2 ^ 31" using assms(1) by (simp add: sendable_def)
  have k: "unat (of_nat ?k :: u32) = ?k" using small by (intro unat_of_nat_u32) simp
  have k0: "(of_nat ?k :: u32) \<noteq> 0" using k assms(2) by (metis unat_0 zero_less_diff less_irrefl)
  let ?m = "min ?k (length buf)"
  have r: "\<exists>b. ReadStringUTF8 [] (of_nat ?k) (reader [] buf ?sz False) = Inr (take ?m buf, of_nat ?m, b)"
    using small assms(4) k0 by (subst ReadStringUTF8_reader) (simp_all only: k Let_def, simp_all)
  then obtain b where
    r: "ReadStringUTF8 [] (of_nat ?k) (reader [] buf ?sz False) = Inr (take ?m buf, of_nat ?m, b)" by blast
  have m: "unat (of_nat ?m :: u32) = ?m" using lt by (intro unat_of_nat_u32) linarith
  have neq: "(of_nat ?m :: u32) \<noteq> of_nat ?k \<longleftrightarrow> length buf < ?k"
    using k m by (auto simp: word_unat_eq_iff simp del: of_nat_diff)
  have gt: "of_nat ?m < ?sz \<longleftrightarrow> ?k < length buf"
    using lt by (simp only: of_nat_gt_u32 m) linarith
  have code: "cd_code c \<noteq> 0" using assms(1) by (simp add: sendable_def)
  define L where "L = (of_nat ?k :: u32)"
  define M where "M = (of_nat ?m :: u32)"
  note rules = Let_def buffer leave [folded L_def] r [folded L_def M_def] neq [folded L_def M_def]
    gt [folded M_def] m [folded M_def]
  show ?thesis
    using code
    by (cases "length buf < ?k"; subst DecodeBuffer.simps)
       (simp_all add: rules, simp_all add: pending_def)
qed

section \<open>A stream of commands, read in pieces\<close>

text \<open>
  What the decoder has delivered and what is pending once the first \<open>k\<close> bytes of the
  frames of \<open>cs\<close> have arrived.
\<close>

fun after :: "command_data list \<Rightarrow> nat \<Rightarrow> command_data list \<times> command_data" where
  "after [] k = ([], InitCommandData)"
| "after (c # cs) k =
     (if k = 0 then ([], InitCommandData)
      else if k < 8 + length (cd_data c) then ([], pending c (k - 8))
      else (case after cs (k - (8 + length (cd_data c))) of (out, cmd) \<Rightarrow> (c # out, cmd)))"

text \<open>A position of the stream that is not strictly inside a header.\<close>

fun cut_ok :: "command_data list \<Rightarrow> nat \<Rightarrow> bool" where
  "cut_ok [] k \<longleftrightarrow> True"
| "cut_ok (c # cs) k \<longleftrightarrow>
     k = 0 \<or> 8 \<le> k \<and> (k < 8 + length (cd_data c) \<or> cut_ok cs (k - (8 + length (cd_data c))))"

fun cuts_ok :: "command_data list \<Rightarrow> nat \<Rightarrow> byte list list \<Rightarrow> bool" where
  "cuts_ok cs k [] \<longleftrightarrow> True"
| "cuts_ok cs k (b # bs) \<longleftrightarrow>
     b \<noteq> [] \<and> length b < 2 ^ 31 \<and> cut_ok cs (k + length b) \<and> cuts_ok cs (k + length b) bs"

definition frames :: "command_data list \<Rightarrow> byte list" where
  "frames cs = concat (map frame cs)"

lemma frames_simps [simp]: "frames [] = []" "frames (c # cs) = frame c @ frames cs"
  by (simp_all add: frames_def)

lemma after_0 [simp]: "after cs 0 = ([], InitCommandData)"
  by (cases cs) auto

lemma after_all: "after cs (length (frames cs)) = (cs, InitCommandData)"
  by (induction cs) auto

lemma frame_split:
  "sendable c \<Longrightarrow> frame c @ xs = le_enc 4 (cd_code c) @ le_enc 4 (cd_length c) @ cd_data c @ xs"
  by (simp add: frame_def sendable_def del: le_enc.simps)

lemma sendable_eq:
  "cd_code c = x \<Longrightarrow> cd_data c = d \<Longrightarrow> cd_length c = n \<Longrightarrow> \<lparr>cd_code = x, cd_data = d, cd_length = n\<rparr> = c"
  by auto

lemma pending_eq:
  "\<lparr>cd_code = cd_code c, cd_data = take j (cd_data c), cd_length = cd_length c\<rparr> = pending c j"
  by (simp add: pending_def)

text \<open>A fresh decoder on the first \<open>n\<close> bytes of a stream.\<close>

lemma Decode_fresh:
  assumes "\<forall>c\<in>set cs. sendable c" and "0 < n" and "n \<le> length (frames cs)" and "n < 2 ^ 31" and "cut_ok cs n"
  shows "DecodeBuffer can_alloc InitCommandData (take n (frames cs)) = after cs n"
  using assms
proof (induction cs arbitrary: n)
  case Nil
  then show ?case by simp
next
  case (Cons c cs)
  let ?L = "length (cd_data c)"
  let ?body = "take (n - 8) (cd_data c @ frames cs)"
  have c: "sendable c" and n8: "8 \<le> n" using Cons.prems by auto
  have buf: "take n (frames (c # cs)) = le_enc 4 (cd_code c) @ le_enc 4 (cd_length c) @ ?body"
    using n8 by (simp add: frame_split [OF c] del: le_enc.simps)
  have len: "length (take n (frames (c # cs))) = 8 + length ?body"
    using n8 Cons.prems(3) by auto
  have lb: "length ?body = n - 8" using Cons.prems(3) by auto
  have small: "length (take n (frames (c # cs))) < 2 ^ 32" using Cons.prems(4) by auto
  note step = Decode_header [OF c len small buf, of can_alloc, unfolded lb]
  show ?case
  proof (cases "n < 8 + ?L")
    case True
    then show ?thesis using n8 unfolding step by (simp add: pending_def)
  next
    case False
    then have t: "take ?L ?body = cd_data c" and d: "drop ?L ?body = take (n - 8 - ?L) (frames cs)"
      by (simp_all add: min_def drop_take)
    have IH: "n - (8 + ?L) \<noteq> 0 \<Longrightarrow>
        DecodeBuffer can_alloc InitCommandData (take (n - 8 - ?L) (frames cs)) = after cs (n - 8 - ?L)"
      using Cons.IH [of "n - (8 + ?L)"] Cons.prems False by auto
    have ne: "take (n - 8 - ?L) (frames cs) = [] \<longleftrightarrow> n - 8 - ?L = 0"
      using Cons.prems(3) False by auto
    show ?thesis
      using False n8 IH unfolding step t d ne Let_def
      by (cases "n - 8 - ?L = 0") (auto simp: sendable_eq split: prod.splits)
  qed
qed

text \<open>One read of the socket, from any position of the stream to a later one.\<close>

lemma Decode_step:
  assumes "\<forall>c\<in>set cs. sendable c" and "0 < n" and "k + n \<le> length (frames cs)" and "n < 2 ^ 31"
    and "cut_ok cs k" and "cut_ok cs (k + n)"
  shows "DecodeBuffer can_alloc (snd (after cs k)) (take n (drop k (frames cs))) = (out, cmd) \<Longrightarrow>
         after cs (k + n) = (fst (after cs k) @ out, cmd)"
  using assms
proof (induction cs arbitrary: k out)
  case Nil
  then show ?case by simp
next
  case (Cons c cs)
  let ?L = "length (cd_data c)"
  have c: "sendable c" using Cons.prems by simp
  consider (start) "k = 0" | (inside) "8 \<le> k" "k < 8 + ?L" | (later) "8 + ?L \<le> k" "0 < k"
    using Cons.prems(6) by fastforce
  then show ?case
  proof cases
    case start
    then show ?thesis using Cons.prems Decode_fresh [of "c # cs" n can_alloc] by auto
  next
    case later
    then have "cut_ok cs (k - (8 + ?L))" "cut_ok cs (k - (8 + ?L) + n)"
      using Cons.prems(6,7) by auto
    moreover have "drop k (frames (c # cs)) = drop (k - (8 + ?L)) (frames cs)"
      using later by simp
    ultimately show ?thesis
      using Cons.IH [of "k - (8 + ?L)" out] Cons.prems later by (auto split: prod.splits)
  next
    case inside
    let ?j = "k - 8" and ?buf = "take n (drop k (frames (c # cs)))"
    have j: "?j < ?L" using inside by linarith
    have b: "?buf = take n (drop ?j (cd_data c) @ frames cs)"
      using inside by (simp add: frame_split [OF c] del: le_enc.simps)
    have lb: "length ?buf = n" using Cons.prems(4) by auto
    then have ne: "?buf \<noteq> []" and lt: "length ?buf < 2 ^ 31" using Cons.prems(3,5) by auto
    note step = Decode_pending [OF c j ne lt, of can_alloc, unfolded lb]
    have ak: "after (c # cs) k = ([], pending c ?j)" using inside by auto
    show ?thesis
    proof (cases "n < ?L - ?j")
      case True
      then have "take ?j (cd_data c) @ ?buf = take (?j + n) (cd_data c)"
        unfolding b by (simp add: take_add)
      then show ?thesis
        using True inside Cons.prems(1) unfolding ak snd_conv step
        by (auto simp: pending_def)
    next
      case False
      let ?m = "n - (?L - ?j)"
      have t: "take ?j (cd_data c) @ take (?L - ?j) ?buf = cd_data c"
        using False unfolding b by (simp add: min_def)
      have d: "drop (?L - ?j) ?buf = take ?m (frames cs)"
        using False unfolding b by (simp add: drop_take)
      have m: "k + n - (8 + ?L) = ?m" using False inside by linarith
      have "cut_ok cs ?m" using Cons.prems(7) False inside unfolding m [symmetric] by auto
      moreover have "?m \<le> length (frames cs)" using Cons.prems(4) False inside by auto
      ultimately have "?m \<noteq> 0 \<Longrightarrow> DecodeBuffer can_alloc InitCommandData (take ?m (frames cs)) = after cs ?m"
        using Decode_fresh [of cs ?m can_alloc] Cons.prems(2,5) by auto
      moreover have "take ?m (frames cs) = [] \<longleftrightarrow> ?m = 0" using Cons.prems(4) False inside by auto
      moreover note m
      moreover have "pending c ?j\<lparr>cd_data := cd_data c\<rparr> = c" by (simp add: pending_def)
      ultimately show ?thesis
        using False inside Cons.prems(1) unfolding ak snd_conv step t d Let_def
        by (cases "?m = 0") (auto split: prod.splits)
    qed
  qed
qed

lemma feed_after:
  assumes "\<forall>c\<in>set cs. sendable c" and "concat bs = take (length (concat bs)) (drop k (frames cs))"
    and "k + length (concat bs) \<le> length (frames cs)" and "cut_ok cs k" and "cuts_ok cs k bs"
  shows "feed can_alloc (snd (after cs k)) bs = (out, cmd) \<Longrightarrow>
         after cs (k + length (concat bs)) = (fst (after cs k) @ out, cmd)"
  using assms
proof (induction bs arbitrary: k out)
  case Nil
  then show ?case by (metis append_Nil2 concat.simps(1) feed.simps(1) list.size(3) Pair_inject add_0_right prod.collapse)
next
  case (Cons b bs)
  let ?n = "length b"
  have b: "b = take ?n (drop k (frames cs))"
    using arg_cong [OF Cons.prems(3), of "take ?n"] by (simp add: min_def)
  obtain o1 c1 where d: "DecodeBuffer can_alloc (snd (after cs k)) b = (o1, c1)" by fastforce
  obtain o2 where f: "feed can_alloc c1 bs = (o2, cmd)" and out: "out = o1 @ o2"
    using Cons.prems(1) d by (auto split: prod.splits)
  have le: "k + ?n \<le> length (frames cs)" using Cons.prems(4) by simp
  have n: "0 < ?n" "?n < 2 ^ 31" "cut_ok cs (k + ?n)" "cuts_ok cs (k + ?n) bs"
    using Cons.prems(6) by auto
  have a1: "after cs (k + ?n) = (fst (after cs k) @ o1, c1)"
    using Decode_step [OF Cons.prems(2) n(1) le n(2) Cons.prems(5) n(3)] d b by metis
  have rest: "concat bs = take (length (concat bs)) (drop (k + ?n) (frames cs))"
    using arg_cong [OF Cons.prems(3), of "drop ?n"] by (simp add: drop_take add.commute)
  show ?case
    using Cons.IH [of "k + ?n" o2] Cons.prems(2,4) n(3,4) a1 f out rest by (simp add: add.assoc)
qed

lemma feed_stream:
  assumes "\<forall>c\<in>set cs. sendable c" and "concat bs = concat (map frame cs)" and "cuts_ok cs 0 bs"
  shows "feed can_alloc InitCommandData bs = (cs, InitCommandData)"
proof -
  obtain out cmd where f: "feed can_alloc InitCommandData bs = (out, cmd)" by fastforce
  have all: "concat bs = frames cs" using assms(2) by (simp add: frames_def)
  have "cut_ok cs 0" by (cases cs) auto
  then have "after cs (length (concat bs)) = (out, cmd)"
    using feed_after [of cs bs 0 can_alloc out cmd] assms(1,3) f all by simp
  then show ?thesis using f by (simp add: all after_all)
qed

text \<open>The frames of sendable commands determine the commands.\<close>

lemma frames_inj:
  "\<forall>c\<in>set cs. sendable c \<Longrightarrow> \<forall>c\<in>set ds. sendable c \<Longrightarrow> frames cs = frames ds \<Longrightarrow> cs = ds"
proof (induction cs arbitrary: ds)
  case Nil
  then show ?case by (cases ds) (auto simp: frame_def)
next
  case (Cons c cs)
  then obtain d ds' where ds: "ds = d # ds'" by (cases ds) (auto simp: frame_def)
  have c: "sendable c" and d: "sendable d" using Cons.prems ds by auto
  have "cd_code c = cd_code d" "cd_length c = cd_length d" "cd_data c @ frames cs = cd_data d @ frames ds'"
    using Cons.prems(3) by (simp_all add: ds frame_split [OF c] frame_split [OF d] codec32.enc_append_eq del: le_enc.simps)
  moreover then have "cd_data c = cd_data d" "frames cs = frames ds'"
    using sendable_simps(1) [OF c] sendable_simps(1) [OF d] by simp_all
  ultimately show ?case using Cons.IH [of ds'] Cons.prems ds by simp
qed

section \<open>Properties\<close>

text \<open>
  C8. Reassembly: whatever the sizes of the reads of the socket, as long as no read ends
  strictly inside an 8-byte header, the decoder delivers exactly the commands that were
  sent, each whole and in order, and ends with nothing pending.
\<close>

theorem feed_frames:
  assumes "\<forall>c\<in>set cs. sendable c" and "concat bs = concat (map frame cs)" and "cuts_ok cs 0 bs"
  shows "feed can_alloc InitCommandData bs = (cs, InitCommandData)"
  using assms by (rule feed_stream)

theorem feed_frames_witness:
  "feed (\<lambda>_. True) InitCommandData
     [[0, 2, 0, 0, 4, 0, 0, 0], [5], [0, 0, 0, 0x20, 1, 0, 0, 0, 0, 0, 0]]
   = ([CCommandDisconnect 5, mk_command RDCC_LOGON []], InitCommandData)"
  by (rule feed_frames)
     (simp_all add: sendable_def frame_def CCommandDisconnect_def le_enc_eval)

text \<open>
  C32. A header split across two reads is lost: when the first read holds one to seven
  bytes of a frame the decoder drops them and keeps no trace of them, so the next read is
  parsed as if a command started there.
\<close>

theorem split_header_dropped:
  assumes "0 < k" and "k < 8"
  shows "DecodeBuffer can_alloc InitCommandData (take k (frame c)) = ([], InitCommandData)"
proof -
  let ?buf = "take k (frame c)" and ?code = "le_enc 4 (cd_code c)"
  let ?len = "le_enc 4 (of_nat (length (cd_data c)) :: u32)"
  have ne: "?buf \<noteq> []" and lb: "length ?buf = k" using assms by (auto simp: frame_def)
  have small: "length ?buf < 2 ^ 32" using assms lb by simp
  have buffer: "new_stream_buffer can_alloc (Some ?buf) (of_nat k) False = reader [] ?buf (of_nat k) False"
    using new_stream_buffer_reader [OF ne small, of can_alloc False] lb by simp
  show ?thesis
  proof (cases "k < 4")
    case True
    then have "ReadUInt32 (reader [] ?buf (of_nat k) False) = Inl E_OUTOFMEMORY"
      using lb by (simp add: ReadUInt32_def read_pod_reader_short)
    then show ?thesis by (subst DecodeBuffer.simps) (simp only: lb Let_def buffer, simp)
  next
    case False
    let ?rest = "take (k - 4) (?len @ cd_data c)"
    have b: "?buf = ?code @ ?rest" using False by (simp add: frame_def del: le_enc.simps)
    have lr: "length ?rest = k - 4" using assms by (simp del: le_enc.simps)
    have r1: "ReadUInt32 (reader [] (?code @ ?rest) (of_nat k) False)
        = Inr (cd_code c, reader ?code ?rest (of_nat k) False)"
      using read_u32 [of "[]" ?rest "cd_code c"] lr assms by simp
    have r2: "ReadUInt32 (reader ?code ?rest (of_nat k) False) = Inl E_OUTOFMEMORY"
      using lr assms False by (simp add: ReadUInt32_def read_pod_reader_short)
    show ?thesis
      by (subst DecodeBuffer.simps) (simp only: lb Let_def buffer, simp only: b r1, simp add: r2 [simplified])
  qed
qed

theorem split_header_dropped_witness:
  "DecodeBuffer (\<lambda>_. True) InitCommandData (take 6 (frame (CCommandDisconnect 5))) = ([], InitCommandData)"
  by (rule split_header_dropped) simp_all

text \<open>
  A command of more than 10 MB desynchronises the stream: its header is dropped with the
  rest of the read, nothing of it is remembered, so the next read is parsed in the middle of
  its content.  A full picture in the bitmap format exceeds this from about 2560 by 1366
  pixels on.
\<close>

lemma oversized_command_dropped:
  assumes "cd_code c \<noteq> 0" and "10485760 < length (cd_data c)" and "length (cd_data c) < 2 ^ 32"
    and "8 \<le> k" and "k < 2 ^ 32" and "k \<le> length (frame c)"
  shows "DecodeBuffer can_alloc InitCommandData (take k (frame c)) = ([], InitCommandData)"
proof -
  let ?n = "of_nat (length (cd_data c)) :: u32" and ?rest = "take (k - 8) (cd_data c)"
  have b: "take k (frame c) = le_enc 4 (cd_code c) @ le_enc 4 ?n @ ?rest"
    using assms(4) by (simp add: frame_def del: le_enc.simps)
  have lb: "length (take k (frame c)) = k" using assms(6) by simp
  have ne: "take k (frame c) \<noteq> []" using lb assms(4) by (metis list.size(3) not_numeral_le_zero)
  have lr: "length ?rest = k - 8" using assms(6) by simp
  have buffer: "new_stream_buffer can_alloc (Some (take k (frame c))) (of_nat k) False
      = reader [] (le_enc 4 (cd_code c) @ le_enc 4 ?n @ ?rest) (of_nat k) False"
    using new_stream_buffer_reader [OF ne, of can_alloc False] lb assms(5) unfolding b by (simp del: le_enc.simps)
  have r1: "ReadUInt32 (reader [] (le_enc 4 (cd_code c) @ le_enc 4 ?n @ ?rest) (of_nat k) False)
      = Inr (cd_code c, reader (le_enc 4 (cd_code c)) (le_enc 4 ?n @ ?rest) (of_nat k) False)"
    using read_u32 [of "[]" "le_enc 4 ?n @ ?rest"] lr assms(4,5) by simp
  have r2: "ReadUInt32 (reader (le_enc 4 (cd_code c)) (le_enc 4 ?n @ ?rest) (of_nat k) False)
      = Inr (?n, reader (le_enc 4 (cd_code c) @ le_enc 4 ?n) ?rest (of_nat k) False)"
    using lr assms(4,5) by (simp add: read_u32)
  have big: "CMD_ITEM_SIZE_MAX < ?n"
    using assms(2,3) by (simp add: of_nat_gt_u32 CMD_ITEM_SIZE_MAX_def)
  show ?thesis
    using assms(1) big by (subst DecodeBuffer.simps) (simp add: Let_def lb [simplified] buffer [simplified] r1 [simplified] r2 [simplified] del: le_enc.simps)
qed

lemma oversized_command_dropped_witness:
  "\<exists>d. length d = 10485761
     \<and> DecodeBuffer (\<lambda>_. True) InitCommandData (take 4096 (frame (mk_command RDCC_TRANSFER_BITMAP d))) = ([], InitCommandData)"
proof -
  obtain d :: "byte list" where d: "length d = 10485761" using Ex_list_of_length by blast
  have "DecodeBuffer (\<lambda>_. True) InitCommandData (take 4096 (frame (mk_command RDCC_TRANSFER_BITMAP d))) = ([], InitCommandData)"
    by (rule oversized_command_dropped) (simp_all add: d)
  with d show ?thesis by blast
qed

end
