(* ===== verification/Client_Recv.thy ===== *)
theory Client_Recv
  imports Server_Recv
begin

text \<open>
  \<^verbatim>\<open>RemoteDesktopClient/ClientReciveCmd.cpp\<close>, \<^verbatim>\<open>ClientReciveCmdFactory.h\<close> and the
  decompressor of \<^verbatim>\<open>common/jpeg.h\<close>: the client's parsers.  libjpeg itself is a parameter
  \<open>jpeg\<close>: \<open>None\<close> is a picture it rejects (its standard error manager ends the process,
  \<open>LibExit\<close>), \<open>Some img\<close> gives the size, the number of components and the scan lines.
  Memory that \<open>new\<close> leaves uninitialised holds the bytes \<open>junk 0, junk 1, \<dots>\<close>.
\<close>

section \<open>Decompression\<close>

record jpeg_image =
  output_width :: nat
  output_height :: nat
  output_components :: nat
  scanlines :: "byte list list"

text \<open>What \<open>jpeg_read_scanlines\<close> delivers: \<open>height\<close> lines of \<open>width * components\<close> samples.\<close>

definition jpeg_wf :: "jpeg_image \<Rightarrow> bool" where
  "jpeg_wf img \<longleftrightarrow> length (scanlines img) = output_height img \<and>
     list_all (\<lambda>r. length r = output_width img * output_components img) (scanlines img)"

definition uninit :: "(nat \<Rightarrow> byte) \<Rightarrow> nat \<Rightarrow> byte list" where
  "uninit junk n = map junk [0..<n]"

lemma length_uninit [simp]: "length (uninit junk n) = n"
  by (simp add: uninit_def)

text \<open>
  One scan line: three samples per pixel, whatever the number of components is.
\<close>

definition copy_pixel :: "byte list \<Rightarrow> nat \<Rightarrow> nat \<Rightarrow> nat \<Rightarrow> byte list option \<Rightarrow> byte list option" where
  "copy_pixel buffer comps at i dest =
     (case dest of
        None \<Rightarrow> None
      | Some d \<Rightarrow>
          if length buffer < i * 3 + 3 \<or> length d < at + i * comps + 3 then None
          else Some (blit (at + i * comps) (take 3 (drop (i * 3) buffer)) d))"

fun copy_lines :: "nat \<Rightarrow> nat \<Rightarrow> nat \<Rightarrow> byte list list \<Rightarrow> byte list option \<Rightarrow> byte list option" where
  "copy_lines width comps line [] dest = dest"
| "copy_lines width comps line (buffer # rest) dest =
     copy_lines width comps (Suc line) rest
       (fold (copy_pixel buffer comps (line * (width * comps))) [0..<width] dest)"

definition JPEG_Decompress ::
  "(byte list \<Rightarrow> jpeg_image option) \<Rightarrow> (nat \<Rightarrow> byte) \<Rightarrow> byte list \<Rightarrow> bitmap_info
   \<Rightarrow> sb_error + (bitmap_info \<times> byte list)" where
  "JPEG_Decompress jpeg junk data pBitmapInfo =
     (case jpeg data of
        None \<Rightarrow> Inl LibExit
      | Some img \<Rightarrow>
          let row_stride = output_width img * output_components img;
              size = row_stride * output_height img;
              info = \<lparr>biSize = 40, biWidth = of_nat (output_width img), biHeight = of_nat (output_height img),
                      biPlanes = 1, biBitCount = 24, biCompression = 0, biSizeImage = of_nat size,
                      biXPelsPerMeter = 0, biYPelsPerMeter = 0, biClrUsed = 0, biClrImportant = 0,
                      bmiColors = bmiColors pBitmapInfo\<rparr>
          in case copy_lines (output_width img) (output_components img) 0 (scanlines img)
                    (Some (uninit junk size)) of
               None \<Rightarrow> Inl MemFault
             | Some dest \<Rightarrow> Inr (info, dest))"

lemma fold_copy_pixel:
  assumes "length buffer = 3 * width" and "k \<le> width" and "length pre = at" and "3 * width \<le> length post"
  shows "fold (copy_pixel buffer 3 at) [0..<k] (Some (pre @ post))
       = Some (pre @ take (3 * k) buffer @ drop (3 * k) post)"
  using assms(2)
proof (induction k)
  case 0
  then show ?case by simp
next
  case (Suc k)
  have l: "length (take (3 * k) buffer) = 3 * k" "length (take 3 (drop (k * 3) buffer)) = 3"
    using Suc.prems assms(1) by simp_all
  have "blit (at + k * 3) (take 3 (drop (k * 3) buffer)) (pre @ take (3 * k) buffer @ drop (3 * k) post)
      = pre @ take (3 * k) buffer @ take 3 (drop (3 * k) buffer) @ drop (3 * Suc k) post"
    using assms(3) l unfolding blit_def l(2) by (simp add: add.commute mult.commute)
  also have "take (3 * k) buffer @ take 3 (drop (3 * k) buffer) = take (3 * Suc k) buffer"
    using take_add [of "3 * k" 3 buffer] by (simp add: add.commute)
  then have "pre @ take (3 * k) buffer @ take 3 (drop (3 * k) buffer) @ drop (3 * Suc k) post
      = pre @ take (3 * Suc k) buffer @ drop (3 * Suc k) post" by simp
  finally show ?case
    using Suc assms l by (simp add: copy_pixel_def)
qed

lemma copy_lines_concat:
  assumes "list_all (\<lambda>r. length r = 3 * width) rows" and "length pre = line * (width * 3)"
    and "length post = 3 * width * length rows"
  shows "copy_lines width 3 line rows (Some (pre @ post)) = Some (pre @ concat rows)"
  using assms
proof (induction rows arbitrary: line pre post)
  case Nil
  then show ?case by simp
next
  case (Cons r rows)
  have "fold (copy_pixel r 3 (line * (width * 3))) [0..<width] (Some (pre @ post))
      = Some ((pre @ r) @ drop (3 * width) post)"
    using fold_copy_pixel [of r width width pre "line * (width * 3)" post] Cons.prems by simp
  then show ?case
    using Cons.IH [of "pre @ r" "Suc line" "drop (3 * width) post"] Cons.prems by simp
qed

section \<open>The parsers\<close>

datatype client_event =
    C_OnGetLogonResult u32
  | C_OnGetTransferBitmap bitmap_info u16 "byte list"
  | C_OnGetTransferModifyBitmap u32 "u32 list" u32 "byte list"
  | C_OnGetDisconnect u32

definition parse_LogonResult :: "(u32 \<Rightarrow> bool) \<Rightarrow> command_data \<Rightarrow> sb_error + client_event" where
  "parse_LogonResult can_alloc c =
     rd_bind (ReadInt32 (open_data can_alloc c)) (\<lambda>(nResult, _). Inr (C_OnGetLogonResult nResult))"

text \<open>
  The picture parser: a format that is neither of the two leaves all three members
  uninitialised or NULL and still makes the callback.
\<close>

definition parse_Bitmap ::
  "(byte list \<Rightarrow> jpeg_image option) \<Rightarrow> (nat \<Rightarrow> byte) \<Rightarrow> (u32 \<Rightarrow> bool) \<Rightarrow> byte list \<Rightarrow> command_data
   \<Rightarrow> sb_error + client_event" where
  "parse_Bitmap jpeg junk can_alloc strSuffix c =
     (let m_bitmapInfo = uninit junk sizeof_BitmapInfo; buffer = open_data can_alloc c in
      if strSuffix = BITMAP_SUFFIX_BMP then
        rd_bind (ReadStringUTF8_ptr m_bitmapInfo (of_nat sizeof_BitmapInfo) buffer) (\<lambda>(info, _, b1).
        rd_bind (ReadUInt16 b1) (\<lambda>(wPixelBytes, b2).
        rd_bind (ReadUInt32 b2) (\<lambda>(len, b3).
        if \<not> can_alloc len then Inl BadAlloc
        else
        rd_bind (ReadStringUTF8_ptr (uninit junk (unat len)) len b3) (\<lambda>(pBuffer, _, _).
        Inr (C_OnGetTransferBitmap (bitmap_info_of_bytes info) wPixelBytes pBuffer)))))
      else if strSuffix = BITMAP_SUFFIX_JPEG then
        rd_bind (ReadUInt16 buffer) (\<lambda>(wPixelBytes, b1).
        rd_bind (ReadUInt32 b1) (\<lambda>(len, b2).
        if \<not> can_alloc len then Inl BadAlloc
        else
        rd_bind (ReadStringUTF8_ptr (uninit junk (unat len)) len b2) (\<lambda>(pBuffer, len2, _).
        rd_bind (JPEG_Decompress jpeg junk (take (unat len2) pBuffer) (bitmap_info_of_bytes m_bitmapInfo))
          (\<lambda>(info, dest).
        Inr (C_OnGetTransferBitmap info wPixelBytes dest)))))
      else Inr (C_OnGetTransferBitmap (bitmap_info_of_bytes m_bitmapInfo) (le_dec (uninit junk 2)) []))"

text \<open>An array of \<open>unsigned int\<close> seen through its bytes.\<close>

fun u32s_of_bytes :: "nat \<Rightarrow> byte list \<Rightarrow> u32 list" where
  "u32s_of_bytes 0 bs = []"
| "u32s_of_bytes (Suc n) bs = le_dec (take 4 bs) # u32s_of_bytes n (drop 4 bs)"

text \<open>
  The modified-blocks parser.  \<open>new unsigned int[n]\<close> throws when \<open>4 * n\<close> overflows.  After
  a failed read of the buffer size the guard is \<open>ret && m_nBufferSize > 0\<close> on a member the
  constructors do not initialise (\<open>size0\<close>): when that holds 0 the parser goes on.
\<close>

definition parse_ModifyBitmap ::
  "(byte list \<Rightarrow> jpeg_image option) \<Rightarrow> (nat \<Rightarrow> byte) \<Rightarrow> u32 \<Rightarrow> (u32 \<Rightarrow> bool) \<Rightarrow> byte list \<Rightarrow> command_data
   \<Rightarrow> sb_error + client_event" where
  "parse_ModifyBitmap jpeg junk size0 can_alloc strSuffix c =
     rd_bind (ReadInt32 (open_data can_alloc c)) (\<lambda>(nCount, b1).
     if 2 ^ 32 \<le> 4 * unat nCount \<or> \<not> can_alloc (4 * nCount) then Inl BadAlloc
     else
     rd_bind (ReadStringUTF8_ptr (replicate (4 * unat nCount) 0) (nCount * 4) b1) (\<lambda>(blocks, _, b2).
     rd_bind
       (case ReadUInt32 b2 of
          Inr (n, b3) \<Rightarrow> Inr (n, b3)
        | Inl e \<Rightarrow> if e \<noteq> MemFault \<and> size0 = 0 then Inr (size0, b2) else Inl e)
       (\<lambda>(nBufferSize, b3).
     if \<not> can_alloc nBufferSize then Inl BadAlloc
     else
     rd_bind (ReadStringUTF8_ptr (uninit junk (unat nBufferSize)) nBufferSize b3)
       (\<lambda>(pBuffer, nBufferSize2, _).
     if strSuffix = BITMAP_SUFFIX_JPEG then
       rd_bind (JPEG_Decompress jpeg junk (take (unat nBufferSize2) pBuffer)
                  (bitmap_info_of_bytes (uninit junk sizeof_BitmapInfo)))
         (\<lambda>(info, dest).
       Inr (C_OnGetTransferModifyBitmap nCount (u32s_of_bytes (unat nCount) blocks) (biSizeImage info) dest))
     else
       Inr (C_OnGetTransferModifyBitmap nCount (u32s_of_bytes (unat nCount) blocks) nBufferSize2 pBuffer)))))"

definition parse_ServerDisconnect :: "(u32 \<Rightarrow> bool) \<Rightarrow> command_data \<Rightarrow> sb_error + client_event" where
  "parse_ServerDisconnect can_alloc c =
     rd_bind (ReadInt32 (open_data can_alloc c)) (\<lambda>(nCode, _). Inr (C_OnGetDisconnect nCode))"

text \<open>\<open>CClientReciveCmdFactory::CreateCmd\<close> and the call of \<open>Parse\<close>.\<close>

definition client_parse ::
  "(byte list \<Rightarrow> jpeg_image option) \<Rightarrow> (nat \<Rightarrow> byte) \<Rightarrow> u32 \<Rightarrow> (u32 \<Rightarrow> bool) \<Rightarrow> byte list \<Rightarrow> command_data
   \<Rightarrow> (sb_error + client_event) option" where
  "client_parse jpeg junk size0 can_alloc strSuffix c =
     (if cd_code c = RDCC_LOGON_RESULT then Some (parse_LogonResult can_alloc c)
      else if cd_code c = RDCC_TRANSFER_BITMAP then Some (parse_Bitmap jpeg junk can_alloc strSuffix c)
      else if cd_code c = RDCC_TRANSFER_MODIFY_BITMAP
        then Some (parse_ModifyBitmap jpeg junk size0 can_alloc strSuffix c)
      else if cd_code c = RDCC_DISCONNECT then Some (parse_ServerDisconnect can_alloc c)
      else None)"

section \<open>Properties\<close>

text \<open>
  A colour JPEG (three components) is unpacked to exactly its scan lines, one after
  the other without padding, with the header of a 24-bit bitmap of the picture's size.
\<close>

lemma JPEG_Decompress_rgb:
  assumes "jpeg data = Some img" and "jpeg_wf img" and "output_components img = 3"
  shows "\<exists>info. JPEG_Decompress jpeg junk data info0 = Inr (info, concat (scanlines img))
    \<and> biWidth info = of_nat (output_width img) \<and> biHeight info = of_nat (output_height img)
    \<and> biBitCount info = 24 \<and> biSizeImage info = of_nat (length (concat (scanlines img)))
    \<and> bmiColors info = bmiColors info0"
proof -
  let ?n = "output_width img * 3 * output_height img"
  have rows: "list_all (\<lambda>r. length r = 3 * output_width img) (scanlines img)"
    and h: "length (scanlines img) = output_height img"
    using assms(2,3) by (simp_all add: jpeg_wf_def mult.commute)
  have len: "length (concat rs) = 3 * output_width img * length rs"
    if "list_all (\<lambda>r. length r = 3 * output_width img) rs" for rs :: "byte list list"
    using that by (induction rs) auto
  have "copy_lines (output_width img) 3 0 (scanlines img) (Some ([] @ uninit junk ?n))
      = Some ([] @ concat (scanlines img))"
    by (rule copy_lines_concat [OF rows]) (simp_all add: h)
  moreover have "length (concat (scanlines img)) = ?n" using len [OF rows] h by simp
  ultimately show ?thesis
    using assms(1,3) by (simp add: JPEG_Decompress_def Let_def del: of_nat_mult)
qed

lemma JPEG_Decompress_rgb_witness:
  "\<exists>info. JPEG_Decompress (\<lambda>_. Some \<lparr>output_width = 1, output_height = 2, output_components = 3,
       scanlines = [[1, 2, 3], [4, 5, 6]]\<rparr>) (\<lambda>_. 0) [255] (bitmap_info_of_bytes [])
     = Inr (info, [1, 2, 3, 4, 5, 6]) \<and> biSizeImage info = 6"
proof -
  define img where "img = \<lparr>output_width = 1, output_height = 2, output_components = 3,
       scanlines = [[1, 2, 3 :: byte], [4, 5, 6]]\<rparr>"
  have "jpeg_wf img" "output_components img = 3" by (simp_all add: img_def jpeg_wf_def)
  from JPEG_Decompress_rgb [of "\<lambda>_. Some img", OF refl this, of "\<lambda>_. 0" "[255]" "bitmap_info_of_bytes []"]
  show ?thesis by (auto simp: img_def)
qed

lemma fold_copy_pixel_None: "fold (copy_pixel buffer comps at) xs None = None"
  by (induction xs) (simp_all add: copy_pixel_def)

lemma copy_lines_None: "copy_lines width comps line rows None = None"
  by (induction rows arbitrary: line) (simp_all add: fold_copy_pixel_None)

text \<open>
  A greyscale JPEG makes the client read past the scan line's memory: the loop takes
  three samples per pixel of a line that has one.
\<close>

lemma JPEG_Decompress_grey:
  assumes "jpeg data = Some img" and "jpeg_wf img" and "output_components img = 1"
    and "0 < output_width img" and "0 < output_height img"
  shows "JPEG_Decompress jpeg junk data info0 = Inl MemFault"
proof -
  obtain r rows where s: "scanlines img = r # rows" and r: "length r = output_width img"
    using assms(2,3,5) by (cases "scanlines img") (auto simp: jpeg_wf_def)
  have "[0..<output_width img] = [0..<output_width img - 1] @ [output_width img - 1]"
    using assms(4) by (metis Suc_pred' le0 upt_Suc_append)
  then have "fold (copy_pixel r 1 0) [0..<output_width img] d = None" for d
    using r assms(4) by (auto simp: copy_pixel_def split: option.splits)
  then show ?thesis
    using assms(1,3) s by (simp add: JPEG_Decompress_def Let_def copy_lines_None)
qed

lemma JPEG_Decompress_grey_witness:
  "JPEG_Decompress (\<lambda>_. Some \<lparr>output_width = 2, output_height = 1, output_components = 1,
       scanlines = [[7, 8]]\<rparr>) (\<lambda>_. 0) [255] (bitmap_info_of_bytes []) = Inl MemFault"
proof -
  define img where "img = \<lparr>output_width = 2, output_height = 1, output_components = 1,
       scanlines = [[7, 8 :: byte]]\<rparr>"
  have "jpeg_wf img" "output_components img = 1" "0 < output_width img" "0 < output_height img"
    by (simp_all add: img_def jpeg_wf_def)
  from JPEG_Decompress_grey [of "\<lambda>_. Some img", OF refl this]
  show ?thesis by (simp add: img_def)
qed

text \<open>A read into an array of the announced size that gets everything it asks for.\<close>

lemma read_ptr_exact:
  assumes "length s = n" and "length pre + n + length rest < 2 ^ 32" and "length p = n" and "w = of_nat n"
  shows "ReadStringUTF8_ptr p w (reader pre (s @ rest) sz ow) = Inr (s, w, reader (pre @ s) rest sz ow)"
proof (cases "s = []")
  case True
  then show ?thesis using assms by (simp add: ReadStringUTF8_ptr_def)
next
  case False
  have n: "unat w = n" using assms(2,4) by (simp add: unat_of_nat_u32)
  then have w: "w \<noteq> 0" using False assms(1) by auto
  have "ReadStringUTF8 [] w (reader pre (s @ rest) sz ow) = Inr (s, w, reader (pre @ s) rest sz ow)"
    using w assms(1,2,4) n by (simp add: ReadStringUTF8_reader Let_def)
  then show ?thesis
    using w assms(1,3)
    by (auto simp: ReadStringUTF8_ptr_def ReadStringUTF8_def Let_def blit_def split: sum.splits)
qed

lemmas read_ptr_last = read_ptr_exact [where rest = "[]", simplified]

lemma concat_le_enc_length [simp]: "length (concat (map (le_enc 4) xs)) = 4 * length xs"
  by (induction xs) auto

lemma u32s_of_bytes_enc: "u32s_of_bytes (length xs) (concat (map (le_enc 4) xs) @ rest) = xs"
  by (induction xs) (simp_all add: le_dec_enc del: le_enc.simps)

lemma client_bitmap_parse:
  assumes "length (bmiColors info) = 1024" and "unat (biSizeImage info) = length pixels"
    and "1070 + length pixels < 2 ^ 32" and "can_alloc (biSizeImage info)"
  shows "\<exists>c. CCommandTransferBitmapServer info px pixels = Some c
    \<and> client_parse jpeg junk size0 can_alloc BITMAP_SUFFIX_BMP c
      = Some (Inr (C_OnGetTransferBitmap info px pixels))"
proof -
  let ?data = "bitmap_info_bytes info @ le_enc 2 px @ le_enc 4 (biSizeImage info) @ pixels"
  define c where "c = mk_command RDCC_TRANSFER_BITMAP ?data"
  have n: "of_nat (length pixels) = biSizeImage info" by (simp flip: assms(2))
  have c: "CCommandTransferBitmapServer info px pixels = Some c"
    using assms(2) by (simp add: CCommandTransferBitmapServer_def c_def)
  have o: "open_data can_alloc c = reader [] ?data (of_nat (length ?data)) False"
    using assms(1,3) by (subst open_data_reader) (simp_all add: c_def)
  show ?thesis
    using assms c
    by (simp add: client_parse_def c_def [symmetric] parse_Bitmap_def o Let_def sizeof_BitmapInfo_def
        read_ptr_exact read_u16 read_u32 read_ptr_last n bitmap_info_roundtrip del: le_enc.simps)
       (simp add: c_def)
qed

text \<open>The header of a picture of two pixels.\<close>

definition demo_info :: bitmap_info where
  "demo_info = \<lparr>biSize = 40, biWidth = 2, biHeight = 1, biPlanes = 1, biBitCount = 32, biCompression = 0,
     biSizeImage = 8, biXPelsPerMeter = 0, biYPelsPerMeter = 0, biClrUsed = 0, biClrImportant = 0,
     bmiColors = replicate 1024 0\<rparr>"

text \<open>
  Picture round trip, server to client: the full-screen bitmap command is parsed back
  to the same header, pixel size and pixels.
\<close>

lemma client_bitmap_roundtrip:
  assumes "length (bmiColors info) = 1024" and "unat (biSizeImage info) = length pixels"
    and "1070 + length pixels < 2 ^ 32" and "can_alloc (biSizeImage info)"
  shows "\<exists>c. CCommandTransferBitmapServer info px pixels = Some c
    \<and> client_parse jpeg junk size0 can_alloc BITMAP_SUFFIX_BMP c
      = Some (Inr (C_OnGetTransferBitmap info px pixels))"
  using assms by (rule client_bitmap_parse)

lemma client_bitmap_roundtrip_witness:
  "\<exists>c. CCommandTransferBitmapServer demo_info 32 [1, 2, 3, 4, 5, 6, 7, 8] = Some c
    \<and> client_parse (\<lambda>_. None) (\<lambda>_. 0) 0 (\<lambda>_. True) BITMAP_SUFFIX_BMP c
      = Some (Inr (C_OnGetTransferBitmap demo_info 32 [1, 2, 3, 4, 5, 6, 7, 8]))"
  by (rule client_bitmap_roundtrip) (simp_all add: demo_info_def)

lemma client_modify_parse:
  assumes "0 < length blocks" and "12 + 4 * length blocks + length pixels < 2 ^ 32"
    and "\<forall>n. can_alloc n"
  shows "\<exists>c. CCommandTransferModifyBitmap (of_nat (length blocks)) blocks (of_nat (length pixels)) pixels = Some c
    \<and> client_parse jpeg junk size0 can_alloc BITMAP_SUFFIX_BMP c
      = Some (Inr (C_OnGetTransferModifyBitmap (of_nat (length blocks)) blocks (of_nat (length pixels)) pixels))
    \<and> client_parse jpeg junk size0 can_alloc BITMAP_SUFFIX_JPEG c
      = Some (case JPEG_Decompress jpeg junk pixels (bitmap_info_of_bytes (uninit junk 1064)) of
          Inl e \<Rightarrow> Inl e
        | Inr (info, dest) \<Rightarrow>
            Inr (C_OnGetTransferModifyBitmap (of_nat (length blocks)) blocks (biSizeImage info) dest))"
proof -
  let ?k = "of_nat (length blocks) :: u32" and ?n = "of_nat (length pixels) :: u32"
  let ?bs = "concat (map (le_enc 4) blocks)"
  let ?data = "le_enc 4 ?k @ ?bs @ le_enc 4 ?n @ pixels"
  define c where "c = mk_command RDCC_TRANSFER_MODIFY_BITMAP ?data"
  have k: "unat ?k = length blocks" and n: "unat ?n = length pixels"
    using assms(2) by (simp_all add: unat_of_nat_u32)
  have c: "CCommandTransferModifyBitmap ?k blocks ?n pixels = Some c"
    by (simp add: CCommandTransferModifyBitmap_def c_def k n)
  have o: "open_data can_alloc c = reader [] ?data (of_nat (length ?data)) False"
    using assms(2) by (subst open_data_reader) (simp_all add: c_def)
  have "?k * 4 = of_nat (4 * length blocks)" by simp
  note blocks_read = read_ptr_exact [of ?bs "4 * length blocks" _ _ _ "?k * 4", OF _ _ _ this, simplified]
  have "u32s_of_bytes (length blocks) ?bs = blocks"
    using u32s_of_bytes_enc [of blocks "[]"] by simp
  then have "client_parse jpeg junk size0 can_alloc sfx c =
      Some (if sfx = BITMAP_SUFFIX_JPEG then
        case JPEG_Decompress jpeg junk pixels (bitmap_info_of_bytes (uninit junk 1064)) of
          Inl e \<Rightarrow> Inl e
        | Inr (info, dest) \<Rightarrow> Inr (C_OnGetTransferModifyBitmap ?k blocks (biSizeImage info) dest)
      else Inr (C_OnGetTransferModifyBitmap ?k blocks ?n pixels))" for sfx
    using assms
    by (simp add: client_parse_def parse_ModifyBitmap_def o k n sizeof_BitmapInfo_def
        blocks_read read_i32 read_u32 read_ptr_last rd_bind_def [of "JPEG_Decompress _ _ _ _"] del: le_enc.simps)
       (simp add: c_def split: sum.split)
  then show ?thesis
    using c by (simp add: BITMAP_SUFFIX_JPEG_def BITMAP_SUFFIX_BMP_def)
qed

text \<open>
  Modified blocks round trip, server to client: the block list and the pixels come
  back as they were sent, in both picture formats; with JPEG the pixels are what the
  decoder makes of them.
\<close>

lemma client_modify_roundtrip:
  assumes "0 < length blocks" and "12 + 4 * length blocks + length pixels < 2 ^ 32"
    and "\<forall>n. can_alloc n"
  shows "\<exists>c. CCommandTransferModifyBitmap (of_nat (length blocks)) blocks (of_nat (length pixels)) pixels = Some c
    \<and> client_parse jpeg junk size0 can_alloc BITMAP_SUFFIX_BMP c
      = Some (Inr (C_OnGetTransferModifyBitmap (of_nat (length blocks)) blocks (of_nat (length pixels)) pixels))
    \<and> client_parse jpeg junk size0 can_alloc BITMAP_SUFFIX_JPEG c
      = Some (case JPEG_Decompress jpeg junk pixels (bitmap_info_of_bytes (uninit junk 1064)) of
          Inl e \<Rightarrow> Inl e
        | Inr (info, dest) \<Rightarrow>
            Inr (C_OnGetTransferModifyBitmap (of_nat (length blocks)) blocks (biSizeImage info) dest))"
  using assms by (rule client_modify_parse)

lemma client_modify_roundtrip_witness:
  "\<exists>c. CCommandTransferModifyBitmap 2 [1, 3] 3 [7, 8, 9] = Some c
    \<and> client_parse (\<lambda>_. None) (\<lambda>_. 0) 5 (\<lambda>_. True) BITMAP_SUFFIX_BMP c
      = Some (Inr (C_OnGetTransferModifyBitmap 2 [1, 3] 3 [7, 8, 9]))"
  using client_modify_roundtrip [of "[1, 3]" "[7, 8, 9]" "\<lambda>_. True" "\<lambda>_. None" "\<lambda>_. 0" 5] by auto

end
