(* ===== verification/Screen_Grid.thy ===== *)
theory Screen_Grid
  imports RD_Prelude
begin

text \<open>
  Geometry of the picture in memory: rows of \<open>W\<close> bytes, cut into columns of \<open>U\<close> bytes of
  which the last one is shorter.  A cell is the part of one row in one column.  Server and
  client both walk the picture cell by cell; what they share is here.
\<close>

text \<open>Byte width of column \<open>c\<close> of \<open>cols\<close> columns.\<close>

definition cell_width :: "nat \<Rightarrow> nat \<Rightarrow> nat \<Rightarrow> nat \<Rightarrow> nat" where
  "cell_width W U cols c = (if c = cols - 1 then W - (cols - 1) * U else U)"

text \<open>A grid: the columns cover a row, and only the last one may be short.\<close>

definition grid :: "nat \<Rightarrow> nat \<Rightarrow> nat \<Rightarrow> bool" where
  "grid W U cols \<longleftrightarrow> 0 < U \<and> 0 < cols \<and> (cols - 1) * U < W \<and> W \<le> cols * U"

definition cell :: "nat \<Rightarrow> nat \<Rightarrow> nat \<Rightarrow> nat \<Rightarrow> nat \<Rightarrow> byte list \<Rightarrow> byte list" where
  "cell W U cols y c buf = seg (y * W + c * U) (cell_width W U cols c) buf"

lemma cell_width_le: "grid W U cols \<Longrightarrow> c < cols \<Longrightarrow> cell_width W U cols c \<le> U"
  by (cases cols) (auto simp: cell_width_def grid_def)

lemma cell_in_row:
  assumes "grid W U cols" and "c < cols"
  shows "c * U + cell_width W U cols c \<le> W"
proof (cases "c = cols - 1")
  case True
  then show ?thesis using assms by (auto simp: cell_width_def grid_def)
next
  case False
  then have "Suc c \<le> cols - 1" using assms(2) by linarith
  then have "Suc c * U \<le> (cols - 1) * U" by (rule mult_le_mono1)
  then show ?thesis using False assms(1) by (auto simp: cell_width_def grid_def)
qed

lemma cell_in_buffer:
  assumes "grid W U cols" and "c < cols" and "y < h" and "h * W \<le> length buf"
  shows "y * W + c * U + cell_width W U cols c \<le> length buf"
proof -
  have "Suc y * W \<le> h * W" using assms(3) by (intro mult_le_mono1) simp
  then show ?thesis using cell_in_row [OF assms(1,2)] assms(4) by auto
qed

text \<open>Two different slots of a table with rows of \<open>W\<close> and slots of \<open>U\<close> do not overlap.\<close>

lemma slots_disjoint:
  fixes W U :: nat
  assumes "(y, c) \<noteq> (y', c')" and "c * U + n \<le> W" and "c' * U + n' \<le> W" and "n \<le> U" and "n' \<le> U"
  shows "y * W + c * U + n \<le> y' * W + c' * U \<or> y' * W + c' * U + n' \<le> y * W + c * U"
proof -
  have step: "a * W + b * U + k \<le> a' * W + b' * U"
    if "a < a' \<or> a = a' \<and> b < b'" "b * U + k \<le> W" "k \<le> U" for a b a' b' k :: nat
    using that(1)
  proof
    assume "a < a'"
    then have "Suc a * W \<le> a' * W" by (intro mult_le_mono1) simp
    then show ?thesis using that(2) by auto
  next
    assume "a = a' \<and> b < b'"
    moreover then have "Suc b * U \<le> b' * U" by (intro mult_le_mono1) simp
    ultimately show ?thesis using that(3) by auto
  qed
  show ?thesis
    using assms step [of y y' c c' n] step [of y' y c' c n'] by (cases "y = y'") (auto simp: nat_neq_iff)
qed

lemma cell_blit_other:
  assumes "grid W U cols" and "c < cols" and "c' < cols" and "(y, c) \<noteq> (y', c')"
    and "length src = cell_width W U cols c'" and "y' * W + c' * U + length src \<le> length buf"
  shows "cell W U cols y c (blit (y' * W + c' * U) src buf) = cell W U cols y c buf"
  unfolding cell_def
  using slots_disjoint [OF assms(4) cell_in_row cell_in_row cell_width_le cell_width_le, OF assms(1,2) assms(1,3) assms(1,2) assms(1,3)] assms(5,6)
  by (intro seg_blit_other) auto

lemma cell_blit_same:
  assumes "length src = cell_width W U cols c" and "y * W + c * U + length src \<le> length buf"
  shows "cell W U cols y c (blit (y * W + c * U) src buf) = src"
  using assms by (simp add: cell_def seg_blit_same)

text \<open>The cells cover the picture.\<close>

lemma cells_cover:
  assumes g: "grid W U cols" and a: "h * W \<le> length a" and b: "h * W \<le> length b"
    and eq: "\<And>y c. y < h \<Longrightarrow> c < cols \<Longrightarrow> cell W U cols y c a = cell W U cols y c b"
  shows "take (h * W) a = take (h * W) b"
proof (rule nth_equalityI)
  show "length (take (h * W) a) = length (take (h * W) b)" using a b by simp
next
  fix p assume "p < length (take (h * W) a)"
  then have p: "p < h * W" by simp
  define y x where "y = p div W" and "x = p mod W"
  define c k where "c = x div U" and "k = x mod U"
  have W0: "0 < W" and U0: "0 < U" using g by (auto simp: grid_def)
  have y: "y < h" using p by (simp add: y_def less_mult_imp_div_less)
  have x: "x < W" using W0 by (simp add: x_def)
  have c: "c < cols" using x g by (auto simp: c_def grid_def intro: less_mult_imp_div_less)
  have xk: "x = c * U + k" by (simp add: c_def k_def)
  have k: "k < cell_width W U cols c" using x U0 by (auto simp: cell_width_def xk) (simp add: k_def)
  have pk: "y * W + c * U + k = p" using xk by (simp add: y_def x_def add.assoc flip: xk)
  have "a ! p = cell W U cols y c a ! k"
    using k pk p a by (simp add: cell_def nth_seg)
  also have "\<dots> = cell W U cols y c b ! k" using eq [OF y c] by simp
  also have "\<dots> = b ! p" using k pk p b by (simp add: cell_def nth_seg)
  finally show "take (h * W) a ! p = take (h * W) b ! p" using p by simp
qed

end
