(* ===== verification/Screen.thy ===== *)
theory Screen
  imports Commands Screen_Grid
begin

text \<open>
  \<^verbatim>\<open>RemoteDesktopServer/ScreenBitmap.cpp\<close>: the captured screen, the search for modified
  blocks and the clipping of one block.  The object is a record with the class's members.
  Offsets and counts of the server side are natural numbers: they are bounded by the size of
  the picture, an object of the 32-bit address space.  What Windows answers when the desktop
  is copied (the header and the pixels of \<open>GetDIBits\<close>) is an argument.
\<close>

section \<open>The object\<close>

definition SCAN_MODIFY_RECT_UNIT :: nat where "SCAN_MODIFY_RECT_UNIT = 32"

record screen =
  scr_thread :: bool
  scr_hWnd :: bool
  scr_event :: bool
  scr_w :: nat
  scr_h :: nat
  scr_info :: bitmap_info
  scr_buffer :: "byte list option"
  scr_px :: nat
  scr_rows :: nat
  scr_cols :: nat

definition scan_points :: "nat \<Rightarrow> nat" where
  "scan_points n = (n - 1) div SCAN_MODIFY_RECT_UNIT + 1"

definition CScreenBitmap :: "nat \<Rightarrow> nat \<Rightarrow> byte list \<Rightarrow> screen" where
  "CScreenBitmap width height colors =
     \<lparr>scr_thread = False, scr_hWnd = False, scr_event = False, scr_w = width, scr_h = height,
      scr_info = \<lparr>biSize = 40, biWidth = of_nat width, biHeight = of_nat height, biPlanes = 1,
        biBitCount = 24, biCompression = 0, biSizeImage = 0, biXPelsPerMeter = 0, biYPelsPerMeter = 0,
        biClrUsed = 0, biClrImportant = 0, bmiColors = colors\<rparr>,
      scr_buffer = None, scr_px = 24 div 8,
      scr_rows = scan_points height, scr_cols = scan_points width\<rparr>"

definition StartCapture :: "screen \<Rightarrow> screen" where
  "StartCapture scr =
     (if scr_thread scr then scr else scr\<lparr>scr_event := True, scr_hWnd := True, scr_thread := True\<rparr>)"

definition StopCapture :: "screen \<Rightarrow> screen" where
  "StopCapture scr =
     (let scr1 = (if scr_thread scr then scr\<lparr>scr_thread := False, scr_hWnd := False\<rparr> else scr) in
      scr1\<lparr>scr_buffer := None, scr_event := False, scr_w := 0, scr_h := 0\<rparr>)"

text \<open>\<open>GetBuffer\<close>: the memory and the offset of pixel \<open>(x, y)\<close> in it.\<close>

definition GetBuffer :: "nat \<Rightarrow> nat \<Rightarrow> screen \<Rightarrow> (byte list \<times> nat) option" where
  "GetBuffer x y scr =
     map_option (\<lambda>buf. (buf, y * (unat (biWidth (scr_info scr)) * scr_px scr) + x * scr_px scr)) (scr_buffer scr)"

section \<open>Searching for modified blocks\<close>

text \<open>
  One step of the innermost loop: the state is the pbModifyMask, the number of marked blocks and
  the position in the two pictures.  \<open>memcmp\<close> is not reached for a block already marked;
  beyond the end of a picture it faults.
\<close>

fun scan_cell ::
  "nat \<Rightarrow> nat \<Rightarrow> nat \<Rightarrow> byte list \<Rightarrow> byte list \<Rightarrow> nat \<Rightarrow> nat \<Rightarrow> bool list \<times> nat \<times> nat
   \<Rightarrow> (bool list \<times> nat \<times> nat) option" where
  "scan_cell cols unitBytes lastBytes new old row column (pbModifyMask, count, start) =
     (let nModifyIndex = row * cols + column;
          n = (if column = cols - 1 then lastBytes else unitBytes) in
      if pbModifyMask ! nModifyIndex then Some (pbModifyMask, count, start + n)
      else if length new < start + n \<or> length old < start + n then None
      else if seg start n new \<noteq> seg start n old
        then Some (pbModifyMask[nModifyIndex := True], count + 1, start + n)
      else Some (pbModifyMask, count, start + n))"

definition GetModifiedBlocks :: "screen \<Rightarrow> byte list \<Rightarrow> byte list \<Rightarrow> (nat \<times> nat list) option" where
  "GetModifiedBlocks scr new old =
     (let rows = scr_rows scr; cols = scr_cols scr;
          nRowPixelByteCount = scr_px scr * unat (biWidth (scr_info scr));
          nScanUnitPixelByteCount = SCAN_MODIFY_RECT_UNIT * scr_px scr;
          nLastScanPixelByteCount = nRowPixelByteCount - (cols - 1) * nScanUnitPixelByteCount in
      case foldM (\<lambda>row.
             foldM (\<lambda>unitRow.
               foldM (scan_cell cols nScanUnitPixelByteCount nLastScanPixelByteCount new old row) [0..<cols])
               [row * SCAN_MODIFY_RECT_UNIT..<min (row * SCAN_MODIFY_RECT_UNIT + SCAN_MODIFY_RECT_UNIT)
                                                (unat (biHeight (scr_info scr)))])
             [0..<rows] (replicate (rows * cols) False, 0, 0) of
        None \<Rightarrow> None
      | Some (pbModifyMask, count, _) \<Rightarrow> Some (count, filter (\<lambda>i. pbModifyMask ! i) [0..<rows * cols]))"

text \<open>
  \<open>CaptureDesktop\<close>: \<open>grab\<close> is what \<open>GetDIBits\<close> delivers.  The result is the new object and
  the message sent to the window.
\<close>

datatype capture_msg = NoMsg | ScreenModified nat "nat list" | ScreenFirstBitmap

definition CaptureDesktop :: "(bitmap_info \<times> byte list) option \<Rightarrow> screen \<Rightarrow> (screen \<times> capture_msg) option" where
  "CaptureDesktop grab scr =
     (let scr1 = (case grab of None \<Rightarrow> scr | Some (info, _) \<Rightarrow> scr\<lparr>scr_info := info\<rparr>);
          pNewBuffer = map_option snd grab in
      if \<not> scr_hWnd scr then Some (scr1, NoMsg)
      else
        case scr_buffer scr of
          Some pLastBuffer \<Rightarrow>
            (case pNewBuffer of
               None \<Rightarrow> None
             | Some new \<Rightarrow>
                 (case GetModifiedBlocks scr1 new pLastBuffer of
                    None \<Rightarrow> None
                  | Some (count, blocks) \<Rightarrow>
                      Some (scr1\<lparr>scr_buffer := Some new\<rparr>,
                            if scr_event scr \<and> count > 0 then ScreenModified count blocks else NoMsg)))
        | None \<Rightarrow> Some (scr1\<lparr>scr_buffer := pNewBuffer\<rparr>, ScreenFirstBitmap))"

section \<open>Clipping\<close>

record crect =
  rc_left :: int
  rc_top :: int
  rc_right :: int
  rc_bottom :: int

definition Width :: "crect \<Rightarrow> int" where "Width rc = rc_right rc - rc_left rc"

definition Height :: "crect \<Rightarrow> int" where "Height rc = rc_bottom rc - rc_top rc"

definition to_uint :: "int \<Rightarrow> nat" where "to_uint n = nat (n mod 2 ^ 32)"

text \<open>
  The outcome is a fault, the \<open>false\<close> of an empty or outside rectangle, or the clipped
  rectangle with its pixels.
\<close>

definition ClipBitmapRect :: "(nat \<Rightarrow> byte) \<Rightarrow> screen \<Rightarrow> crect \<Rightarrow> (crect \<times> byte list) option option" where
  "ClipBitmapRect junk scr rc =
     (if rc_right rc \<le> rc_left rc \<or> rc_bottom rc \<le> rc_top rc then Some None
      else if rc_left rc > int (scr_w scr) \<or> rc_top rc > int (scr_h scr) then Some None
      else
        let rc1 = \<lparr>rc_left = max 0 (rc_left rc), rc_top = max 0 (rc_top rc),
                   rc_right = min (rc_right rc) (int (scr_w scr)),
                   rc_bottom = min (rc_bottom rc) (int (scr_h scr))\<rparr>;
            nClipRowPixelByteCount = to_uint (Width rc1 * int (scr_px scr));
            len = to_uint (Width rc1 * Height rc1 * int (scr_px scr)) in
        case foldM (\<lambda>row clip.
               case GetBuffer (to_uint (rc_left rc1)) row scr of
                 None \<Rightarrow> None
               | Some (buf, off) \<Rightarrow>
                   memcpy ((row - to_uint (rc_top rc1)) * nClipRowPixelByteCount) buf off nClipRowPixelByteCount clip)
               [to_uint (rc_top rc1)..<to_uint (rc_bottom rc1)] (map junk [0..<len]) of
          None \<Rightarrow> None
        | Some clip \<Rightarrow> Some (Some (rc1, clip)))"

section \<open>The screen's invariant\<close>

text \<open>
  The picture fits the header, the header fits the window, and its memory holds at least
  its rows (the rows of a bitmap may be followed by padding).
\<close>

definition row_bytes :: "screen \<Rightarrow> nat" where "row_bytes scr = scr_px scr * scr_w scr"

definition block_bytes :: "screen \<Rightarrow> nat" where "block_bytes scr = SCAN_MODIFY_RECT_UNIT * scr_px scr"

definition picture :: "screen \<Rightarrow> byte list \<Rightarrow> byte list" where
  "picture scr buf = take (scr_h scr * row_bytes scr) buf"

definition scr_ok :: "screen \<Rightarrow> bool" where
  "scr_ok scr \<longleftrightarrow>
     0 < scr_px scr \<and> 0 < scr_w scr \<and> 0 < scr_h scr \<and> scr_h scr * row_bytes scr < 2 ^ 31
     \<and> biWidth (scr_info scr) = of_nat (scr_w scr) \<and> biHeight (scr_info scr) = of_nat (scr_h scr)
     \<and> scr_rows scr = scan_points (scr_h scr) \<and> scr_cols scr = scan_points (scr_w scr)
     \<and> (case scr_buffer scr of None \<Rightarrow> True | Some buf \<Rightarrow> scr_h scr * row_bytes scr \<le> length buf)"

lemma scan_points_bounds:
  assumes "0 < n"
  shows "(scan_points n - 1) * 32 < n" "n \<le> scan_points n * 32" "0 < scan_points n"
  using assms by (auto simp: scan_points_def SCAN_MODIFY_RECT_UNIT_def)

lemma scr_ok_grid: "scr_ok scr \<Longrightarrow> grid (row_bytes scr) (block_bytes scr) (scr_cols scr)"
proof -
  assume ok: "scr_ok scr"
  then have w: "0 < scr_w scr" and px: "0 < scr_px scr" and c: "scr_cols scr = scan_points (scr_w scr)"
    by (simp_all add: scr_ok_def)
  note b = scan_points_bounds [OF w, folded c]
  have "scr_px scr * ((scr_cols scr - 1) * 32) < scr_px scr * scr_w scr"
    using b(1) px by (rule mult_strict_left_mono)
  moreover have "scr_px scr * scr_w scr \<le> scr_px scr * (scr_cols scr * 32)"
    using b(2) by (rule mult_left_mono) simp
  ultimately show ?thesis
    using b(3) px by (simp add: grid_def row_bytes_def block_bytes_def SCAN_MODIFY_RECT_UNIT_def ac_simps)
qed

lemma scr_ok_small:
  assumes "scr_ok scr"
  shows "scr_w scr < 2 ^ 31" "scr_h scr < 2 ^ 31" "row_bytes scr < 2 ^ 31"
proof -
  have p: "0 < scr_px scr" "0 < scr_w scr" "0 < scr_h scr" and b: "scr_h scr * row_bytes scr < 2 ^ 31"
    using assms by (simp_all add: scr_ok_def)
  have r: "scr_w scr \<le> row_bytes scr" "0 < row_bytes scr" using p by (simp_all add: row_bytes_def)
  have "row_bytes scr \<le> scr_h scr * row_bytes scr" "scr_h scr \<le> scr_h scr * row_bytes scr"
    using p r by simp_all
  then show "scr_w scr < 2 ^ 31" "scr_h scr < 2 ^ 31" "row_bytes scr < 2 ^ 31"
    using b r by linarith+
qed

lemma scr_ok_info:
  assumes "scr_ok scr"
  shows "unat (biWidth (scr_info scr)) = scr_w scr" "unat (biHeight (scr_info scr)) = scr_h scr"
  using assms scr_ok_small [OF assms] by (simp_all add: scr_ok_def unat_of_nat_u32)

text \<open>The constructor establishes it for a real desktop.\<close>

lemma scr_ok_new:
  "0 < width \<Longrightarrow> 0 < height \<Longrightarrow> height * (3 * width) < 2 ^ 31 \<Longrightarrow> scr_ok (CScreenBitmap width height colors)"
  by (simp add: scr_ok_def CScreenBitmap_def row_bytes_def)

section \<open>The search finds exactly the modified blocks\<close>

text \<open>Block \<open>i\<close> differs when one of the cells of its rows does.\<close>

definition cells_differ :: "screen \<Rightarrow> byte list \<Rightarrow> byte list \<Rightarrow> nat \<Rightarrow> nat \<Rightarrow> bool" where
  "cells_differ scr new old y c \<longleftrightarrow>
     cell (row_bytes scr) (block_bytes scr) (scr_cols scr) y c new
     \<noteq> cell (row_bytes scr) (block_bytes scr) (scr_cols scr) y c old"

text \<open>The marks once all rows above \<open>y\<close> and the first \<open>k\<close> columns of row \<open>y\<close> are done.\<close>

definition marked :: "screen \<Rightarrow> byte list \<Rightarrow> byte list \<Rightarrow> nat \<Rightarrow> nat \<Rightarrow> nat \<Rightarrow> bool" where
  "marked scr new old y k i \<longleftrightarrow>
     (\<exists>y'\<le>y. \<exists>c < scr_cols scr. (y' < y \<or> c < k) \<and> i = y' div 32 * scr_cols scr + c
        \<and> cells_differ scr new old y' c)"

definition scan_state :: "screen \<Rightarrow> byte list \<Rightarrow> byte list \<Rightarrow> nat \<Rightarrow> nat \<Rightarrow> bool list \<times> nat \<times> nat" where
  "scan_state scr new old y k =
     (let pbModifyMask = map (marked scr new old y k) [0..<scr_rows scr * scr_cols scr] in
      (pbModifyMask, length (filter id pbModifyMask), y * row_bytes scr + min (k * block_bytes scr) (row_bytes scr)))"

lemma length_filter_update:
  "i < length xs \<Longrightarrow> \<not> xs ! i \<Longrightarrow> length (filter id (xs[i := True])) = Suc (length (filter id xs))"
proof (induction xs arbitrary: i)
  case Nil
  then show ?case by simp
next
  case (Cons x xs)
  then show ?case by (cases i) auto
qed

lemma marked_Suc:
  assumes "k < scr_cols scr"
  shows "marked scr new old y (Suc k) i \<longleftrightarrow>
    marked scr new old y k i \<or> i = y div 32 * scr_cols scr + k \<and> cells_differ scr new old y k"
proof
  assume "marked scr new old y (Suc k) i"
  then show "marked scr new old y k i \<or> i = y div 32 * scr_cols scr + k \<and> cells_differ scr new old y k"
    unfolding marked_def by (metis less_Suc_eq le_neq_implies_less)
next
  assume "marked scr new old y k i \<or> i = y div 32 * scr_cols scr + k \<and> cells_differ scr new old y k"
  then show "marked scr new old y (Suc k) i"
    unfolding marked_def using assms by (metis less_Suc_eq order_refl)
qed

lemma marked_row: "marked scr new old y (scr_cols scr) = marked scr new old (Suc y) 0"
  unfolding marked_def by (rule ext) (metis less_Suc_eq_le not_less0 le_eq_less_or_eq)

lemma scan_cell_width:
  "scan_cell cols U (W - (cols - 1) * U) new old row column (m, count, start) =
     (let i = row * cols + column; n = cell_width W U cols column in
      if m ! i then Some (m, count, start + n)
      else if length new < start + n \<or> length old < start + n then None
      else if seg start n new \<noteq> seg start n old then Some (m[i := True], count + 1, start + n)
      else Some (m, count, start + n))"
  by (simp add: cell_width_def Let_def)

declare scan_cell.simps [simp del]

lemma scan_cell_step:
  assumes ok: "scr_ok scr" and y: "y < scr_h scr" and k: "k < scr_cols scr"
    and len: "scr_h scr * row_bytes scr \<le> length new" "scr_h scr * row_bytes scr \<le> length old"
  shows "scan_cell (scr_cols scr) (block_bytes scr) (row_bytes scr - (scr_cols scr - 1) * block_bytes scr)
      new old (y div 32) k (scan_state scr new old y k) = Some (scan_state scr new old y (Suc k))"
proof -
  note g = scr_ok_grid [OF ok]
  let ?W = "row_bytes scr" and ?U = "block_bytes scr" and ?C = "scr_cols scr"
  let ?i = "y div 32 * ?C + k" and ?n = "cell_width (row_bytes scr) (block_bytes scr) (scr_cols scr) k"
  let ?pbModifyMask = "map (marked scr new old y k) [0..<scr_rows scr * ?C]"
  let ?pbModifyMask' = "map (marked scr new old y (Suc k)) [0..<scr_rows scr * ?C]"
  have "k * ?U + ?n \<le> ?W" by (rule cell_in_row [OF g k])
  then have start: "min (k * ?U) ?W = k * ?U" by simp
  have start': "min (Suc k * ?U) ?W = k * ?U + ?n"
  proof (cases "k = ?C - 1")
    case True
    then have "Suc k = ?C" using k by simp
    with g True show ?thesis by (auto simp: cell_width_def grid_def)
  next
    case False
    then show ?thesis using cell_in_row [OF g k] by (simp add: cell_width_def)
  qed
  have "y div 32 < scr_rows scr"
    using ok y scan_points_bounds(2) [of "scr_h scr"] by (auto simp: scr_ok_def)
  then have i: "?i < scr_rows scr * ?C"
    using k by (metis Suc_leI add_less_cancel_left add.commute less_le_trans mult_Suc mult_le_mono1)
  have b: "y * ?W + k * ?U + ?n \<le> length new" "y * ?W + k * ?U + ?n \<le> length old"
    by (rule cell_in_buffer [OF g k y len(1)], rule cell_in_buffer [OF g k y len(2)])
  have d: "seg (y * ?W + k * ?U) ?n new \<noteq> seg (y * ?W + k * ?U) ?n old \<longleftrightarrow> cells_differ scr new old y k"
    by (simp add: cells_differ_def cell_def)
  have mi: "?pbModifyMask ! ?i = marked scr new old y k ?i" using i by simp
  show ?thesis
  proof (cases "\<not> marked scr new old y k ?i \<and> cells_differ scr new old y k")
    case True
    have "?pbModifyMask[?i := True] = ?pbModifyMask'"
      using True i by (intro nth_equalityI) (auto simp: nth_list_update marked_Suc [OF k])
    then show ?thesis
      using True b i d length_filter_update [of ?i "?pbModifyMask"]
      by (simp add: scan_state_def scan_cell_width Let_def start start' mi not_less not_le add.assoc del: mult_Suc One_nat_def)
  next
    case False
    then have "marked scr new old y (Suc k) = marked scr new old y k"
      by (auto simp: marked_Suc [OF k] fun_eq_iff)
    then show ?thesis
      using False b d by (auto simp: scan_state_def scan_cell_width Let_def start start' mi not_less not_le add.assoc simp del: mult_Suc One_nat_def)
  qed
qed

lemma scan_row:
  assumes "scr_ok scr" and "y < scr_h scr"
    and "scr_h scr * row_bytes scr \<le> length new" "scr_h scr * row_bytes scr \<le> length old"
  shows "foldM (scan_cell (scr_cols scr) (block_bytes scr) (row_bytes scr - (scr_cols scr - 1) * block_bytes scr)
      new old (y div 32)) [0..<scr_cols scr] (scan_state scr new old y 0) = Some (scan_state scr new old (Suc y) 0)"
proof -
  have "min (scr_cols scr * block_bytes scr) (row_bytes scr) = row_bytes scr"
    using scr_ok_grid [OF assms(1)] by (simp add: grid_def)
  then have last: "scan_state scr new old y (scr_cols scr) = scan_state scr new old (Suc y) 0"
    by (simp add: scan_state_def Let_def marked_row)
  show ?thesis
    using foldM_range_states [of "scr_cols scr" _ "scan_state scr new old y"]
      scan_cell_step [OF assms(1,2) _ assms(3,4)] last by simp
qed

lemma scan_rows:
  assumes "scr_ok scr" and "row < scr_rows scr"
    and "scr_h scr * row_bytes scr \<le> length new" "scr_h scr * row_bytes scr \<le> length old"
  shows "foldM (\<lambda>unitRow. foldM (scan_cell (scr_cols scr) (block_bytes scr)
        (row_bytes scr - (scr_cols scr - 1) * block_bytes scr) new old row) [0..<scr_cols scr])
      [row * 32..<min (row * 32 + 32) (scr_h scr)] (scan_state scr new old (row * 32) 0)
    = Some (scan_state scr new old (min (Suc row * 32) (scr_h scr)) 0)"
proof -
  let ?ys = "[row * 32..<min (row * 32 + 32) (scr_h scr)]"
  have "row * 32 \<le> scr_h scr"
    using assms(1,2) scan_points_bounds(1) [of "scr_h scr"] mult_le_mono1 [of row "scr_rows scr - 1" 32]
    by (auto simp: scr_ok_def)
  then have len: "row * 32 + length ?ys = min (Suc row * 32) (scr_h scr)" by (simp add: min_def)
  have step: "foldM (scan_cell (scr_cols scr) (block_bytes scr)
        (row_bytes scr - (scr_cols scr - 1) * block_bytes scr) new old row) [0..<scr_cols scr]
        (scan_state scr new old (row * 32 + k) 0) = Some (scan_state scr new old (row * 32 + Suc k) 0)"
    if "k < length ?ys" for k
  proof -
    have "(row * 32 + k) div 32 = row" "row * 32 + k < scr_h scr" using that by auto
    then show ?thesis using scan_row [OF assms(1) _ assms(3,4), of "row * 32 + k"] by simp
  qed
  show ?thesis
    using foldM_states [of ?ys _ "\<lambda>k. scan_state scr new old (row * 32 + k) 0"] step
    unfolding len by simp
qed

lemma scan_all:
  assumes "scr_ok scr"
    and "scr_h scr * row_bytes scr \<le> length new" "scr_h scr * row_bytes scr \<le> length old"
  shows "foldM (\<lambda>row. foldM (\<lambda>unitRow. foldM (scan_cell (scr_cols scr) (block_bytes scr)
        (row_bytes scr - (scr_cols scr - 1) * block_bytes scr) new old row) [0..<scr_cols scr])
      [row * 32..<min (row * 32 + 32) (scr_h scr)]) [0..<scr_rows scr] (scan_state scr new old 0 0)
    = Some (scan_state scr new old (scr_h scr) 0)"
proof -
  have h: "scr_h scr \<le> scr_rows scr * 32"
    using assms(1) scan_points_bounds(2) [of "scr_h scr"] by (simp add: scr_ok_def)
  have le: "row * 32 \<le> scr_h scr" if "row < scr_rows scr" for row
    using that assms(1) scan_points_bounds(1) [of "scr_h scr"] mult_le_mono1 [of row "scr_rows scr - 1" 32]
    by (auto simp: scr_ok_def)
  show ?thesis
    using foldM_range_states [of "scr_rows scr" _ "\<lambda>row. scan_state scr new old (min (row * 32) (scr_h scr)) 0"]
      scan_rows [OF assms(1) _ assms(2,3)] le h by (simp add: min_absorb1 min_absorb2)
qed

text \<open>Block \<open>i\<close> is modified: some cell of it differs.\<close>

definition block_modified :: "screen \<Rightarrow> byte list \<Rightarrow> byte list \<Rightarrow> nat \<Rightarrow> bool" where
  "block_modified scr new old i \<longleftrightarrow>
     (\<exists>y < scr_h scr. y div 32 = i div scr_cols scr \<and> cells_differ scr new old y (i mod scr_cols scr))"

lemma marked_all:
  assumes "scr_ok scr"
  shows "marked scr new old (scr_h scr) 0 = block_modified scr new old"
proof (rule ext)
  fix i
  have c: "0 < scr_cols scr" using scr_ok_grid [OF assms] by (simp add: grid_def)
  show "marked scr new old (scr_h scr) 0 i = block_modified scr new old i"
  proof
    assume "marked scr new old (scr_h scr) 0 i"
    then obtain y c where "y < scr_h scr" "c < scr_cols scr" "i = y div 32 * scr_cols scr + c"
      "cells_differ scr new old y c" by (auto simp: marked_def)
    moreover then have "i div scr_cols scr = y div 32" "i mod scr_cols scr = c" by auto
    ultimately show "block_modified scr new old i" by (auto simp: block_modified_def)
  next
    assume "block_modified scr new old i"
    then obtain y where y: "y < scr_h scr" "y div 32 = i div scr_cols scr"
      "cells_differ scr new old y (i mod scr_cols scr)" by (auto simp: block_modified_def)
    have "i = y div 32 * scr_cols scr + i mod scr_cols scr" by (simp add: y(2))
    moreover have "i mod scr_cols scr < scr_cols scr" using c by simp
    ultimately show "marked scr new old (scr_h scr) 0 i"
      unfolding marked_def using y(1,3) by (metis less_imp_le_nat)
  qed
qed

lemma filter_nth_map: "filter (\<lambda>i. map f [0..<n] ! i) [0..<n] = filter f [0..<n]"
  by (rule filter_cong) auto

lemma length_filter_id_map: "length (filter id (map f xs)) = length (filter f xs)"
  by (induction xs) auto

lemma GetModifiedBlocks_spec:
  assumes "scr_ok scr"
    and "scr_h scr * row_bytes scr \<le> length new" and "scr_h scr * row_bytes scr \<le> length old"
  shows "GetModifiedBlocks scr new old =
    (let blocks = filter (block_modified scr new old) [0..<scr_rows scr * scr_cols scr]
     in Some (length blocks, blocks))"
proof -
  have "map (marked scr new old 0 0) [0..<n] = replicate n False" for n
    by (rule nth_equalityI) (auto simp: marked_def)
  then have init: "(replicate (scr_rows scr * scr_cols scr) False, 0, 0) = scan_state scr new old 0 0"
    by (simp add: scan_state_def Let_def)
  have dims: "scr_px scr * unat (biWidth (scr_info scr)) = row_bytes scr"
    "unat (biHeight (scr_info scr)) = scr_h scr" "SCAN_MODIFY_RECT_UNIT * scr_px scr = block_bytes scr"
    by (simp_all add: scr_ok_info [OF assms(1)] row_bytes_def block_bytes_def)
  show ?thesis
    unfolding GetModifiedBlocks_def Let_def init dims
    using scan_all [OF assms]
    by (simp add: SCAN_MODIFY_RECT_UNIT_def scan_state_def Let_def marked_all [OF assms(1)]
        length_filter_id_map filter_nth_map)
qed

text \<open>
  C1. The scan of a new picture against the last one never leaves the two pictures and
  reports exactly the blocks with a changed pixel: their number and their indices in
  increasing order, with no index missing, extra or repeated.
\<close>

theorem GetModifiedBlocks_exact:
  assumes "scr_ok scr"
    and "scr_h scr * row_bytes scr \<le> length new" and "scr_h scr * row_bytes scr \<le> length old"
  shows "GetModifiedBlocks scr new old =
    (let blocks = filter (block_modified scr new old) [0..<scr_rows scr * scr_cols scr]
     in Some (length blocks, blocks))"
  using assms by (rule GetModifiedBlocks_spec)
theorem GetModifiedBlocks_exact_witness:
  "GetModifiedBlocks (CScreenBitmap 2 1 []) [1, 2, 3, 4, 5, 6] [1, 2, 3, 4, 5, 7] = Some (1, [0])"
proof -
  let ?scr = "CScreenBitmap 2 1 []"
  have f: "row_bytes ?scr = 6" "block_bytes ?scr = 96" "scr_h ?scr = 1" "scr_cols ?scr = 1" "scr_rows ?scr = 1"
    by (simp_all add: CScreenBitmap_def row_bytes_def block_bytes_def scan_points_def SCAN_MODIFY_RECT_UNIT_def)
  define scr where "scr = ?scr"
  note f = f [folded scr_def]
  have "scr_ok scr" unfolding scr_def by (rule scr_ok_new) simp_all
  moreover have "block_modified scr [1, 2, 3, 4, 5, 6] [1, 2, 3, 4, 5, 7] 0"
    by (simp add: block_modified_def cells_differ_def cell_def cell_width_def f seg_def)
  ultimately show ?thesis
    using GetModifiedBlocks_exact [of scr "[1, 2, 3, 4, 5, 6]" "[1, 2, 3, 4, 5, 7]"]
    unfolding scr_def [symmetric] by (simp add: f Let_def)
qed

end
