(* ===== verification/Screen_Transfer.thy ===== *)
theory Screen_Transfer
  imports Screen
begin

text \<open>
  From the server's screen to the client's window: the loop of
  \<open>CClientConnection::AsynSendTransterModifyBitmap\<close>
  (\<^verbatim>\<open>RemoteDesktopServer/ClientConnection.cpp\<close>) that lays the modified blocks side by side
  in one buffer, and the window's copy of the picture with \<open>OnGetTransferBitmap\<close> and
  \<open>OnGetTransferModifyBitmap\<close> (\<^verbatim>\<open>RemoteDesktopClient/MainWindow.cpp\<close>), which the blocks are
  written back into.  The client works on values that come from the network, so its
  arithmetic is kept at 32 bits.
\<close>

section \<open>Server: laying out the modified blocks\<close>

definition block_rect :: "nat \<Rightarrow> nat \<Rightarrow> nat \<Rightarrow> nat \<Rightarrow> nat \<Rightarrow> crect" where
  "block_rect rows cols width height nBlockIndex =
     (let nBlockRow = nBlockIndex div cols; nBlockColumn = nBlockIndex mod cols;
          left = nBlockColumn * SCAN_MODIFY_RECT_UNIT; topRow = nBlockRow * SCAN_MODIFY_RECT_UNIT in
      \<lparr>rc_left = int left, rc_top = int topRow,
       rc_right = int (if nBlockColumn = cols - 1 then width else left + SCAN_MODIFY_RECT_UNIT),
       rc_bottom = int (if nBlockRow = rows - 1 then height else topRow + SCAN_MODIFY_RECT_UNIT)\<rparr>)"

text \<open>
  The loop over the modified blocks; \<open>Inr None\<close> is the early \<open>return -3\<close>.  A block index is
  divided by the column count, which is 0 as long as no full picture was sent.
\<close>

fun pack_blocks ::
  "(nat \<Rightarrow> byte) \<Rightarrow> screen \<Rightarrow> nat \<Rightarrow> nat \<Rightarrow> nat \<Rightarrow> nat \<Rightarrow> nat list \<Rightarrow> byte list \<Rightarrow> sb_error + byte list option" where
  "pack_blocks junk scr rows cols nBufferRowBytes i [] pBuffer = Inr (Some pBuffer)"
| "pack_blocks junk scr rows cols nBufferRowBytes i (nBlockIndex # blocks) pBuffer =
     (if cols = 0 then Inl MemFault
      else
        case ClipBitmapRect junk scr (block_rect rows cols (scr_w scr) (scr_h scr) nBlockIndex) of
          None \<Rightarrow> Inl MemFault
        | Some None \<Rightarrow> Inr None
        | Some (Some (rcOneModified, pOneBlockBuffer)) \<Rightarrow>
            let nColumnStartPos = i * SCAN_MODIFY_RECT_UNIT * scr_px scr;
                nRowPixelByteCount = to_uint (Width rcOneModified * int (scr_px scr)) in
            case foldM (\<lambda>j. memcpy (j * nBufferRowBytes + nColumnStartPos) pOneBlockBuffer
                              (j * nRowPixelByteCount) nRowPixelByteCount)
                   [0..<nat (Height rcOneModified)] pBuffer of
              None \<Rightarrow> Inl MemFault
            | Some pBuffer1 \<Rightarrow> pack_blocks junk scr rows cols nBufferRowBytes (Suc i) blocks pBuffer1)"

text \<open>The zeroed buffer for \<open>n\<close> blocks and its row length.\<close>

definition pack_modified :: "(nat \<Rightarrow> byte) \<Rightarrow> screen \<Rightarrow> nat \<Rightarrow> nat \<Rightarrow> nat list \<Rightarrow> sb_error + byte list option" where
  "pack_modified junk scr rows cols blocks =
     (let n = length blocks;
          nBufferSize = SCAN_MODIFY_RECT_UNIT * SCAN_MODIFY_RECT_UNIT * scr_px scr * n;
          nBufferRowBytes = n * SCAN_MODIFY_RECT_UNIT * scr_px scr in
      pack_blocks junk scr rows cols nBufferRowBytes 0 blocks (replicate nBufferSize 0))"

section \<open>Client: the window's picture\<close>

record main_window =
  mw_info :: bitmap_info
  mw_buffer :: "byte list option"
  mw_px :: u16
  mw_rows :: u32
  mw_cols :: u32

definition new_main_window :: "bitmap_info \<Rightarrow> u16 \<Rightarrow> main_window" where
  "new_main_window zeroed px = \<lparr>mw_info = zeroed, mw_buffer = None, mw_px = px, mw_rows = 0, mw_cols = 0\<rparr>"

text \<open>\<open>(n - 1) / 32 + 1\<close> on a \<open>LONG\<close>: division truncates towards zero.\<close>

definition long_scan_points :: "u32 \<Rightarrow> u32" where
  "long_scan_points n =
     (let m = sint (n - 1) in word_of_int (if 0 \<le> m then m div 32 else - ((- m) div 32)) + 1)"

definition MainWindow_OnGetTransferBitmap :: "bitmap_info \<Rightarrow> u16 \<Rightarrow> byte list \<Rightarrow> main_window \<Rightarrow> main_window option" where
  "MainWindow_OnGetTransferBitmap info px pBuffer mw =
     (if length pBuffer < unat (biSizeImage info) then None
      else Some \<lparr>mw_info = info, mw_buffer = Some (take (unat (biSizeImage info)) pBuffer), mw_px = px,
                 mw_rows = long_scan_points (biHeight info), mw_cols = long_scan_points (biWidth info)\<rparr>)"

definition MainWindow_OnGetTransferModifyBitmap ::
  "u32 \<Rightarrow> u32 list \<Rightarrow> byte list \<Rightarrow> main_window \<Rightarrow> main_window option" where
  "MainWindow_OnGetTransferModifyBitmap nModifiedBlockCount pnModifiedBlocks pBuffer mw =
     (case mw_buffer mw of
        None \<Rightarrow> Some mw
      | Some fb \<Rightarrow>
          if nModifiedBlockCount = 0 then Some mw
          else
            let px = ucast (mw_px mw) :: u32;
                nModifiedRowBytes = nModifiedBlockCount * 32 * px;
                bmWidthBytes = biWidth (mw_info mw) * px in
            map_option (\<lambda>buf. mw\<lparr>mw_buffer := Some buf\<rparr>)
              (foldM (\<lambda>i buf.
                 if length pnModifiedBlocks \<le> i \<or> mw_cols mw = 0 then None
                 else
                   let nBlockIndex = pnModifiedBlocks ! i;
                       nBlockRow = nBlockIndex div mw_cols mw; nBlockColumn = nBlockIndex mod mw_cols mw;
                       left = nBlockColumn * 32; topRow = nBlockRow * 32;
                       right = (if nBlockColumn = mw_cols mw - 1 then biWidth (mw_info mw) else left + 32);
                       bottom = (if nBlockRow = mw_rows mw - 1 then biHeight (mw_info mw) else topRow + 32);
                       nColumnStartPos = of_nat i * 32 * px;
                       nRowPixelByteCount = (right - left) * px in
                   foldM (\<lambda>j. memcpy (unat ((topRow + of_nat j) * bmWidthBytes + left * px))
                            pBuffer (unat (of_nat j * nModifiedRowBytes + nColumnStartPos))
                            (unat nRowPixelByteCount))
                     [0..<nat (sint (bottom - topRow))] buf)
                 [0..<unat nModifiedBlockCount] fb))"

section \<open>One block of the picture\<close>

text \<open>Height of block row \<open>r\<close>, and the byte width of column \<open>c\<close>, as both sides compute them.\<close>

definition block_height :: "nat \<Rightarrow> nat \<Rightarrow> nat \<Rightarrow> nat" where
  "block_height rows h r = (if r = rows - 1 then h - r * 32 else 32)"

lemma block_row_in:
  assumes "scr_ok scr" and "r < scr_rows scr"
  shows "r * 32 + block_height (scr_rows scr) (scr_h scr) r \<le> scr_h scr"
    "block_height (scr_rows scr) (scr_h scr) r \<le> 32" "0 < block_height (scr_rows scr) (scr_h scr) r"
    "r * 32 < scr_h scr"
proof -
  have R: "scr_rows scr = scan_points (scr_h scr)" and h: "0 < scr_h scr" using assms(1) by (simp_all add: scr_ok_def)
  note b = scan_points_bounds [OF h, folded R]
  have last: "r * 32 \<le> (scr_rows scr - 1) * 32" using assms(2) by (intro mult_le_mono1) linarith
  then show lt: "r * 32 < scr_h scr" using b(1) by linarith
  have "r = scr_rows scr - 1 \<or> Suc r * 32 \<le> (scr_rows scr - 1) * 32"
    using assms(2) by (cases "r = scr_rows scr - 1") (auto intro!: mult_le_mono1)
  then show "r * 32 + block_height (scr_rows scr) (scr_h scr) r \<le> scr_h scr"
    "block_height (scr_rows scr) (scr_h scr) r \<le> 32" "0 < block_height (scr_rows scr) (scr_h scr) r"
    using b lt by (auto simp: block_height_def)
qed

lemma row_block_height:
  assumes "scr_ok scr" and "y < scr_h scr"
  shows "y div 32 < scr_rows scr" "y mod 32 < block_height (scr_rows scr) (scr_h scr) (y div 32)"
proof -
  have R: "scr_rows scr = scan_points (scr_h scr)" and h: "0 < scr_h scr" using assms(1) by (simp_all add: scr_ok_def)
  note b = scan_points_bounds [OF h, folded R]
  show "y div 32 < scr_rows scr" using assms(2) b(2) by auto
  have "y mod 32 < scr_h scr - y div 32 * 32" "y mod 32 < 32"
    using assms(2) div_mult_mod_eq [of y 32] by (linarith, simp)
  then show "y mod 32 < block_height (scr_rows scr) (scr_h scr) (y div 32)"
    unfolding block_height_def by (split if_split) blast
qed

text \<open>The width of a column in pixels, and in bytes.\<close>

definition block_width :: "screen \<Rightarrow> nat \<Rightarrow> nat" where
  "block_width scr c = (if c = scr_cols scr - 1 then scr_w scr - c * 32 else 32)"

lemma block_width_bytes:
  "block_width scr c * scr_px scr = cell_width (row_bytes scr) (block_bytes scr) (scr_cols scr) c"
proof (cases "c = scr_cols scr - 1")
  case True
  have "(scr_w scr - c * 32) * scr_px scr = scr_px scr * scr_w scr - c * (32 * scr_px scr)"
    by (simp only: diff_mult_distrib2 mult_ac)
  then show ?thesis
    unfolding block_width_def cell_width_def row_bytes_def block_bytes_def SCAN_MODIFY_RECT_UNIT_def
      True [symmetric] by simp
qed (simp add: block_width_def cell_width_def block_bytes_def SCAN_MODIFY_RECT_UNIT_def)

lemma block_col_in:
  assumes "scr_ok scr" and "c < scr_cols scr"
  shows "c * 32 + block_width scr c \<le> scr_w scr" "block_width scr c \<le> 32" "0 < block_width scr c" "c * 32 < scr_w scr"
proof -
  have C: "scr_cols scr = scan_points (scr_w scr)" and w: "0 < scr_w scr" using assms(1) by (simp_all add: scr_ok_def)
  note b = scan_points_bounds [OF w, folded C]
  have last: "c * 32 \<le> (scr_cols scr - 1) * 32" using assms(2) by (intro mult_le_mono1) linarith
  then show lt: "c * 32 < scr_w scr" using b(1) by linarith
  have "c = scr_cols scr - 1 \<or> Suc c * 32 \<le> (scr_cols scr - 1) * 32"
    using assms(2) by (cases "c = scr_cols scr - 1") (auto intro!: mult_le_mono1)
  then show "c * 32 + block_width scr c \<le> scr_w scr" "block_width scr c \<le> 32" "0 < block_width scr c"
    using b lt by (auto simp: block_width_def)
qed

text \<open>Copying rows one below the other into memory of exactly their size.\<close>

lemma foldM_memcpy_rows:
  assumes "length init = n * k" and "\<And>i. i < k \<Longrightarrow> f (t + i) + n \<le> length src"
  shows "foldM (\<lambda>row. memcpy ((row - t) * n) src (f row) n) [t..<t + k] init
       = Some (concat (map (\<lambda>i. seg (f (t + i)) n src) [0..<k]))"
proof -
  define S where "S i = concat (map (\<lambda>i. seg (f (t + i)) n src) [0..<i]) @ drop (i * n) init" for i
  have len: "length (concat (map (\<lambda>i. seg (f (t + i)) n src) [0..<i])) = i * n" if "i \<le> k" for i
    using that assms(2) by (induction i) auto
  have "memcpy (i * n) src (f (t + i)) n (S i) = Some (S (Suc i))" if "i < k" for i
  proof -
    have room: "i * n + n \<le> n * k" using that by (metis Suc_leI add.commute mult.commute mult_Suc mult_le_mono2)
    then show ?thesis
      using that assms len [of i]
      by (simp add: memcpy_ok S_def blit_at_end add.commute)
  qed
  then have "foldM (\<lambda>row. memcpy ((row - t) * n) src (f row) n) [t..<t + k] (S 0) = Some (S k)"
    using foldM_states [of "[t..<t + k]" _ S] by simp
  then show ?thesis using assms(1) by (simp add: S_def mult.commute)
qed

definition block_rows :: "screen \<Rightarrow> byte list \<Rightarrow> nat \<Rightarrow> byte list list" where
  "block_rows scr buf i =
     map (\<lambda>j. cell (row_bytes scr) (block_bytes scr) (scr_cols scr) (i div scr_cols scr * 32 + j) (i mod scr_cols scr) buf)
       [0..<block_height (scr_rows scr) (scr_h scr) (i div scr_cols scr)]"

lemma to_uint_of_nat [simp]: "n < 2 ^ 32 \<Longrightarrow> to_uint (int n) = n"
  by (simp add: to_uint_def)

lemma mod_lt_cols: "i < r * c \<Longrightarrow> i mod c < (c :: nat)"
  by (cases c) auto

lemma block_rect_dims:
  assumes "scr_ok scr" and "i < scr_rows scr * scr_cols scr"
  shows "block_rect (scr_rows scr) (scr_cols scr) (scr_w scr) (scr_h scr) i =
    \<lparr>rc_left = int (i mod scr_cols scr * 32), rc_top = int (i div scr_cols scr * 32),
     rc_right = int (i mod scr_cols scr * 32 + block_width scr (i mod scr_cols scr)),
     rc_bottom = int (i div scr_cols scr * 32 + block_height (scr_rows scr) (scr_h scr) (i div scr_cols scr))\<rparr>"
proof -
  have c: "i mod scr_cols scr < scr_cols scr" and r: "i div scr_cols scr < scr_rows scr"
    using assms(2) by (auto simp: less_mult_imp_div_less mod_lt_cols)
  show ?thesis
    using block_row_in(4) [OF assms(1) r] block_col_in(4) [OF assms(1) c]
    by (auto simp: block_rect_def Let_def SCAN_MODIFY_RECT_UNIT_def block_width_def block_height_def)
qed

lemma ClipBitmapRect_block:
  assumes ok: "scr_ok scr" and buf: "scr_buffer scr = Some buf" and i: "i < scr_rows scr * scr_cols scr"
  shows "ClipBitmapRect junk scr (block_rect (scr_rows scr) (scr_cols scr) (scr_w scr) (scr_h scr) i) =
    Some (Some (block_rect (scr_rows scr) (scr_cols scr) (scr_w scr) (scr_h scr) i, concat (block_rows scr buf i)))"
proof -
  let ?c = "i mod scr_cols scr" and ?r = "i div scr_cols scr"
  let ?w = "block_width scr ?c" and ?h = "block_height (scr_rows scr) (scr_h scr) ?r"
  have c: "?c < scr_cols scr" and r: "?r < scr_rows scr"
    using i by (auto simp: less_mult_imp_div_less mod_lt_cols)
  note C = block_col_in [OF ok c] and R = block_row_in [OF ok r] and small = scr_ok_small [OF ok]
  have len: "scr_h scr * row_bytes scr \<le> length buf" using ok buf by (simp add: scr_ok_def)
  have wn: "?w * scr_px scr = cell_width (row_bytes scr) (block_bytes scr) (scr_cols scr) ?c"
    by (rule block_width_bytes)
  have wp: "?w * scr_px scr \<le> row_bytes scr"
    using C(1) by (simp add: row_bytes_def mult.commute)
  have "?w * scr_px scr * ?h \<le> row_bytes scr * scr_h scr"
    using wp R(1) by (intro mult_le_mono) simp_all
  also have "\<dots> < 2 ^ 31" using ok by (simp add: scr_ok_def mult.commute)
  finally have area: "?w * scr_px scr * ?h < 2 ^ 32" by simp
  have u: "to_uint (int ?w * int (scr_px scr)) = ?w * scr_px scr"
    using wp small(3) to_uint_of_nat [of "?w * scr_px scr"] by simp
  have a: "to_uint (int ?w * int ?h * int (scr_px scr)) = ?w * scr_px scr * ?h"
    using area to_uint_of_nat [of "?w * scr_px scr * ?h"] by (simp add: mult_ac)
  have l: "to_uint (int (?c * 32)) = ?c * 32" and t: "to_uint (int (?r * 32)) = ?r * 32"
    and b: "to_uint (int (?r * 32 + ?h)) = ?r * 32 + ?h"
    using C(4) R(1,4) small(1,2) by (auto simp del: of_nat_mult of_nat_add intro!: to_uint_of_nat)
  have off: "GetBuffer (?c * 32) y scr = Some (buf, y * row_bytes scr + ?c * block_bytes scr)" for y
    using buf by (simp add: GetBuffer_def scr_ok_info [OF ok] row_bytes_def block_bytes_def SCAN_MODIFY_RECT_UNIT_def mult_ac)
  have rows: "foldM (\<lambda>row. memcpy ((row - ?r * 32) * (?w * scr_px scr)) buf
        (row * row_bytes scr + ?c * block_bytes scr) (?w * scr_px scr))
      [?r * 32..<?r * 32 + ?h] (map junk [0..<?w * scr_px scr * ?h]) = Some (concat (block_rows scr buf i))"
    unfolding block_rows_def cell_def wn
    using cell_in_buffer [OF scr_ok_grid [OF ok] c _ len] R(1)
    by (subst foldM_memcpy_rows) (simp_all add: wn)
  have rc: "rc_left (block_rect (scr_rows scr) (scr_cols scr) (scr_w scr) (scr_h scr) i) = int (?c * 32)"
    "rc_top (block_rect (scr_rows scr) (scr_cols scr) (scr_w scr) (scr_h scr) i) = int (?r * 32)"
    "rc_right (block_rect (scr_rows scr) (scr_cols scr) (scr_w scr) (scr_h scr) i) = int (?c * 32 + ?w)"
    "rc_bottom (block_rect (scr_rows scr) (scr_cols scr) (scr_w scr) (scr_h scr) i) = int (?r * 32 + ?h)"
    by (simp_all add: block_rect_dims [OF ok i])
  have cut: "max 0 (int (?c * 32)) = int (?c * 32)" "max 0 (int (?r * 32)) = int (?r * 32)"
    "min (int (?c * 32 + ?w)) (int (scr_w scr)) = int (?c * 32 + ?w)"
    "min (int (?r * 32 + ?h)) (int (scr_h scr)) = int (?r * 32 + ?h)"
    using C(1) R(1) by auto
  have dims: "Width \<lparr>rc_left = int (?c * 32), rc_top = int (?r * 32), rc_right = int (?c * 32 + ?w), rc_bottom = int (?r * 32 + ?h)\<rparr> = int ?w"
    "Height \<lparr>rc_left = int (?c * 32), rc_top = int (?r * 32), rc_right = int (?c * 32 + ?w), rc_bottom = int (?r * 32 + ?h)\<rparr> = int ?h"
    by (simp_all add: Width_def Height_def)
  have guards: "\<not> (int (?c * 32 + ?w) \<le> int (?c * 32) \<or> int (?r * 32 + ?h) \<le> int (?r * 32))"
    "\<not> (int (?c * 32) > int (scr_w scr) \<or> int (?r * 32) > int (scr_h scr))"
    using C R by auto
  show ?thesis
    unfolding ClipBitmapRect_def rc cut Let_def
    unfolding dims u a crect.simps l t b off option.case prod.case rows
    using guards block_rect_dims [OF ok i] by (simp del: of_nat_mult of_nat_add)
qed

section \<open>The server's buffer\<close>

text \<open>Slot \<open>i\<close> of a buffer with rows of \<open>R\<close> bytes holds block \<open>b\<close> of the picture \<open>buf\<close>.\<close>

definition packed :: "screen \<Rightarrow> byte list \<Rightarrow> nat \<Rightarrow> byte list \<Rightarrow> nat \<Rightarrow> nat \<Rightarrow> bool" where
  "packed scr buf R P i b \<longleftrightarrow>
     (\<forall>j < block_height (scr_rows scr) (scr_h scr) (b div scr_cols scr).
        seg (j * R + i * block_bytes scr) (cell_width (row_bytes scr) (block_bytes scr) (scr_cols scr) (b mod scr_cols scr)) P
        = cell (row_bytes scr) (block_bytes scr) (scr_cols scr) (b div scr_cols scr * 32 + j) (b mod scr_cols scr) buf)"

text \<open>What a store into slot \<open>i\<close> leaves alone.\<close>

definition other_slots :: "nat \<Rightarrow> nat \<Rightarrow> nat \<Rightarrow> nat \<Rightarrow> byte list \<Rightarrow> byte list \<Rightarrow> bool" where
  "other_slots U R N i P P' \<longleftrightarrow>
     (\<forall>i' < N. \<forall>j n. i' \<noteq> i \<longrightarrow> n \<le> U \<longrightarrow> seg (j * R + i' * U) n P' = seg (j * R + i' * U) n P)"

lemma slot_in_row: "i < N \<Longrightarrow> n \<le> U \<Longrightarrow> i * U + n \<le> N * (U :: nat)"
  by (metis Suc_leI add.commute add_le_mono1 le_trans mult_Suc mult_le_mono1)

lemma length_cell:
  assumes "scr_ok scr" and "c < scr_cols scr" and "y < scr_h scr" and "scr_h scr * row_bytes scr \<le> length buf"
  shows "length (cell (row_bytes scr) (block_bytes scr) (scr_cols scr) y c buf)
       = cell_width (row_bytes scr) (block_bytes scr) (scr_cols scr) c"
  using cell_in_buffer [OF scr_ok_grid [OF assms(1)] assms(2,3,4)] by (simp add: cell_def)

lemma pack_one:
  assumes ok: "scr_ok scr" and len: "scr_h scr * row_bytes scr \<le> length buf" and b: "b < scr_rows scr * scr_cols scr"
    and i: "i < N" and R: "R = N * block_bytes scr" and P: "32 * R \<le> length P"
    and n: "n = cell_width (row_bytes scr) (block_bytes scr) (scr_cols scr) (b mod scr_cols scr)"
  shows "\<exists>P'. foldM (\<lambda>j. memcpy (j * R + i * block_bytes scr) (concat (block_rows scr buf b)) (j * n) n)
       [0..<block_height (scr_rows scr) (scr_h scr) (b div scr_cols scr)] P = Some P'
     \<and> length P' = length P \<and> packed scr buf R P' i b \<and> other_slots (block_bytes scr) R N i P P'"
proof -
  let ?U = "block_bytes scr" and ?c = "b mod scr_cols scr" and ?r = "b div scr_cols scr"
  let ?h = "block_height (scr_rows scr) (scr_h scr) ?r"
  let ?cell = "\<lambda>j. cell (row_bytes scr) ?U (scr_cols scr) (?r * 32 + j) ?c buf"
  have c: "?c < scr_cols scr" and r: "?r < scr_rows scr"
    using b by (auto simp: less_mult_imp_div_less mod_lt_cols)
  note h = block_row_in [OF ok r]
  have nU: "n \<le> ?U" unfolding n by (rule cell_width_le [OF scr_ok_grid [OF ok] c])
  have rows: "list_all (\<lambda>r. length r = n) (block_rows scr buf b)"
    using length_cell [OF ok c _ len] h(1) by (auto simp: block_rows_def list_all_iff n)
  have row: "seg (j * n) n (concat (block_rows scr buf b)) = ?cell j" and lr: "length (?cell j) = n" if "j < ?h" for j
    using that seg_concat [OF rows, of j] length_cell [OF ok c _ len, of "?r * 32 + j"] h(1)
    by (simp_all add: block_rows_def n)
  have lc: "length (concat (block_rows scr buf b)) = ?h * n"
    using length_concat_uniform [OF rows] by (simp add: block_rows_def)
  define Inv where "Inv k Q \<longleftrightarrow> length Q = length P \<and> (\<forall>j<k. seg (j * R + i * ?U) n Q = ?cell j) \<and> other_slots ?U R N i P Q" for k Q
  have "\<exists>Q'. memcpy (k * R + i * ?U) (concat (block_rows scr buf b)) (k * n) n Q = Some Q' \<and> Inv (Suc k) Q'"
    if k: "k < ?h" and Q: "Inv k Q" for k Q
  proof -
    have iR: "i * ?U + n \<le> R" unfolding R by (rule slot_in_row [OF i nU])
    have "Suc k * R \<le> 32 * R" using k h(2) by (intro mult_le_mono1) linarith
    moreover have "length Q = length P" using Q by (simp add: Inv_def)
    ultimately have fit: "k * R + i * ?U + n \<le> length Q" using iR P unfolding mult_Suc by linarith
    have src: "k * n + n \<le> length (concat (block_rows scr buf b))"
      using k unfolding lc by (metis Suc_leI add.commute mult_Suc mult_le_mono1)
    let ?Q = "blit (k * R + i * ?U) (?cell k) Q"
    have "memcpy (k * R + i * ?U) (concat (block_rows scr buf b)) (k * n) n Q = Some ?Q"
      using fit src by (simp add: memcpy_ok row [OF k])
    moreover have "seg (j * R + i * ?U) n ?Q = ?cell j" if "j < Suc k" for j
    proof (cases "j = k")
      case True
      then show ?thesis using seg_blit_same [of "?cell k" n "k * R + i * ?U" Q] lr [OF k] fit by simp
    next
      case False
      then have "seg (j * R + i * ?U) n ?Q = seg (j * R + i * ?U) n Q"
        using slots_disjoint [of j i k i ?U n R n] iR nU fit lr [OF k] by (intro seg_blit_other) auto
      then show ?thesis using Q that False by (simp add: Inv_def)
    qed
    moreover have "seg (j * R + i' * ?U) m ?Q = seg (j * R + i' * ?U) m Q" if "i' < N" "i' \<noteq> i" "m \<le> ?U" for i' j m
      using slots_disjoint [of j i' k i ?U m R n] that slot_in_row [OF that(1,3)] iR nU fit lr [OF k]
      by (intro seg_blit_other) (auto simp: R)
    ultimately show ?thesis using Q lr [OF k] fit by (simp add: Inv_def other_slots_def)
  qed
  moreover have "Inv 0 P" by (simp add: Inv_def other_slots_def)
  ultimately obtain P' where "foldM (\<lambda>j. memcpy (j * R + i * ?U) (concat (block_rows scr buf b)) (j * n) n) [0..<?h] P = Some P'"
    "Inv ?h P'"
    using foldM_range_invariant [of Inv P ?h
      "\<lambda>j. memcpy (j * R + i * ?U) (concat (block_rows scr buf b)) (j * n) n"] by auto
  then show ?thesis by (auto simp: Inv_def packed_def n)
qed

lemma packed_other:
  assumes "other_slots (block_bytes scr) R N i P P'" and "i' < N" and "i' \<noteq> i" and "scr_ok scr" and "b < scr_rows scr * scr_cols scr"
  shows "packed scr buf R P i' b \<Longrightarrow> packed scr buf R P' i' b"
  using assms cell_width_le [OF scr_ok_grid [OF assms(4)], of "b mod scr_cols scr"] mod_lt_cols [OF assms(5)]
  by (simp add: packed_def other_slots_def)

lemma pack_blocks_ok:
  assumes ok: "scr_ok scr" and buf: "scr_buffer scr = Some buf"
    and "\<forall>b\<in>set blocks. b < scr_rows scr * scr_cols scr" and "N = i + length blocks"
    and R: "R = N * block_bytes scr" and "32 * R \<le> length P"
  shows "\<exists>P'. pack_blocks junk scr (scr_rows scr) (scr_cols scr) R i blocks P = Inr (Some P') \<and> length P' = length P
     \<and> (\<forall>k < length blocks. packed scr buf R P' (i + k) (blocks ! k))
     \<and> (\<forall>i' < i. \<forall>b < scr_rows scr * scr_cols scr. packed scr buf R P i' b \<longrightarrow> packed scr buf R P' i' b)"
  using assms(3,4,6)
proof (induction blocks arbitrary: i P)
  case Nil
  then show ?case by simp
next
  case (Cons b blocks)
  let ?c = "b mod scr_cols scr" and ?r = "b div scr_cols scr"
  let ?n = "cell_width (row_bytes scr) (block_bytes scr) (scr_cols scr) ?c"
  have len: "scr_h scr * row_bytes scr \<le> length buf" using ok buf by (simp add: scr_ok_def)
  have b: "b < scr_rows scr * scr_cols scr" and i: "i < N" using Cons.prems by simp_all
  have C: "scr_cols scr \<noteq> 0" using scr_ok_grid [OF ok] by (auto simp: grid_def)
  have c: "?c < scr_cols scr" using b by (rule mod_lt_cols)
  obtain P1 where P1: "foldM (\<lambda>j. memcpy (j * R + i * block_bytes scr) (concat (block_rows scr buf b)) (j * ?n) ?n)
       [0..<block_height (scr_rows scr) (scr_h scr) ?r] P = Some P1"
    "length P1 = length P" "packed scr buf R P1 i b" "other_slots (block_bytes scr) R N i P P1"
    using pack_one [OF ok len b i R Cons.prems(3) refl] by blast
  obtain P2 where P2: "pack_blocks junk scr (scr_rows scr) (scr_cols scr) R (Suc i) blocks P1 = Inr (Some P2)"
    "length P2 = length P1" "\<forall>k < length blocks. packed scr buf R P2 (Suc i + k) (blocks ! k)"
    "\<forall>i' < Suc i. \<forall>b < scr_rows scr * scr_cols scr. packed scr buf R P1 i' b \<longrightarrow> packed scr buf R P2 i' b"
    using Cons.IH [of "Suc i" P1] Cons.prems P1(2) by auto
  have w: "block_width scr ?c * scr_px scr < 2 ^ 32"
    using add_leD2 [OF cell_in_row [OF scr_ok_grid [OF ok] c]] scr_ok_small(3) [OF ok]
    unfolding block_width_bytes by simp
  have n: "to_uint (Width (block_rect (scr_rows scr) (scr_cols scr) (scr_w scr) (scr_h scr) b) * int (scr_px scr)) = ?n"
    using to_uint_of_nat [OF w] by (simp add: block_rect_dims [OF ok b] Width_def flip: block_width_bytes)
  have h: "nat (Height (block_rect (scr_rows scr) (scr_cols scr) (scr_w scr) (scr_h scr) b)) = block_height (scr_rows scr) (scr_h scr) ?r"
    by (simp add: block_rect_dims [OF ok b] Height_def)
  have pos: "i * SCAN_MODIFY_RECT_UNIT * scr_px scr = i * block_bytes scr" by (simp add: block_bytes_def)
  have "pack_blocks junk scr (scr_rows scr) (scr_cols scr) R i (b # blocks) P = Inr (Some P2)"
    using C by (simp add: ClipBitmapRect_block [OF ok buf b] Let_def n h pos P1(1) P2(1))
  moreover have "packed scr buf R P2 (i + k) ((b # blocks) ! k)" if "k < Suc (length blocks)" for k
    using that P1(3) P2(3,4) b by (cases k) auto
  moreover have "packed scr buf R P2 i' b'"
    if "i' < i" "b' < scr_rows scr * scr_cols scr" "packed scr buf R P i' b'" for i' b'
    using packed_other [OF P1(4) _ _ ok that(2), of i'] that i P2(4) by auto
  ultimately show ?case using P1(2) P2(2) by auto
qed

text \<open>
  The buffer of the server holds every modified block whole, in the order of the list.
\<close>

lemma pack_modified_ok:
  assumes "scr_ok scr" and "scr_buffer scr = Some buf" and "\<forall>b\<in>set blocks. b < scr_rows scr * scr_cols scr"
  shows "\<exists>P. pack_modified junk scr (scr_rows scr) (scr_cols scr) blocks = Inr (Some P)
    \<and> length P = 32 * (length blocks * block_bytes scr)
    \<and> (\<forall>k < length blocks. packed scr buf (length blocks * block_bytes scr) P k (blocks ! k))"
proof -
  let ?R = "length blocks * block_bytes scr"
  have dims: "length blocks * SCAN_MODIFY_RECT_UNIT * scr_px scr = ?R"
    "SCAN_MODIFY_RECT_UNIT * SCAN_MODIFY_RECT_UNIT * scr_px scr * length blocks = 32 * ?R"
    by (simp_all add: block_bytes_def SCAN_MODIFY_RECT_UNIT_def)
  show ?thesis
    unfolding pack_modified_def Let_def dims
    using pack_blocks_ok [OF assms(1,2,3), of "length blocks" 0 ?R "replicate (32 * ?R) 0" junk] by simp
qed

section \<open>The client's copy\<close>

text \<open>The window's picture has the dimensions of the server's screen.\<close>

definition mirrors :: "main_window \<Rightarrow> screen \<Rightarrow> bool" where
  "mirrors mw scr \<longleftrightarrow>
     biWidth (mw_info mw) = of_nat (scr_w scr) \<and> biHeight (mw_info mw) = of_nat (scr_h scr)
     \<and> ucast (mw_px mw) = (of_nat (scr_px scr) :: u32)
     \<and> mw_rows mw = of_nat (scr_rows scr) \<and> mw_cols mw = of_nat (scr_cols scr)"

lemma of_nat_div_u32: "a < 2 ^ 32 \<Longrightarrow> b < 2 ^ 32 \<Longrightarrow> (of_nat a div of_nat b :: u32) = of_nat (a div b)"
  by (rule word_unat_eq_iff [THEN iffD2]) (simp add: unat_div_distrib unat_of_nat_u32 less_mult_imp_div_less div_le_dividend le_less_trans [of "a div b" a])

lemma of_nat_mod_u32: "a < 2 ^ 32 \<Longrightarrow> b < 2 ^ 32 \<Longrightarrow> (of_nat a mod of_nat b :: u32) = of_nat (a mod b)"
  by (rule word_unat_eq_iff [THEN iffD2]) (simp add: unat_mod_distrib unat_of_nat_u32 le_less_trans [of "a mod b" a])

lemma of_nat_eq_u32: "a < 2 ^ 32 \<Longrightarrow> b < 2 ^ 32 \<Longrightarrow> (of_nat a :: u32) = of_nat b \<longleftrightarrow> a = b"
  by (metis unat_of_nat_u32)

lemma sint_of_nat_u32: "n < 2 ^ 31 \<Longrightarrow> sint (of_nat n :: u32) = int n"
  by (simp add: sint_uint unsigned_of_nat signed_take_bit_int_eq_self take_bit_nat_eq_self)

text \<open>Writing one block back, over natural numbers.\<close>

lemma unpack_one:
  assumes ok: "scr_ok scr" and fb: "scr_h scr * row_bytes scr \<le> length fb" and b: "b < scr_rows scr * scr_cols scr"
    and i: "i < N" and R: "R = N * block_bytes scr" and P: "32 * R \<le> length P" and pk: "packed scr buf R P i b"
    and len: "scr_h scr * row_bytes scr \<le> length buf"
    and n: "n = cell_width (row_bytes scr) (block_bytes scr) (scr_cols scr) (b mod scr_cols scr)"
  shows "\<exists>fb'. foldM (\<lambda>j. memcpy ((b div scr_cols scr * 32 + j) * row_bytes scr + b mod scr_cols scr * block_bytes scr)
         P (j * R + i * block_bytes scr) n) [0..<block_height (scr_rows scr) (scr_h scr) (b div scr_cols scr)] fb = Some fb'
     \<and> length fb' = length fb \<and> drop (scr_h scr * row_bytes scr) fb' = drop (scr_h scr * row_bytes scr) fb
     \<and> (\<forall>y < scr_h scr. \<forall>c < scr_cols scr. cell (row_bytes scr) (block_bytes scr) (scr_cols scr) y c fb' =
          cell (row_bytes scr) (block_bytes scr) (scr_cols scr) y c
            (if y div 32 * scr_cols scr + c = b then buf else fb))"
proof -
  let ?W = "row_bytes scr" and ?U = "block_bytes scr" and ?C = "scr_cols scr"
  let ?c = "b mod scr_cols scr" and ?r = "b div scr_cols scr"
  let ?h = "block_height (scr_rows scr) (scr_h scr) ?r"
  let ?cell = "cell (row_bytes scr) (block_bytes scr) (scr_cols scr)"
  have c: "?c < ?C" and r: "?r < scr_rows scr" using b by (auto simp: less_mult_imp_div_less mod_lt_cols)
  note h = block_row_in [OF ok r] and g = scr_ok_grid [OF ok]
  have nU: "n \<le> ?U" unfolding n by (rule cell_width_le [OF g c])
  define Inv where "Inv k Q \<longleftrightarrow> length Q = length fb \<and> drop (scr_h scr * ?W) Q = drop (scr_h scr * ?W) fb
    \<and> (\<forall>y < scr_h scr. \<forall>c < ?C. ?cell y c Q = ?cell y c (if c = ?c \<and> ?r * 32 \<le> y \<and> y < ?r * 32 + k then buf else fb))" for k Q
  have "\<exists>Q'. memcpy ((?r * 32 + k) * ?W + ?c * ?U) P (k * R + i * ?U) n Q = Some Q' \<and> Inv (Suc k) Q'"
    if k: "k < ?h" and Q: "Inv k Q" for k Q
  proof -
    let ?y = "?r * 32 + k" and ?src = "?cell (?r * 32 + k) ?c buf"
    let ?Q = "blit (?y * ?W + ?c * ?U) ?src Q"
    have y: "?y < scr_h scr" using k h(1) by linarith
    have ls: "length ?src = n" unfolding n by (rule length_cell [OF ok c y len])
    have lQ: "length Q = length fb" using Q by (simp add: Inv_def)
    have dst: "?y * ?W + ?c * ?U + n \<le> scr_h scr * ?W" "?y * ?W + ?c * ?U + n \<le> length Q"
      using cell_in_buffer [OF g c y, of "replicate (scr_h scr * ?W) 0"] cell_in_buffer [OF g c y fb] lQ by (simp_all add: n)
    have "Suc k * R \<le> 32 * R" using k h(2) by (intro mult_le_mono1) linarith
    then have src: "k * R + i * ?U + n \<le> length P"
      using slot_in_row [OF i nU] P unfolding mult_Suc R by linarith
    have "memcpy (?y * ?W + ?c * ?U) P (k * R + i * ?U) n Q = Some ?Q"
      using src dst(2) pk k by (simp add: memcpy_ok packed_def n)
    moreover have "?cell y' c' ?Q = ?cell y' c' (if c' = ?c \<and> ?r * 32 \<le> y' \<and> y' < ?r * 32 + Suc k then buf else fb)"
      if y': "y' < scr_h scr" and c': "c' < ?C" for y' c'
    proof (cases "(y', c') = (?y, ?c)")
      case True
      then show ?thesis using cell_blit_same [of ?src ?W ?U ?C ?c ?y Q] ls dst(2) by (simp add: n)
    next
      case False
      have "?cell y' c' ?Q = ?cell y' c' Q"
        by (rule cell_blit_other [OF g c' c False]) (use ls dst(2) in \<open>simp_all add: n\<close>)
      also have "\<dots> = ?cell y' c' (if c' = ?c \<and> ?r * 32 \<le> y' \<and> y' < ?r * 32 + k then buf else fb)"
        using Q y' c' unfolding Inv_def by blast
      finally show ?thesis using False by (auto simp: less_Suc_eq)
    qed
    moreover have "length ?Q = length fb" "drop (scr_h scr * ?W) ?Q = drop (scr_h scr * ?W) fb"
      using Q dst ls by (simp_all add: Inv_def drop_blit)
    ultimately show ?thesis unfolding Inv_def by blast
  qed
  moreover have "Inv 0 fb" by (auto simp: Inv_def)
  ultimately obtain fb' where fb': "foldM (\<lambda>j. memcpy ((?r * 32 + j) * ?W + ?c * ?U) P (j * R + i * ?U) n) [0..<?h] fb = Some fb'"
    "Inv ?h fb'"
    using foldM_range_invariant [of Inv fb ?h "\<lambda>j. memcpy ((?r * 32 + j) * ?W + ?c * ?U) P (j * R + i * ?U) n"] by auto
  have "c = ?c \<and> ?r * 32 \<le> y \<and> y < ?r * 32 + ?h \<longleftrightarrow> y div 32 * ?C + c = b" if "y < scr_h scr" "c < ?C" for y c
  proof
    assume *: "c = ?c \<and> ?r * 32 \<le> y \<and> y < ?r * 32 + ?h"
    then have "y div 32 = ?r" using h(2) by (intro div_nat_eqI) auto
    then show "y div 32 * ?C + c = b" using * by simp
  next
    assume "y div 32 * ?C + c = b"
    then have "c = ?c" "y div 32 = ?r" using that(2) by auto
    moreover have "y mod 32 < ?h" using row_block_height(2) [OF ok that(1)] calculation(2) by simp
    ultimately show "c = ?c \<and> ?r * 32 \<le> y \<and> y < ?r * 32 + ?h" using div_mult_mod_eq [of y 32] by auto
  qed
  then show ?thesis using fb' unfolding Inv_def by auto
qed

text \<open>The client's 32-bit arithmetic on one block agrees with the natural numbers.\<close>

lemma client_block_words:
  assumes ok: "scr_ok scr" and m: "mirrors mw scr" and b: "b < scr_rows scr * scr_cols scr" and i: "i < N"
    and small: "32 * (N * block_bytes scr) < 2 ^ 32"
  defines "px \<equiv> ucast (mw_px mw) :: u32" and "r \<equiv> b div scr_cols scr" and "c \<equiv> b mod scr_cols scr"
  defines "row \<equiv> (of_nat b :: u32) div mw_cols mw" and "col \<equiv> (of_nat b :: u32) mod mw_cols mw"
  shows "mw_cols mw \<noteq> 0"
    "unat (((if col = mw_cols mw - 1 then biWidth (mw_info mw) else col * 32 + 32) - col * 32) * px)
       = cell_width (row_bytes scr) (block_bytes scr) (scr_cols scr) c"
    "nat (sint ((if row = mw_rows mw - 1 then biHeight (mw_info mw) else row * 32 + 32) - row * 32))
       = block_height (scr_rows scr) (scr_h scr) r"
    "j < block_height (scr_rows scr) (scr_h scr) r \<Longrightarrow>
       unat ((row * 32 + of_nat j) * (biWidth (mw_info mw) * px) + col * 32 * px)
       = (r * 32 + j) * row_bytes scr + c * block_bytes scr"
    "j < 32 \<Longrightarrow>
       unat (of_nat j * (of_nat N * 32 * px) + of_nat i * 32 * px) = j * (N * block_bytes scr) + i * block_bytes scr"
proof -
  note g = scr_ok_grid [OF ok] and sm = scr_ok_small [OF ok]
  have C0: "0 < scr_cols scr" using g by (simp add: grid_def)
  have c: "c < scr_cols scr" and r: "r < scr_rows scr"
    using b by (auto simp: c_def r_def less_mult_imp_div_less mod_lt_cols)
  note C = block_col_in [OF ok c] and R = block_row_in [OF ok r]
  have Cn: "scr_cols scr \<le> scr_w scr" and Rn: "scr_rows scr \<le> scr_h scr"
    using ok scan_points_bounds(1) [of "scr_w scr"] scan_points_bounds(1) [of "scr_h scr"] by (auto simp: scr_ok_def)
  have "scr_rows scr * scr_cols scr \<le> scr_h scr * scr_w scr" using Cn Rn by (rule mult_le_mono [rotated])
  also have "\<dots> \<le> scr_h scr * row_bytes scr" using ok by (simp add: row_bytes_def scr_ok_def)
  finally have b31: "b < 2 ^ 31" using b ok by (simp add: scr_ok_def)
  have cols: "mw_cols mw = of_nat (scr_cols scr)" and rows: "mw_rows mw = of_nat (scr_rows scr)"
    and w: "biWidth (mw_info mw) = of_nat (scr_w scr)" and h: "biHeight (mw_info mw) = of_nat (scr_h scr)"
    and px: "px = of_nat (scr_px scr)"
    using m by (simp_all add: mirrors_def px_def)
  have c32: "scr_cols scr < 2 ^ 32" and r32: "scr_rows scr < 2 ^ 32" using Cn Rn sm by simp_all
  show "mw_cols mw \<noteq> 0" using C0 c32 of_nat_eq_u32 [of "scr_cols scr" 0] by (simp add: cols)
  have row: "row = of_nat r" and col: "col = of_nat c"
    using b31 c32 by (simp_all add: row_def col_def cols r_def c_def of_nat_div_u32 of_nat_mod_u32)
  have ceq: "col = mw_cols mw - 1 \<longleftrightarrow> c = scr_cols scr - 1"
  proof -
    have "mw_cols mw - 1 = of_nat (scr_cols scr - 1)" using C0 by (simp add: cols of_nat_diff)
    then show ?thesis using c c32 by (simp only: col) (subst of_nat_eq_u32; simp)
  qed
  have req: "row = mw_rows mw - 1 \<longleftrightarrow> r = scr_rows scr - 1"
  proof -
    have "mw_rows mw - 1 = of_nat (scr_rows scr - 1)" using r by (simp add: rows of_nat_diff)
    then show ?thesis using r r32 by (simp only: row) (subst of_nat_eq_u32; simp)
  qed
  have bw: "(if col = mw_cols mw - 1 then biWidth (mw_info mw) else col * 32 + 32) - col * 32 = of_nat (block_width scr c)"
    unfolding ceq using C(4) by (simp add: block_width_def w col of_nat_diff)
  have "block_width scr c * scr_px scr < 2 ^ 32"
    using add_leD2 [OF cell_in_row [OF g c]] sm(3) unfolding block_width_bytes by simp
  then show "unat (((if col = mw_cols mw - 1 then biWidth (mw_info mw) else col * 32 + 32) - col * 32) * px)
       = cell_width (row_bytes scr) (block_bytes scr) (scr_cols scr) c"
    using unat_of_nat_u32 [of "block_width scr c * scr_px scr"] unfolding bw px block_width_bytes [symmetric] by simp
  have bh: "(if row = mw_rows mw - 1 then biHeight (mw_info mw) else row * 32 + 32) - row * 32
      = of_nat (block_height (scr_rows scr) (scr_h scr) r)"
    unfolding req using R(4) by (simp add: block_height_def h row of_nat_diff)
  show "nat (sint ((if row = mw_rows mw - 1 then biHeight (mw_info mw) else row * 32 + 32) - row * 32))
       = block_height (scr_rows scr) (scr_h scr) r"
    unfolding bh using R(2) by (simp add: sint_of_nat_u32)
  show "unat ((row * 32 + of_nat j) * (biWidth (mw_info mw) * px) + col * 32 * px)
       = (r * 32 + j) * row_bytes scr + c * block_bytes scr" if "j < block_height (scr_rows scr) (scr_h scr) r"
  proof -
    let ?n = "(r * 32 + j) * row_bytes scr + c * block_bytes scr"
    have "r * 32 + j < scr_h scr" using that R(1) by linarith
    then have "?n \<le> scr_h scr * row_bytes scr"
      using cell_in_buffer [OF g c, of "r * 32 + j" "scr_h scr" "replicate (scr_h scr * row_bytes scr) 0"] by simp
    then have "?n < 2 ^ 32" using ok by (simp add: scr_ok_def)
    moreover have "(row * 32 + of_nat j) * (biWidth (mw_info mw) * px) + col * 32 * px = of_nat ?n"
      by (simp add: row col w px row_bytes_def block_bytes_def SCAN_MODIFY_RECT_UNIT_def mult_ac)
    ultimately show ?thesis by (simp only: unat_of_nat_u32)
  qed
  show "unat (of_nat j * (of_nat N * 32 * px) + of_nat i * 32 * px) = j * (N * block_bytes scr) + i * block_bytes scr"
    if "j < 32"
  proof -
    let ?n = "j * (N * block_bytes scr) + i * block_bytes scr"
    have "Suc j * (N * block_bytes scr) \<le> 32 * (N * block_bytes scr)" using that by (intro mult_le_mono1) simp
    moreover have "i * block_bytes scr \<le> N * block_bytes scr" using i by (intro mult_le_mono1) simp
    ultimately have "?n < 2 ^ 32" using small unfolding mult_Suc by linarith
    moreover have "of_nat j * (of_nat N * 32 * px) + of_nat i * 32 * px = of_nat ?n"
      by (simp add: px block_bytes_def SCAN_MODIFY_RECT_UNIT_def mult_ac)
    ultimately show ?thesis by (simp only: unat_of_nat_u32)
  qed
qed

text \<open>
  The whole update: after it, exactly the cells of the listed blocks hold the server's
  pixels.
\<close>

lemma client_unpack:
  assumes ok: "scr_ok scr" and m: "mirrors mw scr" and fb: "mw_buffer mw = Some fb"
    and lfb: "scr_h scr * row_bytes scr \<le> length fb" and len: "scr_h scr * row_bytes scr \<le> length buf"
    and bl: "\<forall>b\<in>set blocks. b < scr_rows scr * scr_cols scr"
    and small: "32 * (length blocks * block_bytes scr) < 2 ^ 32"
    and P: "32 * (length blocks * block_bytes scr) \<le> length P"
    and pk: "\<forall>k < length blocks. packed scr buf (length blocks * block_bytes scr) P k (blocks ! k)"
  shows "\<exists>fb'. MainWindow_OnGetTransferModifyBitmap (of_nat (length blocks)) (map of_nat blocks) P mw
       = Some (mw\<lparr>mw_buffer := Some fb'\<rparr>)
     \<and> length fb' = length fb \<and> drop (scr_h scr * row_bytes scr) fb' = drop (scr_h scr * row_bytes scr) fb
     \<and> (\<forall>y < scr_h scr. \<forall>c < scr_cols scr. cell (row_bytes scr) (block_bytes scr) (scr_cols scr) y c fb' =
          cell (row_bytes scr) (block_bytes scr) (scr_cols scr) y c
            (if y div 32 * scr_cols scr + c \<in> set blocks then buf else fb))"
proof -
  let ?N = "length blocks" and ?R = "length blocks * block_bytes scr"
  let ?cell = "cell (row_bytes scr) (block_bytes scr) (scr_cols scr)"
  let ?px = "ucast (mw_px mw) :: u32"
  define body where "body i Q =
     (let nBlockIndex = map of_nat blocks ! i;
          nBlockRow = nBlockIndex div mw_cols mw; nBlockColumn = nBlockIndex mod mw_cols mw;
          left = nBlockColumn * 32; topRow = nBlockRow * 32;
          right = (if nBlockColumn = mw_cols mw - 1 then biWidth (mw_info mw) else left + 32);
          bottom = (if nBlockRow = mw_rows mw - 1 then biHeight (mw_info mw) else topRow + 32);
          nColumnStartPos = of_nat i * 32 * ?px;
          nRowPixelByteCount = (right - left) * ?px in
      foldM (\<lambda>j. memcpy (unat ((topRow + of_nat j) * (biWidth (mw_info mw) * ?px) + left * ?px))
               P (unat (of_nat j * (of_nat ?N * 32 * ?px) + nColumnStartPos)) (unat nRowPixelByteCount))
        [0..<nat (sint (bottom - topRow))] Q)" for i Q
  have U0: "0 < block_bytes scr" using scr_ok_grid [OF ok] by (simp add: grid_def)
  have N: "?N \<le> 32 * ?R" using U0 by (cases "block_bytes scr") auto
  then have N32: "?N < 2 ^ 32" using small by linarith
  have nat_body: "body i Q = foldM (\<lambda>j. memcpy ((b div scr_cols scr * 32 + j) * row_bytes scr + b mod scr_cols scr * block_bytes scr)
         P (j * ?R + i * block_bytes scr) (cell_width (row_bytes scr) (block_bytes scr) (scr_cols scr) (b mod scr_cols scr)))
       [0..<block_height (scr_rows scr) (scr_h scr) (b div scr_cols scr)] Q"
    if i: "i < ?N" and b: "b = blocks ! i" for i b Q
  proof -
    have bb: "b < scr_rows scr * scr_cols scr" using bl i b by simp
    note w = client_block_words [OF ok m bb i small]
    have "b div scr_cols scr < scr_rows scr" using bb by (rule less_mult_imp_div_less)
    note h = block_row_in(2) [OF ok this]
    show ?thesis
      using i h unfolding body_def Let_def
      by (simp only: nth_map b [symmetric] w(2,3)) (rule foldM_cong, simp add: w(4,5))
  qed
  define Inv where "Inv k Q \<longleftrightarrow> length Q = length fb \<and> drop (scr_h scr * row_bytes scr) Q = drop (scr_h scr * row_bytes scr) fb
    \<and> (\<forall>y < scr_h scr. \<forall>c < scr_cols scr. ?cell y c Q =
         ?cell y c (if y div 32 * scr_cols scr + c \<in> set (take k blocks) then buf else fb))" for k Q
  have "\<exists>Q'. body k Q = Some Q' \<and> Inv (Suc k) Q'" if k: "k < ?N" and Q: "Inv k Q" for k Q
  proof -
    have lQ: "scr_h scr * row_bytes scr \<le> length Q" using Q lfb by (simp add: Inv_def)
    have bb: "blocks ! k < scr_rows scr * scr_cols scr" using bl k by simp
    obtain Q' where Q': "body k Q = Some Q'" "length Q' = length Q"
      "drop (scr_h scr * row_bytes scr) Q' = drop (scr_h scr * row_bytes scr) Q"
      "\<forall>y < scr_h scr. \<forall>c < scr_cols scr. ?cell y c Q' = ?cell y c (if y div 32 * scr_cols scr + c = blocks ! k then buf else Q)"
      using unpack_one [OF ok lQ bb k refl P _ len refl] pk k unfolding nat_body [OF k refl] by blast
    have "?cell y c Q' = ?cell y c (if y div 32 * scr_cols scr + c \<in> set (take (Suc k) blocks) then buf else fb)"
      if "y < scr_h scr" "c < scr_cols scr" for y c
      using that Q Q'(4) k by (auto simp: Inv_def take_Suc_conv_app_nth)
    then show ?thesis using Q Q' by (auto simp: Inv_def)
  qed
  moreover have "Inv 0 fb" by (simp add: Inv_def)
  ultimately obtain fb' where fb': "foldM body [0..<?N] fb = Some fb'" "Inv ?N fb'"
    using foldM_range_invariant [of Inv fb ?N body] by auto
  have "MainWindow_OnGetTransferModifyBitmap (of_nat ?N) (map of_nat blocks) P mw = Some (mw\<lparr>mw_buffer := Some fb'\<rparr>)"
  proof (cases "?N = 0")
    case True
    then show ?thesis using fb fb'(1) by (simp add: MainWindow_OnGetTransferModifyBitmap_def)
  next
    case False
    then have c: "mw_cols mw \<noteq> 0" and n0: "(of_nat ?N :: u32) \<noteq> 0"
      using client_block_words(1) [OF ok m, of "blocks ! 0" 0 ?N] bl small of_nat_eq_u32 [of ?N 0] N32 by auto
    have nN: "unat (of_nat ?N :: u32) = ?N" using N32 by (rule unat_of_nat_u32)
    have "foldM (\<lambda>i Q. if length (map of_nat blocks :: u32 list) \<le> i \<or> mw_cols mw = 0 then None else body i Q) [0..<?N] fb
        = foldM body [0..<?N] fb"
      using c by (intro foldM_cong) simp
    then show ?thesis
      using fb'(1) n0
      unfolding MainWindow_OnGetTransferModifyBitmap_def fb option.case Let_def nN
        body_def [unfolded Let_def, symmetric] by simp
  qed
  then show ?thesis using fb'(2) by (auto simp: Inv_def)
qed

section \<open>Properties\<close>

lemma picture_eqI:
  assumes "scr_ok scr" and "scr_h scr * row_bytes scr \<le> length a" and "scr_h scr * row_bytes scr \<le> length b"
    and "\<And>y c. y < scr_h scr \<Longrightarrow> c < scr_cols scr \<Longrightarrow>
      cell (row_bytes scr) (block_bytes scr) (scr_cols scr) y c a = cell (row_bytes scr) (block_bytes scr) (scr_cols scr) y c b"
  shows "picture scr a = picture scr b"
  unfolding picture_def by (rule cells_cover [OF scr_ok_grid [OF assms(1)] assms(2-4)])

lemma not_modified_cell:
  assumes "scr_ok scr" and "y < scr_h scr" and "c < scr_cols scr"
    and "\<not> block_modified scr a b (y div 32 * scr_cols scr + c)"
  shows "cell (row_bytes scr) (block_bytes scr) (scr_cols scr) y c a = cell (row_bytes scr) (block_bytes scr) (scr_cols scr) y c b"
  using assms by (auto simp: block_modified_def cells_differ_def)

lemma modified_blocks_sync:
  assumes "scr_ok scr" and "scr_buffer scr = Some buf" and "mirrors mw scr" and "mw_buffer mw = Some fb"
    and "scr_h scr * row_bytes scr \<le> length fb" and "\<forall>b\<in>set blocks. b < scr_rows scr * scr_cols scr"
    and "32 * (length blocks * block_bytes scr) < 2 ^ 32"
    and "\<forall>b < scr_rows scr * scr_cols scr. block_modified scr buf fb b \<longrightarrow> b \<in> set blocks"
  shows "\<exists>P fb'. pack_modified junk scr (scr_rows scr) (scr_cols scr) blocks = Inr (Some P)
    \<and> MainWindow_OnGetTransferModifyBitmap (of_nat (length blocks)) (map of_nat blocks) P mw
        = Some (mw\<lparr>mw_buffer := Some fb'\<rparr>)
    \<and> picture scr fb' = picture scr buf
    \<and> drop (scr_h scr * row_bytes scr) fb' = drop (scr_h scr * row_bytes scr) fb"
proof -
  let ?cell = "cell (row_bytes scr) (block_bytes scr) (scr_cols scr)"
  have len: "scr_h scr * row_bytes scr \<le> length buf" using assms(1,2) by (simp add: scr_ok_def)
  obtain P where P: "pack_modified junk scr (scr_rows scr) (scr_cols scr) blocks = Inr (Some P)"
    "length P = 32 * (length blocks * block_bytes scr)"
    "\<forall>k < length blocks. packed scr buf (length blocks * block_bytes scr) P k (blocks ! k)"
    using pack_modified_ok [OF assms(1,2,6)] by blast
  obtain fb' where fb': "MainWindow_OnGetTransferModifyBitmap (of_nat (length blocks)) (map of_nat blocks) P mw
        = Some (mw\<lparr>mw_buffer := Some fb'\<rparr>)" "length fb' = length fb"
      "drop (scr_h scr * row_bytes scr) fb' = drop (scr_h scr * row_bytes scr) fb"
      "\<forall>y < scr_h scr. \<forall>c < scr_cols scr. ?cell y c fb' =
         ?cell y c (if y div 32 * scr_cols scr + c \<in> set blocks then buf else fb)"
    using client_unpack [OF assms(1,3,4,5) len assms(6,7) _ P(3)] P(2) by auto
  have "picture scr fb' = picture scr buf"
  proof (rule picture_eqI [OF assms(1)])
    fix y c assume y: "y < scr_h scr" and c: "c < scr_cols scr"
    let ?b = "y div 32 * scr_cols scr + c"
    have "?b < scr_rows scr * scr_cols scr"
      using row_block_height(1) [OF assms(1) y] c
      by (metis Suc_leI add.commute add_less_cancel_right less_le_trans mult_Suc mult_le_mono1)
    then have "?b \<notin> set blocks \<Longrightarrow> ?cell y c fb = ?cell y c buf"
      using assms(8) not_modified_cell [OF assms(1) y c, of buf fb] by auto
    then show "?cell y c fb' = ?cell y c buf" using fb'(4) y c by (cases "?b \<in> set blocks") simp_all
  qed (use fb'(2) assms(5) len in simp_all)
  with P fb' show ?thesis by blast
qed

text \<open>
  C2. Screen synchronisation: whatever list of blocks the server sends, if it covers every
  block in which the client's picture differs from the server's, then the server's loop
  succeeds and the client, writing the blocks back with 32-bit arithmetic, ends with exactly
  the server's picture; bytes after the picture (row padding) are left as they were.
\<close>

theorem modified_blocks_synchronise:
  assumes "scr_ok scr" and "scr_buffer scr = Some buf" and "mirrors mw scr" and "mw_buffer mw = Some fb"
    and "scr_h scr * row_bytes scr \<le> length fb" and "\<forall>b\<in>set blocks. b < scr_rows scr * scr_cols scr"
    and "32 * (length blocks * block_bytes scr) < 2 ^ 32"
    and "\<forall>b < scr_rows scr * scr_cols scr. block_modified scr buf fb b \<longrightarrow> b \<in> set blocks"
  shows "\<exists>P fb'. pack_modified junk scr (scr_rows scr) (scr_cols scr) blocks = Inr (Some P)
    \<and> MainWindow_OnGetTransferModifyBitmap (of_nat (length blocks)) (map of_nat blocks) P mw
        = Some (mw\<lparr>mw_buffer := Some fb'\<rparr>)
    \<and> picture scr fb' = picture scr buf
    \<and> drop (scr_h scr * row_bytes scr) fb' = drop (scr_h scr * row_bytes scr) fb"
  using assms by (rule modified_blocks_sync)
theorem modified_blocks_synchronise_witness:
  "\<exists>P fb'. pack_modified (\<lambda>_. 0) ((CScreenBitmap 1 1 [])\<lparr>scr_buffer := Some [1, 2, 3]\<rparr>) 1 1 [0] = Inr (Some P)
    \<and> MainWindow_OnGetTransferModifyBitmap 1 [0] P
        \<lparr>mw_info = scr_info (CScreenBitmap 1 1 []), mw_buffer = Some [9, 9, 9, 7], mw_px = 3, mw_rows = 1, mw_cols = 1\<rparr>
      = Some \<lparr>mw_info = scr_info (CScreenBitmap 1 1 []), mw_buffer = Some fb', mw_px = 3, mw_rows = 1, mw_cols = 1\<rparr>
    \<and> take 3 fb' = [1, 2, 3] \<and> drop 3 fb' = [7]"
proof -
  let ?scr = "(CScreenBitmap 1 1 [])\<lparr>scr_buffer := Some [1, 2, 3]\<rparr>"
  let ?mw = "\<lparr>mw_info = scr_info (CScreenBitmap 1 1 []), mw_buffer = Some [9, 9, 9, 7], mw_px = 3, mw_rows = 1, mw_cols = 1\<rparr>"
  have f: "row_bytes ?scr = 3" "block_bytes ?scr = 96" "scr_h ?scr = 1" "scr_cols ?scr = 1" "scr_rows ?scr = 1"
    by (simp_all add: CScreenBitmap_def row_bytes_def block_bytes_def scan_points_def SCAN_MODIFY_RECT_UNIT_def)
  have ok: "scr_ok ?scr" unfolding scr_ok_def f by (simp add: CScreenBitmap_def scan_points_def)
  have m: "mirrors ?mw ?scr" by (simp add: mirrors_def f) (simp add: CScreenBitmap_def scan_points_def)
  from modified_blocks_synchronise [OF ok, of "[1, 2, 3]" ?mw "[9, 9, 9, 7]" "[0]" "\<lambda>_. 0"] m
  show ?thesis unfolding f picture_def by simp
qed



end
