(* ===== verification/Server_Connection.thy ===== *)
theory Server_Connection
  imports Server_Recv Client_Recv Screen_Transfer "HOL-Library.Sublist" "HOL-Library.Multiset"
begin

text \<open>
  \<^verbatim>\<open>RemoteDesktopServer/ClientConnection.cpp\<close>: the server's side of one client.  The
  object is a record with the class's members; an operation returns the new object and the
  list of its effects on the outside, in order, or a fault.  Windows, the allocator and the
  JPEG encoder are the fields of \<open>env\<close>.  The command queue is drained by
  \<open>OnAsynSendCommand\<close>, which libevent runs after \<open>event_active\<close>.
\<close>

section \<open>Environment and effects\<close>

record env =
  env_alloc :: "u32 \<Rightarrow> bool"
  env_junk :: "nat \<Rightarrow> byte"
  env_jpeg_encode :: "nat \<Rightarrow> nat \<Rightarrow> nat \<Rightarrow> byte list list \<Rightarrow> byte list"
  env_GlobalAlloc :: "nat \<Rightarrow> bool"
  env_OpenClipboard :: bool

datatype conn_out =
    Write "byte list"
  | AskDisconnect u32 u32
  | MouseEvent u32 u32 u32 u32
  | KeyEvent byte u32
  | SetClipboardText "byte list"
  | SetClipboardUnicode "byte list"
  | SetClipboardBitmap bitmap_info "byte list"

record client_conn =
  cs_state :: rd_state
  cs_socket_ok :: bool
  cs_ip :: string
  cs_port :: u16
  cs_bufferev :: "nat option"
  cs_send_event :: bool
  cs_queue :: "command_data list"
  cs_compress :: "u32 option"
  cs_client_version :: "byte list"
  cs_suffix :: "byte list"
  cs_quality :: nat
  cs_file_dlg :: bool
  cs_rows :: nat
  cs_cols :: nat
  cs_modified_count :: nat
  cs_modified :: "nat list option"
  cs_ready :: bool
  cs_ref :: int

type_synonym conn_result = "sb_error + client_conn \<times> conn_out list"

text \<open>
  The constructor; \<open>event_new\<close> may fail, and the event holds a reference while it exists.
\<close>

definition CClientConnection :: "bool \<Rightarrow> string \<Rightarrow> u16 \<Rightarrow> nat option \<Rightarrow> bool \<Rightarrow> client_conn" where
  "CClientConnection socket_ok ip port bufferev event_ok =
     \<lparr>cs_state = RDCS_INVALID, cs_socket_ok = socket_ok,
      cs_ip = (if socket_ok then ip else []), cs_port = (if socket_ok then port else 0),
      cs_bufferev = bufferev, cs_send_event = event_ok, cs_queue = [], cs_compress = None,
      cs_client_version = [], cs_suffix = [], cs_quality = 50, cs_file_dlg = False,
      cs_rows = 0, cs_cols = 0, cs_modified_count = 0, cs_modified = None, cs_ready = False,
      cs_ref = (if event_ok then 1 else 0)\<rparr>"

definition IsValid :: "client_conn \<Rightarrow> bool" where
  "IsValid p \<longleftrightarrow> \<not> (\<not> cs_socket_ok p \<or> cs_bufferev p = None)"

definition same_peer :: "client_conn \<Rightarrow> client_conn \<Rightarrow> bool" where
  "same_peer q p \<longleftrightarrow> cs_ip p = cs_ip q \<and> cs_port p = cs_port q"

section \<open>Sending\<close>

definition Send_data :: "byte list \<Rightarrow> client_conn \<Rightarrow> int \<times> conn_out list" where
  "Send_data data p = (if cs_bufferev p = None then (-1, []) else (0, [Write data]))"

definition Send_command :: "env \<Rightarrow> command_data \<Rightarrow> client_conn \<Rightarrow> int \<times> conn_out list" where
  "Send_command e c p =
     (case MakeStream (env_alloc e) (uninit (env_junk e) (4 + 4 + length (cd_data c))) c of
        None \<Rightarrow> (-1, [])
      | Some stream \<Rightarrow> Send_data stream p)"

text \<open>\<open>AsynSend\<close> reads the code of its argument for the log first: a NULL command faults.\<close>

definition AsynSend :: "command_data option \<Rightarrow> client_conn \<Rightarrow> sb_error + int \<times> client_conn" where
  "AsynSend pCommand p =
     (case pCommand of
        None \<Rightarrow> Inl MemFault
      | Some c \<Rightarrow>
          if \<not> cs_send_event p then Inr (-2, p)
          else Inr (1, p\<lparr>cs_queue := cs_queue p @ [c]\<rparr>))"

definition OnAsynSendCommand :: "env \<Rightarrow> client_conn \<Rightarrow> client_conn \<times> conn_out list" where
  "OnAsynSendCommand e p =
     (p\<lparr>cs_queue := []\<rparr>, concat (map (\<lambda>c. snd (Send_command e c p)) (cs_queue p)))"

definition AsynSendLogonResult :: "command_data option \<Rightarrow> client_conn \<Rightarrow> sb_error + int \<times> client_conn" where
  "AsynSendLogonResult pCommand p =
     (case pCommand of
        None \<Rightarrow> Inl MemFault
      | Some c \<Rightarrow> if cs_state p \<noteq> RDCS_LOGON then Inr (-1, p) else AsynSend pCommand p)"

section \<open>The picture\<close>

text \<open>\<open>JPEG::Compress\<close> hands libjpeg one row after the other.\<close>

definition JPEG_Compress :: "env \<Rightarrow> nat \<Rightarrow> nat \<Rightarrow> nat \<Rightarrow> byte list \<Rightarrow> nat \<Rightarrow> byte list option" where
  "JPEG_Compress e width height px src quality =
     (if height * width * px - width * px + width * 3 \<le> length src \<or> height = 0
      then Some (env_jpeg_encode e width height quality (map (\<lambda>y. seg (y * width * px) (width * 3) src) [0..<height]))
      else None)"

text \<open>
  \<open>AsynSendTransferBitmap\<close>.  With a picture format that is neither of the two no command is
  made and \<open>AsynSend(NULL)\<close> is called.
\<close>

definition picture_command :: "env \<Rightarrow> screen \<Rightarrow> byte list \<Rightarrow> client_conn \<Rightarrow> sb_error + command_data option" where
  "picture_command e scr bits p =
     (if cs_suffix p = BITMAP_SUFFIX_BMP then
        (case CCommandTransferBitmapServer (scr_info scr) (of_nat (scr_px scr)) bits of
           None \<Rightarrow> Inl MemFault
         | Some c \<Rightarrow> Inr (Some c))
      else if cs_suffix p = BITMAP_SUFFIX_JPEG then
        (case JPEG_Compress e (unat (biWidth (scr_info scr))) (unat (biHeight (scr_info scr))) (scr_px scr) bits (cs_quality p) of
           None \<Rightarrow> Inl MemFault
         | Some dest \<Rightarrow>
             (case CCommandTransferBitmapServerJPEG (of_nat (scr_px scr)) dest (of_nat (length dest)) of
                None \<Rightarrow> Inl MemFault
              | Some c \<Rightarrow> Inr (Some c)))
      else Inr None)"

definition AsynSendTransferBitmap :: "env \<Rightarrow> screen \<Rightarrow> client_conn \<Rightarrow> sb_error + int \<times> client_conn" where
  "AsynSendTransferBitmap e scr p =
     (if cs_state p \<noteq> RDCS_TRANSFER then Inr (-1, p)
      else
        case GetBuffer 0 0 scr of
          None \<Rightarrow> Inr (-2, p)
        | Some (bits, _) \<Rightarrow>
            if sint (biHeight (scr_info scr)) \<le> 0 \<or> sint (biWidth (scr_info scr)) \<le> 0 then Inr (-3, p)
            else
              let rows = scan_points (unat (biHeight (scr_info scr)));
                  cols = scan_points (unat (biWidth (scr_info scr)));
                  n = rows * cols;
                  blocks = (case cs_modified p of None \<Rightarrow> replicate n 0 | Some bs \<Rightarrow> bs) in
              if length blocks < n then Inl MemFault
              else
                let p1 = p\<lparr>cs_rows := rows, cs_cols := cols, cs_modified_count := 0,
                           cs_modified := Some (replicate n 0 @ drop n blocks)\<rparr> in
                rd_bind (picture_command e scr bits p1) (\<lambda>c. AsynSend c p1))"

text \<open>The command for the laid-out blocks, compressed as one wide picture for JPEG.\<close>

definition modify_command :: "env \<Rightarrow> screen \<Rightarrow> client_conn \<Rightarrow> nat list \<Rightarrow> byte list \<Rightarrow> sb_error + command_data" where
  "modify_command e scr p blocks pBuffer =
     (case (if cs_suffix p = BITMAP_SUFFIX_JPEG
            then JPEG_Compress e (SCAN_MODIFY_RECT_UNIT * length blocks) SCAN_MODIFY_RECT_UNIT (scr_px scr) pBuffer (cs_quality p)
            else Some pBuffer) of
        None \<Rightarrow> Inl MemFault
      | Some dest \<Rightarrow>
          (case CCommandTransferModifyBitmap (of_nat (length blocks)) (map of_nat blocks) (of_nat (length dest)) dest of
             None \<Rightarrow> Inl MemFault
           | Some c \<Rightarrow> Inr c))"

definition AsynSendTransterModifyBitmap :: "env \<Rightarrow> screen \<Rightarrow> client_conn \<Rightarrow> sb_error + int \<times> client_conn" where
  "AsynSendTransterModifyBitmap e scr p =
     (if cs_state p \<noteq> RDCS_TRANSFER then Inr (-1, p)
      else if cs_modified_count p = 0 then Inr (-2, p)
      else
        case cs_modified p of
          None \<Rightarrow> Inl MemFault
        | Some bs \<Rightarrow>
            if length bs < cs_modified_count p then Inl MemFault
            else
              let blocks = take (cs_modified_count p) bs in
              rd_bind (pack_modified (env_junk e) scr (cs_rows p) (cs_cols p) blocks) (\<lambda>packed.
              case packed of
                None \<Rightarrow> Inr (-3, p)
              | Some pBuffer \<Rightarrow>
                  rd_bind (modify_command e scr p blocks pBuffer) (\<lambda>c. AsynSend (Some c) p)))"

section \<open>Screen events\<close>

text \<open>
  Merging the blocks that wait with the new ones: at most \<open>limit\<close> rounds, each taking the
  smaller head, the old one when they are equal; a block in both lists is kept twice.
\<close>

fun merge_blocks :: "nat \<Rightarrow> nat list \<Rightarrow> nat list \<Rightarrow> nat list" where
  "merge_blocks 0 old new = []"
| "merge_blocks (Suc k) [] [] = []"
| "merge_blocks (Suc k) [] (n # ns) = n # merge_blocks k [] ns"
| "merge_blocks (Suc k) (b # bs) [] = b # merge_blocks k bs []"
| "merge_blocks (Suc k) (b # bs) (n # ns) =
     (if n \<ge> b then b # merge_blocks k bs (n # ns) else n # merge_blocks k (b # bs) ns)"

definition OnScreenFirstBitmap :: "env \<Rightarrow> screen \<Rightarrow> client_conn \<Rightarrow> sb_error + client_conn" where
  "OnScreenFirstBitmap e scr p = rd_bind (AsynSendTransferBitmap e scr p) (\<lambda>(_, p1). Inr p1)"

text \<open>What is in \<open>m_pnModifiedBlocks\<close> after the new blocks came in.\<close>

definition add_modified :: "nat list \<Rightarrow> client_conn \<Rightarrow> sb_error + client_conn" where
  "add_modified blocks p =
     (case cs_modified p of
        None \<Rightarrow> Inl MemFault
      | Some bs \<Rightarrow>
          if cs_modified_count p = 0 then
            if length bs < length blocks then Inl MemFault
            else Inr (p\<lparr>cs_modified_count := length blocks, cs_modified := Some (blocks @ drop (length blocks) bs)\<rparr>)
          else
            let n = cs_rows p * cs_cols p in
            if length bs < n \<or> length bs < cs_modified_count p then Inl MemFault
            else
              let merged = merge_blocks n (take (cs_modified_count p) bs) blocks in
              Inr (p\<lparr>cs_modified_count := length merged,
                     cs_modified := Some (merged @ replicate (n - length merged) 0 @ drop n bs)\<rparr>))"

definition OnScreenModified :: "env \<Rightarrow> screen \<Rightarrow> nat list \<Rightarrow> client_conn \<Rightarrow> sb_error + client_conn" where
  "OnScreenModified e scr blocks p =
     (if blocks = [] then Inr p
      else
        rd_bind (add_modified blocks p) (\<lambda>p1.
        if cs_ready p1 then
          rd_bind (AsynSendTransterModifyBitmap e scr (p1\<lparr>cs_ready := False\<rparr>)) (\<lambda>(ret, p2).
          if ret < 0 then Inr (p2\<lparr>cs_ready := True\<rparr>)
          else
            let n = cs_rows p2 * cs_cols p2 in
            case cs_modified p2 of
              None \<Rightarrow> Inl MemFault
            | Some bs \<Rightarrow>
                if length bs < n then Inl MemFault
                else Inr (p2\<lparr>cs_modified_count := 0, cs_modified := Some (replicate n 0 @ drop n bs)\<rparr>))
        else Inr p1))"

section \<open>Closing\<close>

definition drop_send_event :: "client_conn \<Rightarrow> client_conn" where
  "drop_send_event p =
     (if cs_send_event p then p\<lparr>cs_send_event := False, cs_ref := cs_ref p - 1\<rparr> else p)"

definition conn_Stop :: "env \<Rightarrow> u32 \<Rightarrow> client_conn \<Rightarrow> client_conn \<times> conn_out list" where
  "conn_Stop e errorCode p =
     (let outs = (if cs_state p > RDCS_CONNECTED \<and> cs_state p \<noteq> RDCS_DISCONNECTED
                  then snd (Send_command e (CCommandDisconnect errorCode) p) else []) in
      (drop_send_event (p\<lparr>cs_bufferev := None\<rparr>), outs))"

definition conn_OnError :: "u32 \<Rightarrow> client_conn \<Rightarrow> client_conn" where
  "conn_OnError errorCode p = drop_send_event (p\<lparr>cs_state := RDCS_DISCONNECTED, cs_bufferev := None\<rparr>)"

definition OnConnect :: "client_conn \<Rightarrow> client_conn" where
  "OnConnect p = p\<lparr>cs_state := RDCS_CONNECTED\<rparr>"

section \<open>Receiving\<close>

definition CheckCmdCodeValid :: "rd_state \<Rightarrow> u32 \<Rightarrow> bool" where
  "CheckCmdCodeValid state code =
     ((case state of
         RDCS_CONNECTED \<Rightarrow> code = RDCC_PROTOCOL_VERSION
       | RDCS_PROTOCOL_VERSION \<Rightarrow> code = RDCC_LOGON
       | RDCS_LOGON \<Rightarrow> code = RDCC_COMPRESS_MODE
       | RDCS_COMPRESS_MODE \<Rightarrow> code = RDCC_TRANSFER_BITMAP
       | RDCS_TRANSFER \<Rightarrow> \<not> (code_less code RDCC_TRANSFER_BITMAP \<or> code_less RDCC_DISCONNECT code)
       | _ \<Rightarrow> False)
      \<and> \<not> (code = RDCC_DISCONNECT \<and> (state < RDCS_CONNECTED \<or> state = RDCS_DISCONNECTED)))"

text \<open>\<open>c_str()\<close>: the bytes up to the first NUL, as character codes.\<close>

definition c_str :: "byte list \<Rightarrow> nat list" where
  "c_str s = map unat (takeWhile (\<lambda>b. b \<noteq> 0) s)"

definition conn_OnGetProtocalVersion :: "byte list \<Rightarrow> byte list \<Rightarrow> client_conn \<Rightarrow> conn_result" where
  "conn_OnGetProtocalVersion strProtocalVersion strClientVersion p =
     (if length strProtocalVersion \<le> 0 then Inr (p, [AskDisconnect RDEC_PROTOCOL_VERSION_FAILED 0])
      else
        let nClientMainVersion = atoi (c_str strProtocalVersion);
            nServerMainVersion = atoi (c_str RD_PROTOCAL_VERSION) in
        if nServerMainVersion \<noteq> nClientMainVersion then Inr (p, [AskDisconnect RDEC_PROTOCOL_VERSION_FAILED 0])
        else Inr (p\<lparr>cs_client_version := strClientVersion, cs_state := RDCS_PROTOCOL_VERSION\<rparr>, []))"

definition conn_OnGetLogon :: "byte list \<Rightarrow> byte list \<Rightarrow> client_conn \<Rightarrow> conn_result" where
  "conn_OnGetLogon strUserName strPassword p =
     rd_bind (AsynSend (Some (CCommandLogonResult 0)) (p\<lparr>cs_state := RDCS_LOGON\<rparr>)) (\<lambda>(_, p1). Inr (p1, []))"

text \<open>\<open>CCompressFactory::CreateCompress\<close>: the mode of the object it makes.\<close>

definition CreateCompress :: "u32 \<Rightarrow> u32 option" where
  "CreateCompress mode = (if mode = RDCM_RAW then Some RDCM_RAW else if mode = RDCM_ZIP then Some RDCM_ZIP else None)"

definition conn_OnGetCompressMode :: "u32 \<Rightarrow> client_conn \<Rightarrow> conn_result" where
  "conn_OnGetCompressMode mode p =
     (case CreateCompress mode of
        None \<Rightarrow> Inr (p, [AskDisconnect RDEC_COMPRESS_MODE_NOT_SUPPORT 0])
      | Some m \<Rightarrow> Inr (p\<lparr>cs_compress := Some m, cs_state := RDCS_COMPRESS_MODE\<rparr>, []))"

definition conn_OnGetTransferBitmap :: "env \<Rightarrow> screen \<Rightarrow> byte list \<Rightarrow> client_conn \<Rightarrow> conn_result" where
  "conn_OnGetTransferBitmap e scr strSuffix p =
     rd_bind (AsynSendTransferBitmap e scr (p\<lparr>cs_state := RDCS_TRANSFER, cs_suffix := strSuffix\<rparr>)) (\<lambda>(_, p1). Inr (p1, []))"

definition conn_OnGetTransferBitmapResult :: "u32 \<Rightarrow> client_conn \<Rightarrow> conn_result" where
  "conn_OnGetTransferBitmapResult nResult p =
     (if nResult = 0 then Inr (p\<lparr>cs_ready := True\<rparr>, [])
      else Inr (p, [AskDisconnect RDEC_TRANSFER_BITMAP_RESPONSE_FAILED nResult]))"

definition CF_TEXT :: u32 where "CF_TEXT = 1"
definition CF_BITMAP :: u32 where "CF_BITMAP = 2"
definition CF_UNICODETEXT :: u32 where "CF_UNICODETEXT = 13"

text \<open>
  \<open>strcpy\<close> and \<open>wcscpy\<close> out of the received block, which has no terminator of its own:
  without one in the data they read past it.
\<close>

fun wide_chars :: "byte list \<Rightarrow> byte list option" where
  "wide_chars (a # b # bs) = (if a = 0 \<and> b = 0 then Some [] else map_option (\<lambda>r. a # b # r) (wide_chars bs))"
| "wide_chars _ = None"

definition conn_OnGetTransferClipboardEvent :: "env \<Rightarrow> u32 \<Rightarrow> byte list \<Rightarrow> u32 \<Rightarrow> client_conn \<Rightarrow> conn_result" where
  "conn_OnGetTransferClipboardEvent e uFormat pData nLength p =
     (if nLength = 0 then Inr (p, [])
      else if uFormat = CF_TEXT then
        (if \<not> env_GlobalAlloc e (unat nLength + 1) then Inr (p, [])
         else if 0 \<notin> set pData then Inl MemFault
         else Inr (p, if env_OpenClipboard e then [SetClipboardText (takeWhile (\<lambda>b. b \<noteq> 0) pData)] else []))
      else if uFormat = CF_UNICODETEXT then
        (if \<not> env_GlobalAlloc e ((unat nLength + 1) * 2) then Inr (p, [])
         else (case wide_chars pData of
                 None \<Rightarrow> Inl MemFault
               | Some w \<Rightarrow> Inr (p, if env_OpenClipboard e then [SetClipboardUnicode w] else [])))
      else if uFormat = CF_BITMAP then
        (if unat nLength \<le> sizeof_BitmapInfo then Inr (p, [])
         else
           let info = bitmap_info_of_bytes (take sizeof_BitmapInfo pData) in
           if sint (biWidth info) \<le> 0 \<or> sint (biHeight info) \<le> 0 then Inr (p, [])
           else Inr (p, if env_OpenClipboard e then [SetClipboardBitmap info (drop sizeof_BitmapInfo pData)] else []))
      else Inr (p, []))"

definition conn_OnGetTransferFile :: "client_conn \<Rightarrow> conn_result" where
  "conn_OnGetTransferFile p = Inr (p\<lparr>cs_file_dlg := True\<rparr>, [])"

text \<open>The callback a parser makes, as a call on the connection.\<close>

definition server_handle :: "env \<Rightarrow> screen \<Rightarrow> server_event \<Rightarrow> client_conn \<Rightarrow> conn_result" where
  "server_handle e scr ev p =
     (case ev of
        OnGetProtocalVersion v c \<Rightarrow> conn_OnGetProtocalVersion v c p
      | OnGetLogon u w \<Rightarrow> conn_OnGetLogon u w p
      | OnGetCompressMode m \<Rightarrow> conn_OnGetCompressMode m p
      | OnGetTransferBitmap s \<Rightarrow> conn_OnGetTransferBitmap e scr s p
      | OnGetTransferBitmapResult n \<Rightarrow> conn_OnGetTransferBitmapResult n p
      | OnGetTransferMouseEvent f x y d \<Rightarrow> Inr (p, [MouseEvent f x y d])
      | OnGetTransferKeyboardEvent vk f \<Rightarrow> Inr (p, [KeyEvent vk f])
      | OnGetTransferClipboardEvent f d n \<Rightarrow> conn_OnGetTransferClipboardEvent e f d n p
      | OnGetTransferFile _ _ \<Rightarrow> conn_OnGetTransferFile p
      | OnGetTransferDirectory _ _ _ \<Rightarrow> conn_OnGetTransferFile p
      | OnGetDisconnect n \<Rightarrow> Inr (p, [AskDisconnect n 0]))"

definition OnReciveCommand :: "env \<Rightarrow> screen \<Rightarrow> command_data \<Rightarrow> client_conn \<Rightarrow> conn_result" where
  "OnReciveCommand e scr c p =
     (if cs_state p < RDCS_CONNECTED then Inr (p, [])
      else if \<not> CheckCmdCodeValid (cs_state p) (cd_code c) then Inr (p, [])
      else
        case server_parse (env_alloc e) c of
          None \<Rightarrow> Inr (p, [])
        | Some (Inl err) \<Rightarrow> if err \<in> {E_INVALIDARG, E_OUTOFMEMORY} then Inr (p, []) else Inl err
        | Some (Inr ev) \<Rightarrow> server_handle e scr ev p)"

text \<open>A sequence of received commands.\<close>

fun receive_all :: "env \<Rightarrow> screen \<Rightarrow> command_data list \<Rightarrow> client_conn \<Rightarrow> conn_result" where
  "receive_all e scr [] p = Inr (p, [])"
| "receive_all e scr (c # cs) p =
     rd_bind (OnReciveCommand e scr c p) (\<lambda>(p1, o1).
     rd_bind (receive_all e scr cs p1) (\<lambda>(p2, o2). Inr (p2, o1 @ o2)))"

section \<open>The connection's invariant\<close>

text \<open>
  Codes that still have to arrive before a connection in a given state transfers pictures.
\<close>

fun needed :: "rd_state \<Rightarrow> u32 list" where
  "needed RDCS_CONNECTED = [RDCC_PROTOCOL_VERSION, RDCC_LOGON, RDCC_COMPRESS_MODE, RDCC_TRANSFER_BITMAP]"
| "needed RDCS_PROTOCOL_VERSION = [RDCC_LOGON, RDCC_COMPRESS_MODE, RDCC_TRANSFER_BITMAP]"
| "needed RDCS_LOGON = [RDCC_COMPRESS_MODE, RDCC_TRANSFER_BITMAP]"
| "needed RDCS_COMPRESS_MODE = [RDCC_TRANSFER_BITMAP]"
| "needed _ = []"

definition handshake_state :: "rd_state \<Rightarrow> bool" where
  "handshake_state s \<longleftrightarrow> s \<in> {RDCS_CONNECTED, RDCS_PROTOCOL_VERSION, RDCS_LOGON, RDCS_COMPRESS_MODE, RDCS_TRANSFER}"

text \<open>The operations of one connection as a step relation.\<close>

inductive conn_step :: "env \<Rightarrow> client_conn \<Rightarrow> client_conn \<Rightarrow> bool" for e where
  connect: "cs_state p = RDCS_INVALID \<Longrightarrow> conn_step e p (OnConnect p)"
| recv: "OnReciveCommand e scr c p = Inr (p', outs) \<Longrightarrow> conn_step e p p'"
| drain: "conn_step e p (fst (OnAsynSendCommand e p))"
| first: "OnScreenFirstBitmap e scr p = Inr p' \<Longrightarrow> conn_step e p p'"
| modified: "OnScreenModified e scr blocks p = Inr p' \<Longrightarrow> conn_step e p p'"
| stop: "conn_step e p (fst (conn_Stop e code p))"
| error: "conn_step e p (conn_OnError code p)"

inductive conn_reachable :: "env \<Rightarrow> client_conn \<Rightarrow> bool" for e where
  start: "conn_reachable e (CClientConnection socket_ok ip port bufferev event_ok)"
| step: "conn_reachable e p \<Longrightarrow> conn_step e p p' \<Longrightarrow> conn_reachable e p'"

text \<open>The block list has room for the whole grid and holds the counted blocks.\<close>

definition modified_ok :: "nat \<Rightarrow> nat \<Rightarrow> nat \<Rightarrow> nat list option \<Rightarrow> bool" where
  "modified_ok rows cols n blocks \<longleftrightarrow>
     (case blocks of None \<Rightarrow> n = 0 | Some bs \<Rightarrow> rows * cols \<le> length bs \<and> n \<le> length bs)"

definition conn_inv :: "client_conn \<Rightarrow> bool" where
  "conn_inv p \<longleftrightarrow>
     cs_state p \<noteq> RDCS_LOGON_RESULT
     \<and> (cs_state p \<in> {RDCS_COMPRESS_MODE, RDCS_TRANSFER} \<longrightarrow> cs_compress p \<in> {Some RDCM_RAW, Some RDCM_ZIP})
     \<and> (cs_ready p \<longrightarrow> cs_state p \<in> {RDCS_TRANSFER, RDCS_DISCONNECTED})
     \<and> cs_ref p = (if cs_send_event p then 1 else 0)
     \<and> modified_ok (cs_rows p) (cs_cols p) (cs_modified_count p) (cs_modified p)"

lemma conn_inv_queue [simp]: "conn_inv (p\<lparr>cs_queue := q\<rparr>) = conn_inv p"
  by (simp add: conn_inv_def)

text \<open>Sending only ever touches the queue.\<close>

lemma AsynSend_cases:
  assumes "AsynSend c p = Inr (r, p')"
  obtains "p' = p" "r = -2" "\<not> cs_send_event p"
  | x where "c = Some x" "r = 1" "cs_send_event p" "p' = p\<lparr>cs_queue := cs_queue p @ [x]\<rparr>"
  using assms by (auto simp: AsynSend_def split: option.splits if_splits)

lemma rd_bind_Inr: "rd_bind m f = Inr y \<longleftrightarrow> (\<exists>x. m = Inr x \<and> f x = Inr y)"
  by (cases m) auto

lemma AsynSendTransferBitmap_inv:
  assumes "AsynSendTransferBitmap e scr p = Inr (r, p')" and "conn_inv p"
  shows "conn_inv p'" "cs_state p' = cs_state p"
proof -
  let ?rows = "scan_points (unat (biHeight (scr_info scr)))" and ?cols = "scan_points (unat (biWidth (scr_info scr)))"
  let ?blocks = "case cs_modified p of None \<Rightarrow> replicate (?rows * ?cols) 0 | Some bs \<Rightarrow> bs"
  have "p' = p \<or> (\<exists>c. ?rows * ?cols \<le> length ?blocks \<and> AsynSend c (p\<lparr>cs_rows := ?rows, cs_cols := ?cols, cs_modified_count := 0,
      cs_modified := Some (replicate (?rows * ?cols) 0 @ drop (?rows * ?cols) ?blocks)\<rparr>) = Inr (r, p'))"
    using assms(1) unfolding AsynSendTransferBitmap_def Let_def
    by (auto simp only: rd_bind_Inr not_less split: if_splits option.split_asm prod.split_asm)
  moreover have "?rows * ?cols \<le> length (replicate (?rows * ?cols) 0 @ drop (?rows * ?cols) ?blocks)" by simp
  ultimately have "p' = p \<or> (\<exists>rows cols bs c. rows * cols \<le> length bs
      \<and> AsynSend c (p\<lparr>cs_rows := rows, cs_cols := cols, cs_modified_count := 0, cs_modified := Some bs\<rparr>) = Inr (r, p'))"
    by blast
  then consider "p' = p" | (sent) rows cols bs c where "rows * cols \<le> length bs"
      "AsynSend c (p\<lparr>cs_rows := rows, cs_cols := cols, cs_modified_count := 0, cs_modified := Some bs\<rparr>) = Inr (r, p')"
    by blast
  then have "conn_inv p' \<and> cs_state p' = cs_state p"
  proof cases
    case sent
    have "conn_inv (p\<lparr>cs_rows := rows, cs_cols := cols, cs_modified_count := 0, cs_modified := Some bs\<rparr>)"
      using assms(2) sent(1) by (simp add: conn_inv_def modified_ok_def)
    with sent(2) show ?thesis by (auto elim: AsynSend_cases)
  qed (use assms in simp_all)
  then show "conn_inv p'" "cs_state p' = cs_state p" by simp_all
qed

lemma AsynSendTransterModifyBitmap_inv:
  assumes "AsynSendTransterModifyBitmap e scr p = Inr (r, p')"
  shows "p' = p \<and> r < 0 \<or> cs_state p = RDCS_TRANSFER \<and> (\<exists>c. AsynSend (Some c) p = Inr (r, p'))"
  using assms
  by (auto simp: AsynSendTransterModifyBitmap_def Let_def rd_bind_Inr split: if_splits option.splits)

lemma length_merge_blocks: "length (merge_blocks k old new) \<le> k"
  by (induction k old new rule: merge_blocks.induct) auto

lemma add_modified_inv:
  assumes "add_modified blocks p = Inr p'" and "conn_inv p"
  shows "conn_inv p'" "cs_state p' = cs_state p" "cs_ready p' = cs_ready p"
proof -
  obtain bs where bs: "cs_modified p = Some bs" using assms(1) by (auto simp: add_modified_def split: option.splits)
  have inv: "cs_rows p * cs_cols p \<le> length bs" "cs_modified_count p \<le> length bs"
    using assms(2) bs by (simp_all add: conn_inv_def modified_ok_def)
  let ?n = "cs_rows p * cs_cols p"
  let ?m = "merge_blocks ?n (take (cs_modified_count p) bs) blocks"
  have "\<exists>k xs. p' = p\<lparr>cs_modified_count := k, cs_modified := Some xs\<rparr> \<and> k \<le> length xs \<and> cs_rows p * cs_cols p \<le> length xs"
  proof (cases "cs_modified_count p = 0")
    case True
    then show ?thesis
      using assms(1) bs inv
      by (intro exI [of _ "length blocks"] exI [of _ "blocks @ drop (length blocks) bs"])
         (auto simp: add_modified_def not_less split: if_splits)
  next
    case False
    then show ?thesis
      using assms(1) bs inv length_merge_blocks [of ?n "take (cs_modified_count p) bs" blocks]
      by (intro exI [of _ "length ?m"] exI [of _ "?m @ replicate (?n - length ?m) 0 @ drop ?n bs"])
         (auto simp: add_modified_def Let_def)
  qed
  then show "conn_inv p'" "cs_state p' = cs_state p" "cs_ready p' = cs_ready p"
    using assms(2) by (auto simp: conn_inv_def modified_ok_def)
qed

lemma OnScreenModified_inv:
  assumes "OnScreenModified e scr blocks p = Inr p'" and "conn_inv p"
  shows "conn_inv p'"
proof (cases "blocks = []")
  case True
  then show ?thesis using assms by (simp add: OnScreenModified_def)
next
  case False
  then obtain p1 where p1: "add_modified blocks p = Inr p1"
    using assms(1) by (auto simp: OnScreenModified_def rd_bind_Inr)
  note i1 = add_modified_inv [OF p1 assms(2)]
  show ?thesis
  proof (cases "cs_ready p1")
    case False
    then show ?thesis using assms(1) i1(1) p1 \<open>blocks \<noteq> []\<close> by (simp add: OnScreenModified_def)
  next
    case True
    obtain r p2 where p2: "AsynSendTransterModifyBitmap e scr (p1\<lparr>cs_ready := False\<rparr>) = Inr (r, p2)"
      using assms(1) p1 True \<open>blocks \<noteq> []\<close> by (auto simp: OnScreenModified_def rd_bind_Inr)
    have "conn_inv (p1\<lparr>cs_ready := False\<rparr>)" using i1(1) by (simp add: conn_inv_def)
    then have i2: "conn_inv p2" "cs_state p2 = cs_state p1"
      using AsynSendTransterModifyBitmap_inv [OF p2] by (auto elim: AsynSend_cases)
    have s1: "cs_state p1 \<in> {RDCS_TRANSFER, RDCS_DISCONNECTED}" using i1(1) True by (simp add: conn_inv_def)
    show ?thesis
    proof (cases "r < 0")
      case True
      then have "p' = p2\<lparr>cs_ready := True\<rparr>"
        using assms(1) p1 p2 \<open>cs_ready p1\<close> \<open>blocks \<noteq> []\<close> by (simp add: OnScreenModified_def)
      then show ?thesis using i2 s1 by (auto simp: conn_inv_def)
    next
      case False
      then obtain bs where "cs_modified p2 = Some bs" "p' = p2\<lparr>cs_modified_count := 0,
            cs_modified := Some (replicate (cs_rows p2 * cs_cols p2) 0 @ drop (cs_rows p2 * cs_cols p2) bs)\<rparr>"
        using assms(1) p1 p2 \<open>cs_ready p1\<close> \<open>blocks \<noteq> []\<close>
        by (auto simp: OnScreenModified_def Let_def split: option.splits if_splits)
      then show ?thesis using i2(1) by (simp add: conn_inv_def modified_ok_def)
    qed
  qed
qed

section \<open>Handlers and the protocol order\<close>

fun event_code :: "server_event \<Rightarrow> u32" where
  "event_code (OnGetProtocalVersion _ _) = RDCC_PROTOCOL_VERSION"
| "event_code (OnGetLogon _ _) = RDCC_LOGON"
| "event_code (OnGetCompressMode _) = RDCC_COMPRESS_MODE"
| "event_code (OnGetTransferBitmap _) = RDCC_TRANSFER_BITMAP"
| "event_code (OnGetTransferBitmapResult _) = RDCC_TRANSFER_BITMAP_RESPONSE"
| "event_code (OnGetTransferMouseEvent _ _ _ _) = RDCC_TRANSFER_MOUSE_EVENT"
| "event_code (OnGetTransferKeyboardEvent _ _) = RDCC_TRANSFER_KEYBOARD_EVENT"
| "event_code (OnGetTransferClipboardEvent _ _ _) = RDCC_TRANSFER_CLIPBOARD"
| "event_code (OnGetTransferFile _ _) = RDCC_TRANSFER_FILE"
| "event_code (OnGetTransferDirectory _ _ _) = RDCC_TRANSFER_DIRECTORY"
| "event_code (OnGetDisconnect _) = RDCC_DISCONNECT"

lemma server_parse_code:
  assumes "server_parse can_alloc c = Some (Inr ev)"
  shows "event_code ev = cd_code c"
proof -
  obtain parse where parse: "CServerReciveCmdFactory_CreateCmd (cd_code c) = Some parse" "parse can_alloc c = Inr ev"
    using assms by (auto simp: server_parse_def)
  show ?thesis
    using parse(1)
    unfolding CServerReciveCmdFactory_CreateCmd_def
    by (simp split: if_split_asm; use parse(2) in \<open>auto simp: parse_defs rd_bind_Inr split: if_split_asm\<close>)
qed

text \<open>A received command either is ignored or reaches the handler of its code.\<close>

lemma OnReciveCommand_cases:
  assumes "OnReciveCommand e scr c p = Inr (p', outs)"
  obtains (ignored) "p' = p" "outs = []"
  | (handled) ev where "CheckCmdCodeValid (cs_state p) (cd_code c)" "event_code ev = cd_code c"
      "server_handle e scr ev p = Inr (p', outs)"
  using assms server_parse_code [of "env_alloc e" c]
  by (auto simp: OnReciveCommand_def split: if_split_asm option.split_asm sum.split_asm)

lemmas handler_defs =
  conn_OnGetProtocalVersion_def conn_OnGetLogon_def conn_OnGetCompressMode_def conn_OnGetTransferBitmap_def
  conn_OnGetTransferBitmapResult_def conn_OnGetTransferClipboardEvent_def conn_OnGetTransferFile_def

text \<open>The code that a handshake state waits for.\<close>

lemma CheckCmdCodeValid_needed:
  assumes "CheckCmdCodeValid s code"
  shows "s = RDCS_TRANSFER \<or> needed s \<noteq> [] \<and> code = hd (needed s)"
  using assms by (cases s) (simp_all add: CheckCmdCodeValid_def)

text \<open>In the transfer state no code of the handshake but the picture request is accepted.\<close>

lemma CheckCmdCodeValid_transfer:
  assumes "CheckCmdCodeValid RDCS_TRANSFER code"
  shows "code \<noteq> RDCC_PROTOCOL_VERSION" "code \<noteq> RDCC_LOGON" "code \<noteq> RDCC_COMPRESS_MODE"
  using assms by (auto simp: CheckCmdCodeValid_def code_less_def)

definition quiet :: "conn_out list \<Rightarrow> bool" where
  "quiet outs \<longleftrightarrow> (\<forall>out\<in>set outs. \<exists>code extra. out = AskDisconnect code extra)"

lemma AsynSendTransferBitmap_state:
  "AsynSendTransferBitmap e scr p = Inr (r, p') \<Longrightarrow> cs_state p' = cs_state p"
  by (auto simp: AsynSendTransferBitmap_def Let_def rd_bind_Inr elim!: AsynSend_cases split: if_split_asm option.split_asm)

text \<open>
  One received command moves the state at most one step along the handshake, and before
  the transfer state it makes no effect but a request to disconnect.
\<close>

lemma server_handle_progress:
  assumes "server_handle e scr ev p = Inr (p', outs)" and "CheckCmdCodeValid (cs_state p) (event_code ev)"
  shows "cs_state p' = cs_state p \<or> needed (cs_state p) = event_code ev # needed (cs_state p') \<and> handshake_state (cs_state p')"
    "cs_state p \<noteq> RDCS_TRANSFER \<Longrightarrow> quiet outs"
proof -
  consider "cs_state p = RDCS_TRANSFER" | "needed (cs_state p) \<noteq> []" "event_code ev = hd (needed (cs_state p))"
    using CheckCmdCodeValid_needed [OF assms(2)] by blast
  then have "(cs_state p' = cs_state p \<or> needed (cs_state p) = event_code ev # needed (cs_state p') \<and> handshake_state (cs_state p'))
      \<and> (cs_state p \<noteq> RDCS_TRANSFER \<longrightarrow> quiet outs)"
  proof cases
    case 1
    have "cs_state p' = cs_state p"
      using assms(1) 1 CheckCmdCodeValid_transfer [OF assms(2) [unfolded 1]]
      by (cases ev) (auto simp: server_handle_def handler_defs Let_def rd_bind_Inr
          dest!: AsynSendTransferBitmap_state split: if_split_asm option.split_asm)
    then show ?thesis using 1 by simp
  next
    case 2
    then show ?thesis
      using assms(1)
      by (cases "cs_state p"; cases ev)
         (auto simp: server_handle_def handler_defs Let_def rd_bind_Inr quiet_def handshake_state_def
           dest!: AsynSendTransferBitmap_state elim!: AsynSend_cases split: if_split_asm option.split_asm)
  qed
  then show "cs_state p' = cs_state p \<or> needed (cs_state p) = event_code ev # needed (cs_state p') \<and> handshake_state (cs_state p')"
    "cs_state p \<noteq> RDCS_TRANSFER \<Longrightarrow> quiet outs" by simp_all
qed

lemma receive_progress:
  assumes "OnReciveCommand e scr c p = Inr (p', outs)" and "handshake_state (cs_state p)"
  shows "handshake_state (cs_state p')"
    "needed (cs_state p') = needed (cs_state p) \<or> needed (cs_state p) = cd_code c # needed (cs_state p')"
    "cs_state p \<noteq> RDCS_TRANSFER \<Longrightarrow> quiet outs"
  using assms(1)
  by (cases rule: OnReciveCommand_cases;
      use assms(2) server_handle_progress in \<open>fastforce simp: quiet_def\<close>)+

lemma receive_all_progress:
  "receive_all e scr cs p = Inr (p', outs) \<Longrightarrow> handshake_state (cs_state p) \<Longrightarrow>
   handshake_state (cs_state p') \<and> (\<exists>xs. needed (cs_state p) = xs @ needed (cs_state p') \<and> subseq xs (map cd_code cs))"
proof (induction cs arbitrary: p outs)
  case Nil
  then show ?case by auto
next
  case (Cons c cs)
  obtain p1 o1 o2 where 1: "OnReciveCommand e scr c p = Inr (p1, o1)" and 2: "receive_all e scr cs p1 = Inr (p', o2)"
    using Cons.prems(1) by (auto simp: rd_bind_Inr)
  note pr = receive_progress [OF 1 Cons.prems(2)]
  obtain xs where xs: "needed (cs_state p1) = xs @ needed (cs_state p')" "subseq xs (map cd_code cs)"
    and h: "handshake_state (cs_state p')" using Cons.IH [OF 2 pr(1)] by blast
  from pr(2) show ?case
  proof
    assume "needed (cs_state p1) = needed (cs_state p)"
    moreover have "subseq xs (map cd_code (c # cs))" using xs(2) by (simp add: list_emb_Cons)
    ultimately show ?thesis using xs(1) h by metis
  next
    assume "needed (cs_state p) = cd_code c # needed (cs_state p1)"
    then show ?thesis using xs h by (intro conjI exI [of _ "cd_code c # xs"]) auto
  qed
qed

lemma needed_Nil: "handshake_state s \<Longrightarrow> needed s = [] \<longleftrightarrow> s = RDCS_TRANSFER"
  by (auto simp: handshake_state_def)

lemma receive_all_transfer:
  "receive_all e scr cs p = Inr (p', outs) \<Longrightarrow> handshake_state (cs_state p) \<Longrightarrow> \<not> quiet outs \<or> cs_state p = RDCS_TRANSFER \<Longrightarrow>
   cs_state p' = RDCS_TRANSFER"
proof (induction cs arbitrary: p outs)
  case Nil
  then show ?case by (auto simp: quiet_def)
next
  case (Cons c cs)
  obtain p1 o1 o2 where 1: "OnReciveCommand e scr c p = Inr (p1, o1)" and 2: "receive_all e scr cs p1 = Inr (p', o2)"
    and o: "outs = o1 @ o2" using Cons.prems(1) by (auto simp: rd_bind_Inr)
  note pr = receive_progress [OF 1 Cons.prems(2)]
  have t: "cs_state p1 = RDCS_TRANSFER" if "cs_state p = RDCS_TRANSFER"
    using pr(1,2) that needed_Nil [OF pr(1)] by auto
  have "\<not> quiet o2 \<or> cs_state p1 = RDCS_TRANSFER"
    using Cons.prems(3) pr(3) t by (auto simp: o quiet_def)
  then show ?case using Cons.IH [OF 2 pr(1)] by blast
qed

lemma server_handle_inv:
  assumes "server_handle e scr ev p = Inr (p', outs)" and "CheckCmdCodeValid (cs_state p) (event_code ev)" and "conn_inv p"
  shows "conn_inv p'"
proof (cases "\<exists>s. ev = OnGetTransferBitmap s")
  case True
  then obtain sfx where ev: "ev = OnGetTransferBitmap sfx" by blast
  have "cs_state p = RDCS_COMPRESS_MODE \<or> cs_state p = RDCS_TRANSFER"
    using assms(2) by (cases "cs_state p") (auto simp: ev CheckCmdCodeValid_def)
  then have "conn_inv (p\<lparr>cs_state := RDCS_TRANSFER, cs_suffix := sfx\<rparr>)"
    using assms(3) by (auto simp: conn_inv_def)
  then show ?thesis
    using assms(1) AsynSendTransferBitmap_inv by (auto simp: ev server_handle_def handler_defs rd_bind_Inr)
next
  case False
  have v: "cs_ready p \<Longrightarrow> cs_state p = RDCS_TRANSFER"
    using assms(2,3) by (cases "cs_state p") (auto simp: conn_inv_def CheckCmdCodeValid_def)
  from assms(2) consider "cs_state p = RDCS_TRANSFER" | "\<not> cs_ready p" "event_code ev = hd (needed (cs_state p))"
      "needed (cs_state p) \<noteq> []"
    using CheckCmdCodeValid_needed v by blast
  then show ?thesis
  proof cases
    case 1
    then show ?thesis
      using assms(1,3) False CheckCmdCodeValid_transfer [OF assms(2) [unfolded 1]]
      by (cases ev) (auto simp: server_handle_def handler_defs Let_def conn_inv_def split: if_split_asm option.split_asm)
  next
    case 2
    then show ?thesis
      using assms(1,3) False
      by (cases "cs_state p"; cases ev)
         (auto simp: server_handle_def handler_defs Let_def rd_bind_Inr conn_inv_def CreateCompress_def
           elim!: AsynSend_cases split: if_split_asm option.split_asm)
  qed
qed

lemma conn_step_inv:
  assumes "conn_step e p p'" and "conn_inv p"
  shows "conn_inv p'"
  using assms(1)
proof (cases rule: conn_step.cases)
  case connect
  then show ?thesis using assms(2) by (auto simp: OnConnect_def conn_inv_def)
next
  case (recv scr c outs)
  then show ?thesis using assms(2)
    by (cases rule: OnReciveCommand_cases) (auto dest: server_handle_inv)
next
  case drain
  then show ?thesis using assms(2) by (simp add: OnAsynSendCommand_def)
next
  case (first scr)
  then show ?thesis using assms(2) AsynSendTransferBitmap_inv(1) by (auto simp: OnScreenFirstBitmap_def rd_bind_Inr)
next
  case (modified scr blocks)
  then show ?thesis using assms(2) OnScreenModified_inv by blast
next
  case (stop code)
  then show ?thesis using assms(2) by (auto simp: conn_Stop_def drop_send_event_def conn_inv_def Let_def)
next
  case (error code)
  then show ?thesis using assms(2) by (auto simp: conn_OnError_def drop_send_event_def conn_inv_def)
qed

section \<open>Properties\<close>

text \<open>
  C10. A connection object keeps its members consistent through every operation the server
  performs on it, in any order: a compressor is chosen before any picture is sent, updates
  are only enabled in the transfer state, the counted blocks fit their array, and the send
  event holds exactly one reference.
\<close>

theorem connection_invariant:
  assumes "conn_reachable e p"
  shows "conn_inv p"
  using assms
proof (induction rule: conn_reachable.induct)
  case (start socket_ok ip port bufferev event_ok)
  then show ?case by (simp add: CClientConnection_def conn_inv_def modified_ok_def)
next
  case (step p p')
  then show ?case using conn_step_inv by blast
qed

theorem connection_invariant_witness:
  "conn_inv (OnConnect (CClientConnection True ''10.0.0.7'' 5000 (Some 1) True))"
  by (rule connection_invariant, rule conn_reachable.step [OF conn_reachable.start], rule conn_step.connect)
     (simp add: CClientConnection_def)


text \<open>
  A client cannot leave politely before pictures flow: a disconnect command is dropped
  in every state of the handshake, with no effect and no change.
\<close>

lemma early_disconnect_ignored:
  assumes "cs_state p \<noteq> RDCS_TRANSFER" and "cd_code c = RDCC_DISCONNECT"
  shows "OnReciveCommand e scr c p = Inr (p, [])"
  using assms by (cases "cs_state p") (simp_all add: OnReciveCommand_def CheckCmdCodeValid_def)

lemma early_disconnect_ignored_witness:
  "\<forall>e scr. OnReciveCommand e scr (CCommandDisconnect 0) (OnConnect (CClientConnection True ''10.0.0.7'' 5000 (Some 1) True))
   = Inr (OnConnect (CClientConnection True ''10.0.0.7'' 5000 (Some 1) True), [])"
  by (intro allI, rule early_disconnect_ignored) (simp_all add: OnConnect_def CCommandDisconnect_def)

lemma atoi_version: "atoi (c_str RD_PROTOCAL_VERSION) = 1"
  by (simp add: c_str_def RD_PROTOCAL_VERSION_def atoi_def c_isspace_def c_isdigit_def clamp_int_def)

lemma version_negotiation_step:
  assumes "cs_state p = RDCS_CONNECTED" and "8 + length v + length w < 2 ^ 32"
  shows "OnReciveCommand e scr (CCommandProtocalVersion v w) p =
    (if v \<noteq> [] \<and> atoi (c_str v) = 1
     then Inr (p\<lparr>cs_client_version := w, cs_state := RDCS_PROTOCOL_VERSION\<rparr>, [])
     else Inr (p, [AskDisconnect RDEC_PROTOCOL_VERSION_FAILED 0]))"
proof -
  have "server_parse (env_alloc e) (CCommandProtocalVersion v w) = Some (Inr (OnGetProtocalVersion v w))"
    using assms(2) server_parse_sent [of "env_alloc e" "OnGetProtocalVersion v w"] by simp
  moreover note atoi_version
  moreover have "cd_code (CCommandProtocalVersion v w) = RDCC_PROTOCOL_VERSION"
    by (simp add: CCommandProtocalVersion_def)
  ultimately show ?thesis
    using assms(1)
    by (auto simp: OnReciveCommand_def CheckCmdCodeValid_def server_handle_def conn_OnGetProtocalVersion_def rd_state_order)
qed

text \<open>
  Version negotiation: a freshly connected client goes on exactly when its version
  string, read as C reads it, starts with the number 1; an empty string or another main
  version asks for a disconnect and leaves the state as it was.
\<close>

lemma version_negotiation:
  assumes "cs_state p = RDCS_CONNECTED" and "8 + length v + length w < 2 ^ 32"
  shows "OnReciveCommand e scr (CCommandProtocalVersion v w) p =
    (if v \<noteq> [] \<and> atoi (c_str v) = 1
     then Inr (p\<lparr>cs_client_version := w, cs_state := RDCS_PROTOCOL_VERSION\<rparr>, [])
     else Inr (p, [AskDisconnect RDEC_PROTOCOL_VERSION_FAILED 0]))"
  using assms by (rule version_negotiation_step)

lemma version_negotiation_witness:
  "\<forall>e scr. OnReciveCommand e scr (CCommandProtocalVersion [50] [] )
     (OnConnect (CClientConnection True ''10.0.0.7'' 5000 (Some 1) True))
   = Inr (OnConnect (CClientConnection True ''10.0.0.7'' 5000 (Some 1) True), [AskDisconnect RDEC_PROTOCOL_VERSION_FAILED 0])"
  by (intro allI, subst version_negotiation)
     (simp_all add: OnConnect_def c_str_def atoi_def c_isspace_def c_isdigit_def clamp_int_def)

text \<open>A small screen that the witnesses below share.\<close>

definition demo_env :: env where
  "demo_env = \<lparr>env_alloc = (\<lambda>_. True), env_junk = (\<lambda>_. 0), env_jpeg_encode = (\<lambda>_ _ _ rows. concat rows),
     env_GlobalAlloc = (\<lambda>_. True), env_OpenClipboard = True\<rparr>"

definition demo_screen :: screen where
  "demo_screen = (CScreenBitmap 1 1 [])\<lparr>scr_buffer := Some [1, 2, 3],
     scr_info := (scr_info (CScreenBitmap 1 1 []))\<lparr>biSizeImage := 3\<rparr>\<rparr>"

definition demo_conn :: "rd_state \<Rightarrow> client_conn" where
  "demo_conn s = (CClientConnection True ''10.0.0.7'' 5000 (Some 1) True)\<lparr>cs_state := s\<rparr>"

lemma demo_screen_sel [simp]:
  "scr_buffer demo_screen = Some [1, 2, 3]" "scr_px demo_screen = 3" "scr_w demo_screen = 1" "scr_h demo_screen = 1"
  "biWidth (scr_info demo_screen) = 1" "biHeight (scr_info demo_screen) = 1" "biSizeImage (scr_info demo_screen) = 3"
  by (simp_all add: demo_screen_def CScreenBitmap_def)

lemma demo_conn_sel [simp]:
  "cs_state (demo_conn s) = s" "cs_modified (demo_conn s) = None" "cs_modified_count (demo_conn s) = 0"
  "cs_send_event (demo_conn s)" "cs_queue (demo_conn s) = []" "cs_ready (demo_conn s) = False"
  by (simp_all add: demo_conn_def CClientConnection_def)

text \<open>
  An unknown picture format brings the server down: once a picture was captured, a
  picture request (after the handshake up to the compression mode, or during the transfer)
  that names neither \<^verbatim>\<open>.bmp\<close> nor \<^verbatim>\<open>.jpg\<close> makes it use a NULL command.
\<close>

lemma unknown_format_faults:
  assumes "cs_state p \<in> {RDCS_COMPRESS_MODE, RDCS_TRANSFER}" and "scr_buffer scr \<noteq> None"
    and "0 < sint (biHeight (scr_info scr))" and "0 < sint (biWidth (scr_info scr))"
    and "sfx \<notin> {BITMAP_SUFFIX_BMP, BITMAP_SUFFIX_JPEG}" and "4 + length sfx < 2 ^ 32"
  shows "OnReciveCommand e scr (CCommandTransferBitmapClient sfx) p = Inl MemFault"
proof -
  have "server_parse (env_alloc e) (CCommandTransferBitmapClient sfx) = Some (Inr (OnGetTransferBitmap sfx))"
    using assms(6) server_parse_sent [of "env_alloc e" "OnGetTransferBitmap sfx"] by simp
  moreover have "cd_code (CCommandTransferBitmapClient sfx) = RDCC_TRANSFER_BITMAP"
    by (simp add: CCommandTransferBitmapClient_def)
  moreover have "AsynSendTransferBitmap e scr (p\<lparr>cs_state := RDCS_TRANSFER, cs_suffix := sfx\<rparr>) = Inl MemFault"
    using assms(2-5) by (auto simp: AsynSendTransferBitmap_def GetBuffer_def Let_def picture_command_def AsynSend_def split: option.splits)
  ultimately show ?thesis
    using assms(1)
    by (auto simp: OnReciveCommand_def CheckCmdCodeValid_def code_less_def rd_state_order server_handle_def conn_OnGetTransferBitmap_def)
qed

lemma unknown_format_faults_witness:
  "OnReciveCommand demo_env demo_screen (CCommandTransferBitmapClient [46, 112, 110, 103]) (demo_conn RDCS_COMPRESS_MODE) = Inl MemFault"
  by (rule unknown_format_faults) (simp_all add: BITMAP_SUFFIX_BMP_def BITMAP_SUFFIX_JPEG_def)

text \<open>
  A client that connects and waits brings the server down: the screen's changes go to
  every connection whatever its state, and one that was never sent a full picture has no
  array for them.
\<close>

lemma modified_before_picture_faults:
  assumes "cs_modified p = None" and "blocks \<noteq> []"
  shows "OnScreenModified e scr blocks p = Inl MemFault"
  using assms by (simp add: OnScreenModified_def add_modified_def)

lemma modified_before_picture_faults_witness:
  "OnScreenModified demo_env demo_screen [0] (OnConnect (demo_conn RDCS_INVALID)) = Inl MemFault"
  by (rule modified_before_picture_faults) (simp_all add: OnConnect_def)

text \<open>The merge of two sorted lists is the sorted merge, cut to the number of blocks.\<close>

lemma sort_mset_cong: "mset xs = mset ys \<Longrightarrow> sort xs = sort (ys :: nat list)"
  by (metis mset_sort properties_for_sort sorted_sort)

lemma sort_Cons_min: "\<forall>x\<in>set xs. a \<le> x \<Longrightarrow> sort (a # xs) = a # sort (xs :: nat list)"
  by (simp add: insort_is_Cons)

lemma merge_blocks_is_sort:
  assumes "sorted old" and "sorted new"
  shows "merge_blocks limit old new = take limit (sort (old @ new))"
  using assms
proof (induction limit old new rule: merge_blocks.induct)
  case (5 k b bs n ns)
  show ?case
  proof (cases "b \<le> n")
    case True
    then have "\<forall>x\<in>set (bs @ n # ns). b \<le> x" using 5 by auto
    then show ?thesis using 5 True sort_Cons_min [of "bs @ n # ns" b] by simp
  next
    case False
    have "mset ((b # bs) @ n # ns) = mset (n # (b # bs) @ ns)" by simp
    then have "sort ((b # bs) @ n # ns) = sort (n # (b # bs) @ ns)" by (rule sort_mset_cong)
    also have "\<dots> = n # sort ((b # bs) @ ns)"
      using 5 False by (intro sort_Cons_min) auto
    finally show ?thesis using 5 False by simp
  qed
qed (simp_all add: sort_Cons_min insort_is_Cons sorted_sort_id)

text \<open>
  C31. Waiting and new blocks, each list sorted, are merged into their sorted union with
  repetitions, of which only the first \<open>limit\<close> are kept.
\<close>

theorem merge_blocks_sort:
  assumes "sorted old" and "sorted new"
  shows "merge_blocks limit old new = take limit (sort (old @ new))"
  using assms by (rule merge_blocks_is_sort)
theorem merge_blocks_sort_witness: "merge_blocks 3 [1, 4] [1, 2] = [1, 1, 2]"
  by (subst merge_blocks_sort) (simp_all)

lemma sorted_twice: "sorted xs \<Longrightarrow> sorted (concat (map (\<lambda>i. [i, i :: nat]) xs))"
  by (induction xs) auto

lemma mset_twice: "mset (concat (map (\<lambda>i. [i, i]) xs)) = mset (xs @ xs)"
  by (induction xs) auto

lemma nth_twice: "j < 2 * length xs \<Longrightarrow> concat (map (\<lambda>i. [i, i]) xs) ! j = xs ! (j div 2)"
proof (induction xs arbitrary: j)
  case Nil
  then show ?case by simp
next
  case (Cons x xs)
  consider "j = 0" | "j = 1" | k where "j = Suc (Suc k)" by (metis One_nat_def not0_implies_Suc)
  then show ?case using Cons by cases auto
qed

lemma length_twice: "length (concat (map (\<lambda>i. [i, i]) xs)) = 2 * length xs"
  by (induction xs) auto

lemma merge_twice_loses:
  assumes "2 \<le> n"
  shows "n - 1 \<notin> set (merge_blocks n [0..<n] [0..<n])"
proof -
  let ?d = "concat (map (\<lambda>i. [i, i]) [0..<n])"
  have "sort ([0..<n] @ [0..<n]) = ?d"
    using mset_twice [of "[0..<n]"] sorted_twice [of "[0..<n]"] by (intro properties_for_sort) simp_all
  then have m: "merge_blocks n [0..<n] [0..<n] = take n ?d"
    using merge_blocks_is_sort [of "[0..<n]" "[0..<n]" n] by simp
  have "take n ?d ! j < n - 1" if "j < n" for j
  proof -
    have "take n ?d ! j = j div 2" using that nth_twice [of j "[0..<n]"] by simp
    then show ?thesis using assms that by simp
  qed
  then show ?thesis
    unfolding m by (metis in_set_conv_nth length_take length_twice length_upt less_irrefl min_less_iff_conj)
qed

text \<open>
  Two full-screen changes in a row, while the client has not answered yet, lose the
  last block: it is not in the list that will be sent, although it was reported modified
  both times.
\<close>

lemma full_change_twice_loses_last:
  assumes "cs_modified p = Some bs" and "n = cs_rows p * cs_cols p" and "2 \<le> n" and "n \<le> length bs"
    and "cs_modified_count p = 0" and "\<not> cs_ready p"
  shows "\<exists>p1 p2 bs2. OnScreenModified e scr [0..<n] p = Inr p1 \<and> OnScreenModified e scr [0..<n] p1 = Inr p2
    \<and> cs_modified p2 = Some bs2 \<and> n - 1 \<notin> set (take (cs_modified_count p2) bs2)"
proof -
  let ?p1 = "p\<lparr>cs_modified_count := n, cs_modified := Some ([0..<n] @ drop n bs)\<rparr>"
  let ?m = "merge_blocks n [0..<n] [0..<n]"
  let ?p2 = "p\<lparr>cs_modified_count := length ?m, cs_modified := Some (?m @ replicate (n - length ?m) 0 @ drop n ([0..<n] @ drop n bs))\<rparr>"
  have "OnScreenModified e scr [0..<n] p = Inr ?p1"
    using assms by (simp add: OnScreenModified_def add_modified_def)
  moreover have "OnScreenModified e scr [0..<n] ?p1 = Inr ?p2"
    using assms by (simp add: OnScreenModified_def add_modified_def Let_def)
  moreover have "n - 1 \<notin> set (take (cs_modified_count ?p2) (?m @ replicate (n - length ?m) 0 @ drop n ([0..<n] @ drop n bs)))"
    using merge_twice_loses [OF assms(3)] by simp
  ultimately show ?thesis by (metis client_conn.select_convs(16) client_conn.surjective client_conn.update_convs(16))
qed

text \<open>One step of the handshake at a time.\<close>

lemma server_gets_logon:
  assumes "cs_state p = RDCS_PROTOCOL_VERSION" and "cs_send_event p" and "8 + length user + length pw < 2 ^ 32"
  shows "OnReciveCommand e scr (CCommandLogon user pw) p
    = Inr (p\<lparr>cs_state := RDCS_LOGON, cs_queue := cs_queue p @ [CCommandLogonResult 0]\<rparr>, [])"
proof -
  have "server_parse (env_alloc e) (CCommandLogon user pw) = Some (Inr (OnGetLogon user pw))"
    using assms(3) server_parse_sent [of "env_alloc e" "OnGetLogon user pw"] by simp
  moreover have "cd_code (CCommandLogon user pw) = RDCC_LOGON" by (simp add: CCommandLogon_def)
  ultimately show ?thesis
    using assms(1,2) by (simp add: OnReciveCommand_def CheckCmdCodeValid_def rd_state_order server_handle_def conn_OnGetLogon_def AsynSend_def)
qed

lemma server_gets_mode:
  assumes "cs_state p = RDCS_LOGON" and "mode \<in> {RDCM_RAW, RDCM_ZIP}"
  shows "OnReciveCommand e scr (CCommandCompressMode mode) p
    = Inr (p\<lparr>cs_compress := Some mode, cs_state := RDCS_COMPRESS_MODE\<rparr>, [])"
proof -
  have "server_parse (env_alloc e) (CCommandCompressMode mode) = Some (Inr (OnGetCompressMode mode))"
    using server_parse_sent [of "env_alloc e" "OnGetCompressMode mode"] by simp
  moreover have "cd_code (CCommandCompressMode mode) = RDCC_COMPRESS_MODE" by (simp add: CCommandCompressMode_def)
  ultimately show ?thesis
    using assms by (auto simp: OnReciveCommand_def CheckCmdCodeValid_def rd_state_order server_handle_def conn_OnGetCompressMode_def CreateCompress_def)
qed

lemma server_gets_bmp_request:
  assumes "cs_state p = RDCS_COMPRESS_MODE" and "cs_send_event p" and "cs_modified p = None"
    and "scr_buffer scr = Some bits" and "0 < sint (biHeight (scr_info scr))" and "0 < sint (biWidth (scr_info scr))"
    and "CCommandTransferBitmapServer (scr_info scr) (of_nat (scr_px scr)) bits = Some pic"
  defines "rows \<equiv> scan_points (unat (biHeight (scr_info scr)))" and "cols \<equiv> scan_points (unat (biWidth (scr_info scr)))"
  shows "OnReciveCommand e scr (CCommandTransferBitmapClient BITMAP_SUFFIX_BMP) p
    = Inr (p\<lparr>cs_state := RDCS_TRANSFER, cs_suffix := BITMAP_SUFFIX_BMP, cs_rows := rows, cs_cols := cols,
      cs_modified_count := 0, cs_modified := Some (replicate (rows * cols) 0), cs_queue := cs_queue p @ [pic]\<rparr>, [])"
proof -
  have "server_parse (env_alloc e) (CCommandTransferBitmapClient BITMAP_SUFFIX_BMP) = Some (Inr (OnGetTransferBitmap BITMAP_SUFFIX_BMP))"
    using server_parse_sent [of "env_alloc e" "OnGetTransferBitmap BITMAP_SUFFIX_BMP"] by (simp add: BITMAP_SUFFIX_BMP_def)
  moreover have "cd_code (CCommandTransferBitmapClient BITMAP_SUFFIX_BMP) = RDCC_TRANSFER_BITMAP"
    by (simp add: CCommandTransferBitmapClient_def)
  ultimately show ?thesis
    using assms(1-7)
    by (simp add: OnReciveCommand_def CheckCmdCodeValid_def rd_state_order server_handle_def conn_OnGetTransferBitmap_def
        AsynSendTransferBitmap_def GetBuffer_def Let_def picture_command_def AsynSend_def not_le rows_def cols_def)
qed

lemma handshake_run:
  assumes "cs_state p = RDCS_CONNECTED" and "cs_send_event p" and "cs_modified p = None"
    and "v \<noteq> []" and "atoi (c_str v) = 1" and "8 + length v + length w < 2 ^ 32" and "8 + length user + length pw < 2 ^ 32"
    and "mode \<in> {RDCM_RAW, RDCM_ZIP}"
    and "scr_buffer scr = Some bits" and "0 < sint (biHeight (scr_info scr))" and "0 < sint (biWidth (scr_info scr))"
    and "unat (biSizeImage (scr_info scr)) \<le> length bits"
  shows "\<exists>p' pic. receive_all e scr [CCommandProtocalVersion v w, CCommandLogon user pw, CCommandCompressMode mode,
        CCommandTransferBitmapClient BITMAP_SUFFIX_BMP] p = Inr (p', [])
    \<and> cs_state p' = RDCS_TRANSFER \<and> cs_compress p' = Some mode
    \<and> CCommandTransferBitmapServer (scr_info scr) (of_nat (scr_px scr)) bits = Some pic
    \<and> cs_queue p' = cs_queue p @ [CCommandLogonResult 0, pic]
    \<and> cs_rows p' = scan_points (unat (biHeight (scr_info scr))) \<and> cs_cols p' = scan_points (unat (biWidth (scr_info scr)))"
proof -
  obtain pic where pic: "CCommandTransferBitmapServer (scr_info scr) (of_nat (scr_px scr)) bits = Some pic"
    using assms(12) by (simp add: CCommandTransferBitmapServer_def)
  let ?p1 = "p\<lparr>cs_client_version := w, cs_state := RDCS_PROTOCOL_VERSION\<rparr>"
  let ?p2 = "p\<lparr>cs_client_version := w, cs_state := RDCS_LOGON, cs_queue := cs_queue p @ [CCommandLogonResult 0]\<rparr>"
  let ?p3 = "?p2\<lparr>cs_compress := Some mode, cs_state := RDCS_COMPRESS_MODE\<rparr>"
  let ?rows = "scan_points (unat (biHeight (scr_info scr)))" and ?cols = "scan_points (unat (biWidth (scr_info scr)))"
  let ?p4 = "?p3\<lparr>cs_state := RDCS_TRANSFER, cs_suffix := BITMAP_SUFFIX_BMP, cs_rows := ?rows, cs_cols := ?cols,
      cs_modified_count := 0, cs_modified := Some (replicate (?rows * ?cols) 0),
      cs_queue := cs_queue p @ [CCommandLogonResult 0, pic]\<rparr>"
  have 1: "OnReciveCommand e scr (CCommandProtocalVersion v w) p = Inr (?p1, [])"
    using version_negotiation_step [OF assms(1,6)] assms(4,5) by simp
  have 2: "OnReciveCommand e scr (CCommandLogon user pw) ?p1 = Inr (?p2, [])"
    using server_gets_logon [of ?p1 user pw e scr] assms(2,7) by simp
  have 3: "OnReciveCommand e scr (CCommandCompressMode mode) ?p2 = Inr (?p3, [])"
    using server_gets_mode [of ?p2 mode e scr] assms(8) by simp
  have 4: "OnReciveCommand e scr (CCommandTransferBitmapClient BITMAP_SUFFIX_BMP) ?p3 = Inr (?p4, [])"
    using server_gets_bmp_request [of ?p3 scr bits pic e] assms(2,3,9-11) pic by simp
  show ?thesis
    using 1 2 3 4 pic by (intro exI [of _ ?p4] exI [of _ pic]) simp
qed

text \<open>
  The handshake works: a freshly connected client that sends its version, its logon,
  a compression mode and the request for a bitmap reaches the transfer state, with nothing
  executed and exactly the logon result and the full picture queued for it.
\<close>

lemma handshake_completes:
  assumes "cs_state p = RDCS_CONNECTED" and "cs_send_event p" and "cs_modified p = None"
    and "v \<noteq> []" and "atoi (c_str v) = 1" and "8 + length v + length w < 2 ^ 32" and "8 + length user + length pw < 2 ^ 32"
    and "mode \<in> {RDCM_RAW, RDCM_ZIP}"
    and "scr_buffer scr = Some bits" and "0 < sint (biHeight (scr_info scr))" and "0 < sint (biWidth (scr_info scr))"
    and "unat (biSizeImage (scr_info scr)) \<le> length bits"
  shows "\<exists>p' pic. receive_all e scr [CCommandProtocalVersion v w, CCommandLogon user pw, CCommandCompressMode mode,
        CCommandTransferBitmapClient BITMAP_SUFFIX_BMP] p = Inr (p', [])
    \<and> cs_state p' = RDCS_TRANSFER \<and> cs_compress p' = Some mode
    \<and> CCommandTransferBitmapServer (scr_info scr) (of_nat (scr_px scr)) bits = Some pic
    \<and> cs_queue p' = cs_queue p @ [CCommandLogonResult 0, pic]
    \<and> cs_rows p' = scan_points (unat (biHeight (scr_info scr))) \<and> cs_cols p' = scan_points (unat (biWidth (scr_info scr)))"
  using assms by (rule handshake_run)

lemma handshake_completes_witness:
  "\<exists>p' pic. receive_all demo_env demo_screen [CCommandProtocalVersion RD_PROTOCAL_VERSION [], CCommandLogon [] [],
       CCommandCompressMode RDCM_RAW, CCommandTransferBitmapClient BITMAP_SUFFIX_BMP] (demo_conn RDCS_CONNECTED) = Inr (p', [])
    \<and> cs_state p' = RDCS_TRANSFER \<and> cs_queue p' = [CCommandLogonResult 0, pic]"
proof -
  show ?thesis
    using atoi_version handshake_completes [of "demo_conn RDCS_CONNECTED" RD_PROTOCAL_VERSION "[]" "[]" "[]" RDCM_RAW demo_screen "[1, 2, 3]" demo_env]
    by (simp add: RD_PROTOCAL_VERSION_def) blast
qed


lemma full_change_twice_loses_last_witness:
  "\<exists>p1 p2 bs2. OnScreenModified demo_env demo_screen [0..<2] ((demo_conn RDCS_TRANSFER)\<lparr>cs_rows := 1, cs_cols := 2, cs_modified := Some [0, 0]\<rparr>) = Inr p1
    \<and> OnScreenModified demo_env demo_screen [0..<2] p1 = Inr p2
    \<and> cs_modified p2 = Some bs2 \<and> 2 - 1 \<notin> set (take (cs_modified_count p2) bs2)"
  by (rule full_change_twice_loses_last [where bs = "[0, 0]"]) simp_all

end
