(* ===== verification/Client_Connection.thy ===== *)
theory Client_Connection
  imports Client_Recv Screen_Transfer Server_Connection
begin

text \<open>
  \<^verbatim>\<open>RemoteDesktopClient/RemoteClient.cpp\<close>: the client's side of the connection, with the
  window (\<^verbatim>\<open>RemoteDesktopClient/MainWindow.cpp\<close>) that shows the picture.  The window is the
  only listener, so its callbacks are part of the steps here; \<open>rcl_notified\<close> is the list of
  the states it was told, the last one first.
\<close>

section \<open>The object\<close>

record remote_client =
  rcl_state :: rd_state
  rcl_bufferev :: bool
  rcl_send_event :: bool
  rcl_queue :: "command_data list"
  rcl_suffix :: "byte list"
  rcl_window :: main_window
  rcl_notified :: "rd_state list"

definition CRemoteClient :: "main_window \<Rightarrow> remote_client" where
  "CRemoteClient window =
     \<lparr>rcl_state = RDCS_INVALID, rcl_bufferev = False, rcl_send_event = False, rcl_queue = [],
      rcl_suffix = BITMAP_SUFFIX_JPEG, rcl_window = window, rcl_notified = []\<rparr>"

section \<open>Sending\<close>

definition rc_AsynSend :: "command_data \<Rightarrow> remote_client \<Rightarrow> int \<times> remote_client" where
  "rc_AsynSend c r =
     (if \<not> rcl_send_event r then (-2, r) else (1, r\<lparr>rcl_queue := rcl_queue r @ [c]\<rparr>))"

text \<open>The int result of the two \<open>Send\<close> functions, and the bytes given to libevent.\<close>

definition rc_Send_data :: "byte list \<Rightarrow> remote_client \<Rightarrow> int \<times> byte list list" where
  "rc_Send_data data r = (if \<not> rcl_bufferev r then (-1, []) else (0, [data]))"

definition rc_Send_command :: "env \<Rightarrow> command_data \<Rightarrow> remote_client \<Rightarrow> int \<times> byte list list" where
  "rc_Send_command e c r =
     (case MakeStream (env_alloc e) (uninit (env_junk e) (4 + 4 + length (cd_data c))) c of
        None \<Rightarrow> (-1, [])
      | Some stream \<Rightarrow> (0, snd (rc_Send_data stream r)))"

definition rc_OnAsynSendCommand :: "env \<Rightarrow> remote_client \<Rightarrow> remote_client \<times> byte list list" where
  "rc_OnAsynSendCommand e r =
     (r\<lparr>rcl_queue := []\<rparr>, concat (map (\<lambda>c. snd (rc_Send_command e c r)) (rcl_queue r)))"

section \<open>Handlers\<close>

definition set_state :: "rd_state \<Rightarrow> remote_client \<Rightarrow> remote_client" where
  "set_state s r = r\<lparr>rcl_state := s, rcl_notified := s # rcl_notified r\<rparr>"

definition rc_OnConnected :: "byte list \<Rightarrow> remote_client \<Rightarrow> remote_client" where
  "rc_OnConnected strClientVersion r =
     (let r1 = set_state RDCS_CONNECTED r;
          r2 = snd (rc_AsynSend (CCommandProtocalVersion RD_PROTOCAL_VERSION strClientVersion) r1);
          r3 = set_state RDCS_PROTOCOL_VERSION r2;
          r4 = snd (rc_AsynSend (CCommandLogon [] []) r3) in
      set_state RDCS_LOGON r4)"

definition rc_CheckCmdCodeValid :: "rd_state \<Rightarrow> u32 \<Rightarrow> bool" where
  "rc_CheckCmdCodeValid state code =
     ((case state of
         RDCS_LOGON \<Rightarrow> code = RDCC_LOGON_RESULT
       | RDCS_LOGON_RESULT \<Rightarrow> code = RDCC_COMPRESS_MODE
       | RDCS_COMPRESS_MODE \<Rightarrow> code = RDCC_TRANSFER_BITMAP
       | RDCS_TRANSFER \<Rightarrow> \<not> code_less code RDCC_TRANSFER_BITMAP \<and> \<not> code_less RDCC_DISCONNECT code
       | _ \<Rightarrow> False)
      \<or> code = RDCC_DISCONNECT \<and> RDCS_CONNECTED \<le> state \<and> state \<noteq> RDCS_DISCONNECTED)"

definition rc_OnGetLogonResult :: "u32 \<Rightarrow> remote_client \<Rightarrow> remote_client" where
  "rc_OnGetLogonResult nResult r =
     (if nResult = 0 then
        (let r1 = set_state RDCS_LOGON_RESULT r;
             r2 = snd (rc_AsynSend (CCommandCompressMode RDCM_RAW) r1);
             r3 = set_state RDCS_COMPRESS_MODE r2 in
         snd (rc_AsynSend (CCommandTransferBitmapClient (rcl_suffix r3)) r3))
      else r)"

definition rc_OnGetTransferBitmap :: "bitmap_info \<Rightarrow> u16 \<Rightarrow> byte list \<Rightarrow> remote_client \<Rightarrow> sb_error + remote_client" where
  "rc_OnGetTransferBitmap info px pBuffer r =
     (let r1 = (if rcl_state r \<noteq> RDCS_TRANSFER then set_state RDCS_TRANSFER r else r) in
      case MainWindow_OnGetTransferBitmap info px pBuffer (rcl_window r1) of
        None \<Rightarrow> Inl MemFault
      | Some w \<Rightarrow> Inr (snd (rc_AsynSend (CCommandTransferBitmapClientResponse 0) (r1\<lparr>rcl_window := w\<rparr>))))"

definition rc_OnGetTransferModifyBitmap :: "u32 \<Rightarrow> u32 list \<Rightarrow> byte list \<Rightarrow> remote_client \<Rightarrow> sb_error + remote_client" where
  "rc_OnGetTransferModifyBitmap nModifiedBlockCount pnModifiedBlocks pBuffer r =
     (case MainWindow_OnGetTransferModifyBitmap nModifiedBlockCount pnModifiedBlocks pBuffer (rcl_window r) of
        None \<Rightarrow> Inl MemFault
      | Some w \<Rightarrow> Inr (snd (rc_AsynSend (CCommandTransferBitmapClientResponse 0) (r\<lparr>rcl_window := w\<rparr>))))"

text \<open>A disconnect is only passed on to the window, which does nothing with it.\<close>

definition client_handle :: "client_event \<Rightarrow> remote_client \<Rightarrow> sb_error + remote_client" where
  "client_handle ev r =
     (case ev of
        C_OnGetLogonResult n \<Rightarrow> Inr (rc_OnGetLogonResult n r)
      | C_OnGetTransferBitmap info px buf \<Rightarrow> rc_OnGetTransferBitmap info px buf r
      | C_OnGetTransferModifyBitmap n blocks nSize buf \<Rightarrow> rc_OnGetTransferModifyBitmap n blocks buf r
      | C_OnGetDisconnect n \<Rightarrow> Inr r)"

definition rc_OnReciveCommand ::
  "env \<Rightarrow> (byte list \<Rightarrow> jpeg_image option) \<Rightarrow> u32 \<Rightarrow> command_data \<Rightarrow> remote_client \<Rightarrow> sb_error + remote_client" where
  "rc_OnReciveCommand e jpeg size0 c r =
     (if rcl_state r < RDCS_CONNECTED then Inr r
      else if \<not> rc_CheckCmdCodeValid (rcl_state r) (cd_code c) then Inr r
      else
        case client_parse jpeg (env_junk e) size0 (env_alloc e) (rcl_suffix r) c of
          None \<Rightarrow> Inr r
        | Some (Inl err) \<Rightarrow> if err \<in> {E_INVALIDARG, E_OUTOFMEMORY} then Inr r else Inl err
        | Some (Inr ev) \<Rightarrow> client_handle ev r)"

section \<open>Steps of the client\<close>

inductive client_step :: "env \<Rightarrow> (byte list \<Rightarrow> jpeg_image option) \<Rightarrow> remote_client \<Rightarrow> remote_client \<Rightarrow> bool" for e jpeg where
  connected: "client_step e jpeg r (rc_OnConnected version r)"
| recv: "rc_OnReciveCommand e jpeg size0 c r = Inr r' \<Longrightarrow> client_step e jpeg r r'"
| drain: "client_step e jpeg r (fst (rc_OnAsynSendCommand e r))"

inductive client_reachable :: "env \<Rightarrow> (byte list \<Rightarrow> jpeg_image option) \<Rightarrow> remote_client \<Rightarrow> bool" for e jpeg where
  start: "client_reachable e jpeg (CRemoteClient window)"
| step: "client_reachable e jpeg r \<Longrightarrow> client_step e jpeg r r' \<Longrightarrow> client_reachable e jpeg r'"

lemma set_state_sel [simp]:
  "rcl_state (set_state s r) = s" "rcl_send_event (set_state s r) = rcl_send_event r"
  "rcl_queue (set_state s r) = rcl_queue r" "rcl_suffix (set_state s r) = rcl_suffix r"
  "rcl_window (set_state s r) = rcl_window r" "rcl_notified (set_state s r) = s # rcl_notified r"
  "rcl_bufferev (set_state s r) = rcl_bufferev r"
  by (simp_all add: set_state_def)

lemma rc_AsynSend_sel [simp]:
  "rcl_state (snd (rc_AsynSend c r)) = rcl_state r" "rcl_send_event (snd (rc_AsynSend c r)) = rcl_send_event r"
  "rcl_suffix (snd (rc_AsynSend c r)) = rcl_suffix r" "rcl_window (snd (rc_AsynSend c r)) = rcl_window r"
  "rcl_queue (snd (rc_AsynSend c r)) = rcl_queue r @ (if rcl_send_event r then [c] else [])"
  "rcl_notified (snd (rc_AsynSend c r)) = rcl_notified r" "rcl_bufferev (snd (rc_AsynSend c r)) = rcl_bufferev r"
  by (simp_all add: rc_AsynSend_def)

lemmas client_handler_defs = rc_OnConnected_def rc_OnGetLogonResult_def rc_OnGetTransferBitmap_def
  rc_OnGetTransferModifyBitmap_def

text \<open>What a handled command keeps, and how it moves the state.\<close>

lemma client_handle_sel:
  assumes "client_handle ev r = Inr r'"
  shows "rcl_send_event r' = rcl_send_event r" "rcl_suffix r' = rcl_suffix r"
    "\<not> rcl_send_event r \<Longrightarrow> rcl_queue r' = rcl_queue r"
    "rcl_state r' = rcl_state r \<or> rcl_state r' \<in> {RDCS_COMPRESS_MODE, RDCS_TRANSFER}"
  using assms
  by (auto simp: client_handle_def client_handler_defs Let_def split: client_event.splits option.splits if_splits)

section \<open>Properties\<close>

text \<open>
  The client of this revision never sends anything: the event that drains its queue is
  never created, so every command is refused and the queue stays empty whatever happens;
  what it then tells the window is still that it logged on.
\<close>

lemma client_never_sends:
  assumes "client_reachable e jpeg r"
  shows "rcl_queue r = [] \<and> snd (rc_OnAsynSendCommand e r) = [] \<and> (\<forall>c. rc_AsynSend c r = (-2, r))"
proof -
  have "rcl_queue r = [] \<and> \<not> rcl_send_event r"
    using assms
  proof (induction rule: client_reachable.induct)
    case (start window)
    then show ?case by (simp add: CRemoteClient_def)
  next
    case (step r r')
    from step.hyps(2) show ?case
    proof (cases rule: client_step.cases)
      case (connected version)
      then show ?thesis using step.IH by (simp add: client_handler_defs Let_def)
    next
      case (recv size0 c)
      then show ?thesis using step.IH client_handle_sel
        by (auto simp: rc_OnReciveCommand_def split: if_split_asm option.split_asm sum.split_asm)
    next
      case drain
      then show ?thesis using step.IH by (simp add: rc_OnAsynSendCommand_def)
    qed
  qed
  then show ?thesis by (simp add: rc_OnAsynSendCommand_def rc_AsynSend_def)
qed

lemma client_never_sends_witness:
  "\<forall>jpeg window. rcl_state (rc_OnConnected [] (CRemoteClient window)) = RDCS_LOGON
     \<and> rcl_queue (rc_OnConnected [] (CRemoteClient window)) = []"
proof (intro allI)
  fix jpeg window
  have "client_reachable demo_env jpeg (rc_OnConnected [] (CRemoteClient window))"
    by (rule client_reachable.step [OF client_reachable.start client_step.connected])
  from client_never_sends [OF this]
  show "rcl_state (rc_OnConnected [] (CRemoteClient window)) = RDCS_LOGON
     \<and> rcl_queue (rc_OnConnected [] (CRemoteClient window)) = []"
    by (simp add: rc_OnConnected_def Let_def)
qed

end
