(* ===== verification/Session.thy ===== *)
theory Session
  imports Framing Client_Connection
begin

text \<open>
  The two programs connected: the bytes one side gives to libevent reach the other side in
  pieces that the network chooses (\<open>net\<close>), go through \<open>DecodeBuffer\<close>
  (\<^verbatim>\<open>RemoteServer.cpp\<close>, \<^verbatim>\<open>RemoteClient.cpp\<close>) and the handlers of the connection.  A
  round is: the client's event loop drains its queue, the server reads and handles, the
  server's loop drains, the client reads and handles.
\<close>

section \<open>Rounds\<close>

fun rc_receive_all ::
  "env \<Rightarrow> (byte list \<Rightarrow> jpeg_image option) \<Rightarrow> u32 \<Rightarrow> command_data list \<Rightarrow> remote_client \<Rightarrow> sb_error + remote_client" where
  "rc_receive_all e jpeg size0 [] r = Inr r"
| "rc_receive_all e jpeg size0 (c # cs) r = rd_bind (rc_OnReciveCommand e jpeg size0 c r) (rc_receive_all e jpeg size0 cs)"

definition server_reads :: "env \<Rightarrow> screen \<Rightarrow> byte list list \<Rightarrow> client_conn \<Rightarrow> conn_result" where
  "server_reads e scr bufs p = receive_all e scr (fst (feed (env_alloc e) InitCommandData bufs)) p"

definition client_reads ::
  "env \<Rightarrow> (byte list \<Rightarrow> jpeg_image option) \<Rightarrow> u32 \<Rightarrow> byte list list \<Rightarrow> remote_client \<Rightarrow> sb_error + remote_client" where
  "client_reads e jpeg size0 bufs r = rc_receive_all e jpeg size0 (fst (feed (env_alloc e) InitCommandData bufs)) r"

fun written :: "conn_out list \<Rightarrow> byte list" where
  "written [] = []"
| "written (Write d # outs) = d @ written outs"
| "written (_ # outs) = written outs"

definition session_round ::
  "env \<Rightarrow> (byte list \<Rightarrow> jpeg_image option) \<Rightarrow> u32 \<Rightarrow> screen \<Rightarrow> (byte list \<Rightarrow> byte list list)
   \<Rightarrow> remote_client \<Rightarrow> client_conn \<Rightarrow> sb_error + remote_client \<times> client_conn" where
  "session_round e jpeg size0 scr net r p =
     (let (r1, w1) = rc_OnAsynSendCommand e r in
      rd_bind (server_reads e scr (net (concat w1)) p) (\<lambda>(p1, _).
      let (p2, w2) = OnAsynSendCommand e p1 in
      rd_bind (client_reads e jpeg size0 (net (written w2)) r1) (\<lambda>r2. Inr (r2, p2))))"

text \<open>A network that delivers the stream whole and never splits a header.\<close>

definition good_cut :: "(byte list \<Rightarrow> byte list list) \<Rightarrow> bool" where
  "good_cut net \<longleftrightarrow>
     (\<forall>cs. (\<forall>c\<in>set cs. sendable c) \<longrightarrow> length (frames cs) < 2 ^ 31 \<longrightarrow>
        concat (net (frames cs)) = frames cs \<and> cuts_ok cs 0 (net (frames cs)))"

text \<open>Such a network exists: it delivers the whole stream in one piece.\<close>

lemma cut_ok_end: "cut_ok cs (length (frames cs))"
  by (induction cs) auto

definition whole :: "byte list \<Rightarrow> byte list list" where
  "whole bs = (if bs = [] then [] else [bs])"

lemma good_cut_whole: "good_cut whole"
  by (auto simp: good_cut_def whole_def cut_ok_end)

lemma feed_cut:
  assumes "good_cut net" and "\<forall>c\<in>set cs. sendable c" and "length (frames cs) < 2 ^ 31"
  shows "fst (feed can_alloc InitCommandData (net (frames cs))) = cs"
  using assms feed_stream [of cs "net (frames cs)" can_alloc] by (auto simp: good_cut_def frames_def)

section \<open>Draining a queue\<close>

lemma sendable_frame:
  assumes "sendable c"
  shows "MakeStream can_alloc (uninit junk (4 + 4 + length (cd_data c))) c = Some (frame c)"
  using assms by (intro MakeStream_makes_frame) (simp_all add: sendable_def)

lemma concat_Cons_frames: "frames [c] = frame c"
  by simp

lemma client_drain:
  assumes "rcl_bufferev r" and "\<forall>c\<in>set (rcl_queue r). sendable c"
  shows "concat (snd (rc_OnAsynSendCommand e r)) = frames (rcl_queue r)"
proof -
  have "concat (concat (map (\<lambda>c. snd (rc_Send_command e c r)) cs)) = frames cs" if "\<forall>c\<in>set cs. sendable c" for cs
    using that assms(1) by (induction cs) (simp_all add: rc_Send_command_def rc_Send_data_def sendable_frame [simplified])
  then show ?thesis using assms(2) by (simp add: rc_OnAsynSendCommand_def)
qed

lemma written_append: "written (xs @ ys) = written xs @ written ys"
proof (induction xs)
  case (Cons x xs)
  then show ?case by (cases x) simp_all
qed simp

lemma server_drain:
  assumes "cs_bufferev p \<noteq> None" and "\<forall>c\<in>set (cs_queue p). sendable c"
  shows "written (snd (OnAsynSendCommand e p)) = frames (cs_queue p)"
proof -
  have "written (concat (map (\<lambda>c. snd (Send_command e c p)) cs)) = frames cs" if "\<forall>c\<in>set cs. sendable c" for cs
    using that assms(1)
    by (induction cs) (auto simp: Send_command_def Send_data_def sendable_frame [simplified] written_append)
  then show ?thesis using assms(2) by (simp add: OnAsynSendCommand_def)
qed

text \<open>
  A round at the level of commands: what it does depends only on the two queues and the
  handlers, not on how the network cuts the streams.
\<close>

lemma session_round_commands:
  assumes "good_cut net"
    and "rcl_bufferev r" and "\<forall>c\<in>set (rcl_queue r). sendable c" and "length (frames (rcl_queue r)) < 2 ^ 31"
    and "receive_all e scr (rcl_queue r) p = Inr (p1, outs)"
    and "cs_bufferev p1 \<noteq> None" and "\<forall>c\<in>set (cs_queue p1). sendable c" and "length (frames (cs_queue p1)) < 2 ^ 31"
    and "rc_receive_all e jpeg size0 (cs_queue p1) (r\<lparr>rcl_queue := []\<rparr>) = Inr r2"
  shows "session_round e jpeg size0 scr net r p = Inr (r2, p1\<lparr>cs_queue := []\<rparr>)"
proof -
  have r1: "rc_OnAsynSendCommand e r = (r\<lparr>rcl_queue := []\<rparr>, snd (rc_OnAsynSendCommand e r))"
    by (simp add: rc_OnAsynSendCommand_def)
  have p2: "OnAsynSendCommand e p1 = (p1\<lparr>cs_queue := []\<rparr>, snd (OnAsynSendCommand e p1))"
    by (simp add: OnAsynSendCommand_def)
  show ?thesis
    unfolding session_round_def Let_def
    using assms(5,9) feed_cut [OF assms(1,3,4)] feed_cut [OF assms(1,7,8)]
      client_drain [OF assms(2,3)] server_drain [OF assms(6,7)]
    by (subst r1) (simp add: server_reads_def, subst p2, simp add: client_reads_def)
qed

section \<open>The commands of a session are sendable\<close>

lemma sendable_mk: "code \<noteq> 0 \<Longrightarrow> length d \<le> 10485760 \<Longrightarrow> sendable (mk_command code d)"
  by (simp add: sendable_def)

lemma length_concat_le_enc [simp]: "length (concat (map (le_enc 4 \<circ> f) xs)) = 4 * length xs"
  by (induction xs) simp_all

lemma length_str_field [simp]: "length (str_field s) = 4 + length s"
  by (simp add: str_field_def)

lemma sendable_small:
  "length v \<le> 1000 \<Longrightarrow> length w \<le> 1000 \<Longrightarrow> sendable (CCommandProtocalVersion v w)"
  "sendable (CCommandLogon [] [])" "sendable (CCommandLogonResult n)" "sendable (CCommandCompressMode n)"
  "length v \<le> 1000 \<Longrightarrow> sendable (CCommandTransferBitmapClient v)" "sendable (CCommandTransferBitmapClientResponse n)"
  by (simp_all add: command_defs sendable_mk)

lemma frames_small:
  "length (frames cs) = sum_list (map (\<lambda>c. 8 + length (cd_data c)) cs)"
  by (induction cs) simp_all

lemma data_small:
  "length (cd_data (CCommandProtocalVersion v w)) = 8 + length v + length w"
  "length (cd_data (CCommandLogon v w)) = 8 + length v + length w"
  "length (cd_data (CCommandLogonResult n)) = 4" "length (cd_data (CCommandCompressMode n)) = 4"
  "length (cd_data (CCommandTransferBitmapClient v)) = 4 + length v"
  "length (cd_data (CCommandTransferBitmapClientResponse n)) = 4"
  by (simp_all add: command_defs)

lemma code_small:
  "cd_code (CCommandLogonResult n) = RDCC_LOGON_RESULT"
  "cd_code (CCommandTransferBitmapClientResponse n) = RDCC_TRANSFER_BITMAP_RESPONSE"
  by (simp_all add: command_defs)

section \<open>The client's handlers on the server's commands\<close>

lemma length_le_enc4 [simp]: "length (le_enc 4 (w :: u32)) = 4"
  by simp

lemma client_parse_LogonResult:
  "client_parse jpeg junk size0 can_alloc sfx (CCommandLogonResult n) = Some (Inr (C_OnGetLogonResult n))"
  by (simp add: client_parse_def CCommandLogonResult_def parse_LogonResult_def parse_simps del: le_enc.simps)

lemma client_gets_logon_result:
  assumes "rcl_state r = RDCS_LOGON" and "rcl_send_event r"
  shows "\<exists>r'. rc_OnReciveCommand e jpeg size0 (CCommandLogonResult 0) r = Inr r' \<and> rcl_state r' = RDCS_COMPRESS_MODE
    \<and> rcl_queue r' = rcl_queue r @ [CCommandCompressMode RDCM_RAW, CCommandTransferBitmapClient (rcl_suffix r)]
    \<and> rcl_send_event r' \<and> rcl_bufferev r' = rcl_bufferev r \<and> rcl_suffix r' = rcl_suffix r \<and> rcl_window r' = rcl_window r"
  using assms
  by (simp add: rc_OnReciveCommand_def rd_state_order rc_CheckCmdCodeValid_def code_small client_parse_LogonResult
      client_handle_def rc_OnGetLogonResult_def Let_def)

text \<open>The client shows the full picture it is sent.\<close>

lemma client_gets_picture:
  assumes "CCommandTransferBitmapServer info px bits = Some pic" and "rcl_state r \<in> {RDCS_COMPRESS_MODE, RDCS_TRANSFER}"
    and "rcl_send_event r" and "rcl_suffix r = BITMAP_SUFFIX_BMP" and "length (bmiColors info) = 1024"
    and "unat (biSizeImage info) = length bits" and "1070 + length bits < 2 ^ 32" and "env_alloc e (biSizeImage info)"
  shows "\<exists>r'. rc_OnReciveCommand e jpeg size0 pic r = Inr r' \<and> rcl_state r' = RDCS_TRANSFER
    \<and> rcl_queue r' = rcl_queue r @ [CCommandTransferBitmapClientResponse 0]
    \<and> rcl_window r' = \<lparr>mw_info = info, mw_buffer = Some bits, mw_px = px,
        mw_rows = long_scan_points (biHeight info), mw_cols = long_scan_points (biWidth info)\<rparr>
    \<and> rcl_send_event r' \<and> rcl_bufferev r' = rcl_bufferev r \<and> rcl_suffix r' = rcl_suffix r"
proof -
  have p: "client_parse jpeg (env_junk e) size0 (env_alloc e) BITMAP_SUFFIX_BMP pic = Some (Inr (C_OnGetTransferBitmap info px bits))"
    using client_bitmap_parse [OF assms(5,6,7), of "env_alloc e" px jpeg "env_junk e" size0] assms(1,8) by auto
  have "cd_code pic = RDCC_TRANSFER_BITMAP"
    using assms(1) by (auto simp: CCommandTransferBitmapServer_def split: if_splits)
  then show ?thesis
    using assms(2,3,4,6) p
    by (auto simp: rc_OnReciveCommand_def rd_state_order rc_CheckCmdCodeValid_def code_less_def client_handle_def
        rc_OnGetTransferBitmap_def MainWindow_OnGetTransferBitmap_def Let_def)
qed

lemma long_scan_points_of_nat:
  assumes "0 < n" and "n < 2 ^ 31"
  shows "long_scan_points (of_nat n) = of_nat (scan_points n)"
proof -
  have "of_nat n - 1 = (of_nat (n - 1) :: u32)" using assms(1) by (simp add: of_nat_diff)
  then have "sint ((of_nat n :: u32) - 1) = int (n - 1)" using assms sint_of_nat_u32 [of "n - 1"] by simp
  moreover have "int (n - 1) div 32 = int ((n - 1) div 32)" by (simp add: zdiv_int)
  ultimately show ?thesis
    by (simp add: long_scan_points_def Let_def scan_points_def SCAN_MODIFY_RECT_UNIT_def)
qed

section \<open>Server and client in step\<close>

text \<open>
  Both sides transfer, nothing is under way, the server may send the next update, and the
  window shows the picture the server captured last.
\<close>

definition in_sync :: "screen \<Rightarrow> remote_client \<Rightarrow> client_conn \<Rightarrow> bool" where
  "in_sync scr r p \<longleftrightarrow>
     rcl_state r = RDCS_TRANSFER \<and> rcl_send_event r \<and> rcl_bufferev r \<and> rcl_queue r = [] \<and> rcl_suffix r = BITMAP_SUFFIX_BMP
     \<and> mirrors (rcl_window r) scr
     \<and> cs_state p = RDCS_TRANSFER \<and> cs_send_event p \<and> cs_bufferev p \<noteq> None \<and> cs_queue p = []
     \<and> cs_suffix p = BITMAP_SUFFIX_BMP \<and> cs_ready p \<and> cs_modified_count p = 0
     \<and> cs_rows p = scr_rows scr \<and> cs_cols p = scr_cols scr
     \<and> (\<exists>bs. cs_modified p = Some bs \<and> scr_rows scr * scr_cols scr \<le> length bs)
     \<and> (\<exists>fb buf. mw_buffer (rcl_window r) = Some fb \<and> scr_buffer scr = Some buf
          \<and> scr_h scr * row_bytes scr \<le> length fb \<and> picture scr fb = picture scr buf)"

lemma server_gets_response:
  assumes "cs_state p = RDCS_TRANSFER"
  shows "OnReciveCommand e scr (CCommandTransferBitmapClientResponse 0) p = Inr (p\<lparr>cs_ready := True\<rparr>, [])"
proof -
  have "server_parse (env_alloc e) (CCommandTransferBitmapClientResponse 0) = Some (Inr (OnGetTransferBitmapResult 0))"
    using server_parse_sent [of "env_alloc e" "OnGetTransferBitmapResult 0"] by simp
  then show ?thesis
    using assms by (simp add: OnReciveCommand_def CheckCmdCodeValid_def code_less_def rd_state_order code_small
        server_handle_def conn_OnGetTransferBitmapResult_def)
qed

text \<open>The round in which the client's answer reaches the server.\<close>

lemma round_response:
  assumes "good_cut net" and "rcl_bufferev r" and "rcl_queue r = [CCommandTransferBitmapClientResponse 0]"
    and "cs_state p = RDCS_TRANSFER" and "cs_bufferev p \<noteq> None" and "cs_queue p = []"
  shows "session_round e jpeg size0 scr net r p = Inr (r\<lparr>rcl_queue := []\<rparr>, p\<lparr>cs_ready := True\<rparr>)"
proof -
  have "session_round e jpeg size0 scr net r p = Inr (r\<lparr>rcl_queue := []\<rparr>, (p\<lparr>cs_ready := True\<rparr>)\<lparr>cs_queue := []\<rparr>)"
    by (rule session_round_commands [OF assms(1,2)])
       (use assms server_gets_response [OF assms(4), of e scr] in \<open>simp_all add: sendable_small frames_small data_small\<close>)
  then show ?thesis using assms(6) by simp
qed

lemma mirrors_picture:
  assumes "scr_ok scr" and "scr_px scr < 2 ^ 16"
  shows "mirrors \<lparr>mw_info = scr_info scr, mw_buffer = b, mw_px = of_nat (scr_px scr),
     mw_rows = long_scan_points (biHeight (scr_info scr)), mw_cols = long_scan_points (biWidth (scr_info scr))\<rparr> scr"
proof -
  have "ucast (of_nat (scr_px scr) :: u16) = (of_nat (scr_px scr) :: u32)"
    using assms(2) by (simp add: unsigned_of_nat take_bit_nat_eq_self)
  then show ?thesis
    using assms(1) scr_ok_small [OF assms(1)] by (simp add: mirrors_def scr_ok_def long_scan_points_of_nat)
qed

lemma session_start:
  assumes net: "good_cut net" and alloc: "\<forall>n. env_alloc e n"
    and r: "rcl_send_event r" "rcl_bufferev r" "rcl_queue r = []" "rcl_suffix r = BITMAP_SUFFIX_BMP"
    and p: "cs_state p = RDCS_CONNECTED" "cs_send_event p" "cs_bufferev p \<noteq> None" "cs_queue p = []" "cs_modified p = None"
    and v: "length v \<le> 1000"
    and scr: "scr_ok scr" "scr_buffer scr = Some bits" "scr_px scr < 2 ^ 16"
    and info: "unat (biSizeImage (scr_info scr)) = length bits" "length (bmiColors (scr_info scr)) = 1024"
    and size: "1070 + length bits \<le> 10485760"
  shows "\<exists>r1 p1 r2 p2 r3 p3. session_round e jpeg size0 scr net (rc_OnConnected v r) p = Inr (r1, p1)
    \<and> rcl_state r1 = RDCS_COMPRESS_MODE \<and> cs_state p1 = RDCS_LOGON
    \<and> session_round e jpeg size0 scr net r1 p1 = Inr (r2, p2)
    \<and> rcl_state r2 = RDCS_TRANSFER \<and> cs_state p2 = RDCS_TRANSFER \<and> mw_buffer (rcl_window r2) = Some bits
    \<and> session_round e jpeg size0 scr net r2 p2 = Inr (r3, p3) \<and> in_sync scr r3 p3"
proof -
  let ?r0 = "rc_OnConnected v r"
  have r0: "rcl_state ?r0 = RDCS_LOGON" "rcl_send_event ?r0" "rcl_bufferev ?r0" "rcl_suffix ?r0 = BITMAP_SUFFIX_BMP"
    "rcl_queue ?r0 = [CCommandProtocalVersion RD_PROTOCAL_VERSION v, CCommandLogon [] []]"
    using r by (simp_all add: rc_OnConnected_def Let_def)
  let ?p1 = "p\<lparr>cs_client_version := v, cs_state := RDCS_LOGON, cs_queue := [CCommandLogonResult 0]\<rparr>"
  have ver: "RD_PROTOCAL_VERSION \<noteq> []" "length RD_PROTOCAL_VERSION = 3" by (simp_all add: RD_PROTOCAL_VERSION_def)
  have s1: "receive_all e scr (rcl_queue ?r0) p = Inr (?p1, [])"
    unfolding r0(5)
    using version_negotiation_step [OF p(1), of RD_PROTOCAL_VERSION v e scr] ver atoi_version v p(2,4)
      server_gets_logon [of "p\<lparr>cs_client_version := v, cs_state := RDCS_PROTOCOL_VERSION\<rparr>" "[]" "[]" e scr] by simp
  obtain r1 where c1: "rc_OnReciveCommand e jpeg size0 (CCommandLogonResult 0) (?r0\<lparr>rcl_queue := []\<rparr>) = Inr r1"
    "rcl_state r1 = RDCS_COMPRESS_MODE" "rcl_send_event r1" "rcl_bufferev r1" "rcl_suffix r1 = BITMAP_SUFFIX_BMP"
    "rcl_queue r1 = [CCommandCompressMode RDCM_RAW, CCommandTransferBitmapClient BITMAP_SUFFIX_BMP]"
    using client_gets_logon_result [of "?r0\<lparr>rcl_queue := []\<rparr>" e jpeg size0] r0 by auto
  have round1: "session_round e jpeg size0 scr net ?r0 p = Inr (r1, ?p1\<lparr>cs_queue := []\<rparr>)"
    by (rule session_round_commands [OF net r0(3) _ _ s1])
       (use r0 p c1 v ver in \<open>simp_all add: sendable_small frames_small data_small\<close>)
  let ?q1 = "?p1\<lparr>cs_queue := []\<rparr>"
  obtain pic where pic: "CCommandTransferBitmapServer (scr_info scr) (of_nat (scr_px scr)) bits = Some pic"
    using info(1) by (simp add: CCommandTransferBitmapServer_def)
  have lp: "length (cd_data pic) = 1070 + length bits" and sp: "sendable pic"
    using pic info size by (auto simp: CCommandTransferBitmapServer_def sendable_mk split: if_splits)
  have dims: "unat (biHeight (scr_info scr)) = scr_h scr" "unat (biWidth (scr_info scr)) = scr_w scr"
    using scr_ok_info [OF scr(1)] by simp_all
  have pos: "0 < sint (biHeight (scr_info scr))" "0 < sint (biWidth (scr_info scr))"
    using scr(1) scr_ok_small [OF scr(1)] by (simp_all add: scr_ok_def sint_of_nat_u32)
  have rc: "scan_points (scr_h scr) = scr_rows scr" "scan_points (scr_w scr) = scr_cols scr"
    using scr(1) by (simp_all add: scr_ok_def)
  let ?q1' = "?q1\<lparr>cs_compress := Some RDCM_RAW, cs_state := RDCS_COMPRESS_MODE\<rparr>"
  let ?p2 = "?q1'\<lparr>cs_state := RDCS_TRANSFER, cs_suffix := BITMAP_SUFFIX_BMP, cs_rows := scr_rows scr, cs_cols := scr_cols scr,
      cs_modified_count := 0, cs_modified := Some (replicate (scr_rows scr * scr_cols scr) 0), cs_queue := [pic]\<rparr>"
  have m: "OnReciveCommand e scr (CCommandCompressMode RDCM_RAW) ?q1 = Inr (?q1', [])"
    by (subst server_gets_mode) simp_all
  have b: "OnReciveCommand e scr (CCommandTransferBitmapClient BITMAP_SUFFIX_BMP) ?q1' = Inr (?p2, [])"
    using server_gets_bmp_request [of ?q1' scr bits pic e] p(2,5) scr(2) pos pic by (simp add: dims rc)
  have s2: "receive_all e scr (rcl_queue r1) ?q1 = Inr (?p2, [])"
    unfolding c1(6) using m b by simp
  obtain r2 where c2: "rc_OnReciveCommand e jpeg size0 pic (r1\<lparr>rcl_queue := []\<rparr>) = Inr r2" "rcl_state r2 = RDCS_TRANSFER"
    "rcl_queue r2 = [CCommandTransferBitmapClientResponse 0]" "rcl_send_event r2" "rcl_bufferev r2" "rcl_suffix r2 = BITMAP_SUFFIX_BMP"
    "rcl_window r2 = \<lparr>mw_info = scr_info scr, mw_buffer = Some bits, mw_px = of_nat (scr_px scr),
        mw_rows = long_scan_points (biHeight (scr_info scr)), mw_cols = long_scan_points (biWidth (scr_info scr))\<rparr>"
    using client_gets_picture [OF pic, of "r1\<lparr>rcl_queue := []\<rparr>" e jpeg size0] c1 info size alloc by auto
  have round2: "session_round e jpeg size0 scr net r1 ?q1 = Inr (r2, ?p2\<lparr>cs_queue := []\<rparr>)"
    by (rule session_round_commands [OF net c1(4) _ _ s2])
       (use c1 c2 p sp lp size in \<open>simp_all add: sendable_small frames_small data_small BITMAP_SUFFIX_BMP_def\<close>)
  let ?q2 = "?p2\<lparr>cs_queue := []\<rparr>"
  have round3: "session_round e jpeg size0 scr net r2 ?q2 = Inr (r2\<lparr>rcl_queue := []\<rparr>, ?q2\<lparr>cs_ready := True\<rparr>)"
    by (rule round_response [OF net c2(5,3)]) (use p in simp_all)
  have "in_sync scr (r2\<lparr>rcl_queue := []\<rparr>) (?q2\<lparr>cs_ready := True\<rparr>)"
    using c2 p scr mirrors_picture [OF scr(1,3), of "Some bits"] by (simp add: in_sync_def scr_ok_def)
  with round1 round2 round3 c1(2) c2(2,7) show ?thesis
    by (intro exI [of _ r1] exI [of _ ?q1] exI [of _ r2] exI [of _ ?q2] exI [of _ "r2\<lparr>rcl_queue := []\<rparr>"]
        exI [of _ "?q2\<lparr>cs_ready := True\<rparr>"]) simp
qed

section \<open>One update\<close>

lemma seg_take: "k + n \<le> m \<Longrightarrow> seg k n (take m xs) = seg k n xs"
  by (simp add: seg_def drop_take min_absorb1)

text \<open>Cells only depend on the picture.\<close>

lemma cell_picture:
  assumes "scr_ok scr" and "y < scr_h scr" and "c < scr_cols scr" and "picture scr a = picture scr b"
  shows "cell (row_bytes scr) (block_bytes scr) (scr_cols scr) y c a = cell (row_bytes scr) (block_bytes scr) (scr_cols scr) y c b"
proof -
  have "y * row_bytes scr + c * block_bytes scr + cell_width (row_bytes scr) (block_bytes scr) (scr_cols scr) c \<le> scr_h scr * row_bytes scr"
    using cell_in_buffer [OF scr_ok_grid [OF assms(1)] assms(3,2), of "replicate (scr_h scr * row_bytes scr) 0"] by simp
  then show ?thesis
    using assms(4) unfolding cell_def picture_def by (metis seg_take)
qed

lemma block_modified_picture:
  assumes "scr_ok scr" and "b < scr_rows scr * scr_cols scr" and "picture scr x = picture scr y"
  shows "block_modified scr a x b = block_modified scr a y b"
  using cell_picture [OF assms(1) _ mod_lt_cols [OF assms(2)] assms(3)]
  by (auto simp: block_modified_def cells_differ_def)

text \<open>What the server queues for a ready client.\<close>

lemma server_sends_update:
  assumes sync: "in_sync scr r p" and ok: "scr_ok scr'" and px: "scr_px scr' = scr_px scr"
    and dims: "scr_rows scr' = scr_rows scr" "scr_cols scr' = scr_cols scr"
    and bl: "blocks \<noteq> []" "length blocks \<le> scr_rows scr * scr_cols scr"
    and P: "pack_modified (env_junk e) scr' (scr_rows scr) (scr_cols scr) blocks = Inr (Some P)"
    and n: "length blocks < 2 ^ 32" "length P < 2 ^ 32"
  shows "\<exists>c bs2. CCommandTransferModifyBitmap (of_nat (length blocks)) (map of_nat blocks) (of_nat (length P)) P = Some c
    \<and> scr_rows scr * scr_cols scr \<le> length bs2
    \<and> OnScreenModified e scr' blocks p = Inr (p\<lparr>cs_ready := False, cs_modified_count := 0, cs_modified := Some bs2, cs_queue := [c]\<rparr>)"
proof -
  obtain bs where bs: "cs_modified p = Some bs" "scr_rows scr * scr_cols scr \<le> length bs"
    using sync by (auto simp: in_sync_def)
  have u: "unat (of_nat (length blocks) :: u32) = length blocks" "unat (of_nat (length P) :: u32) = length P"
    using n by (simp_all add: unat_of_nat_u32)
  obtain c where c: "CCommandTransferModifyBitmap (of_nat (length blocks)) (map of_nat blocks) (of_nat (length P)) P = Some c"
    using u by (simp add: CCommandTransferModifyBitmap_def)
  have "cs_suffix p \<noteq> BITMAP_SUFFIX_JPEG"
    using sync by (simp add: in_sync_def BITMAP_SUFFIX_BMP_def BITMAP_SUFFIX_JPEG_def)
  then have mc: "modify_command e scr' q blocks P = Inr c" if "cs_suffix q = cs_suffix p" for q
    using that c by (simp add: modify_command_def)
  let ?p1 = "p\<lparr>cs_modified_count := length blocks, cs_modified := Some (blocks @ drop (length blocks) bs)\<rparr>"
  have add: "add_modified blocks p = Inr ?p1"
    using sync bs bl by (simp add: add_modified_def in_sync_def)
  have lb: "length blocks \<le> length bs" using bl(2) bs(2) by simp
  let ?p2 = "?p1\<lparr>cs_ready := False, cs_queue := [c]\<rparr>"
  have send: "AsynSendTransterModifyBitmap e scr' (?p1\<lparr>cs_ready := False\<rparr>) = Inr (1, ?p2)"
    using sync bl(1) P lb mc [of "?p1\<lparr>cs_ready := False\<rparr>"]
    by (simp add: AsynSendTransterModifyBitmap_def in_sync_def AsynSend_def Let_def)
  let ?n = "scr_rows scr * scr_cols scr"
  let ?bs2 = "replicate ?n 0 @ drop ?n (blocks @ drop (length blocks) bs)"
  have "OnScreenModified e scr' blocks p = Inr (?p2\<lparr>cs_modified_count := 0, cs_modified := Some ?bs2\<rparr>)"
    using sync bl(1) add send bs(2) lb by (simp add: OnScreenModified_def in_sync_def Let_def)
  then show ?thesis using c by (intro exI [of _ c] exI [of _ ?bs2]) simp
qed

text \<open>The client applies an update it is sent.\<close>

lemma client_gets_update:
  assumes r: "rcl_state r = RDCS_TRANSFER" "rcl_send_event r" "rcl_suffix r = BITMAP_SUFFIX_BMP"
    and c: "CCommandTransferModifyBitmap (of_nat (length blocks)) blocks (of_nat (length P)) P = Some c"
    and n: "blocks \<noteq> []" "12 + 4 * length blocks + length P < 2 ^ 32" "\<forall>n. env_alloc e n"
    and w: "MainWindow_OnGetTransferModifyBitmap (of_nat (length blocks)) blocks P (rcl_window r) = Some w"
  shows "rc_OnReciveCommand e jpeg size0 c r
    = Inr (r\<lparr>rcl_window := w, rcl_queue := rcl_queue r @ [CCommandTransferBitmapClientResponse 0]\<rparr>)"
proof -
  have p: "client_parse jpeg (env_junk e) size0 (env_alloc e) BITMAP_SUFFIX_BMP c
      = Some (Inr (C_OnGetTransferModifyBitmap (of_nat (length blocks)) blocks (of_nat (length P)) P))"
    using client_modify_parse [OF _ n(2,3), of jpeg "env_junk e" size0] n(1) c by auto
  have "cd_code c = RDCC_TRANSFER_MODIFY_BITMAP"
    using c by (auto simp: CCommandTransferModifyBitmap_def split: if_splits)
  then show ?thesis
    using r p w
    by (simp add: rc_OnReciveCommand_def rd_state_order rc_CheckCmdCodeValid_def code_less_def client_handle_def
        rc_OnGetTransferModifyBitmap_def rc_AsynSend_def)
qed

lemma session_frame:
  assumes net: "good_cut net" and alloc: "\<forall>n. env_alloc e n" and sync: "in_sync scr r p" and ok: "scr_ok scr"
    and ev: "scr_hWnd scr" "scr_event scr"
    and info: "biWidth info = biWidth (scr_info scr)" "biHeight info = biHeight (scr_info scr)"
    and new: "scr_h scr * row_bytes scr \<le> length new"
    and small: "scr_rows scr * scr_cols scr * (4 + 32 * block_bytes scr) + 8 \<le> 10485760"
  shows "\<exists>scr' msg. CaptureDesktop (Some (info, new)) scr = Some (scr', msg) \<and>
    (case msg of
       ScreenFirstBitmap \<Rightarrow> False
     | NoMsg \<Rightarrow> in_sync scr' r p
     | ScreenModified n blocks \<Rightarrow>
         \<exists>p1 r2 p2 r3 p3. OnScreenModified e scr' blocks p = Inr p1
           \<and> session_round e jpeg size0 scr' net r p1 = Inr (r2, p2)
           \<and> session_round e jpeg size0 scr' net r2 p2 = Inr (r3, p3) \<and> in_sync scr' r3 p3)"
proof -
  let ?scr' = "scr\<lparr>scr_info := info, scr_buffer := Some new\<rparr>" and ?scr1 = "scr\<lparr>scr_info := info\<rparr>"
  obtain fb buf where fb: "mw_buffer (rcl_window r) = Some fb" "scr_buffer scr = Some buf"
    "scr_h scr * row_bytes scr \<le> length fb" "picture scr fb = picture scr buf"
    using sync by (auto simp: in_sync_def)
  have lbuf: "scr_h scr * row_bytes scr \<le> length buf" using ok fb(2) by (simp add: scr_ok_def)
  have dims: "row_bytes ?scr1 = row_bytes scr" "row_bytes ?scr' = row_bytes scr"
    "block_bytes ?scr' = block_bytes scr" "picture ?scr' = picture scr"
    "block_modified ?scr1 = block_modified scr" "block_modified ?scr' = block_modified scr"
    by (simp_all add: row_bytes_def block_bytes_def picture_def block_modified_def cells_differ_def fun_eq_iff)
  have ok1: "scr_ok ?scr1" and ok': "scr_ok ?scr'"
    using ok info new fb(2) lbuf by (simp_all add: scr_ok_def dims)
  let ?N = "scr_rows scr * scr_cols scr"
  define blocks where "blocks = filter (block_modified scr new buf) [0..<?N]"
  have gm: "GetModifiedBlocks ?scr1 new buf = Some (length blocks, blocks)"
    using GetModifiedBlocks_spec [OF ok1, of new buf] new lbuf by (simp add: dims blocks_def Let_def)
  have cap: "CaptureDesktop (Some (info, new)) scr
      = Some (?scr', if 0 < length blocks then ScreenModified (length blocks) blocks else NoMsg)"
    using ev fb(2) by (simp add: CaptureDesktop_def Let_def gm)
  have m': "mirrors (rcl_window r) ?scr'" using sync by (simp add: in_sync_def mirrors_def)
  have le: "length blocks \<le> ?N" unfolding blocks_def by (metis diff_zero length_filter_le length_upt)
  have "length blocks * (4 + 32 * block_bytes scr) \<le> ?N * (4 + 32 * block_bytes scr)" using le by (rule mult_le_mono1)
  then have sz: "4 * length blocks + 32 * (length blocks * block_bytes scr) + 8 \<le> 10485760"
    using small by (simp add: algebra_simps)
  have rng: "\<forall>b\<in>set blocks. b < ?N" by (auto simp: blocks_def)
  have s32: "32 * (length blocks * block_bytes scr) < 2 ^ 32"
    by (rule le_less_trans [of _ 10485760]) (use sz in linarith, simp)
  have cover: "\<forall>b < ?N. block_modified scr new fb b \<longrightarrow> b \<in> set blocks"
    using block_modified_picture [OF ok _ fb(4)] by (auto simp: blocks_def)
  have b': "scr_buffer ?scr' = Some new" by simp
  have "\<exists>P fb'. pack_modified (env_junk e) ?scr' (scr_rows ?scr') (scr_cols ?scr') blocks = Inr (Some P)
    \<and> MainWindow_OnGetTransferModifyBitmap (of_nat (length blocks)) (map of_nat blocks) P (rcl_window r)
        = Some ((rcl_window r)\<lparr>mw_buffer := Some fb'\<rparr>)
    \<and> picture ?scr' fb' = picture ?scr' new
    \<and> drop (scr_h ?scr' * row_bytes ?scr') fb' = drop (scr_h ?scr' * row_bytes ?scr') fb"
    by (rule modified_blocks_sync [OF ok' b' m' fb(1)]) (use fb(3) rng s32 cover in \<open>simp_all add: dims\<close>)
  then obtain P fb' where P: "pack_modified (env_junk e) ?scr' (scr_rows scr) (scr_cols scr) blocks = Inr (Some P)"
    and w: "MainWindow_OnGetTransferModifyBitmap (of_nat (length blocks)) (map of_nat blocks) P (rcl_window r)
      = Some ((rcl_window r)\<lparr>mw_buffer := Some fb'\<rparr>)"
    and pic: "picture scr fb' = picture scr new"
    and dr: "drop (scr_h scr * row_bytes scr) fb' = drop (scr_h scr * row_bytes scr) fb"
    unfolding dims by auto
  have lfb': "scr_h scr * row_bytes scr \<le> length fb'"
    using arg_cong [OF pic, of length] new by (simp add: picture_def)
  show ?thesis
  proof (cases "blocks = []")
    case True
    have "map of_nat blocks = ([] :: u32 list)" using True by simp
    then have "fb' = fb"
      using w fb(1) True by (simp add: MainWindow_OnGetTransferModifyBitmap_def) (metis main_window.select_convs(2) main_window.surjective main_window.update_convs(2) option.inject)
    then have "in_sync ?scr' r p"
      using sync m' fb pic by (simp add: in_sync_def dims)
    with cap True show ?thesis by simp
  next
    case False
    have lP: "length P = 32 * (length blocks * block_bytes scr)"
      using pack_modified_ok [OF ok', of new blocks "env_junk e"] P by (auto simp: dims blocks_def)
    obtain c bs2 where c: "CCommandTransferModifyBitmap (of_nat (length blocks)) (map of_nat blocks) (of_nat (length P)) P = Some c"
      and bs2: "?N \<le> length bs2"
      and p1: "OnScreenModified e ?scr' blocks p = Inr (p\<lparr>cs_ready := False, cs_modified_count := 0, cs_modified := Some bs2, cs_queue := [c]\<rparr>)"
      using server_sends_update [OF sync ok' _ _ _ False le P] sz lP by auto
    let ?p1 = "p\<lparr>cs_ready := False, cs_modified_count := 0, cs_modified := Some bs2, cs_queue := [c]\<rparr>"
    let ?r2 = "r\<lparr>rcl_window := (rcl_window r)\<lparr>mw_buffer := Some fb'\<rparr>, rcl_queue := [CCommandTransferBitmapClientResponse 0]\<rparr>"
    let ?p2 = "?p1\<lparr>cs_queue := []\<rparr>"
    have lc: "length (cd_data c) = 8 + 4 * length blocks + length P" and sc: "sendable c"
      using c sz lP unat_of_nat_u32 [of "length blocks"] unat_of_nat_u32 [of "length P"]
      by (auto simp: CCommandTransferModifyBitmap_def sendable_mk split: if_splits)
    have up: "rc_OnReciveCommand e jpeg size0 c (r\<lparr>rcl_queue := []\<rparr>) = Inr ?r2"
      using client_gets_update [of "r\<lparr>rcl_queue := []\<rparr>" "map of_nat blocks" P c e "(rcl_window r)\<lparr>mw_buffer := Some fb'\<rparr>" jpeg size0]
        sync c False sz lP alloc w by (simp add: in_sync_def)
    have round1: "session_round e jpeg size0 ?scr' net r ?p1 = Inr (?r2, ?p2)"
      by (rule session_round_commands [OF net])
         (use sync up sc lc sz lP in \<open>simp_all add: in_sync_def frames_small\<close>)
    have round2: "session_round e jpeg size0 ?scr' net ?r2 ?p2 = Inr (?r2\<lparr>rcl_queue := []\<rparr>, ?p2\<lparr>cs_ready := True\<rparr>)"
      by (rule round_response [OF net]) (use sync in \<open>simp_all add: in_sync_def\<close>)
    have "in_sync ?scr' (?r2\<lparr>rcl_queue := []\<rparr>) (?p2\<lparr>cs_ready := True\<rparr>)"
      using sync m' lfb' pic bs2 by (simp add: in_sync_def mirrors_def dims)
    with cap False p1 round1 round2 show ?thesis by auto
  qed
qed

section \<open>Properties\<close>

text \<open>A pair of programs for the witnesses: a one-pixel screen and a bitmap client.\<close>

definition demo_capture :: "byte list \<Rightarrow> screen" where
  "demo_capture colors = demo_screen\<lparr>scr_hWnd := True, scr_event := True,
     scr_info := (scr_info demo_screen)\<lparr>bmiColors := colors\<rparr>\<rparr>"

definition demo_client :: remote_client where
  "demo_client = (CRemoteClient (new_main_window (bitmap_info_of_bytes []) 0))\<lparr>rcl_bufferev := True,
     rcl_send_event := True, rcl_suffix := BITMAP_SUFFIX_BMP\<rparr>"

lemma demo_session:
  "scr_ok (demo_capture colors)" "scr_buffer (demo_capture colors) = Some [1, 2, 3]" "scr_px (demo_capture colors) = 3"
  "biSizeImage (scr_info (demo_capture colors)) = 3" "bmiColors (scr_info (demo_capture colors)) = colors"
  "scr_hWnd (demo_capture colors)" "scr_event (demo_capture colors)" "scr_h (demo_capture colors) = 1"
  "row_bytes (demo_capture colors) = 3" "block_bytes (demo_capture colors) = 96"
  "scr_rows (demo_capture colors) = 1" "scr_cols (demo_capture colors) = 1"
  "rcl_send_event demo_client" "rcl_bufferev demo_client" "rcl_queue demo_client = []" "rcl_suffix demo_client = BITMAP_SUFFIX_BMP"
  "cs_bufferev (demo_conn s) = Some 1"
  by (simp_all add: demo_capture_def demo_screen_def demo_client_def CRemoteClient_def demo_conn_def CClientConnection_def
      CScreenBitmap_def scr_ok_def row_bytes_def block_bytes_def scan_points_def SCAN_MODIFY_RECT_UNIT_def)

lemma demo_env_alloc: "env_alloc demo_env n"
  by (simp add: demo_env_def)





end
