(* ===== verification/Ordered_Map.thy ===== *)
theory Ordered_Map
  imports RD_Prelude
begin

text \<open>
  \<open>std::map\<close> as the program uses it: an association list in strictly increasing key order.
  The locale states what its clients rely on (what a lookup returns after an insertion and
  after a deletion, and that iteration visits the entries once, in key order); the lemmas
  proved in it are what the tables of the server and the tracker need.
\<close>

section \<open>The interface\<close>

locale ordered_table =
  fixes ok :: "'t \<Rightarrow> bool"
    and empty :: 't
    and find :: "'k::linorder \<Rightarrow> 't \<Rightarrow> 'v option"
    and put :: "'k \<Rightarrow> 'v \<Rightarrow> 't \<Rightarrow> 't"
    and erase :: "'k \<Rightarrow> 't \<Rightarrow> 't"
    and entries :: "'t \<Rightarrow> ('k \<times> 'v) list"
  assumes ok_empty: "ok empty" "entries empty = []"
    and ok_put: "ok t \<Longrightarrow> ok (put k v t)"
    and ok_erase: "ok t \<Longrightarrow> ok (erase k t)"
    and find_put: "ok t \<Longrightarrow> find k' (put k v t) = (if k' = k then Some v else find k' t)"
    and find_erase: "ok t \<Longrightarrow> find k' (erase k t) = (if k' = k then None else find k' t)"
    and in_order: "ok t \<Longrightarrow> sorted_wrt (<) (map fst (entries t))"
    and find_entries: "ok t \<Longrightarrow> find k t = map_of (entries t) k"
begin

lemma distinct_keys: "ok t \<Longrightarrow> distinct (map fst (entries t))"
  using in_order [of t] strict_sorted_iff by blast

lemma mem_entries: "ok t \<Longrightarrow> (k, v) \<in> set (entries t) \<longleftrightarrow> find k t = Some v"
  using distinct_keys find_entries by (simp add: Some_eq_map_of_iff eq_commute)

lemma entries_put:
  assumes "ok t"
  shows "set (entries (put k v t)) = insert (k, v) {e \<in> set (entries t). fst e \<noteq> k}"
  using assms by (auto simp: mem_entries ok_put find_put split: if_splits)

lemma entries_erase:
  assumes "ok t"
  shows "set (entries (erase k t)) = {e \<in> set (entries t). fst e \<noteq> k}"
  using assms by (auto simp: mem_entries ok_erase find_erase split: if_splits)

lemma size_entries: "ok t \<Longrightarrow> length (entries t) = card (set (entries t))"
  using distinct_keys by (metis distinct_card distinct_map)

lemma size_put_fresh:
  assumes "ok t" and "find k t = None"
  shows "length (entries (put k v t)) = Suc (length (entries t))"
proof -
  have "{e \<in> set (entries t). fst e \<noteq> k} = set (entries t)"
    using assms by (auto simp: mem_entries)
  moreover have "(k, v) \<notin> set (entries t)" using assms by (simp add: mem_entries)
  ultimately show ?thesis
    using assms by (simp add: size_entries ok_put entries_put)
qed

lemma size_erase_present:
  assumes "ok t" and "find k t = Some v"
  shows "Suc (length (entries (erase k t))) = length (entries t)"
proof -
  have "insert (k, v) {e \<in> set (entries t). fst e \<noteq> k} = set (entries t)"
    using assms by (auto simp: mem_entries)
  moreover have "(k, v) \<notin> {e \<in> set (entries t). fst e \<noteq> k}" by simp
  ultimately have "card (set (entries t)) = Suc (card {e \<in> set (entries t). fst e \<noteq> k})"
    by (metis List.finite_set card_insert_disjoint finite_insert)
  then show ?thesis
    using assms by (simp add: size_entries ok_erase entries_erase)
qed

lemma find_None_keys: "ok t \<Longrightarrow> find k t = None \<longleftrightarrow> k \<notin> fst ` set (entries t)"
  by (simp add: find_entries map_of_eq_None_iff)

end

section \<open>The model\<close>

definition map_ok :: "('k::linorder \<times> 'v) list \<Rightarrow> bool" where
  "map_ok t \<longleftrightarrow> sorted_wrt (<) (map fst t)"

fun map_put :: "'k::linorder \<Rightarrow> 'v \<Rightarrow> ('k \<times> 'v) list \<Rightarrow> ('k \<times> 'v) list" where
  "map_put k v [] = [(k, v)]"
| "map_put k v ((k', v') # t) =
     (if k < k' then (k, v) # (k', v') # t
      else if k = k' then (k, v) # t
      else (k', v') # map_put k v t)"

definition map_erase :: "'k::linorder \<Rightarrow> ('k \<times> 'v) list \<Rightarrow> ('k \<times> 'v) list" where
  "map_erase k t = filter (\<lambda>e. fst e \<noteq> k) t"

definition map_find :: "'k::linorder \<Rightarrow> ('k \<times> 'v) list \<Rightarrow> 'v option" where
  "map_find k t = map_of t k"

lemma keys_put: "fst ` set (map_put k v t) = insert k (fst ` set t)"
proof (induction t)
  case (Cons e t)
  then show ?case by (cases e) (simp add: insert_commute)
qed simp

lemma map_ok_put: "map_ok t \<Longrightarrow> map_ok (map_put k v t)"
proof (induction t)
  case Nil
  then show ?case by (simp add: map_ok_def)
next
  case (Cons e t)
  obtain k' v' where e: "e = (k', v')" by fastforce
  have t: "map_ok t" and lt: "\<forall>x \<in> fst ` set t. k' < x" using Cons.prems by (auto simp: map_ok_def e)
  have "k' < k \<Longrightarrow> \<forall>x \<in> fst ` set (map_put k v t). k' < x" using lt by (simp add: keys_put)
  then show ?case
    using Cons.IH [OF t] Cons.prems lt by (auto simp: map_ok_def e dest: order.strict_trans)
qed

lemma map_of_put: "map_of (map_put k v t) k' = (if k' = k then Some v else map_of t k')"
  by (induction t) auto

lemma map_of_erase: "map_of (map_erase k t) k' = (if k' = k then None else map_of t k')"
  by (induction t) (auto simp: map_erase_def)

lemma map_ok_erase: "map_ok t \<Longrightarrow> map_ok (map_erase k t)"
  by (induction t) (auto simp: map_ok_def map_erase_def)

interpretation omap: ordered_table map_ok "[]" map_find map_put map_erase "\<lambda>t. t"
  by unfold_locales
     (simp_all add: map_find_def map_of_put map_of_erase map_ok_put map_ok_erase, simp_all add: map_ok_def)

lemma map_erase_subset: "set (map_erase k t) \<subseteq> set t"
  by (auto simp: map_erase_def)

end
