(* ===== verification/Remote_Server.thy ===== *)
theory Remote_Server
  imports Ordered_Map Server_Connection Framing
begin

text \<open>
  \<^verbatim>\<open>RemoteDesktopServer/RemoteServer.cpp\<close> with the callbacks of \<^verbatim>\<open>MainWindow.cpp\<close> it
  drives and the reference counting of \<^verbatim>\<open>common/AutoAddReleasePtr.h\<close>: the table of clients
  and its lifecycle.  Connection objects live in a heap, \<open>None\<close> is memory that was freed (or
  never allocated) and an access to it is a fault.  An object's \<open>m_dwRef\<close> is kept in two
  parts: the reference its own send event holds (\<open>cs_ref\<close> of the connection) and the
  references from outside, the table and the smart pointers on the stack (\<open>ob_refs\<close>).
  libevent decides when a callback runs; a bufferevent is the number that names it.
\<close>

section \<open>State\<close>

record server_obj =
  ob_refs :: int
  ob_conn :: client_conn

record remote_server =
  rs_clients :: "(nat \<times> nat) list"
  rs_heap :: "nat \<Rightarrow> server_obj option"
  rs_live :: "nat list"
  rs_command :: command_data
  rs_screen :: screen
  rs_posted :: "nat list list"

type_synonym server_result = "sb_error + remote_server \<times> (nat \<times> conn_out) list"

definition CRemoteServer :: "screen \<Rightarrow> remote_server" where
  "CRemoteServer scr =
     \<lparr>rs_clients = [], rs_heap = (\<lambda>_. None), rs_live = [], rs_command = InitCommandData,
      rs_screen = scr, rs_posted = []\<rparr>"

section \<open>Reference counting\<close>

text \<open>An object whose count has come down to 0 is deleted.\<close>

definition store_obj :: "nat \<Rightarrow> server_obj \<Rightarrow> remote_server \<Rightarrow> remote_server" where
  "store_obj q ob s =
     s\<lparr>rs_heap := (rs_heap s)(q := if ob_refs ob + cs_ref (ob_conn ob) = 0 then None else Some ob)\<rparr>"

definition AddRef :: "nat \<Rightarrow> remote_server \<Rightarrow> sb_error + remote_server" where
  "AddRef q s =
     (case rs_heap s q of
        None \<Rightarrow> Inl MemFault
      | Some ob \<Rightarrow> Inr (s\<lparr>rs_heap := (rs_heap s)(q \<mapsto> ob\<lparr>ob_refs := ob_refs ob + 1\<rparr>)\<rparr>))"

definition Release :: "nat \<Rightarrow> remote_server \<Rightarrow> sb_error + remote_server" where
  "Release q s =
     (case rs_heap s q of
        None \<Rightarrow> Inl MemFault
      | Some ob \<Rightarrow> Inr (store_obj q (ob\<lparr>ob_refs := ob_refs ob - 1\<rparr>) s))"

text \<open>A method call on an object, which may release the reference of its send event.\<close>

definition conn_call :: "nat \<Rightarrow> (client_conn \<Rightarrow> conn_result) \<Rightarrow> remote_server \<Rightarrow> server_result" where
  "conn_call q f s =
     (case rs_heap s q of
        None \<Rightarrow> Inl MemFault
      | Some ob \<Rightarrow> rd_bind (f (ob_conn ob)) (\<lambda>(p, outs).
          Inr (store_obj q (ob\<lparr>ob_conn := p\<rparr>) s, map (Pair q) outs)))"

text \<open>\<open>AddRef\<close>, the body, \<open>Release\<close>: the lifetime of a smart pointer or of a counted local.\<close>

definition holding :: "nat \<Rightarrow> (remote_server \<Rightarrow> server_result) \<Rightarrow> remote_server \<Rightarrow> server_result" where
  "holding q body s =
     rd_bind (AddRef q s) (\<lambda>s1. rd_bind (body s1) (\<lambda>(s2, outs).
     rd_bind (Release q s2) (\<lambda>s3. Inr (s3, outs))))"

section \<open>Stopping a client\<close>

definition StopClient :: "env \<Rightarrow> nat \<Rightarrow> u32 \<Rightarrow> remote_server \<Rightarrow> server_result" where
  "StopClient e q errorCode s =
     (case rs_heap s q of
        None \<Rightarrow> Inl MemFault
      | Some ob \<Rightarrow>
          (case cs_bufferev (ob_conn ob) of
             None \<Rightarrow> Inr (s, [])
           | Some bev \<Rightarrow>
               (case map_find bev (rs_clients s) of
                  None \<Rightarrow> Inr (s, [])
                | Some q1 \<Rightarrow>
                    rd_bind (conn_call q1 (\<lambda>p. Inr (conn_Stop e errorCode p)) s) (\<lambda>(s1, outs).
                    rd_bind (Release q1 s1) (\<lambda>s2.
                    Inr (s2\<lparr>rs_live := removeAll bev (rs_live s2),
                             rs_clients := map_erase bev (rs_clients s2)\<rparr>, outs))))))"

text \<open>
  What a connection's handler asks of the world; \<open>m_pClientConnectionEvent->OnDisconnect\<close>
  is a call of \<open>StopClient\<close>.
\<close>

fun run_outs :: "env \<Rightarrow> nat \<Rightarrow> conn_out list \<Rightarrow> remote_server \<Rightarrow> server_result" where
  "run_outs e q [] s = Inr (s, [])"
| "run_outs e q (AskDisconnect code extra # outs) s =
     rd_bind (StopClient e q code s) (\<lambda>(s1, o1).
     rd_bind (run_outs e q outs s1) (\<lambda>(s2, o2). Inr (s2, o1 @ o2)))"
| "run_outs e q (out # outs) s =
     rd_bind (run_outs e q outs s) (\<lambda>(s2, o2). Inr (s2, (q, out) # o2))"

section \<open>Reading\<close>

definition srv_OnReciveCommand :: "env \<Rightarrow> nat \<Rightarrow> command_data \<Rightarrow> remote_server \<Rightarrow> server_result" where
  "srv_OnReciveCommand e q c =
     holding q (\<lambda>s1.
       case rs_heap s1 q of
         None \<Rightarrow> Inl MemFault
       | Some ob \<Rightarrow>
           rd_bind (OnReciveCommand e (rs_screen s1) c (ob_conn ob)) (\<lambda>(p, outs).
           run_outs e q outs (store_obj q (ob\<lparr>ob_conn := p\<rparr>) s1)))"

fun srv_receive :: "env \<Rightarrow> nat \<Rightarrow> command_data list \<Rightarrow> remote_server \<Rightarrow> server_result" where
  "srv_receive e q [] s = Inr (s, [])"
| "srv_receive e q (c # cs) s =
     rd_bind (srv_OnReciveCommand e q c s) (\<lambda>(s1, o1).
     rd_bind (srv_receive e q cs s1) (\<lambda>(s2, o2). Inr (s2, o1 @ o2)))"

text \<open>
  \<open>conn_readcb\<close>: the decoder's state \<open>m_Command\<close> is a member of the server, one for all
  clients.
\<close>

definition conn_readcb :: "env \<Rightarrow> nat \<Rightarrow> byte list \<Rightarrow> remote_server \<Rightarrow> server_result" where
  "conn_readcb e bev buf s =
     (case map_find bev (rs_clients s) of
        None \<Rightarrow> Inr (s, [])
      | Some q \<Rightarrow>
          holding q (\<lambda>s1.
            if buf = [] then Inr (s1, [])
            else
              case DecodeBuffer (env_alloc e) (rs_command s1) buf of
                (cmds, cmd) \<Rightarrow>
                  rd_bind (srv_receive e q cmds s1) (\<lambda>(s2, outs). Inr (s2\<lparr>rs_command := cmd\<rparr>, outs))) s)"

section \<open>Connecting and disconnecting\<close>

definition IsCapturing :: "screen \<Rightarrow> bool" where "IsCapturing scr = scr_thread scr"

definition HasClientConnected :: "remote_server \<Rightarrow> bool" where
  "HasClientConnected s \<longleftrightarrow> rs_clients s \<noteq> []"

text \<open>\<open>CMainWindow::OnConnect\<close> and \<open>OnDisconnect\<close>: capture runs while clients are connected.\<close>

definition MainWindow_OnConnect :: "remote_server \<Rightarrow> remote_server" where
  "MainWindow_OnConnect s =
     (if \<not> IsCapturing (rs_screen s) then s\<lparr>rs_screen := StartCapture (rs_screen s)\<rparr> else s)"

text \<open>\<open>StopCapture\<close> destroys the window and with it the messages posted to it.\<close>

definition MainWindow_OnDisconnect :: "remote_server \<Rightarrow> remote_server" where
  "MainWindow_OnDisconnect s =
     (if \<not> HasClientConnected s \<and> IsCapturing (rs_screen s)
      then s\<lparr>rs_screen := StopCapture (rs_screen s), rs_posted := []\<rparr> else s)"

definition srv_OnClientConnected :: "nat \<Rightarrow> remote_server \<Rightarrow> server_result" where
  "srv_OnClientConnected q =
     holding q (\<lambda>s. rd_bind (conn_call q (\<lambda>p. Inr (OnConnect p, [])) s) (\<lambda>(s1, outs).
       Inr (MainWindow_OnConnect s1, outs)))"

text \<open>
  The listener: a fresh bufferevent (\<open>None\<close> if there is none) and the place \<open>q\<close> of the new
  object.  The address of the peer must not be one that is connected already.
\<close>

definition already_connected :: "client_conn \<Rightarrow> remote_server \<Rightarrow> bool" where
  "already_connected p s \<longleftrightarrow>
     (\<exists>(b, q) \<in> set (rs_clients s). case rs_heap s q of None \<Rightarrow> False | Some ob \<Rightarrow> same_peer p (ob_conn ob))"

definition listener_cb :: "nat option \<Rightarrow> nat \<Rightarrow> bool \<Rightarrow> string \<Rightarrow> u16 \<Rightarrow> bool \<Rightarrow> remote_server \<Rightarrow> server_result" where
  "listener_cb fresh q socket_ok ip port event_ok s =
     (case fresh of
        None \<Rightarrow> Inr (s, [])
      | Some bev \<Rightarrow>
          let p = CClientConnection socket_ok ip port (Some bev) event_ok;
              s0 = s\<lparr>rs_heap := (rs_heap s)(q \<mapsto> \<lparr>ob_refs = 1, ob_conn = p\<rparr>)\<rparr> in
          if \<not> IsValid p then rd_bind (Release q s0) (\<lambda>s1. Inr (s1, []))
          else if already_connected p s then rd_bind (Release q s0) (\<lambda>s1. Inr (s1, []))
          else
            rd_bind (AddRef q s0) (\<lambda>s1.
            rd_bind (srv_OnClientConnected q
                (s1\<lparr>rs_clients := map_put bev q (rs_clients s1), rs_live := bev # rs_live s1\<rparr>)) (\<lambda>(s2, outs).
            rd_bind (Release q s2) (\<lambda>s3. Inr (s3, outs)))))"

definition BEV_EVENT_EOF :: nat where "BEV_EVENT_EOF = 0x10"
definition BEV_EVENT_ERROR :: nat where "BEV_EVENT_ERROR = 0x20"

text \<open>
  \<open>OnClientDisconnected\<close>: the events are passed on as the error code, which is then never 0,
  and a NULL client is dereferenced.
\<close>

definition srv_OnClientDisconnected :: "nat option \<Rightarrow> u32 \<Rightarrow> remote_server \<Rightarrow> server_result" where
  "srv_OnClientDisconnected client errorCode s =
     (case client of
        None \<Rightarrow> if errorCode \<noteq> RDEC_SUCCEEDED then Inl MemFault else Inr (MainWindow_OnDisconnect s, [])
      | Some q \<Rightarrow>
          holding q (\<lambda>s1.
            rd_bind (if errorCode \<noteq> RDEC_SUCCEEDED then conn_call q (\<lambda>p. Inr (conn_OnError errorCode p, [])) s1
                     else Inr (s1, []))
              (\<lambda>(s2, outs). Inr (MainWindow_OnDisconnect s2, outs))) s)"

text \<open>
  The assignment \<open>spClientConnection = it->second\<close> goes through a temporary and adds no
  reference of its own, so the release at the end of the block gives back the table's.
\<close>

definition conn_eventcb :: "nat \<Rightarrow> nat \<Rightarrow> remote_server \<Rightarrow> server_result" where
  "conn_eventcb bev events s =
     (if events AND BEV_EVENT_EOF = 0 \<and> events AND BEV_EVENT_ERROR = 0 then Inr (s, [])
      else
        let client = map_find bev (rs_clients s);
            s1 = s\<lparr>rs_clients := map_erase bev (rs_clients s)\<rparr> in
        rd_bind (srv_OnClientDisconnected client (of_nat events) s1) (\<lambda>(s2, outs).
        rd_bind (case client of None \<Rightarrow> Inr s2 | Some q \<Rightarrow> Release q s2) (\<lambda>s3.
        Inr (s3\<lparr>rs_live := removeAll bev (rs_live s3)\<rparr>, outs))))"

text \<open>\<open>CRemoteServer::Stop\<close>: the clients are stopped and released, their bufferevents stay.\<close>

fun stop_all :: "env \<Rightarrow> nat list \<Rightarrow> remote_server \<Rightarrow> server_result" where
  "stop_all e [] s = Inr (s, [])"
| "stop_all e (q # qs) s =
     rd_bind (conn_call q (\<lambda>p. Inr (conn_Stop e RDEC_SUCCEEDED p)) s) (\<lambda>(s1, o1).
     rd_bind (Release q s1) (\<lambda>s2.
     rd_bind (stop_all e qs s2) (\<lambda>(s3, o2). Inr (s3, o1 @ o2))))"

definition srv_Stop :: "env \<Rightarrow> remote_server \<Rightarrow> server_result" where
  "srv_Stop e s =
     rd_bind (stop_all e (map snd (rs_clients s)) s) (\<lambda>(s1, outs). Inr (s1\<lparr>rs_clients := []\<rparr>, outs))"

section \<open>The screen\<close>

text \<open>A call on every client, in the order of the table.\<close>

fun call_all :: "(client_conn \<Rightarrow> conn_result) \<Rightarrow> nat list \<Rightarrow> remote_server \<Rightarrow> server_result" where
  "call_all f [] s = Inr (s, [])"
| "call_all f (q # qs) s =
     rd_bind (conn_call q f s) (\<lambda>(s1, o1).
     rd_bind (call_all f qs s1) (\<lambda>(s2, o2). Inr (s2, o1 @ o2)))"

definition srv_OnScreenFirstBitmap :: "env \<Rightarrow> remote_server \<Rightarrow> server_result" where
  "srv_OnScreenFirstBitmap e s =
     call_all (\<lambda>p. rd_bind (OnScreenFirstBitmap e (rs_screen s) p) (\<lambda>p1. Inr (p1, []))) (map snd (rs_clients s)) s"

definition srv_OnScreenModified :: "env \<Rightarrow> nat list \<Rightarrow> remote_server \<Rightarrow> server_result" where
  "srv_OnScreenModified e blocks s =
     call_all (\<lambda>p. rd_bind (OnScreenModified e (rs_screen s) blocks p) (\<lambda>p1. Inr (p1, []))) (map snd (rs_clients s)) s"

text \<open>
  One tick of the capture timer.  The first picture is announced with \<open>SendMessage\<close>, the
  modified blocks with \<open>PostMessage\<close>: they are handled later, by \<open>srv_OnModified\<close>.
\<close>

definition srv_capture :: "env \<Rightarrow> (bitmap_info \<times> byte list) option \<Rightarrow> remote_server \<Rightarrow> server_result" where
  "srv_capture e grab s =
     (case CaptureDesktop grab (rs_screen s) of
        None \<Rightarrow> Inl MemFault
      | Some (scr, msg) \<Rightarrow>
          let s1 = s\<lparr>rs_screen := scr\<rparr> in
          (case msg of
             NoMsg \<Rightarrow> Inr (s1, [])
           | ScreenModified n blocks \<Rightarrow> Inr (s1\<lparr>rs_posted := rs_posted s1 @ [blocks]\<rparr>, [])
           | ScreenFirstBitmap \<Rightarrow>
               if \<not> HasClientConnected s1 then Inr (s1, []) else srv_OnScreenFirstBitmap e s1))"

definition srv_OnModified :: "env \<Rightarrow> remote_server \<Rightarrow> server_result" where
  "srv_OnModified e s =
     (case rs_posted s of
        [] \<Rightarrow> Inr (s, [])
      | blocks # rest \<Rightarrow>
          let s1 = s\<lparr>rs_posted := rest\<rparr> in
          if \<not> HasClientConnected s1 then Inr (s1, []) else srv_OnScreenModified e blocks s1)"

text \<open>The send event of a connection fires.\<close>

definition srv_drain :: "env \<Rightarrow> nat \<Rightarrow> remote_server \<Rightarrow> server_result" where
  "srv_drain e q = conn_call q (\<lambda>p. Inr (OnAsynSendCommand e p))"

section \<open>What the operations keep\<close>

definition same_link :: "client_conn \<Rightarrow> client_conn \<Rightarrow> bool" where
  "same_link p p' \<longleftrightarrow> cs_ip p' = cs_ip p \<and> cs_port p' = cs_port p \<and> cs_bufferev p' = cs_bufferev p"

lemma same_link_refl [simp]: "same_link p p"
  by (simp add: same_link_def)

lemma same_link_trans: "same_link p q \<Longrightarrow> same_link q r \<Longrightarrow> same_link p r"
  by (simp add: same_link_def)

lemma same_link_upd [simp]:
  "same_link (p\<lparr>cs_state := x\<rparr>) q = same_link p q" "same_link (p\<lparr>cs_suffix := y\<rparr>) q = same_link p q"
  "same_link q (p\<lparr>cs_state := x\<rparr>) = same_link q p" "same_link q (p\<lparr>cs_client_version := y\<rparr>) = same_link q p"
  "same_link q (p\<lparr>cs_compress := z\<rparr>) = same_link q p" "same_link q (p\<lparr>cs_ready := b\<rparr>) = same_link q p"
  "same_link q (p\<lparr>cs_file_dlg := b\<rparr>) = same_link q p" "same_link q (p\<lparr>cs_queue := cq\<rparr>) = same_link q p"
  "same_link (p\<lparr>cs_ready := b\<rparr>) q = same_link p q" "same_link q (p\<lparr>cs_modified := m\<rparr>) = same_link q p"
  "same_link q (p\<lparr>cs_modified_count := n\<rparr>) = same_link q p"
  by (simp_all add: same_link_def)

lemma AsynSend_link: "AsynSend c p = Inr (r, p') \<Longrightarrow> same_link p p'"
  by (auto elim: AsynSend_cases simp: same_link_def)

lemma AsynSendTransferBitmap_link: "AsynSendTransferBitmap e scr p = Inr (r, p') \<Longrightarrow> same_link p p'"
  by (auto simp: AsynSendTransferBitmap_def Let_def rd_bind_Inr same_link_def
      dest!: AsynSend_link split: if_split_asm option.split_asm)

lemma AsynSendTransterModifyBitmap_link: "AsynSendTransterModifyBitmap e scr p = Inr (r, p') \<Longrightarrow> same_link p p'"
  by (auto dest!: AsynSendTransterModifyBitmap_inv AsynSend_link simp: same_link_def)

lemma add_modified_link: "add_modified blocks p = Inr p' \<Longrightarrow> same_link p p'"
  by (auto simp: add_modified_def Let_def same_link_def split: if_split_asm option.split_asm)

lemma OnReciveCommand_link:
  assumes "OnReciveCommand e scr c p = Inr (p', outs)"
  shows "same_link p p'"
  using assms
proof (cases rule: OnReciveCommand_cases)
  case ignored
  then show ?thesis by (simp add: same_link_def)
next
  case (handled ev)
  note h = handled(3)
  show ?thesis
  proof (cases ev)
    case (OnGetTransferClipboardEvent f d n)
    then have "p' = p"
      using h by (auto simp: server_handle_def conn_OnGetTransferClipboardEvent_def Let_def
          split: if_split_asm option.split_asm)
    then show ?thesis by simp
  qed (use h in \<open>auto simp: server_handle_def handler_defs Let_def rd_bind_Inr
        dest!: AsynSend_link AsynSendTransferBitmap_link split: if_split_asm option.split_asm\<close>)
qed

lemma OnScreenModified_link:
  assumes "OnScreenModified e scr blocks p = Inr p'"
  shows "same_link p p'"
proof (cases "blocks = []")
  case True
  then show ?thesis using assms by (simp add: OnScreenModified_def)
next
  case False
  then obtain p1 where p1: "add_modified blocks p = Inr p1"
    using assms by (auto simp: OnScreenModified_def rd_bind_Inr)
  note l1 = add_modified_link [OF p1]
  show ?thesis
  proof (cases "cs_ready p1")
    case False
    then show ?thesis using assms p1 \<open>blocks \<noteq> []\<close> l1 by (simp add: OnScreenModified_def)
  next
    case True
    then obtain r p2 where p2: "AsynSendTransterModifyBitmap e scr (p1\<lparr>cs_ready := False\<rparr>) = Inr (r, p2)"
      using assms p1 \<open>blocks \<noteq> []\<close> by (auto simp: OnScreenModified_def rd_bind_Inr)
    have "same_link p p2" using same_link_trans [OF l1] AsynSendTransterModifyBitmap_link [OF p2] by simp
    then have "same_link p (p2\<lparr>cs_ready := True\<rparr>)"
        "same_link p (p2\<lparr>cs_modified_count := 0, cs_modified := m\<rparr>)" for m by simp_all
    then show ?thesis
      using assms p1 p2 True \<open>blocks \<noteq> []\<close>
      by (auto simp: OnScreenModified_def Let_def split: if_split_asm option.split_asm)
  qed
qed

lemma OnScreenFirstBitmap_link: "OnScreenFirstBitmap e scr p = Inr p' \<Longrightarrow> same_link p p'"
  by (auto simp: OnScreenFirstBitmap_def rd_bind_Inr dest: AsynSendTransferBitmap_link)

lemmas link_lemmas = OnReciveCommand_link OnScreenModified_link OnScreenFirstBitmap_link

section \<open>The invariant\<close>

text \<open>
  \<open>stk q\<close> counts the references to \<open>q\<close> held on the stack.  The table is ordered, has no object
  and no peer twice, and names live bufferevents of live objects; an object's count is the
  table's reference, the stack's and its event's, and is never 0.
\<close>

definition in_table :: "nat \<Rightarrow> remote_server \<Rightarrow> bool" where
  "in_table q s \<longleftrightarrow> q \<in> snd ` set (rs_clients s)"

definition peer_of :: "remote_server \<Rightarrow> nat \<Rightarrow> (string \<times> u16) option" where
  "peer_of s q = map_option (\<lambda>ob. (cs_ip (ob_conn ob), cs_port (ob_conn ob))) (rs_heap s q)"

definition obj_ok :: "nat \<Rightarrow> bool \<Rightarrow> server_obj \<Rightarrow> bool" where
  "obj_ok k tabled ob \<longleftrightarrow>
     conn_inv (ob_conn ob) \<and> ob_refs ob = int k + of_bool tabled \<and> 0 < ob_refs ob + cs_ref (ob_conn ob)"

definition srv_inv :: "(nat \<Rightarrow> nat) \<Rightarrow> remote_server \<Rightarrow> bool" where
  "srv_inv stk s \<longleftrightarrow>
     map_ok (rs_clients s) \<and> distinct (map snd (rs_clients s)) \<and> fst ` set (rs_clients s) \<subseteq> set (rs_live s)
     \<and> (\<forall>(b, q) \<in> set (rs_clients s). \<exists>ob. rs_heap s q = Some ob \<and> cs_bufferev (ob_conn ob) = Some b)
     \<and> (\<forall>q ob. rs_heap s q = Some ob \<longrightarrow> obj_ok (stk q) (in_table q s) ob)
     \<and> (\<forall>q. 0 < stk q \<longrightarrow> rs_heap s q \<noteq> None)
     \<and> inj_on (peer_of s) (snd ` set (rs_clients s))"

lemma srv_invD:
  assumes "srv_inv stk s"
  shows "map_ok (rs_clients s)" "distinct (map snd (rs_clients s))"
    "rs_heap s q = Some ob \<Longrightarrow> obj_ok (stk q) (in_table q s) ob"
    "0 < stk q \<Longrightarrow> rs_heap s q \<noteq> None"
    "(b, q) \<in> set (rs_clients s) \<Longrightarrow> \<exists>ob. rs_heap s q = Some ob \<and> cs_bufferev (ob_conn ob) = Some b"
    "fst ` set (rs_clients s) \<subseteq> set (rs_live s)"
  using assms by (auto simp: srv_inv_def)

lemma srv_invI:
  assumes "map_ok (rs_clients s)" and "distinct (map snd (rs_clients s))"
    and "fst ` set (rs_clients s) \<subseteq> set (rs_live s)"
    and "\<And>b q. (b, q) \<in> set (rs_clients s) \<Longrightarrow> \<exists>ob. rs_heap s q = Some ob \<and> cs_bufferev (ob_conn ob) = Some b"
    and "\<And>q ob. rs_heap s q = Some ob \<Longrightarrow> obj_ok (stk q) (in_table q s) ob"
    and "\<And>q. 0 < stk q \<Longrightarrow> rs_heap s q \<noteq> None"
    and "inj_on (peer_of s) (snd ` set (rs_clients s))"
  shows "srv_inv stk s"
  using assms unfolding srv_inv_def by blast

lemma peer_of_store:
  assumes "rs_heap s q = Some ob" and "ob_refs ob' + cs_ref (ob_conn ob') \<noteq> 0"
    and "cs_ip (ob_conn ob') = cs_ip (ob_conn ob)" and "cs_port (ob_conn ob') = cs_port (ob_conn ob)"
  shows "peer_of (store_obj q ob' s) = peer_of s"
  using assms by (auto simp: peer_of_def store_obj_def fun_eq_iff)

text \<open>Changing what a live object holds, and the references the stack has to it.\<close>

lemma store_inv:
  assumes "srv_inv stk s" and "rs_heap s q = Some ob"
    and "conn_inv (ob_conn ob')" and "ob_refs ob' = int k + of_bool (in_table q s)"
    and "cs_ip (ob_conn ob') = cs_ip (ob_conn ob)" and "cs_port (ob_conn ob') = cs_port (ob_conn ob)"
    and "in_table q s \<Longrightarrow> cs_bufferev (ob_conn ob') = cs_bufferev (ob_conn ob)"
  shows "srv_inv (stk(q := k)) (store_obj q ob' s)"
proof -
  let ?s = "store_obj q ob' s"
  have ref: "0 \<le> cs_ref (ob_conn ob')" using assms(3) by (simp add: conn_inv_def)
  have same: "rs_clients ?s = rs_clients s" "rs_live ?s = rs_live s" "in_table q' ?s = in_table q' s" for q'
    by (simp_all add: store_obj_def in_table_def)
  show ?thesis
  proof (cases "ob_refs ob' + cs_ref (ob_conn ob') = 0")
    case True
    then have "int k + of_bool (in_table q s) = 0" using assms(4) ref by (cases "in_table q s") simp_all
    then have k: "k = 0" and t: "\<not> in_table q s" by (cases "in_table q s"; simp)+
    have h: "rs_heap ?s = (rs_heap s)(q := None)" using True by (simp add: store_obj_def)
    have "inj_on (peer_of ?s) (snd ` set (rs_clients s)) = inj_on (peer_of s) (snd ` set (rs_clients s))"
      by (rule inj_on_cong) (use t in \<open>auto simp: peer_of_def h in_table_def\<close>)
    moreover have "\<exists>ob. rs_heap ?s q' = Some ob \<and> cs_bufferev (ob_conn ob) = Some b"
      if "(b, q') \<in> set (rs_clients s)" for b q'
    proof -
      have "q' \<noteq> q" using t that by (force simp: in_table_def)
      then show ?thesis using srv_invD(5) [OF assms(1) that] by (simp add: h)
    qed
    moreover have "obj_ok ((stk(q := k)) q') (in_table q' ?s) ob1" if "rs_heap ?s q' = Some ob1" for q' ob1
      using that srv_invD(3) [OF assms(1)] by (simp add: h same split: if_split_asm)
    moreover have "0 < (stk(q := k)) q' \<Longrightarrow> rs_heap ?s q' \<noteq> None" for q'
      using k srv_invD(4) [OF assms(1)] by (simp add: h split: if_split_asm)
    moreover have "inj_on (peer_of s) (snd ` set (rs_clients s))" "fst ` set (rs_clients s) \<subseteq> set (rs_live s)"
      using assms(1) by (simp_all add: srv_inv_def)
    ultimately show ?thesis
      using srv_invD(1,2) [OF assms(1)] by (intro srv_invI; unfold same; blast)
  next
    case False
    then have h: "rs_heap ?s = (rs_heap s)(q \<mapsto> ob')" by (simp add: store_obj_def)
    have "obj_ok k (in_table q s) ob'" using assms(3,4) False ref by (auto simp: obj_ok_def)
    moreover have "peer_of ?s = peer_of s" using peer_of_store assms(2,5,6) False by simp
    moreover have "\<forall>(b, q') \<in> set (rs_clients s). \<exists>ob. rs_heap ?s q' = Some ob \<and> cs_bufferev (ob_conn ob) = Some b"
    proof clarify
      fix b q' assume m: "(b, q') \<in> set (rs_clients s)"
      show "\<exists>ob. rs_heap ?s q' = Some ob \<and> cs_bufferev (ob_conn ob) = Some b"
      proof (cases "q' = q")
        case True
        then have "in_table q s" using m by (force simp: in_table_def)
        then show ?thesis using True m assms(2,7) srv_invD(5) [OF assms(1) m] by (simp add: h)
      next
        case False
        then show ?thesis using srv_invD(5) [OF assms(1) m] by (simp add: h)
      qed
    qed
    moreover have "\<forall>q' ob1. rs_heap ?s q' = Some ob1 \<longrightarrow> obj_ok ((stk(q := k)) q') (in_table q' ?s) ob1"
      using \<open>obj_ok k (in_table q s) ob'\<close> srv_invD(3) [OF assms(1)] by (simp add: h same)
    moreover have "\<forall>q'. 0 < (stk(q := k)) q' \<longrightarrow> rs_heap ?s q' \<noteq> None"
      using srv_invD(4) [OF assms(1)] by (simp add: h)
    ultimately show ?thesis using assms(1) unfolding srv_inv_def same by simp
  qed
qed

lemma store_conn_inv:
  assumes "srv_inv stk s" and "rs_heap s q = Some ob" and "conn_inv p" and "same_link (ob_conn ob) p"
  shows "srv_inv stk (store_obj q (ob\<lparr>ob_conn := p\<rparr>) s)"
  using store_inv [OF assms(1,2), of "ob\<lparr>ob_conn := p\<rparr>" "stk q"] srv_invD(3) [OF assms(1,2)] assms(3,4)
  by (simp add: obj_ok_def same_link_def)

lemma AddRef_inv:
  assumes "srv_inv stk s" and "rs_heap s q \<noteq> None"
  obtains s' where "AddRef q s = Inr s'" "srv_inv (stk(q := Suc (stk q))) s'" "rs_clients s' = rs_clients s"
    "rs_screen s' = rs_screen s"
proof -
  obtain ob where ob: "rs_heap s q = Some ob" using assms(2) by blast
  note i = srv_invD(3) [OF assms(1) ob]
  let ?ob = "ob\<lparr>ob_refs := ob_refs ob + 1\<rparr>"
  have "s\<lparr>rs_heap := (rs_heap s)(q \<mapsto> ?ob)\<rparr> = store_obj q ?ob s"
    using i by (simp add: store_obj_def obj_ok_def)
  moreover have "srv_inv (stk(q := Suc (stk q))) (store_obj q ?ob s)"
    by (rule store_inv [OF assms(1) ob]) (use i in \<open>auto simp: obj_ok_def\<close>)
  ultimately show ?thesis using that [of "store_obj q ?ob s"] ob by (simp add: AddRef_def store_obj_def)
qed

lemma Release_inv:
  assumes "srv_inv stk s" and "0 < stk q"
  obtains s' where "Release q s = Inr s'" "srv_inv (stk(q := stk q - 1)) s'" "rs_clients s' = rs_clients s"
proof -
  obtain ob where ob: "rs_heap s q = Some ob" using srv_invD(4) [OF assms] by blast
  note i = srv_invD(3) [OF assms(1) ob]
  have "srv_inv (stk(q := stk q - 1)) (store_obj q (ob\<lparr>ob_refs := ob_refs ob - 1\<rparr>) s)"
    by (rule store_inv [OF assms(1) ob]) (use i assms(2) in \<open>auto simp: obj_ok_def\<close>)
  then show ?thesis using that ob by (simp add: Release_def store_obj_def)
qed

text \<open>A counted scope keeps the invariant if its body does, and adds no fault of its own.\<close>

lemma holding_inv:
  assumes "srv_inv stk s" and "rs_heap s q \<noteq> None"
    and "\<And>s1 s2 outs. \<lbrakk>srv_inv (stk(q := Suc (stk q))) s1; rs_clients s1 = rs_clients s; body s1 = Inr (s2, outs)\<rbrakk>
      \<Longrightarrow> srv_inv (stk(q := Suc (stk q))) s2"
    and "holding q body s = Inr (s', outs)"
  shows "srv_inv stk s'"
proof -
  obtain s1 where s1: "AddRef q s = Inr s1" "srv_inv (stk(q := Suc (stk q))) s1" "rs_clients s1 = rs_clients s"
    by (rule AddRef_inv [OF assms(1,2)])
  obtain s2 o2 where s2: "body s1 = Inr (s2, o2)" and s3: "Release q s2 = Inr s'"
    using assms(4) s1(1) by (auto simp: holding_def rd_bind_Inr)
  note inv2 = assms(3) [OF s1(2,3) s2]
  obtain s4 where "Release q s2 = Inr s4" "srv_inv ((stk(q := Suc (stk q)))(q := (stk(q := Suc (stk q))) q - 1)) s4"
    by (rule Release_inv [OF inv2, of q]) simp_all
  then show ?thesis using s3 by simp
qed

text \<open>The objects of the table.\<close>

lemma table_obj:
  assumes "srv_inv stk s" and "map_find b (rs_clients s) = Some q"
  obtains ob where "rs_heap s q = Some ob" "cs_bufferev (ob_conn ob) = Some b" "in_table q s"
    "conn_inv (ob_conn ob)" "ob_refs ob = int (stk q) + 1"
proof -
  have m: "(b, q) \<in> set (rs_clients s)"
    using omap.mem_entries [OF srv_invD(1) [OF assms(1)]] assms(2) by simp
  then have t: "in_table q s" by (force simp: in_table_def)
  obtain ob where "rs_heap s q = Some ob" "cs_bufferev (ob_conn ob) = Some b"
    using srv_invD(5) [OF assms(1) m] by blast
  then show ?thesis using that t srv_invD(3) [OF assms(1)] by (fastforce simp: obj_ok_def)
qed

lemma snd_erase:
  assumes "map_ok t" and "distinct (map snd t)" and "map_find b t = Some q"
  shows "snd ` set (map_erase b t) = snd ` set t - {q}" "distinct (map snd (map_erase b t))"
proof -
  have m: "(b, q) \<in> set t" using omap.mem_entries [OF assms(1)] assms(3) by simp
  have e: "set (map_erase b t) = {x \<in> set t. fst x \<noteq> b}" by (rule omap.entries_erase [OF assms(1)])
  have "fst x = b \<longleftrightarrow> snd x = q" if "x \<in> set t" for x
  proof
    assume "fst x = b"
    then have "map_find b t = Some (snd x)"
      using that omap.mem_entries [OF assms(1)] by (metis prod.collapse)
    then show "snd x = q" using assms(3) by simp
  next
    assume "snd x = q"
    then have "x = (b, q)" using that m assms(2) by (metis distinct_map inj_onD snd_conv)
    then show "fst x = b" by simp
  qed
  then show "snd ` set (map_erase b t) = snd ` set t - {q}" by (auto simp: e)
  show "distinct (map snd (map_erase b t))"
    using assms(2) by (simp add: map_erase_def distinct_map_filter)
qed

text \<open>
  Dropping one entry of the table together with its reference: the object lives on for as
  long as the stack holds it.
\<close>

lemma erase_inv:
  assumes "srv_inv stk s" and "map_find b (rs_clients s) = Some q" and "rs_heap s q = Some ob"
    and "conn_inv p" and "cs_send_event p = False"
    and "cs_ip p = cs_ip (ob_conn ob)" and "cs_port p = cs_port (ob_conn ob)"
    and "s' = store_obj q (ob\<lparr>ob_refs := ob_refs ob - 1, ob_conn := p\<rparr>) s\<lparr>rs_live := removeAll b (rs_live s),
           rs_clients := map_erase b (rs_clients s)\<rparr>"
  shows "srv_inv stk s'"
proof -
  note inv = srv_invD [OF assms(1)]
  have ref: "cs_ref p = 0" using assms(4,5) by (simp add: conn_inv_def)
  obtain "cs_bufferev (ob_conn ob) = Some b" "ob_refs ob = int (stk q) + 1"
    using table_obj [OF assms(1,2)] assms(3) by (metis option.inject)
  note refs = this(2)
  have c: "rs_clients s' = map_erase b (rs_clients s)" "rs_live s' = removeAll b (rs_live s)"
    "rs_heap s' = (rs_heap s)(q := if stk q = 0 then None else Some (ob\<lparr>ob_refs := int (stk q), ob_conn := p\<rparr>))"
    using refs ref by (simp_all add: assms(8) store_obj_def)
  note sd = snd_erase [OF inv(1,2) assms(2)]
  have t: "in_table q' s' \<longleftrightarrow> in_table q' s \<and> q' \<noteq> q" for q' by (auto simp: in_table_def c sd)
  have sub: "set (map_erase b (rs_clients s)) = {x \<in> set (rs_clients s). fst x \<noteq> b}"
    by (rule omap.entries_erase [OF inv(1)])
  have other: "q' \<noteq> q" if "(b', q') \<in> set (map_erase b (rs_clients s))" for b' q'
    using that sd(1) by force
  have "peer_of s' q' = peer_of s q'" if "q' \<noteq> q" for q' using that by (simp add: peer_of_def c)
  then have "inj_on (peer_of s') (snd ` set (rs_clients s) - {q}) = inj_on (peer_of s) (snd ` set (rs_clients s) - {q})"
    by (intro inj_on_cong) auto
  then have "inj_on (peer_of s') (snd ` set (rs_clients s'))"
    using assms(1) by (auto simp: c sd srv_inv_def inj_on_diff)
  moreover have "map_ok (rs_clients s')" by (simp add: c omap.ok_erase inv(1))
  moreover have "fst ` set (rs_clients s') \<subseteq> set (rs_live s')"
    using assms(1) by (auto simp: c sub srv_inv_def)
  moreover have "\<exists>ob. rs_heap s' q' = Some ob \<and> cs_bufferev (ob_conn ob) = Some b'"
    if "(b', q') \<in> set (rs_clients s')" for b' q'
    using that other inv(5) [of b' q'] sub by (auto simp: c)
  moreover have "obj_ok (stk q') (in_table q' s') ob1" if "rs_heap s' q' = Some ob1" for q' ob1
    using that inv(3) [of q' ob1] assms(4) ref by (auto simp: c t obj_ok_def split: if_split_asm)
  moreover have "0 < stk q' \<Longrightarrow> rs_heap s' q' \<noteq> None" for q' using inv(4) [of q'] by (auto simp: c)
  ultimately show ?thesis using sd(2) by (intro srv_invI; unfold c(1); blast)
qed

section \<open>One client's callbacks\<close>

text \<open>
  \<open>linked b q s\<close>: the live object \<open>q\<close> is either cut off or the one the table has for its
  bufferevent \<open>b\<close>.  \<open>only b q s s'\<close>: nothing else was touched.
\<close>

definition linked :: "nat \<Rightarrow> nat \<Rightarrow> remote_server \<Rightarrow> bool" where
  "linked b q s \<longleftrightarrow>
     (\<exists>ob. rs_heap s q = Some ob
         \<and> (cs_bufferev (ob_conn ob) = None \<or> cs_bufferev (ob_conn ob) = Some b \<and> map_find b (rs_clients s) = Some q))"

definition only :: "nat \<Rightarrow> nat \<Rightarrow> remote_server \<Rightarrow> remote_server \<Rightarrow> bool" where
  "only b q s s' \<longleftrightarrow>
     (\<forall>q'. q' \<noteq> q \<longrightarrow> rs_heap s' q' = rs_heap s q')
     \<and> (\<forall>b'. b' \<noteq> b \<longrightarrow> map_find b' (rs_clients s') = map_find b' (rs_clients s))
     \<and> rs_screen s' = rs_screen s"

lemma only_refl [simp]: "only b q s s"
  by (simp add: only_def)

lemma only_trans [trans]: "only b q s1 s2 \<Longrightarrow> only b q s2 s3 \<Longrightarrow> only b q s1 s3"
  by (simp add: only_def)

lemma AddRef_only:
  assumes "AddRef q s = Inr s'"
  shows "only b q s s'" "linked b q s' = linked b q s"
  using assms by (auto simp: AddRef_def only_def linked_def split: option.splits)

lemma Release_only:
  assumes "Release q s = Inr s'"
  shows "only b q s s'" "linked b q s \<Longrightarrow> rs_heap s' q \<noteq> None \<Longrightarrow> linked b q s'"
  using assms by (auto simp: Release_def store_obj_def only_def linked_def split: option.splits if_splits)

lemma store_conn_only:
  assumes "rs_heap s q = Some ob" and "same_link (ob_conn ob) p"
  shows "only b q s (store_obj q (ob\<lparr>ob_conn := p\<rparr>) s)"
    "linked b q s \<Longrightarrow> ob_refs ob + cs_ref p \<noteq> 0 \<Longrightarrow> linked b q (store_obj q (ob\<lparr>ob_conn := p\<rparr>) s)"
  using assms by (auto simp: store_obj_def only_def linked_def same_link_def)

lemma conn_Stop_inv: "conn_inv p \<Longrightarrow> conn_inv (fst (conn_Stop e code p))"
  by (rule conn_step_inv [OF conn_step.stop])

lemma conn_Stop_sel:
  "cs_send_event (fst (conn_Stop e code p)) = False" "cs_ip (fst (conn_Stop e code p)) = cs_ip p"
  "cs_port (fst (conn_Stop e code p)) = cs_port p" "cs_bufferev (fst (conn_Stop e code p)) = None"
  by (simp_all add: conn_Stop_def drop_send_event_def Let_def)

text \<open>Stopping and releasing the object an entry names: what every stop does to the heap.\<close>

lemma stop_release:
  assumes "srv_inv stk s" and "map_find b (rs_clients s) = Some q" and "rs_heap s q = Some ob"
  obtains s1 outs where "conn_call q (\<lambda>p. Inr (conn_Stop e code p)) s = Inr (s1, outs)"
    "Release q s1 = Inr (store_obj q (ob\<lparr>ob_refs := ob_refs ob - 1, ob_conn := fst (conn_Stop e code (ob_conn ob))\<rparr>) s)"
proof -
  let ?p = "fst (conn_Stop e code (ob_conn ob))"
  have inv: "conn_inv (ob_conn ob)" and refs: "ob_refs ob = int (stk q) + 1"
    using table_obj [OF assms(1,2)] assms(3) by (metis option.inject)+
  have "cs_ref ?p = 0" using conn_Stop_inv [OF inv] conn_Stop_sel(1) by (simp add: conn_inv_def)
  then have "conn_call q (\<lambda>p. Inr (conn_Stop e code p)) s
      = Inr (s\<lparr>rs_heap := (rs_heap s)(q \<mapsto> ob\<lparr>ob_conn := ?p\<rparr>)\<rparr>, map (Pair q) (snd (conn_Stop e code (ob_conn ob))))"
    using refs by (simp add: conn_call_def assms(3) case_prod_beta store_obj_def)
  moreover have "Release q (s\<lparr>rs_heap := (rs_heap s)(q \<mapsto> ob\<lparr>ob_conn := ?p\<rparr>)\<rparr>)
      = Inr (store_obj q (ob\<lparr>ob_refs := ob_refs ob - 1, ob_conn := ?p\<rparr>) s)"
    by (cases ob) (simp add: Release_def store_obj_def)
  ultimately show ?thesis by (rule that)
qed

lemma StopClient_ok:
  assumes "srv_inv stk s" and "linked b q s" and "0 < stk q"
  obtains s' outs where "StopClient e q code s = Inr (s', outs)" "srv_inv stk s'" "linked b q s'" "only b q s s'"
proof -
  obtain ob where ob: "rs_heap s q = Some ob"
    and l: "cs_bufferev (ob_conn ob) = None \<or> cs_bufferev (ob_conn ob) = Some b \<and> map_find b (rs_clients s) = Some q"
    using assms(2) by (auto simp: linked_def)
  from l show ?thesis
  proof
    assume "cs_bufferev (ob_conn ob) = None"
    then show ?thesis using that [of s "[]"] assms(1,2) ob by (simp add: StopClient_def)
  next
    assume b: "cs_bufferev (ob_conn ob) = Some b \<and> map_find b (rs_clients s) = Some q"
    let ?p = "fst (conn_Stop e code (ob_conn ob))"
    let ?s2 = "store_obj q (ob\<lparr>ob_refs := ob_refs ob - 1, ob_conn := ?p\<rparr>) s"
    let ?s' = "?s2\<lparr>rs_live := removeAll b (rs_live s), rs_clients := map_erase b (rs_clients s)\<rparr>"
    have inv: "conn_inv (ob_conn ob)" "ob_refs ob = int (stk q) + 1"
      using table_obj [OF assms(1)] b ob by (metis option.inject)+
    obtain s1 outs where "conn_call q (\<lambda>p. Inr (conn_Stop e code p)) s = Inr (s1, outs)" "Release q s1 = Inr ?s2"
      using stop_release [OF assms(1) _ ob] b by blast
    then have r: "StopClient e q code s = Inr (?s', outs)"
      using ob b by (simp add: StopClient_def store_obj_def)
    have "srv_inv stk ?s'"
      by (rule erase_inv [OF assms(1) conjunct2 [OF b] ob]) (simp_all add: conn_Stop_inv inv(1) conn_Stop_sel)
    moreover have "linked b q ?s'" "only b q s ?s'"
      using assms(3) inv conn_Stop_sel conn_Stop_inv [OF inv(1), of e code]
      by (simp_all add: linked_def only_def store_obj_def conn_inv_def map_find_def map_of_erase)
    ultimately show ?thesis using that r by blast
  qed
qed

lemma run_outs_ok:
  assumes "srv_inv stk s" and "linked b q s" and "0 < stk q"
  shows "\<exists>s' os. run_outs e q outs s = Inr (s', os) \<and> srv_inv stk s' \<and> linked b q s' \<and> only b q s s'"
  using assms
proof (induction outs arbitrary: s)
  case Nil
  then show ?case by simp
next
  case (Cons out outs)
  show ?case
  proof (cases "\<exists>code extra. out = AskDisconnect code extra")
    case True
    then obtain code extra where out: "out = AskDisconnect code extra" by blast
    obtain s1 o1 where s1: "StopClient e q code s = Inr (s1, o1)" "srv_inv stk s1" "linked b q s1" "only b q s s1"
      by (rule StopClient_ok [OF Cons.prems])
    obtain s' os where "run_outs e q outs s1 = Inr (s', os)" "srv_inv stk s'" "linked b q s'" "only b q s1 s'"
      using Cons.IH [OF s1(2,3) Cons.prems(3)] by blast
    then show ?thesis using s1 out by (auto intro: only_trans)
  next
    case False
    obtain s' os where "run_outs e q outs s = Inr (s', os)" "srv_inv stk s'" "linked b q s'" "only b q s s'"
      using Cons.IH [OF Cons.prems] by blast
    moreover have "run_outs e q (out # outs) s = rd_bind (run_outs e q outs s) (\<lambda>(s2, o2). Inr (s2, (q, out) # o2))"
      using False by (cases out) simp_all
    ultimately show ?thesis by auto
  qed
qed

text \<open>A counted scope around a body that keeps to the client.\<close>

lemma holding_ok:
  assumes "srv_inv stk s" and "linked b q s"
    and "\<And>s1 s2 outs. \<lbrakk>srv_inv (stk(q := Suc (stk q))) s1; linked b q s1; rs_clients s1 = rs_clients s;
        body s1 = Inr (s2, outs)\<rbrakk>
      \<Longrightarrow> srv_inv (stk(q := Suc (stk q))) s2 \<and> linked b q s2 \<and> only b q s1 s2"
    and "holding q body s = Inr (s', outs)"
  shows "srv_inv stk s' \<and> only b q s s' \<and> (0 < stk q \<longrightarrow> linked b q s')"
proof -
  have live: "rs_heap s q \<noteq> None" using assms(2) by (auto simp: linked_def)
  obtain s1 where s1: "AddRef q s = Inr s1" "srv_inv (stk(q := Suc (stk q))) s1" "rs_clients s1 = rs_clients s"
    by (rule AddRef_inv [OF assms(1) live])
  note a = AddRef_only [OF s1(1), of b]
  obtain s2 o2 where s2: "body s1 = Inr (s2, o2)" and r: "Release q s2 = Inr s'"
    using assms(4) s1(1) by (auto simp: holding_def rd_bind_Inr)
  have b: "srv_inv (stk(q := Suc (stk q))) s2" "linked b q s2" "only b q s1 s2"
    using assms(3) [OF s1(2) _ s1(3) s2] a(2) assms(2) by simp_all
  obtain s4 where "Release q s2 = Inr s4" "srv_inv ((stk(q := Suc (stk q)))(q := (stk(q := Suc (stk q))) q - 1)) s4"
    by (rule Release_inv [OF b(1), of q]) simp_all
  then have i: "srv_inv stk s'" using r by simp
  note rel = Release_only [OF r, of b]
  have "only b q s s'" using a(1) b(3) rel(1) by (blast intro: only_trans)
  moreover have "0 < stk q \<Longrightarrow> linked b q s'" using rel(2) [OF b(2)] srv_invD(4) [OF i] by blast
  ultimately show ?thesis using i by blast
qed

lemma srv_OnReciveCommand_ok:
  assumes "srv_inv stk s" and "linked b q s" and "0 < stk q"
    and "srv_OnReciveCommand e q c s = Inr (s', outs)"
  shows "srv_inv stk s' \<and> only b q s s' \<and> linked b q s'"
proof -
  have "srv_inv stk s' \<and> only b q s s' \<and> (0 < stk q \<longrightarrow> linked b q s')"
  proof (rule holding_ok [OF assms(1,2) _ assms(4) [unfolded srv_OnReciveCommand_def]])
    fix s1 s2 os
    let ?stk = "stk(q := Suc (stk q))"
    assume s1: "srv_inv ?stk s1" "linked b q s1"
      and r: "(case rs_heap s1 q of None \<Rightarrow> Inl MemFault
         | Some ob \<Rightarrow> rd_bind (OnReciveCommand e (rs_screen s1) c (ob_conn ob)) (\<lambda>(p, outs).
             run_outs e q outs (store_obj q (ob\<lparr>ob_conn := p\<rparr>) s1))) = Inr (s2, os)"
    obtain ob p o1 where ob: "rs_heap s1 q = Some ob"
      and p: "OnReciveCommand e (rs_screen s1) c (ob_conn ob) = Inr (p, o1)"
      and r2: "run_outs e q o1 (store_obj q (ob\<lparr>ob_conn := p\<rparr>) s1) = Inr (s2, os)"
      using r by (auto simp: rd_bind_Inr split: option.splits)
    note okob = srv_invD(3) [OF s1(1) ob]
    have ci: "conn_inv p" using conn_step_inv [OF conn_step.recv [OF p]] okob by (simp add: obj_ok_def)
    note lk = OnReciveCommand_link [OF p]
    have refs: "ob_refs ob + cs_ref p \<noteq> 0" using okob ci by (auto simp: obj_ok_def conn_inv_def)
    note so = store_conn_only [OF ob lk, of b]
    obtain s3 o3 where "run_outs e q o1 (store_obj q (ob\<lparr>ob_conn := p\<rparr>) s1) = Inr (s3, o3)" "srv_inv ?stk s3"
      "linked b q s3" "only b q (store_obj q (ob\<lparr>ob_conn := p\<rparr>) s1) s3"
      using run_outs_ok [OF store_conn_inv [OF s1(1) ob ci lk] so(2) [OF s1(2) refs], of e o1] by auto
    then show "srv_inv ?stk s2 \<and> linked b q s2 \<and> only b q s1 s2" using r2 so(1) by (auto intro: only_trans)
  qed
  then show ?thesis using assms(3) by blast
qed

lemma srv_receive_ok:
  assumes "srv_inv stk s" and "linked b q s" and "0 < stk q" and "srv_receive e q cs s = Inr (s', outs)"
  shows "srv_inv stk s' \<and> only b q s s' \<and> linked b q s'"
  using assms
proof (induction cs arbitrary: s outs)
  case Nil
  then show ?case by simp
next
  case (Cons c cs)
  obtain s1 o1 o2 where 1: "srv_OnReciveCommand e q c s = Inr (s1, o1)" and 2: "srv_receive e q cs s1 = Inr (s', o2)"
    using Cons.prems(4) by (auto simp: rd_bind_Inr)
  note ok = srv_OnReciveCommand_ok [OF Cons.prems(1-3) 1]
  show ?case using Cons.IH [of s1 o2] ok Cons.prems(3) 2 by (blast intro: only_trans)
qed

lemma peer_of_command [simp]: "peer_of (s\<lparr>rs_command := c\<rparr>) = peer_of s"
  by (simp add: peer_of_def fun_eq_iff)

lemma srv_inv_command [simp]: "srv_inv stk (s\<lparr>rs_command := c\<rparr>) = srv_inv stk s"
  by (simp add: srv_inv_def in_table_def)

lemma conn_readcb_ok:
  assumes "srv_inv stk s" and "conn_readcb e b buf s = Inr (s', outs)"
  shows "srv_inv stk s'" "map_find b (rs_clients s) = Some q \<Longrightarrow> only b q s s'"
    "map_find b (rs_clients s) = None \<Longrightarrow> s' = s"
proof -
  have "srv_inv stk s' \<and> only b q s s'" if f: "map_find b (rs_clients s) = Some q" for q
  proof -
    have l: "linked b q s" using table_obj [OF assms(1) f] f by (metis linked_def)
    have r: "holding q (\<lambda>s1. if buf = [] then Inr (s1, []) else
        case DecodeBuffer (env_alloc e) (rs_command s1) buf of (cmds, cmd) \<Rightarrow>
          rd_bind (srv_receive e q cmds s1) (\<lambda>(s2, outs). Inr (s2\<lparr>rs_command := cmd\<rparr>, outs))) s = Inr (s', outs)"
      using assms(2) f by (simp add: conn_readcb_def)
    have "srv_inv stk s' \<and> only b q s s' \<and> (0 < stk q \<longrightarrow> linked b q s')"
    proof (rule holding_ok [OF assms(1) l _ r])
      fix s1 s2 os
      let ?stk = "stk(q := Suc (stk q))"
      assume i: "srv_inv ?stk s1" "linked b q s1"
        and r: "(if buf = [] then Inr (s1, []) else
          case DecodeBuffer (env_alloc e) (rs_command s1) buf of (cmds, cmd) \<Rightarrow>
          rd_bind (srv_receive e q cmds s1) (\<lambda>(s2, outs). Inr (s2\<lparr>rs_command := cmd\<rparr>, outs))) = Inr (s2, os)"
      show "srv_inv ?stk s2 \<and> linked b q s2 \<and> only b q s1 s2"
      proof (cases "buf = []")
        case True
        then show ?thesis using r i by simp
      next
        case False
        obtain cmds cmd where d: "DecodeBuffer (env_alloc e) (rs_command s1) buf = (cmds, cmd)" by fastforce
        obtain s3 where "srv_receive e q cmds s1 = Inr (s3, os)" and s2: "s2 = s3\<lparr>rs_command := cmd\<rparr>"
          using r False d by (auto simp: rd_bind_Inr)
        then show ?thesis using srv_receive_ok [OF i, of e cmds s3 os] by (simp add: linked_def only_def)
      qed
    qed
    then show ?thesis by blast
  qed
  then show "srv_inv stk s'" "map_find b (rs_clients s) = Some q \<Longrightarrow> only b q s s'"
    "map_find b (rs_clients s) = None \<Longrightarrow> s' = s"
    using assms by (cases "map_find b (rs_clients s)"; auto simp: conn_readcb_def)+
qed

section \<open>Entering and leaving the table\<close>

text \<open>Taking an entry out of the table turns the table's reference into one of the stack.\<close>

lemma unlink_inv:
  assumes "srv_inv stk s" and "map_find b (rs_clients s) = Some q"
  shows "srv_inv (stk(q := Suc (stk q))) (s\<lparr>rs_clients := map_erase b (rs_clients s)\<rparr>)"
proof -
  note inv = srv_invD [OF assms(1)]
  let ?s' = "s\<lparr>rs_clients := map_erase b (rs_clients s)\<rparr>"
  note sd = snd_erase [OF inv(1,2) assms(2)]
  have sub: "set (map_erase b (rs_clients s)) \<subseteq> set (rs_clients s)" by (rule map_erase_subset)
  have "q' \<in> snd ` set (rs_clients ?s') \<longleftrightarrow> in_table q' s \<and> q' \<noteq> q" for q' using sd by (auto simp: in_table_def)
  then have t: "in_table q' ?s' \<longleftrightarrow> in_table q' s \<and> q' \<noteq> q" for q' by (simp add: in_table_def)
  obtain ob where ob: "rs_heap s q = Some ob" "in_table q s" by (rule table_obj [OF assms])
  show ?thesis
  proof (rule srv_invI)
    show "map_ok (rs_clients ?s')" by (simp add: omap.ok_erase inv(1))
    show "distinct (map snd (rs_clients ?s'))" using sd(2) by simp
    show "fst ` set (rs_clients ?s') \<subseteq> set (rs_live ?s')"
      using subset_trans [OF image_mono [OF sub] inv(6)] by simp
    show "\<exists>ob. rs_heap ?s' q' = Some ob \<and> cs_bufferev (ob_conn ob) = Some b'"
      if "(b', q') \<in> set (rs_clients ?s')" for b' q' using that sub inv(5) [of b' q'] by auto
    show "obj_ok ((stk(q := Suc (stk q))) q') (in_table q' ?s') ob1" if "rs_heap ?s' q' = Some ob1" for q' ob1
      using that inv(3) [of q' ob1] ob by (auto simp: t obj_ok_def)
    show "rs_heap ?s' q' \<noteq> None" if "0 < (stk(q := Suc (stk q))) q'" for q'
      using that inv(4) [of q'] ob by (auto split: if_split_asm)
    have "peer_of ?s' = peer_of s" by (simp add: peer_of_def fun_eq_iff)
    then show "inj_on (peer_of ?s') (snd ` set (rs_clients ?s'))"
      using assms(1) by (simp add: sd srv_inv_def inj_on_diff)
  qed
qed

text \<open>Entering a fresh bufferevent and an object whose peer is not there yet.\<close>

lemma link_inv:
  assumes "srv_inv stk s" and "0 < stk q" and "rs_heap s q = Some ob" and "\<not> in_table q s"
    and "cs_bufferev (ob_conn ob) = Some b" and "b \<notin> set (rs_live s)" and "\<not> already_connected (ob_conn ob) s"
  shows "srv_inv (stk(q := stk q - 1)) (s\<lparr>rs_clients := map_put b q (rs_clients s), rs_live := b # rs_live s\<rparr>)"
proof -
  note inv = srv_invD [OF assms(1)]
  let ?s' = "s\<lparr>rs_clients := map_put b q (rs_clients s), rs_live := b # rs_live s\<rparr>"
  have fresh: "b \<notin> fst ` set (rs_clients s)" using assms(1,6) by (auto simp: srv_inv_def)
  have put: "set (map_put b q (rs_clients s)) = insert (b, q) (set (rs_clients s))"
    using omap.entries_put [OF inv(1), of b q] fresh by force
  have t: "in_table q' ?s' \<longleftrightarrow> in_table q' s \<or> q' = q" for q' by (auto simp: in_table_def put)
  show ?thesis
  proof (rule srv_invI)
    show "map_ok (rs_clients ?s')" by (simp add: omap.ok_put inv(1))
    have "map_find b (rs_clients s) = None" using fresh omap.find_None_keys [OF inv(1)] by blast
    then have "length (map_put b q (rs_clients s)) = Suc (length (rs_clients s))"
      using omap.size_put_fresh [OF inv(1)] by blast
    moreover have "card (snd ` set (map_put b q (rs_clients s))) = Suc (length (rs_clients s))"
      using assms(4) inv(2) by (simp add: put in_table_def distinct_card flip: set_map)
    ultimately show "distinct (map snd (rs_clients ?s'))" by (simp add: card_distinct)
    show "fst ` set (rs_clients ?s') \<subseteq> set (rs_live ?s')" using assms(1) by (auto simp: put srv_inv_def)
    show "\<exists>ob. rs_heap ?s' q' = Some ob \<and> cs_bufferev (ob_conn ob) = Some b'"
      if "(b', q') \<in> set (rs_clients ?s')" for b' q'
      using that inv(5) [of b' q'] assms(3,5) by (auto simp: put)
    show "obj_ok ((stk(q := stk q - 1)) q') (in_table q' ?s') ob1" if "rs_heap ?s' q' = Some ob1" for q' ob1
      using that inv(3) [of q' ob1] assms(2-4) by (auto simp: t obj_ok_def)
    show "rs_heap ?s' q' \<noteq> None" if "0 < (stk(q := stk q - 1)) q'" for q'
      using that inv(4) [of q'] assms(3) by (auto split: if_split_asm)
    have p: "peer_of ?s' = peer_of s" by (simp add: peer_of_def fun_eq_iff)
    have "peer_of s q \<notin> peer_of s ` snd ` set (rs_clients s)"
    proof
      assume "peer_of s q \<in> peer_of s ` snd ` set (rs_clients s)"
      then obtain b' q' where m: "(b', q') \<in> set (rs_clients s)" and e: "peer_of s q = peer_of s q'" by auto
      obtain ob' where "rs_heap s q' = Some ob'" using inv(5) [OF m] by blast
      then show False using m e assms(3,7) by (auto simp: already_connected_def peer_of_def same_peer_def)
    qed
    then show "inj_on (peer_of ?s') (snd ` set (rs_clients ?s'))"
      using assms(1) by (auto simp: p put srv_inv_def)
  qed
qed

lemma conn_call_inv:
  assumes "srv_inv stk s" and "conn_call q f s = Inr (s', outs)"
    and "\<And>p p' os. \<lbrakk>conn_inv p; f p = Inr (p', os)\<rbrakk> \<Longrightarrow> conn_inv p' \<and> same_link p p'"
  shows "srv_inv stk s'" "rs_clients s' = rs_clients s"
proof -
  obtain ob p os where ob: "rs_heap s q = Some ob" and p: "f (ob_conn ob) = Inr (p, os)"
    and s': "s' = store_obj q (ob\<lparr>ob_conn := p\<rparr>) s"
    using assms(2) by (auto simp: conn_call_def rd_bind_Inr split: option.splits)
  have "conn_inv (ob_conn ob)" using srv_invD(3) [OF assms(1) ob] by (simp add: obj_ok_def)
  from assms(3) [OF this p] show "srv_inv stk s'" by (simp add: s' store_conn_inv [OF assms(1) ob])
  show "rs_clients s' = rs_clients s" by (simp add: s' store_obj_def)
qed

lemma call_all_inv:
  assumes "srv_inv stk s" and "call_all f qs s = Inr (s', outs)"
    and "\<And>p p' os. \<lbrakk>conn_inv p; f p = Inr (p', os)\<rbrakk> \<Longrightarrow> conn_inv p' \<and> same_link p p'"
  shows "srv_inv stk s'"
  using assms(1,2)
proof (induction qs arbitrary: s outs)
  case (Cons q qs)
  then obtain s1 o1 o2 where c: "conn_call q f s = Inr (s1, o1)" and r: "call_all f qs s1 = Inr (s', o2)"
    by (auto simp: rd_bind_Inr)
  have "srv_inv stk s1" by (rule conn_call_inv(1) [OF Cons.prems(1) c]) (rule assms(3))
  then show ?case using r by (rule Cons.IH)
qed simp

lemma srv_inv_screen [simp]:
  "srv_inv stk (s\<lparr>rs_screen := scr\<rparr>) = srv_inv stk s" "srv_inv stk (s\<lparr>rs_posted := ps\<rparr>) = srv_inv stk s"
proof -
  have "peer_of (s\<lparr>rs_screen := scr\<rparr>) = peer_of s" "peer_of (s\<lparr>rs_posted := ps\<rparr>) = peer_of s"
    by (simp_all add: peer_of_def fun_eq_iff)
  then show "srv_inv stk (s\<lparr>rs_screen := scr\<rparr>) = srv_inv stk s" "srv_inv stk (s\<lparr>rs_posted := ps\<rparr>) = srv_inv stk s"
    by (simp_all add: srv_inv_def in_table_def)
qed

lemma MainWindow_inv [simp]:
  "srv_inv stk (MainWindow_OnConnect s) = srv_inv stk s" "srv_inv stk (MainWindow_OnDisconnect s) = srv_inv stk s"
  by (simp_all add: MainWindow_OnConnect_def MainWindow_OnDisconnect_def)

section \<open>Every callback keeps the invariant\<close>

lemma fresh_conn_inv: "conn_inv (CClientConnection socket_ok ip port bev event_ok)"
  by (simp add: conn_inv_def CClientConnection_def modified_ok_def)

lemma OnConnect_inv: "conn_inv p \<Longrightarrow> cs_state p = RDCS_INVALID \<Longrightarrow> conn_inv (OnConnect p)"
  by (rule conn_step_inv [OF conn_step.connect])

text \<open>\<open>OnConnect\<close> runs on the connection the listener has just made.\<close>

lemma OnClientConnected_inv:
  assumes "srv_inv stk s" and "rs_heap s q = Some ob" and "cs_state (ob_conn ob) = RDCS_INVALID"
    and "srv_OnClientConnected q s = Inr (s', outs)"
  shows "srv_inv stk s'"
proof -
  let ?stk = "stk(q := Suc (stk q))" and ?ob = "ob\<lparr>ob_refs := ob_refs ob + 1\<rparr>"
  let ?s1 = "s\<lparr>rs_heap := (rs_heap s)(q \<mapsto> ?ob)\<rparr>"
  have a: "AddRef q s = Inr ?s1" using assms(2) by (simp add: AddRef_def)
  obtain s0 where "AddRef q s = Inr s0" "srv_inv ?stk s0" using AddRef_inv assms(1,2) by blast
  then have i1: "srv_inv ?stk ?s1" using a by simp
  have ob1: "rs_heap ?s1 q = Some ?ob" by simp
  have "conn_inv (ob_conn ob)" using srv_invD(3) [OF assms(1,2)] by (simp add: obj_ok_def)
  then have c: "conn_inv (OnConnect (ob_conn ?ob))" using OnConnect_inv assms(3) by simp
  have l: "same_link (ob_conn ?ob) (OnConnect (ob_conn ?ob))" by (simp add: OnConnect_def)
  let ?s2 = "store_obj q (?ob\<lparr>ob_conn := OnConnect (ob_conn ?ob)\<rparr>) ?s1"
  have i2: "srv_inv ?stk (MainWindow_OnConnect ?s2)" using store_conn_inv [OF i1 ob1 c l] by simp
  have "Release q (MainWindow_OnConnect ?s2) = Inr s'"
    using assms(4) a by (auto simp: srv_OnClientConnected_def holding_def conn_call_def rd_bind_Inr)
  moreover obtain s3 where "Release q (MainWindow_OnConnect ?s2) = Inr s3" "srv_inv (?stk(q := ?stk q - 1)) s3"
    using Release_inv [OF i2, of q] by auto
  ultimately show ?thesis by simp
qed

lemma listener_cb_inv:
  assumes "srv_inv stk s" and "rs_heap s q = None" and "bev \<notin> set (rs_live s)"
    and "listener_cb (Some bev) q socket_ok ip port event_ok s = Inr (s', outs)"
  shows "srv_inv stk s'"
proof -
  let ?p = "CClientConnection socket_ok ip port (Some bev) event_ok"
  let ?s0 = "s\<lparr>rs_heap := (rs_heap s)(q \<mapsto> \<lparr>ob_refs = 1, ob_conn = ?p\<rparr>)\<rparr>"
  note inv = srv_invD [OF assms(1)]
  have k0: "stk q = 0" using inv(4) [of q] assms(2) by (cases "stk q") auto
  have nt: "\<not> in_table q s" using inv(5) assms(2) by (force simp: in_table_def)
  have t: "in_table q' ?s0 = in_table q' s" for q' by (simp add: in_table_def)
  have i0: "srv_inv (stk(q := 1)) ?s0"
  proof (rule srv_invI)
    show "\<exists>ob. rs_heap ?s0 q' = Some ob \<and> cs_bufferev (ob_conn ob) = Some b" if "(b, q') \<in> set (rs_clients ?s0)" for b q'
      using that inv(5) [of b q'] assms(2) by auto
    show "obj_ok ((stk(q := 1)) q') (in_table q' ?s0) ob" if "rs_heap ?s0 q' = Some ob" for q' ob
    proof (cases "q' = q")
      case True
      have "0 \<le> cs_ref ?p" using fresh_conn_inv by (simp add: conn_inv_def)
      then show ?thesis using that True nt fresh_conn_inv by (auto simp: t obj_ok_def)
    next
      case False
      then show ?thesis using that inv(3) [of q' ob] by (simp add: t)
    qed
    have "inj_on (peer_of ?s0) (snd ` set (rs_clients s)) = inj_on (peer_of s) (snd ` set (rs_clients s))"
      by (rule inj_on_cong) (use nt in \<open>auto simp: peer_of_def in_table_def\<close>)
    then show "inj_on (peer_of ?s0) (snd ` set (rs_clients ?s0))" using assms(1) by (simp add: srv_inv_def)
  qed (use inv(1,2,4,6) in \<open>auto split: if_split_asm\<close>)
  have rel: "\<exists>s1. Release q ?s0 = Inr s1 \<and> srv_inv stk s1"
    using Release_inv [OF i0, of q] k0 by (auto simp: fun_upd_idem)
  show ?thesis
  proof (cases "\<not> IsValid ?p \<or> already_connected ?p s")
    case True
    then show ?thesis using assms(4) rel by (auto simp: listener_cb_def Let_def split: if_split_asm)
  next
    case False
    obtain s1 where s1: "AddRef q ?s0 = Inr s1" "srv_inv ((stk(q := 1))(q := Suc ((stk(q := 1)) q))) s1"
      "rs_clients s1 = rs_clients ?s0" using AddRef_inv [OF i0, of q] by auto
    then have i1: "srv_inv (stk(q := 2)) s1" by (simp add: numeral_2_eq_2)
    have h1: "rs_heap s1 q = Some \<lparr>ob_refs = 2, ob_conn = ?p\<rparr>" "rs_live s1 = rs_live s"
      using s1(1) by (auto simp: AddRef_def)
    have "rs_heap s1 (snd x) = rs_heap s (snd x)" if "x \<in> set (rs_clients s)" for x
    proof -
      have "snd x \<noteq> q" using that nt by (force simp: in_table_def)
      then show ?thesis using s1(1) by (auto simp: AddRef_def)
    qed
    then have "already_connected ?p s1 = already_connected ?p s"
      unfolding already_connected_def by (intro bex_cong) (auto simp: s1(3))
    then have nc: "\<not> already_connected ?p s1" using False by simp
    let ?s2 = "s1\<lparr>rs_clients := map_put bev q (rs_clients s1), rs_live := bev # rs_live s1\<rparr>"
    have "srv_inv ((stk(q := 2))(q := (stk(q := 2)) q - 1)) ?s2"
      by (rule link_inv [OF i1 _ h1(1)])
         (use nt s1(3) nc assms(3) h1 in \<open>simp_all add: in_table_def CClientConnection_def\<close>)
    then have i2: "srv_inv (stk(q := 1)) ?s2" by simp
    obtain s3 o3 where c: "srv_OnClientConnected q ?s2 = Inr (s3, o3)" and r: "Release q s3 = Inr s'"
      using assms(4) False s1(1) by (auto simp: listener_cb_def Let_def rd_bind_Inr)
    have i3: "srv_inv (stk(q := 1)) s3"
      by (rule OnClientConnected_inv [OF i2 _ _ c, where ob = "\<lparr>ob_refs = 2, ob_conn = ?p\<rparr>"])
         (simp_all add: h1 CClientConnection_def)
    then show ?thesis using Release_inv [OF i3, of q] r k0 by (auto simp: fun_upd_idem)
  qed
qed

lemma OnClientDisconnected_inv:
  assumes "srv_inv stk s" and "rs_heap s q \<noteq> None" and "\<not> in_table q s"
    and "srv_OnClientDisconnected (Some q) code s = Inr (s', outs)"
  shows "srv_inv stk s'"
proof (rule holding_inv [OF assms(1,2) _ assms(4) [unfolded srv_OnClientDisconnected_def option.case]])
  fix s1 s2 os
  let ?stk = "stk(q := Suc (stk q))"
  assume i: "srv_inv ?stk s1" and c: "rs_clients s1 = rs_clients s"
    and r: "rd_bind (if code \<noteq> RDEC_SUCCEEDED then conn_call q (\<lambda>p. Inr (conn_OnError code p, [])) s1 else Inr (s1, []))
       (\<lambda>(s2, outs). Inr (MainWindow_OnDisconnect s2, outs)) = Inr (s2, os)"
  show "srv_inv ?stk s2"
  proof (cases "code = RDEC_SUCCEEDED")
    case True
    then show ?thesis using r i by auto
  next
    case False
    obtain s3 o3 where call: "conn_call q (\<lambda>p. Inr (conn_OnError code p, [])) s1 = Inr (s3, o3)"
      and s2: "s2 = MainWindow_OnDisconnect s3"
      using r False by (auto simp: rd_bind_Inr)
    obtain ob where ob: "rs_heap s1 q = Some ob" and s3: "s3 = store_obj q (ob\<lparr>ob_conn := conn_OnError code (ob_conn ob)\<rparr>) s1"
      using call by (auto simp: conn_call_def split: option.splits)
    note okob = srv_invD(3) [OF i ob]
    have ci: "conn_inv (conn_OnError code (ob_conn ob))"
      using conn_step_inv [OF conn_step.error] okob by (auto simp: obj_ok_def)
    have "srv_inv (?stk(q := Suc (stk q))) s3"
      unfolding s3
      by (rule store_inv [OF i ob])
         (use ci okob assms(3) c in \<open>simp_all add: obj_ok_def in_table_def conn_OnError_def drop_send_event_def\<close>)
    then show ?thesis by (simp add: s2)
  qed
qed

lemma srv_inv_live:
  assumes "srv_inv stk s" and "b \<notin> fst ` set (rs_clients s)"
  shows "srv_inv stk (s\<lparr>rs_live := removeAll b (rs_live s)\<rparr>)"
proof -
  have "peer_of (s\<lparr>rs_live := removeAll b (rs_live s)\<rparr>) = peer_of s" by (simp add: peer_of_def fun_eq_iff)
  then show ?thesis using assms by (auto simp: srv_inv_def in_table_def)
qed

lemma conn_eventcb_inv:
  assumes "srv_inv stk s" and "conn_eventcb bev events s = Inr (s', outs)"
  shows "srv_inv stk s'"
proof (cases "events AND BEV_EVENT_EOF = 0 \<and> events AND BEV_EVENT_ERROR = 0")
  case True
  then show ?thesis using assms by (simp add: conn_eventcb_def)
next
  case False
  let ?s1 = "s\<lparr>rs_clients := map_erase bev (rs_clients s)\<rparr>"
  have gone: "bev \<notin> fst ` set (rs_clients ?s1)" by (auto simp: map_erase_def)
  show ?thesis
  proof (cases "map_find bev (rs_clients s)")
    case None
    have e: "map_erase bev (rs_clients s) = rs_clients s"
      using omap.find_None_keys [OF srv_invD(1) [OF assms(1)], of bev] None by (force simp: map_erase_def filter_id_conv)
    then have "s' = (MainWindow_OnDisconnect s)\<lparr>rs_live := removeAll bev (rs_live (MainWindow_OnDisconnect s))\<rparr>"
      using assms(2) False None by (auto simp: conn_eventcb_def srv_OnClientDisconnected_def split: if_split_asm)
    moreover have "rs_clients (MainWindow_OnDisconnect s) = rs_clients s" by (simp add: MainWindow_OnDisconnect_def)
    ultimately show ?thesis using srv_inv_live [of stk "MainWindow_OnDisconnect s" bev] assms(1) gone e by simp
  next
    case (Some q)
    note i1 = unlink_inv [OF assms(1) Some]
    obtain s2 s3 where d: "srv_OnClientDisconnected (Some q) (of_nat events) ?s1 = Inr (s2, outs)"
      and r: "Release q s2 = Inr s3" and s': "s' = s3\<lparr>rs_live := removeAll bev (rs_live s3)\<rparr>"
      using assms(2) False Some by (auto simp: conn_eventcb_def rd_bind_Inr Let_def)
    obtain ob where "rs_heap s q = Some ob" by (rule table_obj [OF assms(1) Some])
    then have t: "rs_heap ?s1 q \<noteq> None" "\<not> in_table q ?s1"
      using snd_erase(1) [OF srv_invD(1,2) [OF assms(1)] Some] by (auto simp: in_table_def)
    note i2 = OnClientDisconnected_inv [OF i1 t d]
    have c2: "rs_clients s2 = rs_clients ?s1"
      using d by (auto simp: srv_OnClientDisconnected_def holding_def rd_bind_Inr AddRef_def Release_def conn_call_def
          store_obj_def MainWindow_OnDisconnect_def split: option.splits if_split_asm)
    have "srv_inv stk s3" "rs_clients s3 = rs_clients s2" using Release_inv [OF i2, of q] r by auto
    then show ?thesis using srv_inv_live gone c2 s' by simp
  qed
qed

text \<open>Stopping everybody, in the order of the table.\<close>

lemma stop_all_frame:
  "stop_all e qs (s\<lparr>rs_live := l, rs_clients := c\<rparr>)
   = (case stop_all e qs s of Inl err \<Rightarrow> Inl err | Inr (s', outs) \<Rightarrow> Inr (s'\<lparr>rs_live := l, rs_clients := c\<rparr>, outs))"
proof (induction qs arbitrary: s)
  case (Cons q qs)
  have "\<exists>s2 o1. conn_call q (\<lambda>p. Inr (conn_Stop e RDEC_SUCCEEDED p)) s = Inr (s2, o1)
      \<and> conn_call q (\<lambda>p. Inr (conn_Stop e RDEC_SUCCEEDED p)) (s\<lparr>rs_live := l, rs_clients := c\<rparr>)
        = Inr (s2\<lparr>rs_live := l, rs_clients := c\<rparr>, o1)" if "rs_heap s q \<noteq> None"
    using that by (auto simp: conn_call_def store_obj_def case_prod_beta split: option.splits)
  moreover have "Release q (s2\<lparr>rs_live := l, rs_clients := c\<rparr>)
      = (case Release q s2 of Inl err \<Rightarrow> Inl err | Inr s3 \<Rightarrow> Inr (s3\<lparr>rs_live := l, rs_clients := c\<rparr>))" for s2
    by (auto simp: Release_def store_obj_def split: option.splits)
  ultimately show ?case
    by (cases "rs_heap s q") (auto simp: Cons.IH conn_call_def rd_bind_def split: sum.splits)
qed simp

lemma stop_all_inv:
  assumes "srv_inv stk s"
  shows "\<exists>s' outs. stop_all e (map snd (rs_clients s)) s = Inr (s', outs) \<and> srv_inv stk (s'\<lparr>rs_clients := []\<rparr>)"
  using assms
proof (induction "rs_clients s" arbitrary: s)
  case Nil
  have "s\<lparr>rs_clients := []\<rparr> = s" using Nil.hyps by (cases s) simp
  then have "srv_inv stk (s\<lparr>rs_clients := []\<rparr>)" using Nil.prems by simp
  then show ?case by (intro exI [of _ s] exI [of _ "[]"]) (simp flip: Nil.hyps)
next
  case (Cons x es)
  obtain b q where x: "x = (b, q)" by fastforce
  note c = Cons.hyps(2) [symmetric, unfolded x]
  have f: "map_find b (rs_clients s) = Some q" by (simp add: c map_find_def)
  obtain ob where ob: "rs_heap s q = Some ob" by (rule table_obj [OF Cons.prems f])
  let ?p = "fst (conn_Stop e RDEC_SUCCEEDED (ob_conn ob))"
  let ?s2 = "store_obj q (ob\<lparr>ob_refs := ob_refs ob - 1, ob_conn := ?p\<rparr>) s"
  let ?t = "?s2\<lparr>rs_live := removeAll b (rs_live s), rs_clients := es\<rparr>"
  obtain s1 o1 where st: "conn_call q (\<lambda>p. Inr (conn_Stop e RDEC_SUCCEEDED p)) s = Inr (s1, o1)" "Release q s1 = Inr ?s2"
    by (rule stop_release [OF Cons.prems f ob])
  have "conn_inv (ob_conn ob)" using srv_invD(3) [OF Cons.prems ob] by (simp add: obj_ok_def)
  then have i: "srv_inv stk (?s2\<lparr>rs_live := removeAll b (rs_live s), rs_clients := map_erase b (rs_clients s)\<rparr>)"
    by (intro erase_inv [OF Cons.prems f ob]) (simp_all add: conn_Stop_inv conn_Stop_sel)
  have "b \<notin> fst ` set es" using srv_invD(1) [OF Cons.prems] by (auto simp: c map_ok_def)
  then have "map_erase b (rs_clients s) = es" by (force simp: c map_erase_def filter_id_conv)
  then have "srv_inv stk ?t" using i by simp
  from Cons.hyps(1) [OF _ this] obtain s' outs where
    "stop_all e (map snd es) ?t = Inr (s', outs)" "srv_inv stk (s'\<lparr>rs_clients := []\<rparr>)" by auto
  then obtain s'' where s'': "stop_all e (map snd es) ?s2 = Inr (s'', outs)" "srv_inv stk (s''\<lparr>rs_live := removeAll b (rs_live s), rs_clients := []\<rparr>)"
    by (auto simp: stop_all_frame split: sum.splits)
  have "srv_inv stk (s''\<lparr>rs_clients := []\<rparr>)"
  proof -
    have "peer_of (s''\<lparr>rs_clients := []\<rparr>) = peer_of s''" "peer_of (s''\<lparr>rs_live := l, rs_clients := []\<rparr>) = peer_of s''" for l
      by (simp_all add: peer_of_def fun_eq_iff)
    then show ?thesis using s''(2) by (simp add: srv_inv_def in_table_def)
  qed
  then show ?case using st s''(1) by (auto simp: c)
qed

section \<open>The server as a step relation\<close>

text \<open>
  What the event loop and the window procedure call, in any order.  A bufferevent handed to
  the listener is not a live one, and a new object is put where none is.
\<close>

inductive srv_step :: "env \<Rightarrow> remote_server \<Rightarrow> remote_server \<Rightarrow> bool" for e where
  accept: "bev \<notin> set (rs_live s) \<Longrightarrow> rs_heap s q = None \<Longrightarrow>
     listener_cb (Some bev) q socket_ok ip port event_ok s = Inr (s', outs) \<Longrightarrow> srv_step e s s'"
| read: "conn_readcb e bev buf s = Inr (s', outs) \<Longrightarrow> srv_step e s s'"
| event: "conn_eventcb bev events s = Inr (s', outs) \<Longrightarrow> srv_step e s s'"
| send: "srv_drain e q s = Inr (s', outs) \<Longrightarrow> srv_step e s s'"
| capture: "srv_capture e grab s = Inr (s', outs) \<Longrightarrow> srv_step e s s'"
| modified: "srv_OnModified e s = Inr (s', outs) \<Longrightarrow> srv_step e s s'"
| stop: "srv_Stop e s = Inr (s', outs) \<Longrightarrow> srv_step e s s'"

inductive srv_reachable :: "env \<Rightarrow> remote_server \<Rightarrow> bool" for e where
  start: "srv_reachable e (CRemoteServer scr)"
| step: "srv_reachable e s \<Longrightarrow> srv_step e s s' \<Longrightarrow> srv_reachable e s'"

lemma screen_calls_inv:
  "conn_inv p \<Longrightarrow> rd_bind (OnScreenFirstBitmap e scr p) (\<lambda>p1. Inr (p1, os0)) = Inr (p', os) \<Longrightarrow> conn_inv p' \<and> same_link p p'"
  "conn_inv p \<Longrightarrow> rd_bind (OnScreenModified e scr blocks p) (\<lambda>p1. Inr (p1, os0)) = Inr (p', os) \<Longrightarrow> conn_inv p' \<and> same_link p p'"
  by (auto simp: rd_bind_Inr dest: conn_step_inv [OF conn_step.first] conn_step_inv [OF conn_step.modified] link_lemmas)

lemma srv_step_inv:
  assumes "srv_step e s s'" and "srv_inv (\<lambda>_. 0) s"
  shows "srv_inv (\<lambda>_. 0) s'"
  using assms(1)
proof (cases rule: srv_step.cases)
  case (accept bev q socket_ok ip port event_ok outs)
  then show ?thesis using listener_cb_inv assms(2) by blast
next
  case (read bev buf outs)
  then show ?thesis using conn_readcb_ok(1) assms(2) by blast
next
  case (event bev events outs)
  then show ?thesis using conn_eventcb_inv assms(2) by blast
next
  case (send q outs)
  show ?thesis
    by (rule conn_call_inv(1) [OF assms(2) send [unfolded srv_drain_def]])
       (auto simp: OnAsynSendCommand_def)
next
  case (capture grab outs)
  obtain scr msg where c: "CaptureDesktop grab (rs_screen s) = Some (scr, msg)"
    using capture by (auto simp: srv_capture_def split: option.splits)
  show ?thesis
  proof (cases "msg = ScreenFirstBitmap \<and> HasClientConnected (s\<lparr>rs_screen := scr\<rparr>)")
    case True
    then have r: "srv_OnScreenFirstBitmap e (s\<lparr>rs_screen := scr\<rparr>) = Inr (s', outs)"
      using capture c by (simp add: srv_capture_def)
    show ?thesis
      by (rule call_all_inv [OF _ r [unfolded srv_OnScreenFirstBitmap_def]])
         (simp add: assms(2), erule (1) screen_calls_inv(1))
  next
    case False
    then have "s' = s\<lparr>rs_screen := scr\<rparr> \<or> (\<exists>ps. s' = s\<lparr>rs_screen := scr, rs_posted := ps\<rparr>)"
      using capture c by (cases msg) (auto simp: srv_capture_def Let_def)
    then show ?thesis using assms(2) by auto
  qed
next
  case (modified outs)
  show ?thesis
  proof (cases "rs_posted s")
    case Nil
    then show ?thesis using modified assms(2) by (simp add: srv_OnModified_def)
  next
    case (Cons blocks rest)
    show ?thesis
    proof (cases "HasClientConnected (s\<lparr>rs_posted := rest\<rparr>)")
      case True
      then have r: "srv_OnScreenModified e blocks (s\<lparr>rs_posted := rest\<rparr>) = Inr (s', outs)"
        using modified Cons by (simp add: srv_OnModified_def)
      show ?thesis
        by (rule call_all_inv [OF _ r [unfolded srv_OnScreenModified_def]])
           (simp add: assms(2), erule (1) screen_calls_inv(2))
    next
      case False
      then have "s' = s\<lparr>rs_posted := rest\<rparr>" using modified Cons by (simp add: srv_OnModified_def)
      then show ?thesis using assms(2) by simp
    qed
  qed
next
  case (stop outs)
  obtain s1 o1 where "stop_all e (map snd (rs_clients s)) s = Inr (s1, o1)" "srv_inv (\<lambda>_. 0) (s1\<lparr>rs_clients := []\<rparr>)"
    using stop_all_inv [OF assms(2)] by blast
  then show ?thesis using stop by (auto simp: srv_Stop_def)
qed

lemma srv_reachable_inv: "srv_reachable e s \<Longrightarrow> srv_inv (\<lambda>_. 0) s"
proof (induction rule: srv_reachable.induct)
  case (start scr)
  show ?case by (rule srv_invI) (simp_all add: CRemoteServer_def map_ok_def)
next
  case (step s s')
  then show ?case using srv_step_inv by blast
qed

section \<open>A server with two clients\<close>

definition demo_object :: "nat \<Rightarrow> string \<Rightarrow> server_obj" where
  "demo_object b ip = \<lparr>ob_refs = 1, ob_conn = OnConnect (CClientConnection True ip 5000 (Some b) True)\<rparr>"

definition demo_server :: remote_server where
  "demo_server = \<lparr>rs_clients = [(5, 9), (6, 10)],
     rs_heap = (\<lambda>_. None)(9 \<mapsto> demo_object 5 ''10.0.0.7'', 10 \<mapsto> demo_object 6 ''10.0.0.8''),
     rs_live = [6, 5], rs_command = InitCommandData, rs_screen = StartCapture demo_screen, rs_posted = []\<rparr>"

lemmas accept_defs = listener_cb_def Let_def IsValid_def already_connected_def srv_OnClientConnected_def holding_def
  AddRef_def Release_def conn_call_def store_obj_def MainWindow_OnConnect_def IsCapturing_def StartCapture_def
  demo_object_def OnConnect_def CClientConnection_def same_peer_def

lemma demo_accepts:
  "listener_cb (Some 5) 9 True ''10.0.0.7'' 5000 True (CRemoteServer demo_screen)
   = Inr (demo_server\<lparr>rs_clients := [(5, 9)], rs_heap := (\<lambda>_. None)(9 \<mapsto> demo_object 5 ''10.0.0.7''), rs_live := [5]\<rparr>, [])"
  "listener_cb (Some 6) 10 True ''10.0.0.8'' 5000 True
     (demo_server\<lparr>rs_clients := [(5, 9)], rs_heap := (\<lambda>_. None)(9 \<mapsto> demo_object 5 ''10.0.0.7''), rs_live := [5]\<rparr>)
   = Inr (demo_server, [])"
  by (simp_all add: accept_defs demo_server_def demo_screen_def CScreenBitmap_def CRemoteServer_def)

lemma demo_server_reachable: "srv_reachable e demo_server"
proof -
  let ?s1 = "demo_server\<lparr>rs_clients := [(5, 9)], rs_heap := (\<lambda>_. None)(9 \<mapsto> demo_object 5 ''10.0.0.7''), rs_live := [5]\<rparr>"
  have "srv_reachable e ?s1"
    by (rule srv_reachable.step [OF srv_reachable.start srv_step.accept [OF _ _ demo_accepts(1)]])
       (simp_all add: CRemoteServer_def)
  then show ?thesis
    by (rule srv_reachable.step [OF _ srv_step.accept [OF _ _ demo_accepts(2)]]) simp_all
qed

lemma demo_server_sel:
  "map_find 5 (rs_clients demo_server) = Some 9" "map_find 6 (rs_clients demo_server) = Some 10"
  "rs_command demo_server = InitCommandData"
  by (simp_all add: demo_server_def map_find_def)

section \<open>Properties\<close>

text \<open>
  C11. The server's table in every reachable state, whatever the order of its callbacks: every
  entry names a live bufferevent and a live connection object that knows it, with exactly
  one reference of the table; no object and no peer address is in the table twice, and
  every connection object satisfies its own invariant.
\<close>

theorem server_invariant:
  assumes "srv_reachable e s"
  shows "(\<forall>(b, q) \<in> set (rs_clients s). b \<in> set (rs_live s)
             \<and> (\<exists>ob. rs_heap s q = Some ob \<and> cs_bufferev (ob_conn ob) = Some b \<and> ob_refs ob = 1))
       \<and> distinct (map fst (rs_clients s)) \<and> distinct (map snd (rs_clients s))
       \<and> inj_on (peer_of s) (snd ` set (rs_clients s))
       \<and> (\<forall>q ob. rs_heap s q = Some ob \<longrightarrow> conn_inv (ob_conn ob) \<and> 0 < ob_refs ob + cs_ref (ob_conn ob))"
proof -
  note i = srv_reachable_inv [OF assms]
  note inv = srv_invD [OF i]
  have entry: "b \<in> set (rs_live s) \<and> (\<exists>ob. rs_heap s q = Some ob \<and> cs_bufferev (ob_conn ob) = Some b \<and> ob_refs ob = 1)"
    if m: "(b, q) \<in> set (rs_clients s)" for b q
  proof -
    have f: "map_find b (rs_clients s) = Some q" using omap.mem_entries [OF inv(1)] m by simp
    obtain ob where "rs_heap s q = Some ob" "cs_bufferev (ob_conn ob) = Some b" "ob_refs ob = int 0 + 1"
      by (rule table_obj [OF i f])
    moreover have "b \<in> set (rs_live s)" using inv(6) m by force
    ultimately show ?thesis by simp
  qed
  show ?thesis
  proof (intro conjI allI impI)
    show "distinct (map fst (rs_clients s))" by (rule omap.distinct_keys [OF inv(1)])
    show "distinct (map snd (rs_clients s))" by (rule inv(2))
    show "inj_on (peer_of s) (snd ` set (rs_clients s))" using i by (simp add: srv_inv_def)
    show "conn_inv (ob_conn ob)" "0 < ob_refs ob + cs_ref (ob_conn ob)" if "rs_heap s q = Some ob" for q ob
      using inv(3) [OF that] unfolding obj_ok_def by blast+
  qed (use entry in auto)
qed

theorem server_invariant_witness:
  "rs_clients demo_server = [(5, 9), (6, 10)] \<and> inj_on (peer_of demo_server) {9, 10}"
  using server_invariant [OF demo_server_reachable [of demo_env]] by (simp add: demo_server_def)

text \<open>
  C12. Isolation of the clients: whatever bytes one client sends, reading them leaves every
  other connection object and every other entry of the table as it was, and the screen too.
\<close>

theorem read_touches_one_client:
  assumes "srv_reachable e s" and "map_find b (rs_clients s) = Some q"
    and "conn_readcb e b buf s = Inr (s', outs)"
  shows "(\<forall>q'. q' \<noteq> q \<longrightarrow> rs_heap s' q' = rs_heap s q')
       \<and> (\<forall>b'. b' \<noteq> b \<longrightarrow> map_find b' (rs_clients s') = map_find b' (rs_clients s))
       \<and> rs_screen s' = rs_screen s"
  using conn_readcb_ok(2) [OF srv_reachable_inv [OF assms(1)] assms(3,2)] by (simp add: only_def)

theorem read_touches_one_client_witness:
  "\<exists>s' outs. conn_readcb demo_env 5 [1, 2, 3] demo_server = Inr (s', outs) \<and> rs_heap s' 10 = rs_heap demo_server 10"
proof -
  let ?s' = "demo_server\<lparr>rs_command := snd (DecodeBuffer (env_alloc demo_env) InitCommandData [1, 2, 3])\<rparr>"
  have "DecodeBuffer (env_alloc demo_env) InitCommandData [1, 2, 3] = ([], InitCommandData)"
    using new_stream_buffer_reader [of "[1, 2, 3]" "env_alloc demo_env" False]
    by (subst DecodeBuffer.simps) (simp add: Let_def ReadUInt32_def read_pod_reader_short)
  then have r: "conn_readcb demo_env 5 [1, 2, 3] demo_server = Inr (?s', [])"
    by (simp add: conn_readcb_def demo_server_sel holding_def AddRef_def Release_def store_obj_def)
       (simp add: store_obj_def demo_server_def demo_object_def CClientConnection_def OnConnect_def fun_upd_twist)
  from read_touches_one_client [OF demo_server_reachable demo_server_sel(1) r] r show ?thesis by auto
qed

lemma conn_OnError_sel:
  "cs_ip (conn_OnError c p) = cs_ip p" "cs_port (conn_OnError c p) = cs_port p"
  "conn_inv p \<Longrightarrow> cs_ref (conn_OnError c p) = 0"
  by (auto simp: conn_OnError_def drop_send_event_def conn_inv_def)



lemma holding_command:
  assumes "DecodeBuffer (env_alloc e) (rs_command s) buf = ([c], cmd)" and "buf \<noteq> []"
    and "map_find b (rs_clients s) = Some q"
  shows "conn_readcb e b buf s = holding q (\<lambda>s2. rd_bind (srv_OnReciveCommand e q c s2) (\<lambda>(s3, o3).
           Inr (s3\<lparr>rs_command := cmd\<rparr>, o3))) s"
proof (cases "rs_heap s q")
  case None
  then show ?thesis using assms(3) by (simp add: conn_readcb_def holding_def AddRef_def)
next
  case (Some ob)
  then show ?thesis
    using assms by (simp add: conn_readcb_def holding_def AddRef_def rd_bind_def case_prod_beta split: sum.split)
qed

text \<open>
  C15. The decoder's state belongs to the server, not to the client: when one client has sent
  the beginning of a command and another client's bytes arrive next, the other client's
  bytes are taken as its rest, and the command is executed for the other client.
\<close>

theorem shared_decoder_mixes_clients:
  assumes "srv_reachable e s" and "rs_command s = InitCommandData"
    and "sendable c" and "cd_data c = data1 @ data2" and "data2 \<noteq> []"
    and "map_find b1 (rs_clients s) = Some q1" and "map_find b2 (rs_clients s) = Some q2"
  shows "\<exists>s1. conn_readcb e b1 (le_enc 4 (cd_code c) @ le_enc 4 (cd_length c) @ data1) s = Inr (s1, [])
      \<and> conn_readcb e b2 data2 s1
        = holding q2 (\<lambda>s2. rd_bind (srv_OnReciveCommand e q2 c s2) (\<lambda>(s3, o3).
            Inr (s3\<lparr>rs_command := InitCommandData\<rparr>, o3))) s1"
proof -
  note i = srv_reachable_inv [OF assms(1)]
  obtain ob where ob: "rs_heap s q1 = Some ob" by (rule table_obj [OF i assms(6)])
  have refs: "ob_refs ob + cs_ref (ob_conn ob) \<noteq> 0" using srv_invD(3) [OF i ob] by (simp add: obj_ok_def)
  have small: "length (cd_data c) < 2 ^ 30" using assms(3) by (simp add: sendable_def)
  let ?buf = "le_enc 4 (cd_code c) @ le_enc 4 (cd_length c) @ data1" and ?j = "length data1"
  have p: "\<lparr>cd_code = cd_code c, cd_data = data1, cd_length = cd_length c\<rparr> = pending c ?j"
    by (simp add: pending_def assms(4))
  have d1: "DecodeBuffer can_alloc InitCommandData ?buf = ([], pending c ?j)" for can_alloc
    using Decode_header [OF assms(3), of ?buf data1 can_alloc] small assms(4,5) p by simp
  let ?s1 = "s\<lparr>rs_command := pending c ?j\<rparr>"
  have r1: "conn_readcb e b1 ?buf s = Inr (?s1, [])"
    using d1 assms(2,6) ob refs
    by (simp add: conn_readcb_def holding_def AddRef_def Release_def store_obj_def fun_upd_idem del: le_enc.simps)
  have "DecodeBuffer (env_alloc e) (rs_command ?s1) data2 = ([pending c ?j\<lparr>cd_data := cd_data c\<rparr>], InitCommandData)"
    using Decode_pending [OF assms(3), of ?j data2 "env_alloc e"] small assms(4,5) by (simp add: Let_def)
  moreover have "pending c ?j\<lparr>cd_data := cd_data c\<rparr> = c" by (simp add: pending_def)
  ultimately have "conn_readcb e b2 data2 ?s1
      = holding q2 (\<lambda>s2. rd_bind (srv_OnReciveCommand e q2 c s2) (\<lambda>(s3, o3).
            Inr (s3\<lparr>rs_command := InitCommandData\<rparr>, o3))) ?s1"
    using assms(5,7) by (intro holding_command) simp_all
  then show ?thesis using r1 by blast
qed

theorem shared_decoder_mixes_clients_witness:
  "\<exists>s1. conn_readcb demo_env 5 (le_enc 4 RDCC_DISCONNECT @ le_enc 4 (4 :: u32) @ [1]) demo_server = Inr (s1, [])
      \<and> conn_readcb demo_env 6 [0, 0, 0] s1
        = holding 10 (\<lambda>s2. rd_bind (srv_OnReciveCommand demo_env 10 (CCommandDisconnect 1) s2) (\<lambda>(s3, o3).
            Inr (s3\<lparr>rs_command := InitCommandData\<rparr>, o3))) s1"
proof -
  have c: "sendable (CCommandDisconnect 1)" "cd_data (CCommandDisconnect 1) = [1] @ [0, 0, 0]"
    "cd_code (CCommandDisconnect 1) = RDCC_DISCONNECT" "cd_length (CCommandDisconnect 1) = 4"
    by (simp_all add: CCommandDisconnect_def sendable_def mk_command_def RDCC_DISCONNECT_def le_enc_numeral)
  have "[0, 0, 0 :: byte] \<noteq> []" by simp
  from shared_decoder_mixes_clients [OF demo_server_reachable [of demo_env] demo_server_sel(3) c(1,2) this demo_server_sel(1,2)]
  show ?thesis unfolding c(3,4) .
qed

text \<open>
  After \<open>Stop\<close>, which never fails, the table is empty but the bufferevents stay live: the
  next close event of any of them dereferences a NULL client.
\<close>

lemma stop_then_close_event_faults:
  assumes "srv_reachable e s" and "events = BEV_EVENT_EOF \<or> events = BEV_EVENT_ERROR"
  shows "\<exists>s' outs. srv_Stop e s = Inr (s', outs) \<and> rs_clients s' = []
      \<and> conn_eventcb b events s' = Inl MemFault"
proof -
  obtain s1 outs where "stop_all e (map snd (rs_clients s)) s = Inr (s1, outs)"
    using stop_all_inv [OF srv_reachable_inv [OF assms(1)]] by blast
  moreover have "conn_eventcb b events (s1\<lparr>rs_clients := []\<rparr>) = Inl MemFault"
    using assms(2)
    by (auto simp: conn_eventcb_def Let_def BEV_EVENT_EOF_def BEV_EVENT_ERROR_def map_find_def srv_OnClientDisconnected_def)
  ultimately show ?thesis by (simp add: srv_Stop_def)
qed

lemma stop_then_close_event_faults_witness:
  "\<exists>s' outs. srv_Stop demo_env demo_server = Inr (s', outs) \<and> conn_eventcb 5 16 s' = Inl MemFault"
  using stop_then_close_event_faults [OF demo_server_reachable, of 16 demo_env 5] by (auto simp: BEV_EVENT_EOF_def)

definition captures :: "(bitmap_info \<times> byte list) option list \<Rightarrow> screen \<Rightarrow> screen option" where
  "captures = foldM (\<lambda>grab scr. map_option fst (CaptureDesktop grab scr))"

lemma CaptureDesktop_size:
  "CaptureDesktop grab scr = Some (scr', msg) \<Longrightarrow> scr_w scr' = scr_w scr \<and> scr_h scr' = scr_h scr \<and> scr_px scr' = scr_px scr"
  by (auto simp: CaptureDesktop_def Let_def split: if_split_asm option.split_asm prod.split_asm)

lemma captures_size:
  "captures grabs scr = Some scr' \<Longrightarrow> scr_w scr' = scr_w scr \<and> scr_h scr' = scr_h scr"
  unfolding captures_def
proof (induction grabs arbitrary: scr)
  case (Cons g gs)
  then obtain scr1 msg where "CaptureDesktop g scr = Some (scr1, msg)"
    "foldM (\<lambda>grab scr. map_option fst (CaptureDesktop grab scr)) gs scr1 = Some scr'"
    by (auto split: option.splits)
  then show ?case using Cons.IH CaptureDesktop_size by metis
qed simp

lemma restart_size: "scr_w (StartCapture (StopCapture scr)) = 0" "scr_h (StartCapture (StopCapture scr)) = 0"
  by (simp_all add: StartCapture_def StopCapture_def Let_def)

lemma Clip_empty_screen:
  assumes "scr_w scr = 0" and "scr_h scr = 0" and "0 < cols"
  shows "ClipBitmapRect junk scr (block_rect rows cols 0 0 n) = Some None
    \<or> n = 0 \<and> (\<exists>rc. ClipBitmapRect junk scr (block_rect rows cols 0 0 n) = Some (Some (rc, [])) \<and> Height rc = 0)"
proof (cases "n = 0 \<and> 1 < cols \<and> rows \<noteq> 1")
  case True
  then show ?thesis
    using assms by (auto simp: ClipBitmapRect_def block_rect_def Let_def Width_def Height_def to_uint_def SCAN_MODIFY_RECT_UNIT_def)
next
  case False
  have "n div cols = 0 \<and> n mod cols = 0 \<Longrightarrow> n = 0" using assms(3) by (metis div_mult_mod_eq mult_0 add_0)
  then show ?thesis
    using assms False by (auto simp: ClipBitmapRect_def block_rect_def Let_def SCAN_MODIFY_RECT_UNIT_def)
qed

lemma pack_blocks_empty_screen:
  assumes "scr_w scr = 0" and "scr_h scr = 0" and "0 < cols" and "\<exists>n\<in>set blocks. n \<noteq> 0"
  shows "pack_blocks junk scr rows cols rb i blocks buf = Inr None"
  using assms(4)
proof (induction blocks arbitrary: i buf)
  case (Cons n blocks)
  show ?case
    using Clip_empty_screen [OF assms(1-3), of junk rows n]
  proof
    assume "ClipBitmapRect junk scr (block_rect rows cols 0 0 n) = Some None"
    then show ?thesis using assms(1-3) by simp
  next
    assume "n = 0 \<and> (\<exists>rc. ClipBitmapRect junk scr (block_rect rows cols 0 0 n) = Some (Some (rc, [])) \<and> Height rc = 0)"
    then obtain rc where "n = 0" "ClipBitmapRect junk scr (block_rect rows cols 0 0 n) = Some (Some (rc, []))" "Height rc = 0"
      by blast
    moreover have "\<exists>n\<in>set blocks. n \<noteq> 0" using Cons.prems \<open>n = 0\<close> by simp
    ultimately show ?thesis using assms(1-3) Cons.IH by (simp add: Let_def)
  qed
qed simp



end
