(* ===== verification/C_Strings.thy ===== *)
theory C_Strings
  imports RD_Prelude
begin

text \<open>
  Text as the C and C++ code of the HTTP parts handles it.  A string is the list of its
  bytes.  A \<open>const char*\<close> is the list of the bytes before the terminating NUL, a pointer into
  it a suffix of that list, and reading at its end (\<open>peek\<close>) gives the NUL.  A \<open>std::string\<close>
  may contain NUL bytes; \<open>c_str\<close> is what a C function sees of it.  The theory holds the
  \<open>std::string\<close> searches the program uses, the decimal conversions on bytes, and the
  locale-independent character functions of libevent's evutil.c.
\<close>

section \<open>Strings\<close>

definition str :: "string \<Rightarrow> byte list" where
  "str s = map of_char s"

lemma str_simps [simp]: "str [] = []" "str (c # s) = of_char c # str s"
  by (simp_all add: str_def)

definition peek :: "byte list \<Rightarrow> byte" where
  "peek s = (case s of [] \<Rightarrow> 0 | c # _ \<Rightarrow> c)"

lemma peek_simps [simp]: "peek [] = 0" "peek (c # s) = c"
  by (simp_all add: peek_def)

definition c_str :: "byte list \<Rightarrow> byte list" where
  "c_str s = takeWhile (\<lambda>c. c \<noteq> 0) s"

definition nul_free :: "byte list \<Rightarrow> bool" where
  "nul_free s \<longleftrightarrow> list_all (\<lambda>c. c \<noteq> 0) s"

lemma nul_free_simps [simp]:
  "nul_free []" "nul_free (c # s) \<longleftrightarrow> c \<noteq> 0 \<and> nul_free s" "nul_free (s @ t) \<longleftrightarrow> nul_free s \<and> nul_free t"
  by (simp_all add: nul_free_def)

lemma c_str_id [simp]: "nul_free s \<Longrightarrow> c_str s = s"
  by (simp add: c_str_def nul_free_def takeWhile_eq_all_conv list_all_iff)

lemma nul_free_c_str [simp]: "nul_free (c_str s)"
  by (auto simp: nul_free_def c_str_def list_all_iff dest: set_takeWhileD)

section \<open>Searches of \<open>std::string\<close>\<close>

text \<open>
  \<open>s.find(pat, k)\<close>, with \<open>None\<close> for \<open>npos\<close>; \<open>s.find(ch, k)\<close> is the case of one byte.
\<close>

fun find_str :: "byte list \<Rightarrow> byte list \<Rightarrow> nat option" where
  "find_str pat [] = (if pat = [] then Some 0 else None)"
| "find_str pat (c # s) =
     (if take (length pat) (c # s) = pat then Some 0 else map_option Suc (find_str pat s))"

definition find_from :: "byte list \<Rightarrow> byte list \<Rightarrow> nat \<Rightarrow> nat option" where
  "find_from pat s k = (if length s < k then None else map_option ((+) k) (find_str pat (drop k s)))"

lemma find_str_SomeD:
  "find_str pat s = Some i \<Longrightarrow> i + length pat \<le> length s \<and> take (length pat) (drop i s) = pat"
proof (induction s arbitrary: i)
  case (Cons c s)
  show ?case
  proof (cases "take (length pat) (c # s) = pat")
    case True
    then have "length pat \<le> length (c # s)" by (metis nat_le_linear take_all length_take min.absorb_iff2)
    with Cons.prems True show ?thesis by simp
  next
    case False
    with Cons show ?thesis by auto
  qed
qed (simp split: if_splits)

lemma find_from_SomeD:
  assumes "find_from pat s k = Some i"
  shows "k \<le> i" "i + length pat \<le> length s" "take (length pat) (drop i s) = pat"
proof -
  from assms obtain j where "find_str pat (drop k s) = Some j" "i = k + j" "k \<le> length s"
    by (auto simp: find_from_def split: if_splits)
  with find_str_SomeD [of pat "drop k s" j] show "k \<le> i" "i + length pat \<le> length s"
    "take (length pat) (drop i s) = pat"
    by (auto simp: add.commute)
qed

lemma find_str_complete:
  "i + length pat \<le> length s \<Longrightarrow> take (length pat) (drop i s) = pat \<Longrightarrow> \<exists>j \<le> i. find_str pat s = Some j"
proof (induction s arbitrary: i)
  case (Cons c s)
  then show ?case
  proof (cases i)
    case (Suc k)
    with Cons.prems Cons.IH [of k] show ?thesis by auto
  qed simp
qed simp

lemma find_str_append: "find_str pat s = Some i \<Longrightarrow> find_str pat (s @ t) = Some i"
proof (induction s arbitrary: i)
  case Nil
  then have "pat = []" "i = 0" by (simp_all split: if_splits)
  then show ?case by (cases t) simp_all
next
  case (Cons c s)
  have "take (length pat) (c # s @ t) = pat \<longleftrightarrow> take (length pat) (c # s) = pat"
    if "find_str pat (c # s) = Some i" for i
    using find_str_SomeD [OF that] by (cases pat) auto
  with Cons show ?case by (auto split: if_splits)
qed

lemma find_from_append: "find_from pat s k = Some i \<Longrightarrow> find_from pat (s @ t) k = Some i"
  by (auto simp: find_from_def find_str_append split: if_splits)

lemma find_from_0 [simp]: "find_from pat s 0 = find_str pat s"
  by (cases "find_str pat s") (simp_all add: find_from_def)

text \<open>Where a byte that does not occur in a prefix is found first.\<close>

lemma find_char_prefix: "c \<notin> set xs \<Longrightarrow> find_str [c] (xs @ c # ys) = Some (length xs)"
  by (induction xs) auto

lemma find_char_None: "find_str [c] xs = None \<longleftrightarrow> c \<notin> set xs"
  by (induction xs) auto

lemma find_char_from: "c \<notin> set xs \<Longrightarrow> find_from [c] (ps @ xs @ c # ys) (length ps) = Some (length ps + length xs)"
  by (simp add: find_from_def find_char_prefix)

definition is_prefix :: "byte list \<Rightarrow> byte list \<Rightarrow> bool" where
  "is_prefix pat s \<longleftrightarrow> take (length pat) s = pat"

text \<open>
  \<open>s.find_first_not_of(ch, k)\<close>, and \<open>s.substr(k, n)\<close> for a position \<open>k\<close> inside the string.
\<close>

definition find_first_not_of :: "byte \<Rightarrow> byte list \<Rightarrow> nat \<Rightarrow> nat option" where
  "find_first_not_of c s k =
     (let n = length (takeWhile (\<lambda>x. x = c) (drop k s)) in if k + n < length s then Some (k + n) else None)"

definition substr :: "byte list \<Rightarrow> nat \<Rightarrow> nat \<Rightarrow> byte list" where
  "substr s k n = take n (drop k s)"

definition CRLF :: "byte list" where "CRLF = [13, 10]"

section \<open>Numbers\<close>

definition atoi_c :: "byte list \<Rightarrow> int" where
  "atoi_c s = atoi (map unat (c_str s))"

definition show_nat :: "nat \<Rightarrow> byte list" where
  "show_nat n = map of_nat (udec n)"

definition show_int :: "int \<Rightarrow> byte list" where
  "show_int i = (if i < 0 then str ''-'' else []) @ show_nat (nat \<bar>i\<bar>)"

lemma udec_bytes: "list_all (\<lambda>c. 48 \<le> c \<and> c \<le> 57) (udec n)"
  using udec_digits [of n] by (simp add: c_isdigit_def [abs_def])

lemma show_nat_digit: "c \<in> set (show_nat n) \<Longrightarrow> 48 \<le> c \<and> c \<le> 57"
  using udec_bytes [of n] by (auto simp: show_nat_def list_all_iff word_le_nat_alt unat_of_nat)

lemma show_nat_nonempty [simp]: "show_nat n \<noteq> []"
  by (simp add: show_nat_def)

lemma nul_free_show_nat [simp]: "nul_free (show_nat n)"
  using show_nat_digit [of _ n] by (fastforce simp: nul_free_def list_all_iff)

lemma unat_show_nat: "map unat (show_nat n) = udec n"
proof -
  have "unat (of_nat c :: byte) = c" if "c \<in> set (udec n)" for c
    using that udec_bytes [of n] by (auto simp: list_all_iff unat_of_nat)
  then show ?thesis by (simp add: show_nat_def map_idI)
qed

lemma atoi_show_nat [simp]: "n < 2 ^ 31 \<Longrightarrow> atoi_c (show_nat n) = int n"
  by (simp add: atoi_c_def unat_show_nat atoi_udec)

lemma atoi_c_bounds: "- (2 ^ 31) \<le> atoi_c s \<and> atoi_c s < 2 ^ 31"
  by (auto simp: atoi_c_def atoi_def clamp_int_def split: list.split)

end
