(* ===== verification/Evutil.thy ===== *)
theory Evutil
  imports C_Strings
begin

text \<open>
  The character functions of evutil.c: the eight 256-bit class tables and the lookup in them,
  the two case tables, and the case-insensitive comparisons built on them.  Each table is
  written as the source writes it; \<open>char\<close> is signed, so the comparisons are signed.
\<close>

section \<open>Character classes\<close>

definition EVUTIL_ISALPHA_TABLE :: "u32 list" where
  "EVUTIL_ISALPHA_TABLE = [0, 0, 0x7fffffe, 0x7fffffe, 0, 0, 0, 0]"

definition EVUTIL_ISALNUM_TABLE :: "u32 list" where
  "EVUTIL_ISALNUM_TABLE = [0, 0x3ff0000, 0x7fffffe, 0x7fffffe, 0, 0, 0, 0]"

definition EVUTIL_ISSPACE_TABLE :: "u32 list" where
  "EVUTIL_ISSPACE_TABLE = [0x3e00, 0x1, 0, 0, 0, 0, 0, 0]"

definition EVUTIL_ISXDIGIT_TABLE :: "u32 list" where
  "EVUTIL_ISXDIGIT_TABLE = [0, 0x3ff0000, 0x7e, 0x7e, 0, 0, 0, 0]"

definition EVUTIL_ISDIGIT_TABLE :: "u32 list" where
  "EVUTIL_ISDIGIT_TABLE = [0, 0x3ff0000, 0, 0, 0, 0, 0, 0]"

definition EVUTIL_ISPRINT_TABLE :: "u32 list" where
  "EVUTIL_ISPRINT_TABLE = [0, 0xffffffff, 0xffffffff, 0x7fffffff, 0, 0, 0, 0x0]"

definition EVUTIL_ISUPPER_TABLE :: "u32 list" where
  "EVUTIL_ISUPPER_TABLE = [0, 0, 0x7fffffe, 0, 0, 0, 0, 0]"

definition EVUTIL_ISLOWER_TABLE :: "u32 list" where
  "EVUTIL_ISLOWER_TABLE = [0, 0, 0, 0x7fffffe, 0, 0, 0, 0]"

definition table_bit :: "u32 list \<Rightarrow> byte \<Rightarrow> bool" where
  "table_bit table u = bit (table ! (unat u div 32)) (unat u mod 32)"

definition EVUTIL_ISALPHA :: "byte \<Rightarrow> bool" where "EVUTIL_ISALPHA = table_bit EVUTIL_ISALPHA_TABLE"
definition EVUTIL_ISALNUM :: "byte \<Rightarrow> bool" where "EVUTIL_ISALNUM = table_bit EVUTIL_ISALNUM_TABLE"
definition EVUTIL_ISSPACE :: "byte \<Rightarrow> bool" where "EVUTIL_ISSPACE = table_bit EVUTIL_ISSPACE_TABLE"
definition EVUTIL_ISXDIGIT :: "byte \<Rightarrow> bool" where "EVUTIL_ISXDIGIT = table_bit EVUTIL_ISXDIGIT_TABLE"
definition EVUTIL_ISDIGIT :: "byte \<Rightarrow> bool" where "EVUTIL_ISDIGIT = table_bit EVUTIL_ISDIGIT_TABLE"
definition EVUTIL_ISPRINT :: "byte \<Rightarrow> bool" where "EVUTIL_ISPRINT = table_bit EVUTIL_ISPRINT_TABLE"
definition EVUTIL_ISUPPER :: "byte \<Rightarrow> bool" where "EVUTIL_ISUPPER = table_bit EVUTIL_ISUPPER_TABLE"
definition EVUTIL_ISLOWER :: "byte \<Rightarrow> bool" where "EVUTIL_ISLOWER = table_bit EVUTIL_ISLOWER_TABLE"

section \<open>Case tables\<close>

definition EVUTIL_TOUPPER_TABLE :: "nat list" where
  "EVUTIL_TOUPPER_TABLE =
  [0,1,2,3,4,5,6,7,8,9,10,11,12,13,14,15,
   16,17,18,19,20,21,22,23,24,25,26,27,28,29,30,31,
   32,33,34,35,36,37,38,39,40,41,42,43,44,45,46,47,
   48,49,50,51,52,53,54,55,56,57,58,59,60,61,62,63,
   64,65,66,67,68,69,70,71,72,73,74,75,76,77,78,79,
   80,81,82,83,84,85,86,87,88,89,90,91,92,93,94,95,
   96,65,66,67,68,69,70,71,72,73,74,75,76,77,78,79,
   80,81,82,83,84,85,86,87,88,89,90,123,124,125,126,127,
   128,129,130,131,132,133,134,135,136,137,138,139,140,141,142,143,
   144,145,146,147,148,149,150,151,152,153,154,155,156,157,158,159,
   160,161,162,163,164,165,166,167,168,169,170,171,172,173,174,175,
   176,177,178,179,180,181,182,183,184,185,186,187,188,189,190,191,
   192,193,194,195,196,197,198,199,200,201,202,203,204,205,206,207,
   208,209,210,211,212,213,214,215,216,217,218,219,220,221,222,223,
   224,225,226,227,228,229,230,231,232,233,234,235,236,237,238,239,
   240,241,242,243,244,245,246,247,248,249,250,251,252,253,254,255]"

definition EVUTIL_TOLOWER_TABLE :: "nat list" where
  "EVUTIL_TOLOWER_TABLE =
  [0,1,2,3,4,5,6,7,8,9,10,11,12,13,14,15,
   16,17,18,19,20,21,22,23,24,25,26,27,28,29,30,31,
   32,33,34,35,36,37,38,39,40,41,42,43,44,45,46,47,
   48,49,50,51,52,53,54,55,56,57,58,59,60,61,62,63,
   64,97,98,99,100,101,102,103,104,105,106,107,108,109,110,111,
   112,113,114,115,116,117,118,119,120,121,122,91,92,93,94,95,
   96,97,98,99,100,101,102,103,104,105,106,107,108,109,110,111,
   112,113,114,115,116,117,118,119,120,121,122,123,124,125,126,127,
   128,129,130,131,132,133,134,135,136,137,138,139,140,141,142,143,
   144,145,146,147,148,149,150,151,152,153,154,155,156,157,158,159,
   160,161,162,163,164,165,166,167,168,169,170,171,172,173,174,175,
   176,177,178,179,180,181,182,183,184,185,186,187,188,189,190,191,
   192,193,194,195,196,197,198,199,200,201,202,203,204,205,206,207,
   208,209,210,211,212,213,214,215,216,217,218,219,220,221,222,223,
   224,225,226,227,228,229,230,231,232,233,234,235,236,237,238,239,
   240,241,242,243,244,245,246,247,248,249,250,251,252,253,254,255]"

definition EVUTIL_TOLOWER :: "byte \<Rightarrow> byte" where
  "EVUTIL_TOLOWER c = of_nat (EVUTIL_TOLOWER_TABLE ! unat c)"

definition EVUTIL_TOUPPER :: "byte \<Rightarrow> byte" where
  "EVUTIL_TOUPPER c = of_nat (EVUTIL_TOUPPER_TABLE ! unat c)"

text \<open>The tables say what their names say; each fact is one evaluation over all bytes.\<close>

lemma unat_byte_less: "unat (c :: byte) < 256"
proof -
  have "unat c < 2 ^ LENGTH(8)" by (rule unsigned_less)
  then show ?thesis by simp
qed

lemma byte_exhaust: "list_all P [0..<256] \<Longrightarrow> P (unat (c :: byte))"
  using unat_byte_less [of c] by (simp add: list_all_iff)

lemma TOLOWER_table: "EVUTIL_TOLOWER_TABLE = [0..<65] @ [97..<123] @ [91..<256]"
proof -
  have "[0..<65] = 0 # 1 # [2..<65::nat]" by (simp add: upt_rec)
  then show ?thesis by (simp add: EVUTIL_TOLOWER_TABLE_def upt_rec_numeral)
qed

lemma EVUTIL_TOLOWER_spec:
  "unat (EVUTIL_TOLOWER c) = (if 65 \<le> unat c \<and> unat c \<le> 90 then unat c + 32 else unat c)"
proof -
  have "EVUTIL_TOLOWER_TABLE ! unat c = (if 65 \<le> unat c \<and> unat c \<le> 90 then unat c + 32 else unat c)"
    unfolding TOLOWER_table using unat_byte_less [of c]
    by (auto simp: nth_append simp del: upt_rec_numeral)
  with unat_byte_less [of c] show ?thesis
    by (simp add: EVUTIL_TOLOWER_def unat_of_nat)
qed

text \<open>The words of the class tables are runs of bits.\<close>

lemma table_bit_split:
  obtains k j where "unat c = 32 * k + j" and "j < 32" and "k \<in> {0, 1, 2, 3, 4, 5, 6, 7}"
    and "table_bit table c = bit (table ! k) j"
proof
  have k: "unat c div 32 < 8" using unat_byte_less [of c] by linarith
  show "unat c = 32 * (unat c div 32) + unat c mod 32" by simp
  show "unat c mod 32 < 32" by simp
  show "unat c div 32 \<in> {0, 1, 2, 3, 4, 5, 6, 7}" using k by auto
  show "table_bit table c = bit (table ! (unat c div 32)) (unat c mod 32)" by (simp add: table_bit_def)
qed

lemma bit_runs:
  "(0x3ff0000 :: int) = push_bit 16 (mask 10)" "(0x7fffffe :: int) = push_bit 1 (mask 26)"
  "(0x7e :: int) = push_bit 1 (mask 6)"
  by (simp_all add: mask_eq_exp_minus_1 push_bit_eq_mult)

lemma bit_class_words:
  "bit (0x3ff0000 :: int) j \<longleftrightarrow> 16 \<le> j \<and> j < 26" "bit (0x7fffffe :: int) j \<longleftrightarrow> 1 \<le> j \<and> j < 27"
  "bit (0x7e :: int) j \<longleftrightarrow> 1 \<le> j \<and> j < 7"
  unfolding bit_runs bit_push_bit_iff bit_mask_iff by auto

lemma EVUTIL_ISXDIGIT_spec [code]:
  "EVUTIL_ISXDIGIT c \<longleftrightarrow> 48 \<le> unat c \<and> unat c \<le> 57 \<or> 65 \<le> unat c \<and> unat c \<le> 70 \<or> 97 \<le> unat c \<and> unat c \<le> 102"
proof -
  obtain k j where kj: "unat c = 32 * k + j" "j < 32" and k: "k \<in> {0, 1, 2, 3, 4, 5, 6, 7}"
    and bit: "table_bit EVUTIL_ISXDIGIT_TABLE c = bit (EVUTIL_ISXDIGIT_TABLE ! k) j"
    by (rule table_bit_split)
  from k kj(2) show ?thesis
    unfolding EVUTIL_ISXDIGIT_def bit unfolding EVUTIL_ISXDIGIT_TABLE_def kj(1)
    by (elim insertE emptyE) (simp_all add: bit_class_words, arith+)
qed

lemma EVUTIL_ISDIGIT_spec [code]: "EVUTIL_ISDIGIT c \<longleftrightarrow> 48 \<le> unat c \<and> unat c \<le> 57"
proof -
  obtain k j where kj: "unat c = 32 * k + j" "j < 32" and k: "k \<in> {0, 1, 2, 3, 4, 5, 6, 7}"
    and bit: "table_bit EVUTIL_ISDIGIT_TABLE c = bit (EVUTIL_ISDIGIT_TABLE ! k) j"
    by (rule table_bit_split)
  from k kj(2) show ?thesis
    unfolding EVUTIL_ISDIGIT_def bit unfolding EVUTIL_ISDIGIT_TABLE_def kj(1)
    by (elim insertE emptyE) (simp_all add: bit_class_words, arith+)
qed

lemma EVUTIL_TOLOWER_code [code]: "EVUTIL_TOLOWER c = (if 65 \<le> unat c \<and> unat c \<le> 90 then c + 32 else c)"
proof -
  have "unat (if 65 \<le> unat c \<and> unat c \<le> 90 then c + 32 else c) = unat (EVUTIL_TOLOWER c)"
    using unat_byte_less [of c] by (simp add: EVUTIL_TOLOWER_spec unat_word_ariths)
  then show ?thesis by (simp only: word_unat_eq_iff)
qed

lemma EVUTIL_TOLOWER_eq_0 [simp]: "EVUTIL_TOLOWER c = 0 \<longleftrightarrow> c = 0"
  using EVUTIL_TOLOWER_spec [of c] by (auto simp: unat_eq_0 [symmetric] split: if_splits)

lemma EVUTIL_TOLOWER_0 [simp]: "EVUTIL_TOLOWER 0 = 0"
  by simp

section \<open>Case-insensitive comparison\<close>

function evutil_ascii_strcasecmp :: "byte list \<Rightarrow> byte list \<Rightarrow> int" where
  "evutil_ascii_strcasecmp s1 s2 =
     (let c1 = EVUTIL_TOLOWER (peek s1); c2 = EVUTIL_TOLOWER (peek s2) in
      if sint c1 < sint c2 then -1
      else if sint c1 > sint c2 then 1
      else if c1 = 0 then 0
      else evutil_ascii_strcasecmp (tl s1) (tl s2))"
  by pat_completeness auto
termination
  by (relation "measure (\<lambda>(s1, _). length s1)") (auto simp: peek_def split: list.splits)

declare evutil_ascii_strcasecmp.simps [simp del]

fun evutil_ascii_strncasecmp :: "byte list \<Rightarrow> byte list \<Rightarrow> nat \<Rightarrow> int" where
  "evutil_ascii_strncasecmp s1 s2 0 = 0"
| "evutil_ascii_strncasecmp s1 s2 (Suc n) =
     (let c1 = EVUTIL_TOLOWER (peek s1); c2 = EVUTIL_TOLOWER (peek s2) in
      if sint c1 < sint c2 then -1
      else if sint c1 > sint c2 then 1
      else if c1 = 0 then 0
      else evutil_ascii_strncasecmp (tl s1) (tl s2) n)"

text \<open>
  The comparison as a reference definition: the first difference of the lower-cased strings,
  as signed characters, with the terminating NUL at the end of each.
\<close>

fun first_difference :: "byte list \<Rightarrow> byte list \<Rightarrow> int" where
  "first_difference [] [] = 0"
| "first_difference [] (d # ds) = (if sint d < 0 then 1 else -1)"
| "first_difference (c # cs) [] = (if sint c < 0 then -1 else 1)"
| "first_difference (c # cs) (d # ds) =
     (if c = d then first_difference cs ds else if sint c < sint d then -1 else 1)"

lemma sint_eq_iff: "sint (c :: byte) = sint d \<longleftrightarrow> c = d"
  by (metis signed_word_eqI)

lemma sint_eq_0: "sint (c :: byte) = 0 \<longleftrightarrow> c = 0"
  using sint_eq_iff [of c 0] by simp

lemma strcasecmp_first_difference:
  "nul_free s1 \<Longrightarrow> nul_free s2 \<Longrightarrow>
   evutil_ascii_strcasecmp s1 s2 = first_difference (map EVUTIL_TOLOWER s1) (map EVUTIL_TOLOWER s2)"
proof (induction s1 s2 rule: evutil_ascii_strcasecmp.induct)
  case (1 s1 s2)
  show ?case
  proof (cases s1)
    case Nil
    then show ?thesis
      using 1(3) by (subst evutil_ascii_strcasecmp.simps)
        (cases s2; auto simp: Let_def not_less order.order_iff_strict sint_eq_0)
  next
    case c: (Cons c cs)
    show ?thesis
    proof (cases s2)
      case Nil
      then show ?thesis
        using 1(2) c by (subst evutil_ascii_strcasecmp.simps)
          (auto simp: Let_def not_less order.order_iff_strict sint_eq_0)
    next
      case d: (Cons d ds)
      have "evutil_ascii_strcasecmp cs ds = first_difference (map EVUTIL_TOLOWER cs) (map EVUTIL_TOLOWER ds)"
        if "EVUTIL_TOLOWER c = EVUTIL_TOLOWER d"
        using 1(1) [OF refl refl] 1(2,3) c d that by simp
      then show ?thesis
        using 1(2) c d by (subst evutil_ascii_strcasecmp.simps)
          (auto simp: Let_def sint_eq_iff [of "EVUTIL_TOLOWER c"] sint_eq_0 dest: order.antisym)
    qed
  qed
qed

lemma strncasecmp_first_difference:
  "nul_free s1 \<Longrightarrow> nul_free s2 \<Longrightarrow>
   evutil_ascii_strncasecmp s1 s2 n = first_difference (map EVUTIL_TOLOWER (take n s1)) (map EVUTIL_TOLOWER (take n s2))"
proof (induction s1 s2 n rule: evutil_ascii_strncasecmp.induct)
  case (2 s1 s2 n)
  show ?case
  proof (cases s1)
    case Nil
    then show ?thesis
      using 2(3) by (cases s2) (auto simp: Let_def not_less order.order_iff_strict sint_eq_0)
  next
    case c: (Cons c cs)
    show ?thesis
    proof (cases s2)
      case Nil
      then show ?thesis using 2(2) c by (auto simp: Let_def not_less order.order_iff_strict sint_eq_0)
    next
      case d: (Cons d ds)
      have "evutil_ascii_strncasecmp cs ds n = first_difference (map EVUTIL_TOLOWER (take n cs)) (map EVUTIL_TOLOWER (take n ds))"
        if "EVUTIL_TOLOWER c = EVUTIL_TOLOWER d"
        using 2(1) [OF refl refl] 2(2,3) c d that by simp
      then show ?thesis
        using 2(2) c d
        by (auto simp: Let_def sint_eq_iff [of "EVUTIL_TOLOWER c"] sint_eq_0 dest: order.antisym)
    qed
  qed
qed simp



end
