(* ===== verification/Evhttp_Headers.thy ===== *)
theory Evhttp_Headers
  imports Evutil
begin

text \<open>
  The header lists of libevent's http.c, which the tracker and both tracker clients use for
  HTTP headers and for query parameters: \<open>struct evkeyvalq\<close> is a tail queue of key/value
  pairs, searched from the front without regard to case.  Memory allocation is taken to
  succeed.  The locale \<open>header_list\<close> states what the users of such a list rely on; it is
  interpreted on the model of the source.
\<close>

type_synonym evkeyvalq = "(byte list \<times> byte list) list"

section \<open>Operations\<close>

fun evhttp_find_header :: "evkeyvalq \<Rightarrow> byte list \<Rightarrow> byte list option" where
  "evhttp_find_header [] key = None"
| "evhttp_find_header (header # headers) key =
     (if evutil_ascii_strcasecmp (fst header) key = 0 then Some (snd header)
      else evhttp_find_header headers key)"

definition evhttp_clear_headers :: "evkeyvalq \<Rightarrow> evkeyvalq" where
  "evhttp_clear_headers headers = []"

fun evhttp_remove_header :: "evkeyvalq \<Rightarrow> byte list \<Rightarrow> int \<times> evkeyvalq" where
  "evhttp_remove_header [] key = (-1, [])"
| "evhttp_remove_header (header # headers) key =
     (if evutil_ascii_strcasecmp (fst header) key = 0 then (0, headers)
      else map_prod id ((#) header) (evhttp_remove_header headers key))"

definition is_crlf :: "byte \<Rightarrow> bool" where
  "is_crlf c \<longleftrightarrow> c = 13 \<or> c = 10"

function evhttp_header_is_valid_value :: "byte list \<Rightarrow> bool" where
  "evhttp_header_is_valid_value value =
     (case dropWhile (\<lambda>c. \<not> is_crlf c) value of
        [] \<Rightarrow> True
      | p \<Rightarrow> let p = dropWhile is_crlf p in
          if peek p \<noteq> 32 \<and> peek p \<noteq> 9 then False else evhttp_header_is_valid_value p)"
  by pat_completeness auto
termination
proof (relation "measure length", goal_cases)
  case (2 "value" c cs x)
  have "is_crlf c" using 2(1) by (metis dropWhile_eq_Cons_conv)
  moreover have "length (c # cs) \<le> length value" by (metis 2(1) length_dropWhile_le)
  ultimately show ?case
    using 2(2) length_dropWhile_le [of is_crlf cs] by simp
qed simp

declare evhttp_header_is_valid_value.simps [simp del]

definition evhttp_add_header_internal :: "evkeyvalq \<Rightarrow> byte list \<Rightarrow> byte list \<Rightarrow> int \<times> evkeyvalq" where
  "evhttp_add_header_internal headers key value = (0, headers @ [(key, value)])"

definition evhttp_add_header :: "evkeyvalq \<Rightarrow> byte list \<Rightarrow> byte list \<Rightarrow> int \<times> evkeyvalq" where
  "evhttp_add_header headers key value =
     (if 13 \<in> set key \<or> 10 \<in> set key then (-1, headers)
      else if \<not> evhttp_header_is_valid_value value then (-1, headers)
      else evhttp_add_header_internal headers key value)"

section \<open>Keys\<close>

definition same_key :: "byte list \<Rightarrow> byte list \<Rightarrow> bool" where
  "same_key k1 k2 \<longleftrightarrow> map EVUTIL_TOLOWER k1 = map EVUTIL_TOLOWER k2"

lemma first_difference_0: "0 \<notin> set xs \<Longrightarrow> 0 \<notin> set ys \<Longrightarrow> first_difference xs ys = 0 \<longleftrightarrow> xs = ys"
  by (induction xs ys rule: first_difference.induct) (auto split: if_splits)

lemma strcasecmp_same_key:
  "nul_free k1 \<Longrightarrow> nul_free k2 \<Longrightarrow> evutil_ascii_strcasecmp k1 k2 = 0 \<longleftrightarrow> same_key k1 k2"
  by (subst strcasecmp_first_difference, assumption, assumption, subst first_difference_0)
    (auto simp: same_key_def nul_free_def list_all_iff image_iff)

lemma valid_value_no_crlf: "13 \<notin> set v \<Longrightarrow> 10 \<notin> set v \<Longrightarrow> evhttp_header_is_valid_value v"
proof -
  assume "13 \<notin> set v" "10 \<notin> set v"
  then have "dropWhile (\<lambda>c. \<not> is_crlf c) v = []"
    by (auto simp: is_crlf_def dropWhile_eq_Nil_conv)
  then show ?thesis by (subst evhttp_header_is_valid_value.simps) (simp del: dropWhile_eq_Nil_conv)
qed

definition keys_nul_free :: "evkeyvalq \<Rightarrow> bool" where
  "keys_nul_free headers \<longleftrightarrow> list_all (\<lambda>h. nul_free (fst h)) headers"

definition plain :: "byte list \<Rightarrow> bool" where
  "plain s \<longleftrightarrow> nul_free s \<and> 13 \<notin> set s \<and> 10 \<notin> set s"

lemma evhttp_find_header_append:
  "evhttp_find_header (hs @ hs') key =
     (case evhttp_find_header hs key of Some v \<Rightarrow> Some v | None \<Rightarrow> evhttp_find_header hs' key)"
  by (induction hs) auto

lemma evhttp_add_header_plain:
  "plain key \<Longrightarrow> plain value \<Longrightarrow> evhttp_add_header hs key value = (0, hs @ [(key, value)])"
  by (simp add: evhttp_add_header_def plain_def valid_value_no_crlf evhttp_add_header_internal_def)

lemma find_header_map_of:
  "keys_nul_free hs \<Longrightarrow> nul_free key \<Longrightarrow>
   evhttp_find_header hs key = map_of (map (\<lambda>(k, v). (map EVUTIL_TOLOWER k, v)) hs) (map EVUTIL_TOLOWER key)"
  by (induction hs) (auto simp: keys_nul_free_def strcasecmp_same_key same_key_def split: prod.split)

section \<open>The interface\<close>

locale header_list =
  fixes find :: "'h \<Rightarrow> 'k \<Rightarrow> 'v option"
    and add :: "'h \<Rightarrow> 'k \<Rightarrow> 'v \<Rightarrow> int \<times> 'h"
    and remove :: "'h \<Rightarrow> 'k \<Rightarrow> int \<times> 'h"
    and empty :: 'h
    and same :: "'k \<Rightarrow> 'k \<Rightarrow> bool"
    and ok :: "'h \<Rightarrow> bool"
    and good_key :: "'k \<Rightarrow> bool"
    and good_value :: "'v \<Rightarrow> bool"
  assumes find_empty: "find empty k = None"
    and ok_empty: "ok empty"
    and add_ok: "good_key k \<Longrightarrow> good_value v \<Longrightarrow> ok h \<Longrightarrow> fst (add h k v) = 0 \<and> ok (snd (add h k v))"
    and find_add: "good_key k \<Longrightarrow> good_value v \<Longrightarrow> good_key k' \<Longrightarrow> ok h \<Longrightarrow>
      find (snd (add h k v)) k' =
        (case find h k' of Some w \<Rightarrow> Some w | None \<Rightarrow> if same k k' then Some v else None)"
    and remove_ok: "good_key k \<Longrightarrow> ok h \<Longrightarrow> ok (snd (remove h k)) \<and> (fst (remove h k) = 0 \<longleftrightarrow> find h k \<noteq> None)"
    and find_remove: "good_key k \<Longrightarrow> good_key k' \<Longrightarrow> ok h \<Longrightarrow> \<not> same k k' \<Longrightarrow>
      find (snd (remove h k)) k' = find h k'"
begin

fun add_all :: "'h \<Rightarrow> ('k \<times> 'v) list \<Rightarrow> 'h" where
  "add_all h [] = h"
| "add_all h (kv # kvs) = add_all (snd (add h (fst kv) (snd kv))) kvs"

lemma find_add_all:
  assumes "ok h" and "\<forall>(k, v) \<in> set kvs. good_key k \<and> good_value v" and "good_key k'"
  shows "ok (add_all h kvs) \<and> find (add_all h kvs) k' =
    (case find h k' of Some w \<Rightarrow> Some w | None \<Rightarrow> map_option snd (List.find (\<lambda>kv. same (fst kv) k') kvs))"
  using assms by (induction kvs arbitrary: h)
    (auto simp: find_add add_ok split: option.split prod.splits)

end

lemma find_header_remove:
  assumes "keys_nul_free hs" and "nul_free k" "nul_free k'" and "\<not> same_key k k'"
  shows "evhttp_find_header (snd (evhttp_remove_header hs k)) k' = evhttp_find_header hs k'"
  using assms
  by (induction hs) (auto simp: keys_nul_free_def strcasecmp_same_key same_key_def)

lemma remove_header_result:
  "keys_nul_free hs \<Longrightarrow> keys_nul_free (snd (evhttp_remove_header hs k))
   \<and> (fst (evhttp_remove_header hs k) = 0 \<longleftrightarrow> evhttp_find_header hs k \<noteq> None)"
  by (induction hs) (auto simp: keys_nul_free_def)

interpretation evh: header_list evhttp_find_header evhttp_add_header evhttp_remove_header "[]" same_key
    keys_nul_free plain plain
proof (unfold_locales, goal_cases)
  case (3 k v h)
  then show ?case by (simp add: evhttp_add_header_plain keys_nul_free_def plain_def)
next
  case (4 k v k' h)
  then show ?case
    by (auto simp: evhttp_add_header_plain evhttp_find_header_append strcasecmp_same_key plain_def split: option.split)
next
  case (5 k h)
  then show ?case using remove_header_result by blast
next
  case (6 k k' h)
  then show ?case by (intro find_header_remove) (simp_all add: plain_def)
qed (simp_all add: keys_nul_free_def)

end
