(* ===== verification/Http_Buffer.thy ===== *)
theory Http_Buffer
  imports Evhttp_Headers
begin

text \<open>
  The HTTP receive buffer that CHttpClientConnection (P2PTracker) and the two classes
  CP2PTrackerClient share in the source by copies of one text: first line, header lines,
  body by \<open>Content-Length\<close>.  The header part is here; the classes' own functions are in
  their theories.  What their handlers are told is the list of events a decoder returns, in
  the order of the calls; the member with the body is set only during the call it is passed
  to, and is part of that event.  The locale \<open>http_class\<close> states how the functions of such a class
  call one another and gives the lemmas on a complete message; \<open>http_monotone\<close> adds the law
  of the first line under which a message may arrive in any pieces.
\<close>

section \<open>State and events\<close>

datatype HTTP_BUFFER_STATE = HBS_READY | HBS_HEADER | HBS_BODY

record 'l http_buf =
  hb_state :: HTTP_BUFFER_STATE
  hb_line :: 'l
  hb_buf :: "byte list"
  hb_headers :: evkeyvalq

datatype 'l http_event =
    Bad_line
  | Header_block evkeyvalq
  | Message 'l evkeyvalq "byte list"

definition hb_clear :: "'l \<Rightarrow> 'l http_buf" where
  "hb_clear l = \<lparr>hb_state = HBS_READY, hb_line = l, hb_buf = [], hb_headers = evhttp_clear_headers []\<rparr>"

definition hb_append :: "byte list \<Rightarrow> 'l http_buf \<Rightarrow> 'l http_buf" where
  "hb_append data d = d\<lparr>hb_buf := hb_buf d @ data\<rparr>"

definition emit :: "'e list \<Rightarrow> 'd \<times> 'e list \<Rightarrow> 'd \<times> 'e list" where
  "emit evs r = (fst r, evs @ snd r)"

section \<open>Header lines\<close>

definition COLON :: byte where "COLON = 58"

definition DecodeOneHeader :: "byte list \<Rightarrow> evkeyvalq \<Rightarrow> evkeyvalq" where
  "DecodeOneHeader strOneHeader headers =
     (case find_str [COLON] strOneHeader of
        None \<Rightarrow> headers
      | Some pos \<Rightarrow>
          if pos > 0 then
            (case find_first_not_of 32 strOneHeader (pos + 1) of
               None \<Rightarrow> headers
             | Some pos1 \<Rightarrow>
                 let strKey = take pos strOneHeader; strValue = drop pos1 strOneHeader
                 in snd (evhttp_add_header headers (c_str strKey) (c_str strValue)))
          else headers)"

text \<open>The loop of \<open>DecodeHeader\<close> over the lines up to the end of the header at \<open>pos\<close>.\<close>

function header_lines :: "byte list \<Rightarrow> nat \<Rightarrow> nat \<Rightarrow> evkeyvalq \<Rightarrow> evkeyvalq" where
  "header_lines buf pos pos_begin headers =
     (case find_from CRLF buf pos_begin of
        None \<Rightarrow> headers
      | Some pos1 \<Rightarrow>
          if pos1 \<le> pos
          then header_lines buf pos (pos1 + 2) (DecodeOneHeader (substr buf pos_begin (pos1 - pos_begin)) headers)
          else headers)"
  by pat_completeness auto
termination
  by (relation "measure (\<lambda>(buf, pos, pos_begin, headers). Suc pos - pos_begin)") (auto dest: find_from_SomeD)

declare header_lines.simps [simp del]

text \<open>The length of the body; the cast of a negative one to \<open>size_t\<close> takes all there is.\<close>

definition content_length :: "evkeyvalq \<Rightarrow> int" where
  "content_length headers =
     (case evhttp_find_header headers (str ''Content-Length'') of
        Some v \<Rightarrow> if v \<noteq> [] then atoi_c v else 0
      | None \<Rightarrow> 0)"

definition body_bytes :: "int \<Rightarrow> byte list \<Rightarrow> nat" where
  "body_bytes n buf = (if n < 0 then length buf else nat n)"

section \<open>Lines without a carriage return\<close>

definition line_block :: "byte list list \<Rightarrow> byte list" where
  "line_block ls = concat (map (\<lambda>l. l @ CRLF) ls)"

lemma line_block_simps [simp]: "line_block [] = []" "line_block (l # ls) = l @ CRLF @ line_block ls"
  by (simp_all add: line_block_def)

lemma find_skip: "c \<notin> set xs \<Longrightarrow> find_str (c # pat) (xs @ s) = map_option ((+) (length xs)) (find_str (c # pat) s)"
proof (induction xs)
  case Nil
  then show ?case by (cases "find_str (c # pat) s") simp_all
next
  case (Cons x xs)
  then show ?case by (cases "find_str (c # pat) s") auto
qed

lemma find_CRLF: "13 \<notin> set l \<Longrightarrow> find_str CRLF (l @ CRLF @ s) = Some (length l)"
  by (simp add: CRLF_def find_skip)

definition header_line :: "byte list \<Rightarrow> bool" where
  "header_line l \<longleftrightarrow> l \<noteq> [] \<and> 13 \<notin> set l"

lemma find_header_end:
  assumes "ls \<noteq> []" and "list_all header_line ls"
  shows "find_str (CRLF @ CRLF) (line_block ls @ CRLF @ rest) = Some (length (line_block ls) - 2)"
  using assms
proof (induction ls)
  case (Cons l ls)
  then have l: "13 \<notin> set l" and ls: "list_all header_line ls" by (simp_all add: header_line_def [of l])
  have skip: "find_str (CRLF @ CRLF) (l @ CRLF @ s) = map_option ((+) (length l)) (find_str (CRLF @ CRLF) (CRLF @ s))" for s
    using l by (simp add: CRLF_def find_skip del: find_str.simps)
  show ?case
  proof (cases ls)
    case Nil
    have "find_str (CRLF @ CRLF) (CRLF @ CRLF @ rest) = Some 0" by (simp add: CRLF_def)
    then show ?thesis using Nil skip [of "CRLF @ rest"] by (simp add: CRLF_def del: find_str.simps)
  next
    case (Cons l' ls')
    obtain c l'' where l': "l' = c # l''" "c \<noteq> 13"
      using ls Cons by (cases l') (auto simp: header_line_def)
    have "find_str (CRLF @ CRLF) (CRLF @ line_block ls @ CRLF @ rest)
        = map_option ((+) 2) (find_str (CRLF @ CRLF) (line_block ls @ CRLF @ rest))"
      using l' Cons by (simp add: CRLF_def option.map_comp comp_def)
    also have "\<dots> = Some (length (line_block ls))"
      using Cons.IH [OF _ ls] Cons by (simp add: CRLF_def)
    finally show ?thesis using skip [of "line_block ls @ CRLF @ rest"] by (simp add: CRLF_def)
  qed
qed simp

lemma header_lines_block:
  assumes "list_all header_line ls" and "pos + 2 = length pre + length (line_block ls)"
  shows "header_lines (pre @ line_block ls @ CRLF @ rest) pos (length pre) headers = fold DecodeOneHeader ls headers"
  using assms
proof (induction ls arbitrary: pre headers)
  case Nil
  have "find_from CRLF (pre @ CRLF @ rest) (length pre) = Some (length pre)"
    by (simp add: find_from_def CRLF_def)
  then show ?case using Nil by (subst header_lines.simps) simp
next
  case (Cons l ls)
  then have l: "13 \<notin> set l" and ls: "list_all header_line ls" by (simp_all add: header_line_def [of l])
  let ?buf = "pre @ l @ CRLF @ line_block ls @ CRLF @ rest"
  have f: "find_from CRLF ?buf (length pre) = Some (length pre + length l)"
    using l by (simp add: find_from_def find_CRLF)
  have s: "substr ?buf (length pre) (length l) = l" by (simp add: substr_def)
  have p: "length pre + length l \<le> pos" using Cons.prems(2) by (simp add: CRLF_def)
  have "pos + 2 = length (pre @ l @ CRLF) + length (line_block ls)" using Cons.prems(2) by simp
  from Cons.IH [OF ls this, of "DecodeOneHeader l headers"]
  have "header_lines ?buf pos (length (pre @ l @ CRLF)) (DecodeOneHeader l headers)
      = fold DecodeOneHeader ls (DecodeOneHeader l headers)"
    by simp
  then show ?case
    using f s p by (subst header_lines.simps) (simp add: CRLF_def ac_simps)
qed

text \<open>A line \<open>key: value\<close> gives that header.\<close>

lemma DecodeOneHeader_line:
  assumes "key \<noteq> []" and "plain key" and "COLON \<notin> set key" and "plain v" and "v \<noteq> []" and "hd v \<noteq> 32"
  shows "DecodeOneHeader (key @ COLON # replicate n 32 @ v) headers = headers @ [(key, v)]"
proof -
  let ?l = "key @ COLON # replicate n 32 @ v"
  have "takeWhile (\<lambda>x. x = 32) (drop (length key + 1) ?l) = replicate n 32"
    using assms(5,6) by (cases v; induction n) simp_all
  then have "find_first_not_of 32 ?l (length key + 1) = Some (length key + 1 + n)"
    using assms(5) by (simp add: find_first_not_of_def)
  moreover have "find_str [COLON] ?l = Some (length key)" using assms(3) by (rule find_char_prefix)
  ultimately show ?thesis
    using assms(1,2,4) by (simp add: DecodeOneHeader_def evhttp_add_header_plain plain_def)
qed

section \<open>Well-formed headers\<close>

text \<open>What a header list can hold, whatever was received: no line can be smuggled into it.\<close>

definition header_wf :: "byte list \<times> byte list \<Rightarrow> bool" where
  "header_wf h \<longleftrightarrow> nul_free (fst h) \<and> nul_free (snd h) \<and> 13 \<notin> set (fst h) \<and> 10 \<notin> set (fst h)
     \<and> evhttp_header_is_valid_value (snd h)"

lemma DecodeOneHeader_wf: "list_all header_wf hs \<Longrightarrow> list_all header_wf (DecodeOneHeader l hs)"
  by (auto simp: DecodeOneHeader_def Let_def evhttp_add_header_def evhttp_add_header_internal_def header_wf_def split: option.split)

lemma header_lines_wf: "list_all header_wf hs \<Longrightarrow> list_all header_wf (header_lines buf pos b hs)"
proof (induction buf pos b hs rule: header_lines.induct)
  case (1 buf pos b hs)
  then show ?case
    by (subst header_lines.simps) (auto simp: DecodeOneHeader_wf split: option.split)
qed

definition event_wf :: "('l \<Rightarrow> bool) \<Rightarrow> 'l http_event \<Rightarrow> bool" where
  "event_wf P e \<longleftrightarrow> (case e of Bad_line \<Rightarrow> True | Header_block hs \<Rightarrow> list_all header_wf hs
     | Message l hs b \<Rightarrow> P l \<and> list_all header_wf hs \<and> (0 \<le> content_length hs \<longrightarrow> int (length b) = content_length hs))"

definition buf_wf :: "('l \<Rightarrow> bool) \<Rightarrow> 'l http_buf \<Rightarrow> bool" where
  "buf_wf P d \<longleftrightarrow> list_all header_wf (hb_headers d) \<and> (hb_state d \<noteq> HBS_READY \<longrightarrow> P (hb_line d))"

section \<open>The classes\<close>

text \<open>What a class makes of the bytes before the header: wait for more, drop them, or go on.\<close>

datatype 'l first_line = Fl_wait 'l | Fl_bad | Fl_go 'l nat

definition clean :: "'l http_event list \<Rightarrow> bool" where
  "clean evs \<longleftrightarrow> list_all (\<lambda>e. case e of Bad_line \<Rightarrow> False | Header_block hs \<Rightarrow> True
     | Message l hs b \<Rightarrow> 0 \<le> content_length hs) evs"

lemma clean_simps [simp]:
  "clean []" "clean (Bad_line # es) = False" "clean (Header_block hs # es) = clean es"
  "clean (Message l hs b # es) \<longleftrightarrow> 0 \<le> content_length hs \<and> clean es" "clean (xs @ ys) \<longleftrightarrow> clean xs \<and> clean ys"
  by (simp_all add: clean_def)

lemma emit_simps [simp]: "fst (emit es r) = fst r" "snd (emit es r) = es @ snd r"
  "emit [] r = r" "emit es (emit es' r) = emit (es @ es') r"
  by (simp_all add: emit_def)

lemma hb_append_simps [simp]:
  "hb_buf (hb_append y d) = hb_buf d @ y" "hb_state (hb_append y d) = hb_state d" "hb_line (hb_append y d) = hb_line d"
  "hb_headers (hb_append y d) = hb_headers d" "hb_append [] d = d"
  "hb_append y (hb_append z d) = hb_append (z @ y) d"
  by (simp_all add: hb_append_def)

lemma hb_clear_simps [simp]:
  "hb_buf (hb_clear l) = []" "hb_state (hb_clear l) = HBS_READY" "hb_line (hb_clear l) = l" "hb_headers (hb_clear l) = []"
  by (simp_all add: hb_clear_def evhttp_clear_headers_def)

lemma hb_append_block:
  "hb_append y (d\<lparr>hb_headers := hs, hb_buf := b, hb_state := st\<rparr>) = d\<lparr>hb_headers := hs, hb_buf := b @ y, hb_state := st\<rparr>"
  by (cases d) (simp add: hb_append_def)

lemma header_lines_append:
  "b \<le> pos + 2 \<Longrightarrow> find_str (CRLF @ CRLF) buf = Some pos \<Longrightarrow>
   header_lines (buf @ y) pos b hs = header_lines buf pos b hs"
proof (induction buf pos b hs rule: header_lines.induct)
  case (1 buf pos b hs)
  have pos: "pos + 4 \<le> length buf" "take 4 (drop pos buf) = CRLF @ CRLF"
    using find_str_SomeD [OF 1(3)] by (simp_all add: CRLF_def numeral_eq_Suc)
  then have "take 2 (drop 2 (take 4 (drop pos buf))) = CRLF" by (simp add: CRLF_def)
  then have at: "take 2 (drop (pos + 2) buf) = CRLF" by (simp add: drop_take add.commute)
  have "take (length CRLF) (drop (pos + 2 - b) (drop b buf)) = CRLF"
    using at 1(2) by (simp add: CRLF_def numeral_2_eq_2)
  moreover have "pos + 2 - b + length CRLF \<le> length (drop b buf)"
    using pos(1) 1(2) by (simp add: CRLF_def)
  ultimately obtain k where k: "find_str CRLF (drop b buf) = Some k" "k \<le> pos + 2 - b"
    using find_str_complete [of "pos + 2 - b" CRLF "drop b buf"] by blast
  then have f: "find_from CRLF buf b = Some (b + k)" using 1(2) pos(1) by (simp add: find_from_def)
  then have "find_from CRLF (buf @ y) b = Some (b + k)" by (rule find_from_append)
  moreover have "substr (buf @ y) b k = substr buf b k"
    using k(2) 1(2) pos(1) by (simp add: substr_def)
  ultimately show ?case
    using f 1(1) [OF f _ _ 1(3)] by (subst (1 2) header_lines.simps) simp
qed

locale http_class =
  fixes first header body decode :: "'l http_buf \<Rightarrow> 'l http_buf \<times> 'l http_event list"
    and fl :: "'l \<Rightarrow> byte list \<Rightarrow> 'l first_line"
    and l0 :: 'l
  assumes first_eq: "first d =
      (case fl (hb_line d) (hb_buf d) of
         Fl_wait l \<Rightarrow> (d\<lparr>hb_line := l\<rparr>, [])
       | Fl_bad \<Rightarrow> (hb_clear l0, [Bad_line])
       | Fl_go l n \<Rightarrow> header (d\<lparr>hb_line := l, hb_state := HBS_HEADER, hb_buf := drop n (hb_buf d)\<rparr>))"
    and header_eq: "header d =
      (case find_str (CRLF @ CRLF) (hb_buf d) of
         None \<Rightarrow> (d, [])
       | Some pos \<Rightarrow>
           let hs = header_lines (hb_buf d) pos 0 (hb_headers d) in
           emit [Header_block hs]
             (body (d\<lparr>hb_headers := hs, hb_buf := drop (pos + 4) (hb_buf d), hb_state := HBS_BODY\<rparr>)))"
    and body_eq: "body d =
      (let n = content_length (hb_headers d); buf = hb_buf d in
       if n > int (length buf) then (d, [])
       else if n = int (length buf) then (hb_clear l0, [Message (hb_line d) (hb_headers d) buf])
       else let k = body_bytes n buf in
         emit [Message (hb_line d) (hb_headers d) (take k buf)] (first ((hb_clear l0)\<lparr>hb_buf := drop k buf\<rparr>)))"
    and decode_eq: "decode d =
      (case hb_state d of HBS_READY \<Rightarrow> first d | HBS_HEADER \<Rightarrow> header d | HBS_BODY \<Rightarrow> body d)"
    and fl_go: "fl l b = Fl_go l' n \<Longrightarrow> 0 < n \<and> n \<le> length b"
begin

text \<open>Whatever is received, every event is well formed.\<close>

lemma decode_wf_aux:
  assumes "\<And>l b l' n. fl l b = Fl_go l' n \<Longrightarrow> P l'"
  shows "buf_wf P d \<longrightarrow>
    (hb_state d = HBS_READY \<longrightarrow> buf_wf P (fst (first d)) \<and> list_all (event_wf P) (snd (first d)))
    \<and> (hb_state d = HBS_HEADER \<longrightarrow> buf_wf P (fst (header d)) \<and> list_all (event_wf P) (snd (header d)))
    \<and> (hb_state d = HBS_BODY \<longrightarrow> buf_wf P (fst (body d)) \<and> list_all (event_wf P) (snd (body d)))"
proof (induction "length (hb_buf d)" arbitrary: d rule: less_induct)
  case less
  let ?good = "\<lambda>r. buf_wf P (fst r) \<and> list_all (event_wf P) (snd r)"
  have clear: "buf_wf P (hb_clear l0)" by (simp add: buf_wf_def hb_clear_def evhttp_clear_headers_def)
  have first: "?good (first d')" if "buf_wf P d'" "hb_state d' = HBS_READY" "length (hb_buf d') \<le> length (hb_buf d)" for d'
  proof (cases "fl (hb_line d') (hb_buf d')")
    case (Fl_wait l)
    then show ?thesis using that by (simp add: first_eq buf_wf_def)
  next
    case Fl_bad
    then show ?thesis using clear by (simp add: first_eq event_wf_def)
  next
    case (Fl_go l n)
    let ?d = "d'\<lparr>hb_line := l, hb_state := HBS_HEADER, hb_buf := drop n (hb_buf d')\<rparr>"
    have "length (hb_buf ?d) < length (hb_buf d)" using fl_go [OF Fl_go] that(3) by auto
    moreover have "buf_wf P ?d" using that(1) assms [OF Fl_go] by (simp add: buf_wf_def)
    ultimately have "?good (header ?d)" using less [of ?d] by simp
    then show ?thesis using Fl_go by (simp add: first_eq)
  qed
  have header: "?good (header d)" if "buf_wf P d" "hb_state d = HBS_HEADER"
  proof (cases "find_str (CRLF @ CRLF) (hb_buf d)")
    case None
    then show ?thesis using that(1) by (simp add: header_eq [of d])
  next
    case (Some pos)
    let ?hs = "header_lines (hb_buf d) pos 0 (hb_headers d)"
    let ?d = "d\<lparr>hb_headers := ?hs, hb_buf := drop (pos + 4) (hb_buf d), hb_state := HBS_BODY\<rparr>"
    have "pos + 4 \<le> length (hb_buf d)" using find_str_SomeD [OF Some] by (simp add: CRLF_def)
    then have "length (hb_buf ?d) < length (hb_buf d)" by simp
    moreover have hs: "list_all header_wf ?hs" using that(1) by (intro header_lines_wf) (simp add: buf_wf_def)
    then have "buf_wf P ?d" using that by (simp add: buf_wf_def)
    ultimately have "?good (body ?d)" using less [of ?d] by simp
    then show ?thesis using Some hs by (simp add: header_eq [of d] Let_def event_wf_def)
  qed
  have body: "?good (body d)" if "buf_wf P d" "hb_state d = HBS_BODY"
  proof -
    let ?n = "content_length (hb_headers d)"
    let ?d = "(hb_clear l0)\<lparr>hb_buf := drop (body_bytes ?n (hb_buf d)) (hb_buf d)\<rparr>"
    have line: "P (hb_line d)" "list_all header_wf (hb_headers d)" using that by (simp_all add: buf_wf_def)
    have "?good (first ?d)" by (rule first) (use clear in \<open>simp_all add: buf_wf_def\<close>)
    then show ?thesis
      using that(1) clear line by (auto simp: body_eq [of d] Let_def event_wf_def body_bytes_def)
  qed
  from first [of d] header body show ?case by simp
qed

lemma decode_wf:
  assumes "\<And>l b l' n. fl l b = Fl_go l' n \<Longrightarrow> P l'" and "buf_wf P d"
  shows "buf_wf P (fst (decode d)) \<and> list_all (event_wf P) (snd (decode d))"
proof (cases "hb_state d")
  case HBS_READY
  then show ?thesis using decode_wf_aux [where P = P and d = d, OF assms(1)] assms(2) by (simp add: decode_eq)
next
  case HBS_HEADER
  then show ?thesis using decode_wf_aux [where P = P and d = d, OF assms(1)] assms(2) by (simp add: decode_eq)
next
  case HBS_BODY
  then show ?thesis using decode_wf_aux [where P = P and d = d, OF assms(1)] assms(2) by (simp add: decode_eq)
qed

text \<open>A complete message at the front of the buffer is reported, and the rest decoded.\<close>

lemma first_message:
  assumes "fl (hb_line d) (hb_buf d) = Fl_go l (length line)"
    and "hb_buf d = line @ line_block ls @ CRLF @ b @ rest" and "hb_headers d = []"
    and "ls \<noteq> []" and "list_all header_line ls" and "content_length (fold DecodeOneHeader ls []) = int (length b)"
  shows "first d = emit [Header_block (fold DecodeOneHeader ls []), Message l (fold DecodeOneHeader ls []) b]
    (if rest = [] then (hb_clear l0, []) else first ((hb_clear l0)\<lparr>hb_buf := rest\<rparr>))"
proof -
  let ?hs = "fold DecodeOneHeader ls []" and ?n = "length (line_block ls)"
  obtain l1 ls1 where l1: "ls = l1 # ls1" using assms(4) by (cases ls) auto
  then have n: "2 \<le> ?n" by (simp add: CRLF_def)
  define t where "t = line_block ls @ CRLF @ b @ rest"
  have end_eq: "find_str (CRLF @ CRLF) t = Some (?n - 2)"
    unfolding t_def by (rule find_header_end) (fact assms)+
  have lines: "header_lines t (?n - 2) 0 [] = ?hs"
    using header_lines_block [OF assms(5), of "?n - 2" "[]" "b @ rest" "[]"] n by (simp add: t_def)
  have rest: "drop (?n - 2 + 4) t = b @ rest"
    using n by (simp add: CRLF_def t_def)
  have "header (d\<lparr>hb_line := l, hb_state := HBS_HEADER, hb_buf := t\<rparr>)
    = emit [Header_block ?hs] (body (d\<lparr>hb_line := l, hb_headers := ?hs, hb_buf := b @ rest, hb_state := HBS_BODY\<rparr>))"
    using assms(3) by (subst header_eq) (simp add: end_eq lines rest Let_def)
  moreover have "first d = header (d\<lparr>hb_line := l, hb_state := HBS_HEADER, hb_buf := t\<rparr>)"
    using assms(1,2) by (subst first_eq) (simp add: t_def)
  ultimately show ?thesis
    using assms(6) by (subst (asm) body_eq) (auto simp: Let_def body_bytes_def emit_def)
qed

end

locale http_monotone = http_class +
  assumes fl_empty: "fl l0 [] = Fl_wait l0"
    and fl_go_append: "fl l b = Fl_go l' n \<Longrightarrow> fl l (b @ y) = Fl_go l' n"
    and fl_bad_append: "fl l b = Fl_bad \<Longrightarrow> fl l (b @ y) = Fl_bad"
    and fl_wait_append: "fl l b = Fl_wait l' \<Longrightarrow> fl l' (b @ y) = fl l (b @ y)"
begin

definition then_more :: "byte list \<Rightarrow> 'a http_buf \<times> 'a http_event list \<Rightarrow> 'a http_buf \<times> 'a http_event list" where
  "then_more y r = emit (snd r) (decode (hb_append y (fst r)))"

lemma then_more_emit: "then_more y (emit es r) = emit es (then_more y r)"
  by (simp add: then_more_def)

lemma decode_more_aux:
  "(hb_state d = HBS_READY \<longrightarrow> clean (snd (first (hb_append y d))) \<longrightarrow> first (hb_append y d) = then_more y (first d))
   \<and> (hb_state d = HBS_HEADER \<longrightarrow> clean (snd (header (hb_append y d))) \<longrightarrow> header (hb_append y d) = then_more y (header d))
   \<and> (hb_state d = HBS_BODY \<longrightarrow> clean (snd (body (hb_append y d))) \<longrightarrow> body (hb_append y d) = then_more y (body d))"
proof (induction "length (hb_buf d)" arbitrary: d rule: less_induct)
  case less
  have header_less: "header (hb_append y d') = then_more y (header d')"
    if "length (hb_buf d') < length (hb_buf d)" "hb_state d' = HBS_HEADER" "clean (snd (header (hb_append y d')))" for d'
    using less [OF that(1)] that(2,3) by blast
  have body_less: "body (hb_append y d') = then_more y (body d')"
    if "length (hb_buf d') < length (hb_buf d)" "hb_state d' = HBS_BODY" "clean (snd (body (hb_append y d')))" for d'
    using less [OF that(1)] that(2,3) by blast
  have first: "first (hb_append y d') = then_more y (first d')"
    if le: "length (hb_buf d') \<le> length (hb_buf d)" and st: "hb_state d' = HBS_READY"
      and cl: "clean (snd (first (hb_append y d')))" for d'
  proof (cases "fl (hb_line d') (hb_buf d')")
    case (Fl_wait l)
    have "first d' = (d'\<lparr>hb_line := l\<rparr>, [])" using Fl_wait by (simp add: first_eq)
    moreover have "first (hb_append y d') = first (hb_append y (d'\<lparr>hb_line := l\<rparr>))"
      unfolding first_eq [of "hb_append y d'"] first_eq [of "hb_append y (d'\<lparr>hb_line := l\<rparr>)"]
      by (simp add: fl_wait_append [OF Fl_wait] hb_append_def cong: first_line.case_cong)
    ultimately show ?thesis using st by (simp add: then_more_def decode_eq)
  next
    case Fl_bad
    then show ?thesis using cl fl_bad_append [OF Fl_bad, of y] by (simp add: first_eq)
  next
    case (Fl_go l n)
    let ?d = "d'\<lparr>hb_line := l, hb_state := HBS_HEADER, hb_buf := drop n (hb_buf d')\<rparr>"
    have n: "0 < n" "n \<le> length (hb_buf d')" using fl_go [OF Fl_go] by auto
    have a: "first (hb_append y d') = header (hb_append y ?d)"
      using fl_go_append [OF Fl_go, of y] n by (simp add: first_eq hb_append_def)
    have b: "first d' = header ?d" using Fl_go by (simp add: first_eq)
    have "length (hb_buf ?d) < length (hb_buf d)" using n le by simp
    then show ?thesis using header_less [of ?d] cl unfolding a b by simp
  qed
  have header: "header (hb_append y d) = then_more y (header d)"
    if st: "hb_state d = HBS_HEADER" and cl: "clean (snd (header (hb_append y d)))"
  proof (cases "find_str (CRLF @ CRLF) (hb_buf d)")
    case None
    then show ?thesis using st by (simp add: header_eq [of d] then_more_def decode_eq)
  next
    case (Some pos)
    let ?hs = "header_lines (hb_buf d) pos 0 (hb_headers d)"
    let ?d = "d\<lparr>hb_headers := ?hs, hb_buf := drop (pos + 4) (hb_buf d), hb_state := HBS_BODY\<rparr>"
    have pos: "pos + 4 \<le> length (hb_buf d)" using find_str_SomeD [OF Some] by (simp add: CRLF_def)
    have a: "header (hb_append y d) = emit [Header_block ?hs] (body (hb_append y ?d))"
      unfolding hb_append_block using find_str_append [OF Some, of y] header_lines_append [OF _ Some, of 0 y] pos
      by (subst header_eq) (simp add: hb_append_def Let_def)
    have b: "header d = emit [Header_block ?hs] (body ?d)" using Some by (simp add: header_eq Let_def)
    have "length (hb_buf ?d) < length (hb_buf d)" using pos by simp
    then show ?thesis using body_less [of ?d] cl unfolding a b then_more_emit by simp
  qed
  have body: "body (hb_append y d) = then_more y (body d)"
    if st: "hb_state d = HBS_BODY" and cl: "clean (snd (body (hb_append y d)))"
  proof -
    let ?n = "content_length (hb_headers d)" and ?k = "length (hb_buf d)"
    consider "?n > int ?k" | "?n = int ?k" "y = []" | "?n = int ?k" "y \<noteq> []" | "?n < 0" | "0 \<le> ?n" "?n < int ?k"
      by linarith
    then show ?thesis
    proof cases
      case 1
      then show ?thesis using st by (simp add: body_eq [of d] then_more_def decode_eq)
    next
      case 2
      have "decode (hb_clear l0) = (hb_clear l0, [])"
        using fl_empty by (simp add: decode_eq first_eq hb_clear_def)
      then show ?thesis using 2 by (simp add: body_eq then_more_def emit_def)
    next
      case 3
      then have "body (hb_append y d) = emit [Message (hb_line d) (hb_headers d) (hb_buf d)]
          (first (hb_append y (hb_clear l0)))"
        by (simp add: body_eq Let_def body_bytes_def hb_append_def)
      then show ?thesis using 3(1) by (simp add: body_eq [of d] then_more_def decode_eq)
    next
      case 4
      then show ?thesis using cl by (simp add: body_eq Let_def)
    next
      case 5
      let ?d = "(hb_clear l0)\<lparr>hb_buf := drop (nat ?n) (hb_buf d)\<rparr>"
      have a: "body (hb_append y d) = emit [Message (hb_line d) (hb_headers d) (take (nat ?n) (hb_buf d))]
          (first (hb_append y ?d))"
        using 5 by (simp add: body_eq Let_def body_bytes_def hb_append_def)
      have b: "body d = emit [Message (hb_line d) (hb_headers d) (take (nat ?n) (hb_buf d))] (first ?d)"
        using 5 by (simp add: body_eq Let_def body_bytes_def)
      show ?thesis using first [of ?d] cl unfolding a b then_more_emit by simp
    qed
  qed
  from first [of d] header body show ?case by blast
qed

lemma decode_more: "clean (snd (decode (hb_append y d))) \<Longrightarrow> decode (hb_append y d) = then_more y (decode d)"
  using decode_more_aux [of d y] by (cases "hb_state d") (simp_all add: decode_eq)

text \<open>The bytes may arrive in any pieces.\<close>

fun feed :: "'a http_buf \<Rightarrow> byte list list \<Rightarrow> 'a http_buf \<times> 'a http_event list" where
  "feed d [] = (d, [])"
| "feed d (x # xs) = emit (snd (decode (hb_append x d))) (feed (fst (decode (hb_append x d))) xs)"

lemma feed_pieces:
  assumes "decode d = (d, [])" and "clean (snd (decode (hb_append (concat xs) d)))"
  shows "feed d xs = decode (hb_append (concat xs) d)"
  using assms
proof (induction xs arbitrary: d)
  case (Cons x xs)
  let ?r = "decode (hb_append x d)"
  have "decode (hb_append (concat (x # xs)) d) = decode (hb_append (concat xs) (hb_append x d))" by simp
  also have "\<dots> = then_more (concat xs) ?r"
    using Cons.prems(2) by (intro decode_more) simp
  finally have all: "decode (hb_append (concat (x # xs)) d) = then_more (concat xs) ?r" .
  with Cons.prems(2) have cl: "clean (snd ?r)" "clean (snd (decode (hb_append (concat xs) (fst ?r))))"
    by (simp_all add: then_more_def)
  have "?r = then_more [] ?r" using decode_more [of "[]" "hb_append x d"] cl(1) by simp
  then have "decode (fst ?r) = (fst ?r, [])"
    by (simp add: then_more_def emit_def prod_eq_iff)
  from Cons.IH [OF this cl(2)] all show ?case by (simp add: then_more_def)
qed simp

end

end
