(* ===== verification/Tracker_Decoder.thy ===== *)
theory Tracker_Decoder
  imports Http_Buffer
begin

text \<open>
  The request decoder of the tracker (CHttpClientConnection::DecodeFirstLine to DecodeBuffer
  in HttpClientConnection.cpp).  The line of a request is its method and its path.  An event
  \<open>Bad_line\<close> is the 404 answer to a method other than GET and POST, after which everything
  received so far is dropped.
\<close>

type_synonym request_line = "byte list \<times> byte list"

text \<open>
  What \<open>DecodeFirstLine\<close> does before it goes on to the header.  The two spaces are searched in
  the whole buffer, not in the first line only; \<open>substr\<close> and \<open>find\<close> with \<open>npos\<close> are written
  out.
\<close>

definition request_first_line :: "request_line \<Rightarrow> byte list \<Rightarrow> request_line first_line" where
  "request_first_line line buf =
     (case find_str CRLF buf of
        None \<Rightarrow> Fl_wait line
      | Some pos \<Rightarrow>
          let pos1 = find_str [32] buf;
              requestMethod = (case pos1 of None \<Rightarrow> buf | Some i \<Rightarrow> take i buf) in
          if requestMethod \<noteq> str ''GET'' \<and> requestMethod \<noteq> str ''POST'' then Fl_bad
          else
            let start = (case pos1 of None \<Rightarrow> 0 | Some i \<Rightarrow> i + 1) in
            case find_from [32] buf start of
              None \<Rightarrow> Fl_wait (requestMethod, snd line)
            | Some pos2 \<Rightarrow> Fl_go (requestMethod, substr buf start (pos2 - start)) (pos + 2))"

definition hc_Clear :: "request_line http_buf" where
  "hc_Clear = hb_clear ([], [])"

lemma request_first_line_go:
  "request_first_line line buf = Fl_go l n \<Longrightarrow> 0 < n \<and> n \<le> length buf"
  using find_str_SomeD [of CRLF buf]
  by (auto simp: request_first_line_def Let_def CRLF_def split: option.splits if_splits)

function hc_DecodeFirstLine :: "request_line http_buf \<Rightarrow> request_line http_buf \<times> request_line http_event list"
  and hc_DecodeHeader :: "request_line http_buf \<Rightarrow> request_line http_buf \<times> request_line http_event list"
  and hc_DecodeBody :: "request_line http_buf \<Rightarrow> request_line http_buf \<times> request_line http_event list" where
  "hc_DecodeFirstLine d =
     (case request_first_line (hb_line d) (hb_buf d) of
        Fl_wait line \<Rightarrow> (d\<lparr>hb_line := line\<rparr>, [])
      | Fl_bad \<Rightarrow> (hc_Clear, [Bad_line])
      | Fl_go line n \<Rightarrow>
          hc_DecodeHeader (d\<lparr>hb_line := line, hb_state := HBS_HEADER, hb_buf := drop n (hb_buf d)\<rparr>))"
| "hc_DecodeHeader d =
     (case find_str (CRLF @ CRLF) (hb_buf d) of
        None \<Rightarrow> (d, [])
      | Some pos \<Rightarrow>
          let headers = header_lines (hb_buf d) pos 0 (hb_headers d) in
          emit [Header_block headers]
            (hc_DecodeBody (d\<lparr>hb_headers := headers, hb_buf := drop (pos + 4) (hb_buf d), hb_state := HBS_BODY\<rparr>)))"
| "hc_DecodeBody d =
     (let n = content_length (hb_headers d); buf = hb_buf d in
      if n > int (length buf) then (d, [])
      else if n = int (length buf) then (hc_Clear, [Message (hb_line d) (hb_headers d) buf])
      else
        let k = body_bytes n buf in
        emit [Message (hb_line d) (hb_headers d) (take k buf)]
          (hc_DecodeFirstLine (hc_Clear\<lparr>hb_buf := drop k buf\<rparr>)))"
  by pat_completeness auto
termination
proof (relation "measure (\<lambda>x. case x of Inl d \<Rightarrow> 2 * length (hb_buf d)
    | Inr (Inl d) \<Rightarrow> 2 * length (hb_buf d) | Inr (Inr d) \<Rightarrow> Suc (2 * length (hb_buf d)))", goal_cases)
  case (2 d line n)
  then show ?case using request_first_line_go [OF 2] by auto
next
  case (3 d pos headers)
  then show ?case using find_str_SomeD [OF 3(1)] by (auto simp: CRLF_def)
qed simp_all

declare hc_DecodeFirstLine.simps [simp del] hc_DecodeHeader.simps [simp del] hc_DecodeBody.simps [simp del]

definition hc_DecodeBuffer :: "request_line http_buf \<Rightarrow> request_line http_buf \<times> request_line http_event list" where
  "hc_DecodeBuffer d =
     (case hb_state d of
        HBS_READY \<Rightarrow> hc_DecodeFirstLine d
      | HBS_HEADER \<Rightarrow> hc_DecodeHeader d
      | HBS_BODY \<Rightarrow> hc_DecodeBody d)"

section \<open>The decoder takes its bytes in any pieces\<close>

text \<open>The same, by the position of the first space.\<close>

lemma request_first_line_space:
  assumes "find_str CRLF buf = Some pos" and "find_str [32] buf = Some i"
  shows "request_first_line line buf =
    (if take i buf \<noteq> str ''GET'' \<and> take i buf \<noteq> str ''POST'' then Fl_bad
     else case find_from [32] buf (i + 1) of
         None \<Rightarrow> Fl_wait (take i buf, snd line)
       | Some j \<Rightarrow> Fl_go (take i buf, substr buf (i + 1) (j - (i + 1))) (pos + 2))"
  unfolding request_first_line_def Let_def assms option.case by (rule refl)

lemma method_no_CRLF:
  assumes "find_str CRLF buf = Some pos" and "find_str [32] (buf @ y) = Some i \<or> i = length (buf @ y)"
    and "find_str [32] buf = None"
  shows "take i (buf @ y) \<noteq> str ''GET'' \<and> take i (buf @ y) \<noteq> str ''POST''"
proof -
  note crlf = find_str_SomeD [OF assms(1)]
  have at: "drop pos buf \<noteq> []" "hd (drop pos buf) = 13"
    using crlf by (auto simp: CRLF_def) (metis hd_take list.sel(1) zero_less_numeral numeral_2_eq_2 zero_less_Suc)
  have "length buf \<le> i"
  proof (rule ccontr)
    assume "\<not> length buf \<le> i"
    then have lt: "i < length buf" and f: "find_str [32] (buf @ y) = Some i" using assms(2) by auto
    from find_str_SomeD [OF f] lt have "buf ! i = 32"
      by (simp add: take_Suc_conv_app_nth nth_append flip: Cons_nth_drop_Suc)
    then have "32 \<in> set buf" using lt by (auto simp: in_set_conv_nth)
    then show False using assms(3) by (simp add: find_char_None)
  qed
  then have "set buf \<subseteq> set (take i (buf @ y))" by auto
  moreover have "13 \<in> set buf" using at by (metis in_set_dropD list.set_sel(1))
  ultimately have "13 \<in> set (take i (buf @ y))" by blast
  moreover have "13 \<notin> set (str ''GET'')" "13 \<notin> set (str ''POST'')" by simp_all
  ultimately show ?thesis by metis
qed

interpretation hc: http_monotone hc_DecodeFirstLine hc_DecodeHeader hc_DecodeBody hc_DecodeBuffer
    request_first_line "([], [])"
proof (unfold_locales, goal_cases)
  case (1 d)
  show ?case by (subst hc_DecodeFirstLine.simps) (simp only: hc_Clear_def)
next
  case (2 d)
  show ?case by (rule hc_DecodeHeader.simps)
next
  case (3 d)
  show ?case by (subst hc_DecodeBody.simps) (simp only: hc_Clear_def)
next
  case (4 d)
  show ?case by (simp add: hc_DecodeBuffer_def)
next
  case (5 l b l' n)
  then show ?case by (rule request_first_line_go)
next
  case 6
  show ?case by (simp add: request_first_line_def CRLF_def)
next
  case (7 l b l' n y)
  then obtain pos where pos: "find_str CRLF b = Some pos" by (auto simp: request_first_line_def split: option.splits)
  show ?case
  proof (cases "find_str [32] b")
    case None
    then show ?thesis using 7 by (simp add: request_first_line_def pos Let_def split: if_splits)
  next
    case (Some i)
    have i: "i \<le> length b" using find_str_SomeD [OF Some] by simp
    from 7 obtain j where j: "find_from [32] b (i + 1) = Some j"
      by (auto simp: request_first_line_space [OF pos Some] split: if_splits option.splits)
    have "substr (b @ y) (i + 1) (j - (i + 1)) = substr b (i + 1) (j - (i + 1))"
      using find_from_SomeD [OF j] by (simp add: substr_def)
    with 7 j i find_from_append [OF j, of y] show ?thesis
      by (auto simp: request_first_line_space [OF pos Some]
          request_first_line_space [OF find_str_append [OF pos] find_str_append [OF Some]] split: if_splits)
  qed
next
  case (8 l b y)
  then obtain pos where pos: "find_str CRLF b = Some pos" by (auto simp: request_first_line_def split: option.splits)
  show ?case
  proof (cases "find_str [32] b")
    case None
    show ?thesis
      using method_no_CRLF [OF pos _ None, where y = y]
      by (cases "find_str [32] (b @ y)") (simp_all add: request_first_line_def find_str_append [OF pos] Let_def)
  next
    case (Some i)
    have i: "i \<le> length b" using find_str_SomeD [OF Some] by simp
    with 8 show ?thesis
      by (simp add: request_first_line_space [OF pos Some]
          request_first_line_space [OF find_str_append [OF pos] find_str_append [OF Some]] split: if_splits option.splits)
  qed
next
  case (9 l b l' y)
  show ?case
  proof (cases "find_str CRLF b")
    case None
    then show ?thesis using 9 by (simp add: request_first_line_def)
  next
    case pos: (Some pos)
    have "find_str [32] b \<noteq> None"
    proof
      assume none: "find_str [32] b = None"
      then show False
        using 9 method_no_CRLF [OF pos _ none, where y = "[]" and i = "length b"]
        by (simp add: request_first_line_def pos Let_def)
    qed
    then obtain i where i: "find_str [32] b = Some i" by blast
    have l': "snd l' = snd l" using 9 by (auto simp: request_first_line_space [OF pos i] split: if_splits option.splits)
    show ?thesis
      unfolding request_first_line_space [OF find_str_append [OF pos] find_str_append [OF i]] l' by (rule refl)
  qed
qed

section \<open>Streams of requests\<close>

text \<open>
  A well-formed request and its text.  The header lines are arbitrary non-empty lines whose
  \<open>Content-Length\<close>, as the decoder reads it, is the length of the body.
\<close>

record http_request =
  rq_method :: "byte list"
  rq_path :: "byte list"
  rq_version :: "byte list"
  rq_lines :: "byte list list"
  rq_body :: "byte list"

definition rq_headers :: "http_request \<Rightarrow> evkeyvalq" where
  "rq_headers r = fold DecodeOneHeader (rq_lines r) []"

definition rq_ok :: "http_request \<Rightarrow> bool" where
  "rq_ok r \<longleftrightarrow> (rq_method r = str ''GET'' \<or> rq_method r = str ''POST'')
     \<and> 32 \<notin> set (rq_path r) \<and> 13 \<notin> set (rq_path r) \<and> 13 \<notin> set (rq_version r)
     \<and> rq_lines r \<noteq> [] \<and> list_all header_line (rq_lines r)
     \<and> content_length (rq_headers r) = int (length (rq_body r))"

definition rq_line :: "http_request \<Rightarrow> byte list" where
  "rq_line r = rq_method r @ 32 # rq_path r @ 32 # rq_version r @ CRLF"

definition rq_text :: "http_request \<Rightarrow> byte list" where
  "rq_text r = rq_line r @ line_block (rq_lines r) @ CRLF @ rq_body r"

definition rq_events :: "http_request \<Rightarrow> request_line http_event list" where
  "rq_events r = [Header_block (rq_headers r), Message (rq_method r, rq_path r) (rq_headers r) (rq_body r)]"

text \<open>Reads of the connection one after the other.\<close>

fun hc_feed :: "request_line http_buf \<Rightarrow> byte list list \<Rightarrow> request_line http_buf \<times> request_line http_event list" where
  "hc_feed d [] = (d, [])"
| "hc_feed d (x # xs) =
     (let (d, evs) = hc_DecodeBuffer (hb_append x d) in emit evs (hc_feed d xs))"

lemma hc_feed_eq: "hc_feed d xs = hc.feed d xs"
  by (induction xs arbitrary: d) (simp_all add: case_prod_beta)

lemma request_first_line_rq:
  assumes "rq_ok r"
  shows "request_first_line line (rq_line r @ rest) = Fl_go (rq_method r, rq_path r) (length (rq_line r))"
proof -
  from assms have m: "rq_method r = str ''GET'' \<or> rq_method r = str ''POST''"
    and nosp: "32 \<notin> set (rq_path r)" and nocr: "13 \<notin> set (rq_path r)" "13 \<notin> set (rq_version r)"
    by (simp_all add: rq_ok_def)
  have m': "32 \<notin> set (rq_method r)" "13 \<notin> set (rq_method r)" using m by auto
  let ?l = "rq_method r @ 32 # rq_path r @ 32 # rq_version r"
  have buf: "rq_line r @ rest = ?l @ CRLF @ rest" by (simp add: rq_line_def)
  have pos: "find_str CRLF (rq_line r @ rest) = Some (length ?l)"
    unfolding buf using m' nocr by (intro find_CRLF) simp
  have pos1: "find_str [32] (rq_line r @ rest) = Some (length (rq_method r))"
    unfolding rq_line_def using find_char_prefix [OF m'(1)] by simp
  have pos2: "find_from [32] (rq_line r @ rest) (length (rq_method r) + 1)
      = Some (length (rq_method r) + 1 + length (rq_path r))"
    using find_char_from [OF nosp, of "rq_method r @ [32]" "rq_version r @ CRLF @ rest"] by (simp add: rq_line_def)
  have "take (length (rq_method r)) (rq_line r @ rest) = rq_method r" by (simp add: rq_line_def)
  moreover have "substr (rq_line r @ rest) (length (rq_method r) + 1) (length (rq_path r)) = rq_path r"
    by (simp add: rq_line_def substr_def)
  moreover have "length (rq_line r) = length ?l + 2" by (simp add: rq_line_def CRLF_def)
  ultimately show ?thesis
    using m unfolding request_first_line_space [OF pos pos1] pos2 by auto
qed

lemma rq_text_nonempty: "rq_text r \<noteq> []"
  by (simp add: rq_text_def rq_line_def)

lemma decode_requests:
  assumes "list_all rq_ok rs" and "rs \<noteq> []"
  shows "hc_DecodeFirstLine (hc_Clear\<lparr>hb_buf := concat (map rq_text rs)\<rparr>) = (hc_Clear, concat (map rq_events rs))"
  using assms
proof (induction rs)
  case (Cons r rs)
  then have r: "rq_ok r" and rs: "list_all rq_ok rs" by simp_all
  let ?rest = "concat (map rq_text rs)"
  let ?d = "hc_Clear\<lparr>hb_buf := concat (map rq_text (r # rs))\<rparr>"
  have sel: "hb_line ?d = ([], [])" "hb_headers ?d = []" "hb_buf ?d = rq_text r @ ?rest"
    by (simp_all add: hc_Clear_def)
  have "hc_DecodeFirstLine ?d = emit (rq_events r)
      (if ?rest = [] then (hc_Clear, []) else hc_DecodeFirstLine (hc_Clear\<lparr>hb_buf := ?rest\<rparr>))"
    using hc.first_message [of ?d "(rq_method r, rq_path r)" "rq_line r" "rq_lines r" "rq_body r" ?rest] r sel
      request_first_line_rq [OF r]
    by (simp add: rq_events_def rq_headers_def rq_ok_def rq_text_def hc_Clear_def)
  moreover have "?rest = [] \<longleftrightarrow> rs = []" by (cases rs) (simp_all add: rq_text_nonempty)
  ultimately have step: "hc_DecodeFirstLine ?d = emit (rq_events r)
      (if rs = [] then (hc_Clear, []) else hc_DecodeFirstLine (hc_Clear\<lparr>hb_buf := ?rest\<rparr>))"
    by (simp only:)
  show ?case
  proof (cases "rs = []")
    case True
    then show ?thesis unfolding step by (simp add: emit_def)
  next
    case False
    then show ?thesis unfolding step using Cons.IH [OF rs False] by (simp add: emit_def)
  qed
qed simp

lemma clean_rq_events: "list_all rq_ok rs \<Longrightarrow> clean (concat (map rq_events rs))"
  by (induction rs) (simp_all add: rq_events_def rq_ok_def)

text \<open>
  C19. The tracker's HTTP decoder: a stream of well-formed requests gives exactly those
  requests in order, each announced with its header and then with its body, and leaves the
  decoder ready, however the bytes are cut into reads.
\<close>

theorem requests_in_any_pieces:
  assumes "list_all rq_ok rs" and "concat xs = concat (map rq_text rs)"
  shows "hc_feed hc_Clear xs = (hc_Clear, concat (map rq_events rs))"
proof -
  have ready: "hc_DecodeBuffer (hb_append s hc_Clear) = hc_DecodeFirstLine (hc_Clear\<lparr>hb_buf := s\<rparr>)" for s
    by (simp add: hc_DecodeBuffer_def hc_Clear_def hb_append_def)
  have empty: "hc_DecodeBuffer hc_Clear = (hc_Clear, [])"
    using hc.fl_empty by (simp add: hc_DecodeBuffer_def hc_DecodeFirstLine.simps hc_Clear_def)
  have whole: "hc_DecodeBuffer (hb_append (concat xs) hc_Clear) = (hc_Clear, concat (map rq_events rs))"
  proof (cases "rs = []")
    case True
    then have "concat xs = []" using assms(2) by (simp only: list.map concat.simps)
    then show ?thesis using empty True by (simp only: hb_append_simps list.map concat.simps)
  next
    case False
    then show ?thesis using decode_requests [OF assms(1) False] by (simp add: ready assms(2))
  qed
  then show ?thesis
    using hc.feed_pieces [OF empty, of xs] clean_rq_events [OF assms(1)] by (simp add: hc_feed_eq)
qed

definition sample_request :: http_request where
  "sample_request = \<lparr>rq_method = str ''POST'', rq_path = str ''/p'', rq_version = str ''HTTP/1.1'',
     rq_lines = [str ''Content-Length: 3''], rq_body = str ''c=s''\<rparr>"

lemma sample_request_ok: "rq_ok sample_request"
  by code_simp

theorem requests_in_any_pieces_witness:
  "hc_feed hc_Clear [take 1 (rq_text sample_request), drop 1 (rq_text sample_request)]
    = (hc_Clear, rq_events sample_request)"
  using requests_in_any_pieces [of "[sample_request]" "[take 1 (rq_text sample_request), drop 1 (rq_text sample_request)]"]
    sample_request_ok
  by simp

section \<open>Arbitrary bytes\<close>

definition line_ok :: "request_line \<Rightarrow> bool" where
  "line_ok l \<longleftrightarrow> fst l = str ''GET'' \<or> fst l = str ''POST''"

lemma request_first_line_method: "request_first_line l b = Fl_go l' n \<Longrightarrow> line_ok l'"
  by (auto simp: request_first_line_def line_ok_def Let_def simp del: str_simps split: option.splits if_splits)

lemma hc_feed_wf: "buf_wf line_ok d \<Longrightarrow> buf_wf line_ok (fst (hc_feed d xs)) \<and> list_all (event_wf line_ok) (snd (hc_feed d xs))"
proof (induction xs arbitrary: d)
  case (Cons x xs)
  have "buf_wf line_ok (hb_append x d)" using Cons.prems by (simp add: buf_wf_def)
  note wf = hc.decode_wf [where P = line_ok, OF request_first_line_method this]
  with Cons.IH [of "fst (hc_DecodeBuffer (hb_append x d))"] show ?case by (simp add: case_prod_beta)
qed simp

text \<open>
  C39. Whatever bytes a client sends, in whatever pieces: every request the tracker's decoder
  hands on has the method GET or POST, a body of the announced length (unless that is
  negative), and header fields without NUL, with names free of line breaks and values in which
  every line break is a continuation.
\<close>

theorem decoder_events_typed:
  "list_all (event_wf line_ok) (snd (hc_feed hc_Clear xs))"
proof -
  have "buf_wf line_ok hc_Clear" by (simp add: buf_wf_def hc_Clear_def)
  from hc_feed_wf [OF this] show ?thesis by blast
qed

end
