(* ===== verification/Tracker_Peers.thy ===== *)
theory Tracker_Peers
  imports Ordered_Map C_Strings "HOL-Library.List_Lexorder"
begin

text \<open>
  The tracker's table of peers (CHttpRequestCommandPeerTracker in
  HttpRequestCommandPeerTracker.cpp): the map \<open>m_mapPeer\<close> from \<open>PeerInfo\<close> to \<open>PeerState\<close>, with
  the operations of the four requests and of the timer on it.  \<open>operator<\<close> of \<open>PeerInfo\<close>
  compares the address only, so the map has one entry for an address, and keeps the port it
  was first entered with.  The last section gives the table an abstract contract: the number
  of timer ticks since each address was last heard of.
\<close>

section \<open>Peers\<close>

datatype rd_peer_state = RDPS_INVALID | RDPS_ONLINE | RDPS_PING_OFFLINE | RDPS_OFFLINE

record peer_state =
  ps_state :: rd_peer_state
  ps_online_tm :: nat
  ps_offline_times :: u32

definition PeerState :: peer_state where
  "PeerState = \<lparr>ps_state = RDPS_INVALID, ps_online_tm = 0, ps_offline_times = 0\<rparr>"

type_synonym peer_info = "byte list \<times> u16"
type_synonym peer_map = "(byte list \<times> u16 \<times> peer_state) list"

text \<open>\<open>find\<close> with a \<open>PeerInfo\<close>: the port plays no part in the order of the keys.\<close>

definition find_peer :: "peer_info \<Rightarrow> peer_map \<Rightarrow> (u16 \<times> peer_state) option" where
  "find_peer peer m = map_find (fst peer) m"

definition set_peer :: "peer_info \<Rightarrow> peer_state \<Rightarrow> peer_map \<Rightarrow> peer_map" where
  "set_peer peer st m =
     (case find_peer peer m of
        Some (port, _) \<Rightarrow> map_put (fst peer) (port, st) m
      | None \<Rightarrow> map_put (fst peer) (snd peer, st) m)"

section \<open>Operations\<close>

fun OnTimer :: "peer_map \<Rightarrow> peer_map" where
  "OnTimer [] = []"
| "OnTimer ((ip, port, st) # m) =
     (if ps_state st = RDPS_ONLINE
      then (let st = st\<lparr>ps_offline_times := ps_offline_times st + 1\<rparr> in
            if ps_offline_times st > 5 then OnTimer m
            else (ip, port, st) # OnTimer m)
      else (ip, port, st) # OnTimer m)"

definition peer_online :: "nat \<Rightarrow> peer_info \<Rightarrow> peer_map \<Rightarrow> peer_map" where
  "peer_online now peer m =
     (let m = (if find_peer peer m = None then set_peer peer (PeerState\<lparr>ps_online_tm := now\<rparr>) m else m)
      in case find_peer peer m of
           Some (_, st) \<Rightarrow> set_peer peer (st\<lparr>ps_state := RDPS_ONLINE, ps_offline_times := 0\<rparr>) m
         | None \<Rightarrow> m)"

text \<open>The other two report an unknown peer by \<open>None\<close>, which is \<open>return false\<close>.\<close>

definition peer_ping :: "peer_info \<Rightarrow> peer_map \<Rightarrow> peer_map option" where
  "peer_ping peer m =
     (case find_peer peer m of
        None \<Rightarrow> None
      | Some (_, st) \<Rightarrow> Some (set_peer peer (st\<lparr>ps_offline_times := 0\<rparr>) m))"

definition peer_offline :: "peer_info \<Rightarrow> peer_map \<Rightarrow> peer_map option" where
  "peer_offline peer m =
     (case find_peer peer m of
        None \<Rightarrow> None
      | Some (_, st) \<Rightarrow>
          let m = set_peer peer (st\<lparr>ps_state := RDPS_OFFLINE\<rparr>) m in Some (map_erase (fst peer) m))"

fun GetLivePeer :: "peer_map \<Rightarrow> peer_info list" where
  "GetLivePeer [] = []"
| "GetLivePeer ((ip, port, st) # m) =
     (if ps_state st = RDPS_ONLINE then (ip, port) # GetLivePeer m else GetLivePeer m)"

section \<open>Invariant\<close>

text \<open>
  Between operations every entry is on line and has missed at most five ticks: the two
  off-line states are set only on entries that are erased at once.
\<close>

definition entry_ok :: "peer_state \<Rightarrow> bool" where
  "entry_ok st \<longleftrightarrow> ps_state st = RDPS_ONLINE \<and> ps_offline_times st \<le> 5"

definition peers_ok :: "peer_map \<Rightarrow> bool" where
  "peers_ok m \<longleftrightarrow> map_ok m \<and> (\<forall>(ip, port, st) \<in> set m. entry_ok st)"

lemma peers_ok_Nil [simp]: "peers_ok []"
  by (simp add: peers_ok_def map_ok_def)

lemma peers_ok_Cons:
  "peers_ok ((ip, port, st) # m) \<longleftrightarrow> (\<forall>x \<in> fst ` set m. ip < x) \<and> entry_ok st \<and> peers_ok m"
  by (auto simp: peers_ok_def map_ok_def)

lemma set_map_put_subset: "set (map_put k v t) \<subseteq> insert (k, v) (set t)"
  by (induction t) (auto split: if_splits)

lemma peers_ok_put: "peers_ok m \<Longrightarrow> entry_ok st \<Longrightarrow> peers_ok (map_put ip (port, st) m)"
  using set_map_put_subset [of ip "(port, st)" m] by (auto simp: peers_ok_def map_ok_put)

lemma peers_ok_erase: "peers_ok m \<Longrightarrow> peers_ok (map_erase ip m)"
  using map_erase_subset [of ip m] by (auto simp: peers_ok_def map_ok_erase)

lemma OnTimer_keys: "fst ` set (OnTimer m) \<subseteq> fst ` set m"
  by (induction m rule: OnTimer.induct) (auto simp: Let_def)

lemma five_ticks: "(n :: u32) \<le> 5 \<Longrightarrow> \<not> n + 1 > 5 \<longleftrightarrow> unat n < 5"
  by (auto simp: word_le_nat_alt word_less_nat_alt unat_word_ariths)

lemma tick_bound: "(n :: u32) \<le> 5 \<Longrightarrow> unat n < 5 \<Longrightarrow> n + 1 \<le> 5"
  by (simp add: word_le_nat_alt unat_word_ariths)

lemma peers_ok_OnTimer: "peers_ok m \<Longrightarrow> peers_ok (OnTimer m)"
proof (induction m rule: OnTimer.induct)
  case (2 ip port st m)
  have "\<forall>x \<in> fst ` set (OnTimer m). ip < x"
    using OnTimer_keys [of m] 2(4) unfolding peers_ok_Cons by blast
  with 2 show ?case
    by (auto simp: peers_ok_Cons entry_ok_def Let_def not_less)
qed simp

lemma peers_ok_find: "peers_ok m \<Longrightarrow> find_peer peer m = Some (port, st) \<Longrightarrow> entry_ok st"
  by (auto simp: peers_ok_def find_peer_def map_find_def dest: map_of_SomeD)

lemma peers_ok_set: "peers_ok m \<Longrightarrow> entry_ok st \<Longrightarrow> peers_ok (set_peer peer st m)"
  by (auto simp: set_peer_def peers_ok_put split: option.split)

lemma find_set_peer:
  "find_peer p (set_peer q st m) =
     (if fst p = fst q then Some (case find_peer q m of Some (port, _) \<Rightarrow> port | None \<Rightarrow> snd q, st) else find_peer p m)"
  by (auto simp: find_peer_def set_peer_def map_find_def map_of_put split: option.split)

lemma peer_online_find:
  "find_peer p (peer_online now q m) =
     (if fst p = fst q
      then Some (case find_peer q m of
          Some (port, st) \<Rightarrow> (port, st\<lparr>ps_state := RDPS_ONLINE, ps_offline_times := 0\<rparr>)
        | None \<Rightarrow> (snd q, \<lparr>ps_state = RDPS_ONLINE, ps_online_tm = now, ps_offline_times = 0\<rparr>))
      else find_peer p m)"
  by (auto simp: peer_online_def Let_def find_set_peer PeerState_def split: option.split)

lemma set_peer_twice: "set_peer p st' (set_peer p st m) = set_peer p st' m"
proof -
  have "map_put k v' (map_put k v t) = map_put k v' t" for k v v' and t :: peer_map
    by (induction t) auto
  then show ?thesis
    using find_set_peer [of p p st m] by (auto simp: set_peer_def [of p st'] split: option.splits)
      (auto simp: set_peer_def)
qed

lemma peers_ok_online:
  assumes "peers_ok m"
  shows "peers_ok (peer_online now q m)"
proof -
  have e: "entry_ok (st\<lparr>ps_state := RDPS_ONLINE, ps_offline_times := 0\<rparr>)" for st
    by (simp add: entry_ok_def)
  show ?thesis
    using assms e by (cases "find_peer q m")
      (auto simp: peer_online_def Let_def find_set_peer set_peer_twice peers_ok_set)
qed

lemma peers_ok_ping: "peers_ok m \<Longrightarrow> peer_ping q m = Some m' \<Longrightarrow> peers_ok m'"
  using peers_ok_find [of m q] by (auto simp: peer_ping_def entry_ok_def intro!: peers_ok_set split: option.splits)

lemma map_erase_put: "map_erase k (map_put k v m) = map_erase k m"
  by (induction m) (auto simp: map_erase_def)

lemma peer_offline_erase: "peer_offline q m = (if find_peer q m = None then None else Some (map_erase (fst q) m))"
  by (auto simp: peer_offline_def set_peer_def map_erase_put split: option.split)

lemma peers_ok_offline: "peers_ok m \<Longrightarrow> peer_offline q m = Some m' \<Longrightarrow> peers_ok m'"
  by (auto simp: peer_offline_erase peers_ok_erase split: if_splits)

lemma GetLivePeer_all: "peers_ok m \<Longrightarrow> GetLivePeer m = map (\<lambda>(ip, port, st). (ip, port)) m"
  by (induction m rule: GetLivePeer.induct) (auto simp: peers_ok_Cons entry_ok_def)

section \<open>The contract\<close>

text \<open>
  What the table promises, whatever its order and its ports: for every address the number of
  ticks since it was last heard of, if it is on line.
\<close>

type_synonym ages = "byte list \<Rightarrow> nat option"

datatype peer_op = Online "byte list" | Ping "byte list" | Offline "byte list" | Tick

definition age_step :: "peer_op \<Rightarrow> ages \<Rightarrow> ages" where
  "age_step c A =
     (case c of
        Online ip \<Rightarrow> A(ip \<mapsto> 0)
      | Ping ip \<Rightarrow> (if A ip = None then A else A(ip \<mapsto> 0))
      | Offline ip \<Rightarrow> A(ip := None)
      | Tick \<Rightarrow> (\<lambda>ip. case A ip of Some n \<Rightarrow> if n < 5 then Some (Suc n) else None | None \<Rightarrow> None))"

definition ages :: "peer_map \<Rightarrow> ages" where
  "ages m ip = map_option (\<lambda>(port, st). unat (ps_offline_times st)) (map_find ip m)"

lemma ages_find: "ages m ip = map_option (\<lambda>(port, st). unat (ps_offline_times st)) (find_peer (ip, port) m)"
  by (simp add: ages_def find_peer_def)

lemma ages_online: "ages (peer_online now q m) = age_step (Online (fst q)) (ages m)"
proof
  fix ip
  show "ages (peer_online now q m) ip = age_step (Online (fst q)) (ages m) ip"
    by (auto simp: ages_find [of _ ip 0] peer_online_find age_step_def split: option.split)
qed

lemma ages_ping:
  "ages (case peer_ping q m of Some m' \<Rightarrow> m' | None \<Rightarrow> m) = age_step (Ping (fst q)) (ages m)"
proof
  fix ip
  show "ages (case peer_ping q m of Some m' \<Rightarrow> m' | None \<Rightarrow> m) ip = age_step (Ping (fst q)) (ages m) ip"
    by (auto simp: ages_find [of _ ip 0] ages_find [of m "fst q" "snd q"] peer_ping_def find_set_peer age_step_def
        split: option.split)
qed

lemma ages_offline:
  "ages (case peer_offline q m of Some m' \<Rightarrow> m' | None \<Rightarrow> m) = age_step (Offline (fst q)) (ages m)"
  by (rule ext) (auto simp: peer_offline_erase ages_def find_peer_def map_find_def map_of_erase age_step_def)

lemma map_of_OnTimer:
  "peers_ok m \<Longrightarrow> map_of (OnTimer m) ip =
     (case map_of m ip of
        Some (port, st) \<Rightarrow> if unat (ps_offline_times st) < 5
          then Some (port, st\<lparr>ps_offline_times := ps_offline_times st + 1\<rparr>) else None
      | None \<Rightarrow> None)"
proof (induction m rule: OnTimer.induct)
  case (2 ip' port st m)
  have lt: "\<forall>x \<in> fst ` set m. ip' < x" and e: "entry_ok st" and ok: "peers_ok m"
    using 2(4) unfolding peers_ok_Cons by blast+
  then have "ip' \<notin> fst ` set m" by blast
  then have "map_of m ip' = None" by (simp add: map_of_eq_None_iff)
  moreover have "map_of (OnTimer m) ip' = None"
    using \<open>ip' \<notin> fst ` set m\<close> OnTimer_keys [of m] by (auto simp: map_of_eq_None_iff)
  moreover have "\<not> ps_offline_times st + 1 > 5 \<longleftrightarrow> unat (ps_offline_times st) < 5"
    using e by (intro five_ticks) (simp add: entry_ok_def)
  moreover have "map_of (OnTimer m) ip = (case map_of m ip of
        Some (port, st) \<Rightarrow> if unat (ps_offline_times st) < 5
          then Some (port, st\<lparr>ps_offline_times := ps_offline_times st + 1\<rparr>) else None
      | None \<Rightarrow> None)"
    using 2(1-3) ok e by (cases "ps_offline_times st + 1 > 5") (simp_all add: entry_ok_def)
  ultimately show ?case
    using e by (cases "unat (ps_offline_times st) < 5") (simp_all add: entry_ok_def Let_def)
qed simp

lemma ages_OnTimer: "peers_ok m \<Longrightarrow> ages (OnTimer m) = age_step Tick (ages m)"
proof
  fix ip
  assume ok: "peers_ok m"
  show "ages (OnTimer m) ip = age_step Tick (ages m) ip"
  proof (cases "map_of m ip")
    case None
    then show ?thesis by (simp add: ages_def map_find_def map_of_OnTimer [OF ok] age_step_def)
  next
    case (Some e)
    obtain port st where e: "e = (port, st)" by (cases e)
    have "unat (ps_offline_times st + 1) = Suc (unat (ps_offline_times st))"
      if "unat (ps_offline_times st) < 5"
      using that by (simp add: unat_word_ariths)
    with Some e show ?thesis by (simp add: ages_def map_find_def map_of_OnTimer [OF ok] age_step_def)
  qed
qed

text \<open>One request or tick on the table, at a time and from a port.\<close>

definition peer_apply :: "nat \<Rightarrow> u16 \<Rightarrow> peer_op \<Rightarrow> peer_map \<Rightarrow> peer_map" where
  "peer_apply now port c m =
     (case c of
        Online ip \<Rightarrow> peer_online now (ip, port) m
      | Ping ip \<Rightarrow> (case peer_ping (ip, port) m of Some m' \<Rightarrow> m' | None \<Rightarrow> m)
      | Offline ip \<Rightarrow> (case peer_offline (ip, port) m of Some m' \<Rightarrow> m' | None \<Rightarrow> m)
      | Tick \<Rightarrow> OnTimer m)"

lemma peer_apply_ages: "peers_ok m \<Longrightarrow> ages (peer_apply now port c m) = age_step c (ages m)"
  by (cases c) (simp_all add: peer_apply_def ages_online ages_ping ages_offline ages_OnTimer)

lemma peer_apply_ok: "peers_ok m \<Longrightarrow> peers_ok (peer_apply now port c m)"
  by (cases c) (auto simp: peer_apply_def peers_ok_online peers_ok_OnTimer split: option.split
      intro: peers_ok_ping peers_ok_offline)

lemma live_ages: "peers_ok m \<Longrightarrow> fst ` set (GetLivePeer m) = dom (ages m)"
proof -
  assume "peers_ok m"
  then have "fst ` set (GetLivePeer m) = fst ` set m"
    by (simp add: GetLivePeer_all image_image case_prod_beta)
  also have "\<dots> = dom (map_of m)" by (simp add: dom_map_of_conv_image_fst)
  also have "\<dots> = dom (ages m)" by (auto simp: ages_def map_find_def dom_def)
  finally show ?thesis .
qed

lemma live_sorted: "peers_ok m \<Longrightarrow> sorted_wrt (<) (map fst (GetLivePeer m))"
  by (simp add: GetLivePeer_all peers_ok_def map_ok_def comp_def case_prod_beta)

lemma fold_peer_apply:
  "peers_ok m \<Longrightarrow> peers_ok (fold (\<lambda>(now, port, c). peer_apply now port c) ops m)
    \<and> ages (fold (\<lambda>(now, port, c). peer_apply now port c) ops m) = fold (\<lambda>(now, port, c). age_step c) ops (ages m)"
  by (induction ops arbitrary: m) (simp_all add: case_prod_beta peer_apply_ok peer_apply_ages)

text \<open>
  C20. The peer table refines its contract: after any sequence of requests and timer ticks,
  the table holds for every address exactly the number of ticks since it was last heard of,
  and the live list names exactly the addresses heard of within five ticks, each once, in
  increasing order.
\<close>

theorem peer_table_refinement:
  "let m = fold (\<lambda>(now, port, c). peer_apply now port c) ops [];
       A = fold (\<lambda>(now, port, c). age_step c) ops Map.empty
   in ages m = A \<and> fst ` set (GetLivePeer m) = dom A \<and> sorted_wrt (<) (map fst (GetLivePeer m))"
proof -
  have "ages [] = Map.empty" by (simp add: ages_def map_find_def fun_eq_iff)
  with fold_peer_apply [OF peers_ok_Nil, of ops]
  have ok: "peers_ok (fold (\<lambda>(now, port, c). peer_apply now port c) ops [])"
    and eq: "ages (fold (\<lambda>(now, port, c). peer_apply now port c) ops [])
      = fold (\<lambda>(now, port, c). age_step c) ops Map.empty"
    by simp_all
  show ?thesis unfolding Let_def using eq live_ages [OF ok] live_sorted [OF ok] by (intro conjI) (simp_all only: eq)
qed

end
