(* ===== verification/Evutil_Inet.thy ===== *)
theory Evutil_Inet
  imports Evutil
begin

text \<open>
  The address parser of evutil.c, in the form Windows builds compile (there is no system
  \<open>inet_pton\<close>): dotted IPv4 by \<open>sscanf\<close>, IPv6 by the word loop with its gap.  Pointers into the
  source string are positions in it.
\<close>

section \<open>The C library's number scanning\<close>

text \<open>\<open>%d\<close> of \<open>sscanf\<close>: white space, a sign, at least one digit; the value and the rest.\<close>

definition scan_int :: "byte list \<Rightarrow> (int \<times> byte list) option" where
  "scan_int s =
     (let s = dropWhile (\<lambda>c. c_isspace (unat c)) s;
          neg = (peek s = 45);
          s = (if peek s = 45 \<or> peek s = 43 then tl s else s);
          ds = takeWhile EVUTIL_ISDIGIT s;
          v = digits_val 0 (map unat ds)
      in if ds = [] then None
         else Some (clamp_int (if neg then - v else v), dropWhile EVUTIL_ISDIGIT s))"

definition scan_dot :: "byte list \<Rightarrow> byte list option" where
  "scan_dot s = (if peek s = 46 then Some (tl s) else None)"

text \<open>\<open>sscanf (s, "%d.%d.%d.%d%c", ...) == 4\<close>, with the four numbers.\<close>

definition scan_dotted :: "byte list \<Rightarrow> (int \<times> int \<times> int \<times> int) option" where
  "scan_dotted s =
     Option.bind (scan_int s) (\<lambda>(a, s). Option.bind (scan_dot s) (\<lambda>s.
     Option.bind (scan_int s) (\<lambda>(b, s). Option.bind (scan_dot s) (\<lambda>s.
     Option.bind (scan_int s) (\<lambda>(c, s). Option.bind (scan_dot s) (\<lambda>s.
     Option.bind (scan_int s) (\<lambda>(d, s).
       if s = [] then Some (a, b, c, d) else None)))))))"

definition hex_val :: "byte \<Rightarrow> nat" where
  "hex_val c = (if unat c \<le> 57 then unat c - 48 else if unat c \<le> 70 then unat c - 55 else unat c - 87)"

fun hex_number :: "nat \<Rightarrow> byte list \<Rightarrow> nat" where
  "hex_number acc [] = acc"
| "hex_number acc (c # s) = hex_number (16 * acc + hex_val c) s"

text \<open>
  \<open>strtol (s, &next, 16)\<close> on a string that starts with a hexadecimal digit: the value and the
  number of characters read, which include a \<open>0x\<close> prefix.
\<close>

definition strtol16 :: "byte list \<Rightarrow> nat \<times> nat" where
  "strtol16 s =
     (if peek s = 48 \<and> (peek (tl s) = 120 \<or> peek (tl s) = 88) \<and> EVUTIL_ISXDIGIT (peek (drop 2 s))
      then (let ds = takeWhile EVUTIL_ISXDIGIT (drop 2 s) in (hex_number 0 ds, 2 + length ds))
      else (let ds = takeWhile EVUTIL_ISXDIGIT s in (hex_number 0 ds, length ds)))"

section \<open>\<open>evutil_inet_pton\<close>\<close>

definition in_byte :: "int \<Rightarrow> bool" where "in_byte a \<longleftrightarrow> \<not> (a < 0 \<or> a > 255)"

definition inet_pton4 :: "byte list \<Rightarrow> u32 option" where
  "inet_pton4 src =
     (case scan_dotted src of
        None \<Rightarrow> None
      | Some (a, b, c, d) \<Rightarrow>
          if \<not> in_byte a then None else if \<not> in_byte b then None
          else if \<not> in_byte c then None else if \<not> in_byte d then None
          else Some (word_of_int (a * 2 ^ 24 + b * 2 ^ 16 + c * 2 ^ 8 + d)))"

record pton6_state =
  p6_src :: nat
  p6_i :: nat
  p6_gap :: "nat option"
  p6_set :: nat
  p6_words :: "u16 list"

text \<open>
  The loop over the words up to position \<open>eow\<close>; \<open>None\<close> is \<open>return 0\<close>.  Each turn moves \<open>src\<close>
  forward.
\<close>

function pton6_loop :: "byte list \<Rightarrow> nat \<Rightarrow> pton6_state \<Rightarrow> pton6_state option" where
  "pton6_loop s eow p =
     (if \<not> p6_src p < eow then Some p
      else if p6_i p > 7 then None
      else if EVUTIL_ISXDIGIT (peek (drop (p6_src p) s)) then
        (let (r, n) = strtol16 (drop (p6_src p) s); src = p6_src p + n in
         if n > 4 then None
         else if n = 0 then None
         else if r > 65536 then None
         else if peek (drop src s) \<noteq> 58 \<and> src \<noteq> eow then None
         else pton6_loop s eow (p\<lparr>p6_words := (p6_words p)[p6_i p := of_nat r], p6_i := p6_i p + 1,
                p6_set := p6_set p + 1, p6_src := src + 1\<rparr>))
      else if peek (drop (p6_src p) s) = 58 \<and> p6_i p > 0 \<and> p6_gap p = None then
        pton6_loop s eow (p\<lparr>p6_gap := Some (p6_i p), p6_src := p6_src p + 1\<rparr>)
      else if peek (drop (p6_src p) s) = 58 \<and> p6_i p = 0 \<and> peek (drop (p6_src p + 1) s) = 58 \<and> p6_gap p = None then
        pton6_loop s eow (p\<lparr>p6_gap := Some (p6_i p), p6_src := p6_src p + 2\<rparr>)
      else None)"
  by pat_completeness auto
termination
  by (relation "measure (\<lambda>(s, eow, p). eow - p6_src p)") auto

declare pton6_loop.simps [simp del]

text \<open>The part after the loop: the gap is filled with zero words.\<close>

definition pton6_finish :: "bool \<Rightarrow> pton6_state \<Rightarrow> u16 list option" where
  "pton6_finish dot p =
     (if p6_set p > 8 \<or> p6_set p = 8 \<and> p6_gap p \<noteq> None \<or> p6_set p < 8 \<and> p6_gap p = None then None
      else case p6_gap p of
        None \<Rightarrow> Some (p6_words p)
      | Some gapPos \<Rightarrow>
          let n = int (p6_set p) - (if dot then 2 else 0) - int gapPos; gapLen = 8 - p6_set p in
          if n < 0 then None
          else let moved = blit (gapPos + gapLen) (seg gapPos (nat n) (p6_words p)) (p6_words p)
            in Some (blit gapPos (replicate gapLen 0) moved))"

text \<open>
  The IPv6 branch, with the eight words in place of the sixteen bytes they are stored as.
  The array of words starts uninitialised in C; here it starts as zeros.
\<close>

definition inet_pton6 :: "byte list \<Rightarrow> u16 list option" where
  "inet_pton6 src =
     (let init = \<lparr>p6_src = 0, p6_i = 0, p6_gap = None, p6_set = 0, p6_words = replicate 8 0\<rparr> in
      case find_str [46] src of
        None \<Rightarrow> Option.bind (pton6_loop src (length src) init) (pton6_finish False)
      | Some dot \<Rightarrow>
          if dot = 0 then None
          else let eow = dot - length (takeWhile EVUTIL_ISDIGIT (rev (take dot src))) in
            (case scan_dotted (drop eow src) of
               None \<Rightarrow> None
             | Some (byte1, byte2, byte3, byte4) \<Rightarrow>
                 if \<not> in_byte byte1 \<or> \<not> in_byte byte2 \<or> \<not> in_byte byte3 \<or> \<not> in_byte byte4 then None
                 else Option.bind (pton6_loop src eow (init\<lparr>p6_set := 2, p6_words :=
                        (replicate 8 0)[6 := word_of_int (byte1 * 2 ^ 8 + byte2),
                                        7 := word_of_int (byte3 * 2 ^ 8 + byte4)]\<rparr>))
                      (pton6_finish True)))"

end
