(* ===== verification/Evhttp_Uri.thy ===== *)
theory Evhttp_Uri
  imports Evhttp_Headers Evutil_Inet
begin

unbundle bit_operations_syntax

text \<open>
  URIs and query strings in libevent's http.c: percent coding, the parser of RFC 3986 URIs,
  the setters and the inverse \<open>evhttp_uri_join\<close>, HTML escaping, and the query parser the
  tracker and its clients read their parameters with.  A pointer into the string being
  parsed is the suffix it points to; a range \<open>[s, eos)\<close> is a list and what follows it.
\<close>

section \<open>Percent coding\<close>

definition uri_chars :: "nat list" where
  "uri_chars =
    [0, 0, 0, 0, 0, 0, 0, 0,   0, 0, 0, 0, 0, 0, 0, 0,
     0, 0, 0, 0, 0, 0, 0, 0,   0, 0, 0, 0, 0, 0, 0, 0,
     0, 0, 0, 0, 0, 0, 0, 0,   0, 0, 0, 0, 0, 1, 1, 0,
     1, 1, 1, 1, 1, 1, 1, 1,   1, 1, 0, 0, 0, 0, 0, 0,
     0, 1, 1, 1, 1, 1, 1, 1,   1, 1, 1, 1, 1, 1, 1, 1,
     1, 1, 1, 1, 1, 1, 1, 1,   1, 1, 1, 0, 0, 0, 0, 1,
     0, 1, 1, 1, 1, 1, 1, 1,   1, 1, 1, 1, 1, 1, 1, 1,
     1, 1, 1, 1, 1, 1, 1, 1,   1, 1, 1, 0, 0, 0, 1, 0] @ replicate 128 0"

definition CHAR_IS_UNRESERVED :: "byte \<Rightarrow> bool" where
  "CHAR_IS_UNRESERVED c \<longleftrightarrow> uri_chars ! unat c \<noteq> 0"

definition hex_upper :: "nat \<Rightarrow> byte" where
  "hex_upper d = (if d < 10 then of_nat (48 + d) else of_nat (55 + d))"

definition uriencode_char :: "bool \<Rightarrow> byte \<Rightarrow> byte list" where
  "uriencode_char space_as_plus c =
     (if CHAR_IS_UNRESERVED c then [c]
      else if c = 32 \<and> space_as_plus then [43]
      else [37, hex_upper (unat c div 16), hex_upper (unat c mod 16)])"

definition evhttp_uriencode :: "byte list \<Rightarrow> int \<Rightarrow> bool \<Rightarrow> byte list" where
  "evhttp_uriencode uri len space_as_plus =
     (let uri = (if len \<ge> 0 then take (nat len) uri else c_str uri)
      in concat (map (uriencode_char space_as_plus) uri))"

definition evhttp_encode_uri :: "byte list \<Rightarrow> byte list" where
  "evhttp_encode_uri s = evhttp_uriencode s (-1) False"

text \<open>
  The decoder, with \<open>ctl\<close> for \<open>decode_plus_ctl\<close> and \<open>dp\<close> for the flag it sets.
\<close>

fun decode_uri_loop :: "int \<Rightarrow> bool \<Rightarrow> byte list \<Rightarrow> byte list" where
  "decode_uri_loop ctl dp [] = []"
| "decode_uri_loop ctl dp (c # uri) =
     (if c = 63 then c # decode_uri_loop ctl (dp \<or> ctl < 0) uri
      else if c = 43 \<and> dp then 32 # decode_uri_loop ctl dp uri
      else if c = 37 \<and> EVUTIL_ISXDIGIT (peek uri) \<and> EVUTIL_ISXDIGIT (peek (tl uri)) then
        of_nat (16 * hex_val (peek uri) + hex_val (peek (tl uri))) # decode_uri_loop ctl dp (drop 2 uri)
      else c # decode_uri_loop ctl dp uri)"

definition evhttp_decode_uri_internal :: "byte list \<Rightarrow> int \<Rightarrow> byte list" where
  "evhttp_decode_uri_internal uri ctl = decode_uri_loop ctl (ctl = 1) uri"

definition evhttp_decode_uri :: "byte list \<Rightarrow> byte list" where
  "evhttp_decode_uri uri = evhttp_decode_uri_internal uri (-1)"

definition evhttp_uridecode :: "byte list \<Rightarrow> bool \<Rightarrow> byte list \<times> nat" where
  "evhttp_uridecode uri decode_plus =
     (let ret = evhttp_decode_uri_internal uri (if decode_plus then 1 else 0) in (ret, length ret))"

section \<open>HTML escaping\<close>

definition html_replace :: "byte \<Rightarrow> byte list" where
  "html_replace ch =
     (if ch = 60 then str ''&lt;''
      else if ch = 62 then str ''&gt;''
      else if ch = 34 then str ''&quot;''
      else if ch = 39 then str ''&#039;''
      else if ch = 38 then str ''&amp;''
      else [ch])"

text \<open>The first loop measures, with the overflow test; the second copies.\<close>

definition EV_SIZE_MAX :: u32 where "EV_SIZE_MAX = - 1"

fun htmlescape_size :: "u32 \<Rightarrow> byte list \<Rightarrow> u32 option" where
  "htmlescape_size new_size [] = Some new_size"
| "htmlescape_size new_size (c # html) =
     (if of_nat (length (html_replace c)) > EV_SIZE_MAX - new_size then None
      else htmlescape_size (new_size + of_nat (length (html_replace c))) html)"

definition evhttp_htmlescape :: "byte list \<Rightarrow> byte list option" where
  "evhttp_htmlescape html =
     (case htmlescape_size 0 html of
        None \<Rightarrow> None
      | Some new_size \<Rightarrow> if new_size = EV_SIZE_MAX then None else Some (concat (map html_replace html)))"

section \<open>The parts of a URI\<close>

record evhttp_uri =
  uri_flags :: u32
  uri_scheme :: "byte list option"
  uri_userinfo :: "byte list option"
  uri_host :: "byte list option"
  uri_port :: int
  uri_path :: "byte list option"
  uri_query :: "byte list option"
  uri_fragment :: "byte list option"

definition evhttp_uri_new :: evhttp_uri where
  "evhttp_uri_new = \<lparr>uri_flags = 0, uri_scheme = None, uri_userinfo = None, uri_host = None,
     uri_port = -1, uri_path = None, uri_query = None, uri_fragment = None\<rparr>"

definition EVHTTP_URI_NONCONFORMANT :: u32 where "EVHTTP_URI_NONCONFORMANT = 0x01"

definition scheme_ok :: "byte list \<Rightarrow> bool" where
  "scheme_ok s =
     (if s = [] then False
      else if \<not> EVUTIL_ISALPHA (peek s) then False
      else list_all (\<lambda>c. EVUTIL_ISALNUM c \<or> c = 43 \<or> c = 45 \<or> c = 46) (tl s))"

definition SUBDELIMS :: "byte list" where "SUBDELIMS = str ''!$&'' @ [39] @ str ''()*+,;=''"

text \<open>\<open>strchr (SUBDELIMS, c)\<close>: it also finds the terminating NUL.\<close>

definition is_subdelim :: "byte \<Rightarrow> bool" where
  "is_subdelim c \<longleftrightarrow> c = 0 \<or> c \<in> set SUBDELIMS"

fun userinfo_ok :: "byte list \<Rightarrow> bool" where
  "userinfo_ok [] = True"
| "userinfo_ok (c # s) =
     (if CHAR_IS_UNRESERVED c \<or> is_subdelim c \<or> c = 58 then userinfo_ok s
      else if c = 37 \<and> 2 \<le> length s \<and> EVUTIL_ISXDIGIT (peek s) \<and> EVUTIL_ISXDIGIT (peek (tl s))
        then userinfo_ok (drop 2 s)
      else False)"

fun regname_ok :: "byte list \<Rightarrow> byte list \<Rightarrow> bool" where
  "regname_ok [] after = True"
| "regname_ok (c # s) after =
     (if CHAR_IS_UNRESERVED c \<or> is_subdelim c then regname_ok s after
      else if c = 37 \<and> EVUTIL_ISXDIGIT (peek (s @ after)) \<and> EVUTIL_ISXDIGIT (peek (tl (s @ after)))
        then regname_ok (drop 2 s) after
      else False)"

text \<open>\<open>parse_port\<close>: the number is a 32-bit \<open>int\<close>, tested for its sign after each digit.\<close>

fun parse_port_loop :: "u32 \<Rightarrow> byte list \<Rightarrow> int" where
  "parse_port_loop portnum [] = sint portnum"
| "parse_port_loop portnum (c # s) =
     (if \<not> EVUTIL_ISDIGIT c then -1
      else let portnum = portnum * 10 + of_nat (unat c - 48) in
        if sint portnum < 0 then -1 else parse_port_loop portnum s)"

definition parse_port :: "byte list \<Rightarrow> int" where
  "parse_port s = parse_port_loop 0 s"

definition bracket_addr_ok :: "byte list \<Rightarrow> nat" where
  "bracket_addr_ok s =
     (if length s < 3 \<or> peek s \<noteq> 91 \<or> last s \<noteq> 93 then 0
      else if peek (tl s) = 118 then
        (let s = butlast (drop 2 s) in
         if \<not> EVUTIL_ISXDIGIT (peek s) then 0
         else case dropWhile EVUTIL_ISXDIGIT s of
             [] \<Rightarrow> 0
           | c # s \<Rightarrow> if c \<noteq> 46 then 0
               else if list_all (\<lambda>c. CHAR_IS_UNRESERVED c \<or> is_subdelim c \<or> c = 58) s then 2 else 0)
      else if length s - 2 \<ge> 64 then 0
      else if inet_pton6 (butlast (tl s)) \<noteq> None then 1 else 0)"

text \<open>
  \<open>parse_authority\<close> on the range \<open>a\<close> followed by \<open>after\<close>; \<open>None\<close> is -1.
\<close>

definition split_at :: "byte \<Rightarrow> byte list \<Rightarrow> (byte list \<times> byte list) option" where
  "split_at c s = map_option (\<lambda>i. (take i s, drop (Suc i) s)) (find_str [c] s)"

definition parse_authority :: "evhttp_uri \<Rightarrow> byte list \<Rightarrow> byte list \<Rightarrow> evhttp_uri option" where
  "parse_authority uri a after =
     (if a = [] then Some (uri\<lparr>uri_host := Some []\<rparr>)
      else Option.bind
        (case split_at 64 a of
           Some (userinfo, cp) \<Rightarrow>
             if \<not> userinfo_ok userinfo then None else Some (uri\<lparr>uri_userinfo := Some userinfo\<rparr>, cp)
         | None \<Rightarrow> Some (uri, a))
        (\<lambda>(uri, cp).
          let digits = rev (takeWhile EVUTIL_ISDIGIT (rev cp));
              before = dropWhile EVUTIL_ISDIGIT (rev cp)
          in Option.bind
            (if peek before = 58
             then (if digits = [] then Some (uri\<lparr>uri_port := -1\<rparr>, rev (tl before), 58 # after)
                   else if parse_port digits < 0 then None
                   else Some (uri\<lparr>uri_port := parse_port digits\<rparr>, rev (tl before), 58 # digits @ after))
             else Some (uri, cp, after))
            (\<lambda>(uri, host, after).
              if peek host = 91 \<and> 2 \<le> length host \<and> last host = 93
              then (if bracket_addr_ok host = 0 then None else Some (uri\<lparr>uri_host := Some host\<rparr>))
              else if \<not> regname_ok host after then None
              else Some (uri\<lparr>uri_host := Some host\<rparr>))))"

definition end_of_authority :: "byte list \<Rightarrow> byte list" where
  "end_of_authority cp = dropWhile (\<lambda>c. \<not> (c = 63 \<or> c = 35 \<or> c = 47)) cp"

datatype uri_part = PART_PATH | PART_QUERY | PART_FRAGMENT

fun end_of_path_conformant :: "uri_part \<Rightarrow> byte list \<Rightarrow> byte list" where
  "end_of_path_conformant part [] = []"
| "end_of_path_conformant part (c # cp) =
     (if CHAR_IS_UNRESERVED c \<or> is_subdelim c \<or> c = 58 \<or> c = 64 \<or> c = 47
      then end_of_path_conformant part cp
      else if c = 37 \<and> EVUTIL_ISXDIGIT (peek cp) \<and> EVUTIL_ISXDIGIT (peek (tl cp))
      then end_of_path_conformant part (drop 2 cp)
      else if c = 63 \<and> part \<noteq> PART_PATH then end_of_path_conformant part cp
      else c # cp)"

definition end_of_path :: "byte list \<Rightarrow> uri_part \<Rightarrow> u32 \<Rightarrow> byte list" where
  "end_of_path cp part flags =
     (if flags AND EVHTTP_URI_NONCONFORMANT \<noteq> 0
      then (case part of
          PART_PATH \<Rightarrow> dropWhile (\<lambda>c. c \<noteq> 35 \<and> c \<noteq> 63) cp
        | PART_QUERY \<Rightarrow> dropWhile (\<lambda>c. c \<noteq> 35) cp
        | PART_FRAGMENT \<Rightarrow> [])
      else end_of_path_conformant part cp)"

fun path_matches_noscheme :: "byte list \<Rightarrow> bool" where
  "path_matches_noscheme [] = True"
| "path_matches_noscheme (c # cp) =
     (if c = 58 then False else if c = 47 then True else path_matches_noscheme cp)"

section \<open>Parsing and joining\<close>

text \<open>The text between two pointers into one string.\<close>

definition upto_ptr :: "byte list \<Rightarrow> byte list \<Rightarrow> byte list" where
  "upto_ptr s e = take (length s - length e) s"

text \<open>The optional query and fragment: the text after the mark, and the rest.\<close>

definition uri_mark :: "byte \<Rightarrow> uri_part \<Rightarrow> u32 \<Rightarrow> byte list \<Rightarrow> byte list option \<times> byte list" where
  "uri_mark c part flags readp =
     (if peek readp = c \<and> readp \<noteq> []
      then (let e = end_of_path (tl readp) part flags in (Some (upto_ptr (tl readp) e), e))
      else (None, readp))"

definition evhttp_uri_parse_with_flags :: "byte list \<Rightarrow> u32 \<Rightarrow> evhttp_uri option" where
  "evhttp_uri_parse_with_flags source_uri flags =
     (let uri = evhttp_uri_new\<lparr>uri_flags := flags\<rparr>;
          (uri, readp) = (case split_at 58 source_uri of
               Some (scheme, rest) \<Rightarrow>
                 if scheme_ok scheme then (uri\<lparr>uri_scheme := Some scheme\<rparr>, rest) else (uri, source_uri)
             | None \<Rightarrow> (uri, source_uri))
      in Option.bind
        (if peek readp = 47 \<and> peek (tl readp) = 47
         then (let authority = drop 2 readp; path = end_of_authority authority in
               map_option (\<lambda>uri. (uri, path, True)) (parse_authority uri (upto_ptr authority path) path))
         else Some (uri, readp, False))
        (\<lambda>(uri, path, got_authority).
          let readp = end_of_path path PART_PATH flags;
              path = upto_ptr path readp;
              (query, readp) = uri_mark 63 PART_QUERY flags readp;
              (fragment, readp) = uri_mark 35 PART_FRAGMENT flags readp
          in if readp \<noteq> [] then None
             else if \<not> got_authority \<and> peek path = 47 \<and> peek (tl path) = 47 then None
             else if got_authority \<and> path \<noteq> [] \<and> peek path \<noteq> 47 then None
             else if uri_scheme uri = None \<and> \<not> path_matches_noscheme path then None
             else Some (uri\<lparr>uri_path := Some path, uri_query := query, uri_fragment := fragment\<rparr>)))"

definition evhttp_uri_parse :: "byte list \<Rightarrow> evhttp_uri option" where
  "evhttp_uri_parse source_uri = evhttp_uri_parse_with_flags source_uri 0"

text \<open>\<open>evhttp_uri_join\<close>: the text, if it fits the limit with its terminating NUL.\<close>

definition opt_str :: "byte list option \<Rightarrow> byte list" where
  "opt_str s = (case s of Some s \<Rightarrow> s | None \<Rightarrow> [])"

definition evhttp_uri_join :: "evhttp_uri \<Rightarrow> nat \<Rightarrow> byte list option" where
  "evhttp_uri_join uri limit =
     (if limit = 0 then None
      else
        let tmp = (case uri_scheme uri of Some s \<Rightarrow> s @ [58] | None \<Rightarrow> []);
            path = opt_str (uri_path uri);
            authority = (case uri_host uri of
                Some h \<Rightarrow> [47, 47] @ (case uri_userinfo uri of Some u \<Rightarrow> u @ [64] | None \<Rightarrow> []) @ h
                  @ (if uri_port uri \<ge> 0 then 58 # show_int (uri_port uri) else [])
              | None \<Rightarrow> [])
        in if uri_host uri \<noteq> None \<and> path \<noteq> [] \<and> peek path \<noteq> 47 then None
           else
             let tmp = tmp @ authority @ path
               @ (case uri_query uri of Some q \<Rightarrow> 63 # q | None \<Rightarrow> [])
               @ (case uri_fragment uri of Some f \<Rightarrow> 35 # f | None \<Rightarrow> [])
             in if length tmp + 1 > limit then None else Some tmp)"

section \<open>Setters\<close>

definition evhttp_uri_set_scheme :: "evhttp_uri \<Rightarrow> byte list option \<Rightarrow> evhttp_uri option" where
  "evhttp_uri_set_scheme uri scheme =
     (if (case scheme of Some s \<Rightarrow> \<not> scheme_ok s | None \<Rightarrow> False) then None else Some (uri\<lparr>uri_scheme := scheme\<rparr>))"

definition evhttp_uri_set_userinfo :: "evhttp_uri \<Rightarrow> byte list option \<Rightarrow> evhttp_uri option" where
  "evhttp_uri_set_userinfo uri userinfo =
     (if (case userinfo of Some s \<Rightarrow> \<not> userinfo_ok s | None \<Rightarrow> False) then None else Some (uri\<lparr>uri_userinfo := userinfo\<rparr>))"

definition evhttp_uri_set_host :: "evhttp_uri \<Rightarrow> byte list option \<Rightarrow> evhttp_uri option" where
  "evhttp_uri_set_host uri host =
     (case host of
        Some h \<Rightarrow>
          if peek h = 91 then (if bracket_addr_ok h = 0 then None else Some (uri\<lparr>uri_host := host\<rparr>))
          else if \<not> regname_ok h [] then None else Some (uri\<lparr>uri_host := host\<rparr>)
      | None \<Rightarrow> Some (uri\<lparr>uri_host := host\<rparr>))"

definition evhttp_uri_set_port :: "evhttp_uri \<Rightarrow> int \<Rightarrow> evhttp_uri option" where
  "evhttp_uri_set_port uri port = (if port < -1 then None else Some (uri\<lparr>uri_port := port\<rparr>))"

definition part_ok :: "evhttp_uri \<Rightarrow> uri_part \<Rightarrow> byte list option \<Rightarrow> bool" where
  "part_ok uri part s = (case s of Some s \<Rightarrow> end_of_path s part (uri_flags uri) = [] | None \<Rightarrow> True)"

definition evhttp_uri_set_path :: "evhttp_uri \<Rightarrow> byte list option \<Rightarrow> evhttp_uri option" where
  "evhttp_uri_set_path uri path =
     (if \<not> part_ok uri PART_PATH path then None else Some (uri\<lparr>uri_path := path\<rparr>))"

definition evhttp_uri_set_query :: "evhttp_uri \<Rightarrow> byte list option \<Rightarrow> evhttp_uri option" where
  "evhttp_uri_set_query uri query =
     (if \<not> part_ok uri PART_QUERY query then None else Some (uri\<lparr>uri_query := query\<rparr>))"

definition evhttp_uri_set_fragment :: "evhttp_uri \<Rightarrow> byte list option \<Rightarrow> evhttp_uri option" where
  "evhttp_uri_set_fragment uri fragment =
     (if \<not> part_ok uri PART_FRAGMENT fragment then None else Some (uri\<lparr>uri_fragment := fragment\<rparr>))"

section \<open>Query strings\<close>

text \<open>\<open>strsep\<close> with a one-character delimiter: the token and the new pointer.\<close>

definition strsep :: "byte list \<Rightarrow> byte \<Rightarrow> byte list \<times> byte list option" where
  "strsep s del = (case split_at del s of Some (tok, d) \<Rightarrow> (tok, Some d) | None \<Rightarrow> (s, None))"

lemma strsep_shorter: "strsep s del = (tok, Some p) \<Longrightarrow> length p < length s"
  by (auto simp: strsep_def split_at_def split: option.splits dest: find_str_SomeD)

function parse_query_loop :: "byte list option \<Rightarrow> evkeyvalq \<Rightarrow> evkeyvalq option" where
  "parse_query_loop p headers =
     (case p of None \<Rightarrow> Some headers
      | Some p \<Rightarrow>
          if p = [] then Some headers
          else
            let (argument, p) = strsep p 38; (key, v) = strsep argument 61 in
            case v of None \<Rightarrow> None
            | Some v \<Rightarrow>
                if key = [] then None
                else
                  let decoded_value = evhttp_decode_uri_internal v 1 in
                  parse_query_loop p (snd (evhttp_add_header_internal headers key (c_str decoded_value))))"
  by pat_completeness auto
termination
  by (relation "measure (\<lambda>(p, headers). case p of None \<Rightarrow> 0 | Some p \<Rightarrow> Suc (length p))")
    (auto split: option.split dest!: strsep_shorter [OF sym])

declare parse_query_loop.simps [simp del]

definition evhttp_parse_query_impl :: "byte list \<Rightarrow> bool \<Rightarrow> int \<times> evkeyvalq" where
  "evhttp_parse_query_impl s is_whole_uri =
     (let query_part =
            (if is_whole_uri then map_option uri_query (evhttp_uri_parse s) else Some (Some s))
      in case query_part of
           None \<Rightarrow> (-1, evhttp_clear_headers [])
         | Some None \<Rightarrow> (0, [])
         | Some (Some q) \<Rightarrow>
             if q = [] then (0, [])
             else (case parse_query_loop (Some q) [] of
                 Some headers \<Rightarrow> (0, headers)
               | None \<Rightarrow> (-1, evhttp_clear_headers [])))"

definition evhttp_parse_query :: "byte list \<Rightarrow> int \<times> evkeyvalq" where
  "evhttp_parse_query uri = evhttp_parse_query_impl uri True"

definition evhttp_parse_query_str :: "byte list \<Rightarrow> int \<times> evkeyvalq" where
  "evhttp_parse_query_str uri = evhttp_parse_query_impl uri False"

end
