(* ===== verification/Evhttp_Query.thy ===== *)
theory Evhttp_Query
  imports Evhttp_Uri
begin

text \<open>
  What the URI and query functions of http.c do: the decoder undoes the encoder, the query
  parser recovers the pairs it was given, and the port parser's bounds.
\<close>

section \<open>The percent code\<close>

lemma uri_chars_table:
  "uri_chars = map (\<lambda>n. if 48 \<le> n \<and> n \<le> 57 \<or> 65 \<le> n \<and> n \<le> 90 \<or> 97 \<le> n \<and> n \<le> 122
    \<or> n = 45 \<or> n = 46 \<or> n = 95 \<or> n = 126 then 1 else 0) [0..<256]"
  by code_simp

lemma uri_chars_spec [code]:
  "CHAR_IS_UNRESERVED c \<longleftrightarrow> 48 \<le> unat c \<and> unat c \<le> 57 \<or> 65 \<le> unat c \<and> unat c \<le> 90
    \<or> 97 \<le> unat c \<and> unat c \<le> 122 \<or> unat c \<in> {45, 46, 95, 126}"
  using unat_byte_less [of c] by (simp add: CHAR_IS_UNRESERVED_def uri_chars_table nth_map [of "unat c" "[0..<256]"])

lemma hex_upper_digit:
  assumes "d < 16"
  shows "EVUTIL_ISXDIGIT (hex_upper d) \<and> hex_val (hex_upper d) = d"
  using assms by (simp add: EVUTIL_ISXDIGIT_spec hex_upper_def hex_val_def unat_of_nat del: of_nat_add)

lemma decode_encode_char:
  assumes "sp \<longrightarrow> dp"
  shows "decode_uri_loop ctl dp (uriencode_char sp c @ rest) = c # decode_uri_loop ctl dp rest"
proof (cases "CHAR_IS_UNRESERVED c")
  case True
  then have "c \<noteq> 63 \<and> c \<noteq> 43 \<and> c \<noteq> 37" by (auto simp: uri_chars_spec)
  with True show ?thesis by (simp add: uriencode_char_def)
next
  case False
  have "unat c div 16 < 16" using unat_byte_less [of c] by linarith
  then have "EVUTIL_ISXDIGIT (hex_upper (unat c div 16)) \<and> hex_val (hex_upper (unat c div 16)) = unat c div 16"
    by (rule hex_upper_digit)
  moreover have "EVUTIL_ISXDIGIT (hex_upper (unat c mod 16)) \<and> hex_val (hex_upper (unat c mod 16)) = unat c mod 16"
    by (rule hex_upper_digit) simp
  moreover have "(of_nat (16 * (unat c div 16) + unat c mod 16) :: byte) = c" by simp
  ultimately show ?thesis using False assms by (simp add: uriencode_char_def del: of_nat_add of_nat_mult)
qed

lemma decode_encode:
  "sp \<longrightarrow> dp \<Longrightarrow> decode_uri_loop ctl dp (concat (map (uriencode_char sp) s)) = s"
  by (induction s) (simp_all add: decode_encode_char)

section \<open>Query text\<close>

text \<open>The query the pairs are written as: \<open>key=value\<close>, separated by \<open>&\<close>.\<close>

fun query_text :: "(byte list \<times> byte list) list \<Rightarrow> byte list" where
  "query_text [] = []"
| "query_text ((k, v) # kvs) = k @ 61 # v @ (if kvs = [] then [] else 38 # query_text kvs)"

definition pair_ok :: "byte list \<times> byte list \<Rightarrow> bool" where
  "pair_ok kv \<longleftrightarrow> fst kv \<noteq> [] \<and> 38 \<notin> set (fst kv) \<and> 61 \<notin> set (fst kv) \<and> 38 \<notin> set (snd kv)"

lemma split_at_prefix: "c \<notin> set xs \<Longrightarrow> split_at c (xs @ c # ys) = Some (xs, ys)"
  by (simp add: split_at_def find_char_prefix)

lemma split_at_None: "c \<notin> set xs \<Longrightarrow> split_at c xs = None"
  by (simp add: split_at_def find_char_None)

lemma parse_query_pairs:
  assumes "list_all pair_ok kvs"
  shows "parse_query_loop (Some (query_text kvs)) headers
    = Some (headers @ map (\<lambda>(k, v). (k, c_str (evhttp_decode_uri_internal v 1))) kvs)"
  using assms
proof (induction kvs arbitrary: headers)
  case Nil
  then show ?case by (simp add: parse_query_loop.simps)
next
  case (Cons kv kvs)
  obtain k v where kv: "kv = (k, v)" by (cases kv)
  with Cons.prems have k: "k \<noteq> []" "38 \<notin> set (k @ 61 # v)" "61 \<notin> set k" by (auto simp: pair_ok_def)
  have eq: "strsep (k @ 61 # v) 61 = (k, Some v)" using k by (simp add: strsep_def split_at_prefix)
  show ?case
  proof (cases "kvs = []")
    case True
    have "strsep (k @ 61 # v) 38 = (k @ 61 # v, None)" using k by (simp add: strsep_def split_at_None)
    then show ?thesis using True k eq
      by (simp add: kv parse_query_loop.simps [of "Some (k @ 61 # v)"] parse_query_loop.simps [of None]
          evhttp_add_header_internal_def)
  next
    case False
    have "strsep ((k @ 61 # v) @ 38 # query_text kvs) 38 = (k @ 61 # v, Some (query_text kvs))"
      using k split_at_prefix [of 38 "k @ 61 # v" "query_text kvs"] by (simp add: strsep_def)
    then show ?thesis using False k eq Cons
      by (simp add: kv parse_query_loop.simps [of "Some (k @ 61 # v @ 38 # query_text kvs)"]
          evhttp_add_header_internal_def)
  qed
qed

text \<open>Text that is a query as a whole, and the request the program parses: \<open>/?\<close> and a query.\<close>

definition query_ok :: "byte list \<Rightarrow> bool" where
  "query_ok q \<longleftrightarrow> end_of_path_conformant PART_QUERY q = []"

lemma end_of_path_append:
  "end_of_path_conformant part s = [] \<Longrightarrow> end_of_path_conformant part (s @ t) = end_of_path_conformant part t"
proof (induction part s rule: end_of_path_conformant.induct)
  case (2 part c cp)
  show ?case
  proof (cases "c = 37 \<and> EVUTIL_ISXDIGIT (peek cp) \<and> EVUTIL_ISXDIGIT (peek (tl cp))")
    case True
    then obtain x y cp' where cp: "cp = x # y # cp'"
      by (cases cp; cases "tl cp") (auto simp: EVUTIL_ISXDIGIT_spec)
    show ?thesis
    proof (cases "CHAR_IS_UNRESERVED c \<or> is_subdelim c \<or> c = 58 \<or> c = 64 \<or> c = 47")
      case True
      then show ?thesis using 2(1) 2(4) by simp
    next
      case False
      then show ?thesis using 2(2) 2(4) True cp by simp
    qed
  next
    case False
    then show ?thesis using 2(1,3,4) by (auto split: if_splits)
  qed
qed simp

lemma query_ok_append: "query_ok s \<Longrightarrow> query_ok t \<Longrightarrow> query_ok (s @ t)"
  by (simp add: query_ok_def end_of_path_append)

lemma query_ok_Nil [simp]: "query_ok []"
  by (simp add: query_ok_def)

lemma query_ok_char:
  "CHAR_IS_UNRESERVED c \<or> is_subdelim c \<or> c = 58 \<or> c = 64 \<or> c = 47 \<or> c = 63 \<Longrightarrow> query_ok s \<Longrightarrow> query_ok (c # s)"
  by (auto simp: query_ok_def)

lemma query_ok_escape: "a < 16 \<Longrightarrow> b < 16 \<Longrightarrow> query_ok [37, hex_upper a, hex_upper b]"
  by (simp add: query_ok_def hex_upper_digit uri_chars_spec [of 37] is_subdelim_def [of 37] SUBDELIMS_def)

lemma query_ok_encoded: "query_ok (concat (map (uriencode_char sp) s))"
proof (induction s)
  case (Cons c s)
  have "query_ok (uriencode_char sp c)"
  proof (cases "CHAR_IS_UNRESERVED c \<or> c = 32 \<and> sp")
    case True
    then show ?thesis
      by (auto simp: uriencode_char_def is_subdelim_def SUBDELIMS_def intro!: query_ok_char)
  next
    case False
    have "unat c div 16 < 16" using unat_byte_less [of c] by linarith
    with False show ?thesis
      using query_ok_escape [of "unat c div 16" "unat c mod 16"] by (auto simp: uriencode_char_def)
  qed
  with Cons show ?case by (simp add: query_ok_append)
qed simp

lemma query_ok_plain: "list_all CHAR_IS_UNRESERVED s \<Longrightarrow> query_ok s"
  by (induction s) (auto intro: query_ok_char)

lemma query_ok_text: "list_all (\<lambda>(k, v). query_ok k \<and> query_ok v) kvs \<Longrightarrow> query_ok (query_text kvs)"
proof (induction kvs)
  case (Cons kv kvs)
  have "query_ok (61 # t)" "query_ok (38 # t)" if "query_ok t" for t
    using that by (auto simp: is_subdelim_def SUBDELIMS_def intro!: query_ok_char)
  with Cons show ?case by (cases kv) (auto intro!: query_ok_append)
qed simp

lemma uri_parse_query:
  assumes "query_ok q"
  shows "evhttp_uri_parse (47 # 63 # q)
    = Some (evhttp_uri_new\<lparr>uri_path := Some [47], uri_query := Some q\<rparr>)"
proof -
  have scheme: "\<not> scheme_ok s" if "split_at 58 (47 # 63 # q) = Some (s, r)" for s r
  proof -
    from that have "s = [] \<or> peek s = 47" by (auto simp: split_at_def split: option.splits if_splits)
    moreover have "\<not> EVUTIL_ISALPHA 47"
      by (simp add: EVUTIL_ISALPHA_def table_bit_def EVUTIL_ISALPHA_TABLE_def)
    ultimately show ?thesis by (auto simp: scheme_ok_def)
  qed
  have "(case split_at 58 (47 # 63 # q) of
           Some (s, rest) \<Rightarrow> if scheme_ok s then (u\<lparr>uri_scheme := Some s\<rparr>, rest) else (u, 47 # 63 # q)
         | None \<Rightarrow> (u, 47 # 63 # q)) = (u, 47 # 63 # q)" for u :: evhttp_uri
    using scheme by (auto split: option.split)
  moreover have "\<not> CHAR_IS_UNRESERVED 63" "\<not> is_subdelim 63" "\<not> CHAR_IS_UNRESERVED 47"
    by (simp_all add: uri_chars_spec is_subdelim_def SUBDELIMS_def)
  ultimately show ?thesis
    using assms
    by (simp add: evhttp_uri_parse_def evhttp_uri_parse_with_flags_def Let_def end_of_path_def upto_ptr_def
        uri_mark_def query_ok_def evhttp_uri_new_def)
qed

lemma evhttp_parse_query_pairs:
  assumes "list_all pair_ok kvs" and "kvs \<noteq> []" and "query_ok (query_text kvs)"
  shows "evhttp_parse_query (47 # 63 # query_text kvs)
    = (0, map (\<lambda>(k, v). (k, c_str (evhttp_decode_uri_internal v 1))) kvs)"
proof -
  have "query_text kvs \<noteq> []" using assms(2) by (cases kvs) auto
  then show ?thesis
    using assms by (simp add: evhttp_parse_query_def evhttp_parse_query_impl_def uri_parse_query parse_query_pairs)
qed

lemma decode_no_percent: "37 \<notin> set v \<Longrightarrow> 43 \<notin> set v \<Longrightarrow> evhttp_decode_uri_internal v ctl = v"
proof -
  have "decode_uri_loop ctl dp v = v" if "37 \<notin> set v" "43 \<notin> set v" for dp
    using that by (induction v arbitrary: dp) auto
  then show "37 \<notin> set v \<Longrightarrow> 43 \<notin> set v \<Longrightarrow> ?thesis" by (simp add: evhttp_decode_uri_internal_def)
qed

section \<open>Ports\<close>

lemma digits_val_mono: "0 \<le> acc \<Longrightarrow> acc \<le> digits_val acc ds"
proof (induction ds arbitrary: acc)
  case (Cons d ds)
  have "acc \<le> 10 * acc + int (d - 48)" using Cons.prems by simp
  also have "\<dots> \<le> digits_val (10 * acc + int (d - 48)) ds" using Cons by simp
  finally show ?case by simp
qed simp

lemma uint_ge_neg: "k \<le> 0 \<Longrightarrow> k \<le> uint w"
  by (rule order_trans [of k 0]) simp_all

lemma sint_small: "uint (w :: u32) < 2 ^ 31 \<Longrightarrow> sint w = uint w"
  unfolding sint_uint by (rule signed_take_bit_int_eq_self) (simp_all add: uint_ge_neg)

lemma c_isdigit_byte: "EVUTIL_ISDIGIT d \<longleftrightarrow> c_isdigit (unat d)"
  by (simp add: EVUTIL_ISDIGIT_spec c_isdigit_def)

lemma parse_port_loop_append:
  assumes "list_all EVUTIL_ISDIGIT ds" and "digits_val (uint p) (map unat ds) < 2 ^ 31"
  shows "parse_port_loop p (ds @ es) = parse_port_loop (word_of_int (digits_val (uint p) (map unat ds))) es"
  using assms
proof (induction ds arbitrary: p)
  case (Cons d ds)
  let ?d = "unat d - 48"
  let ?q = "p * 10 + of_nat ?d"
  from Cons.prems have v: "digits_val (10 * uint p + int ?d) (map unat ds) < 2 ^ 31"
    and d: "c_isdigit (unat d)" by (simp_all add: c_isdigit_byte)
  have n: "10 * uint p + int ?d < 2 ^ 31"
    using digits_val_mono [of "10 * uint p + int ?d" "map unat ds"] v by simp
  have q: "uint ?q = 10 * uint p + int ?d"
  proof -
    have "uint (of_nat ?d :: u32) = int ?d"
      using unat_byte_less [of d] by (simp add: unsigned_of_nat take_bit_nat_eq_self)
    moreover have "0 \<le> uint p" by simp
    ultimately show ?thesis using n by (simp add: uint_word_ariths mult.commute)
  qed
  have "sint ?q = uint ?q" using q n by (intro sint_small) simp
  then have "\<not> sint ?q < 0" by simp
  with Cons.IH [of ?q] Cons.prems(1) v show ?case by (simp add: Let_def q c_isdigit_byte d)
qed simp

lemma show_nat_digits: "list_all EVUTIL_ISDIGIT (show_nat n)"
  using show_nat_digit [of _ n] by (auto simp: list_all_iff EVUTIL_ISDIGIT_spec word_le_nat_alt)

lemma parse_port_show:
  "n < 2 ^ 31 \<Longrightarrow> parse_port (show_nat n @ es) = parse_port_loop (of_nat n) es"
  using parse_port_loop_append [of "show_nat n" 0] show_nat_digits [of n]
  by (simp add: parse_port_def unat_show_nat digits_val_udec)

section \<open>Properties\<close>

text \<open>
  The decoder undoes the encoder on every byte string, NUL bytes included: with spaces
  written as \<open>+\<close> when the decoder turns \<open>+\<close> into a space (\<open>ctl = 1\<close>), and in every mode
  otherwise.
\<close>

lemma uridecode_uriencode:
  assumes "space_as_plus \<longrightarrow> ctl = 1"
  shows "evhttp_decode_uri_internal (evhttp_uriencode s (int (length s)) space_as_plus) ctl = s"
  using assms by (simp add: evhttp_decode_uri_internal_def evhttp_uriencode_def decode_encode)

lemma uridecode_uriencode_witness:
  "evhttp_decode_uri_internal (evhttp_uriencode [0, 32, 37, 43, 200] 5 True) 1 = [0, 32, 37, 43, 200]"
  using uridecode_uriencode [of True 1 "[0, 32, 37, 43, 200]"] by simp

text \<open>
  C34. The query parser recovers the parameters: for keys of unreserved characters and
  arbitrary NUL-free values, the query written with encoded values is parsed, as the query
  of \<open>/?\<close>, into exactly those pairs in the same order.
\<close>

theorem parse_query_roundtrip:
  assumes "kvs \<noteq> []"
    and "\<forall>(k, v) \<in> set kvs. k \<noteq> [] \<and> list_all CHAR_IS_UNRESERVED k \<and> nul_free v"
  shows "evhttp_parse_query (str ''/?'' @ query_text (map (\<lambda>(k, v). (k, evhttp_encode_uri v)) kvs)) = (0, kvs)"
proof -
  let ?enc = "map (\<lambda>(k, v). (k, evhttp_encode_uri v)) kvs"
  have unreserved: "38 \<notin> set s \<and> 61 \<notin> set s" if "list_all CHAR_IS_UNRESERVED s" for s
    using that by (auto simp: list_all_iff uri_chars_spec)
  have enc: "evhttp_encode_uri v = concat (map (uriencode_char False) v)" if "nul_free v" for v
    using that by (simp add: evhttp_encode_uri_def evhttp_uriencode_def)
  have noamp: "38 \<notin> set (uriencode_char False c)" for c
  proof -
    have "hex_upper d \<noteq> 38" if "d < 16" for d
      using hex_upper_digit [OF that] by (auto simp: EVUTIL_ISXDIGIT_spec)
    moreover have "unat c div 16 < 16" using unat_byte_less [of c] by linarith
    ultimately show ?thesis by (auto simp: uriencode_char_def uri_chars_spec)
  qed
  have "list_all pair_ok ?enc"
    using assms(2) unreserved noamp by (auto simp: list_all_iff pair_ok_def enc)
  moreover have "query_ok (query_text ?enc)"
    using assms(2) by (intro query_ok_text) (auto simp: list_all_iff enc query_ok_encoded query_ok_plain)
  moreover have "map (\<lambda>(k, v). (k, c_str (evhttp_decode_uri_internal v 1))) ?enc = kvs"
    unfolding map_map
    using assms(2) by (intro map_idI) (auto simp: enc evhttp_decode_uri_internal_def decode_encode)
  ultimately show ?thesis using assms(1) evhttp_parse_query_pairs [of ?enc] by simp
qed

theorem parse_query_roundtrip_witness:
  "evhttp_parse_query (str ''/?'' @ query_text [([99], evhttp_encode_uri [115]), ([112], evhttp_encode_uri [38, 61])])
    = (0, [([99], [115]), ([112], [38, 61])])"
  using parse_query_roundtrip [of "[([99], [115]), ([112], [38, 61])]"] by (simp add: uri_chars_spec)

text \<open>
  \<open>parse_port\<close> returns the number of a digit string below 2^31; the overflow test after
  each digit looks only at the sign, so a larger number can be taken for a small port.
\<close>

lemma parse_port_bounds:
  assumes "p < 2 ^ 31"
  shows "parse_port (show_nat p) = int p \<and> parse_port (show_nat (2 ^ 32 + p)) = int p"
proof
  have sint: "sint (of_nat p :: u32) = int p"
    using assms by (subst sint_small) (simp_all add: unsigned_of_nat take_bit_nat_eq_self)
  show "parse_port (show_nat p) = int p"
    using parse_port_show [of p "[]"] assms by (simp add: sint)
  define n m d where "n = 2 ^ 32 + p" and "m = n div 10" and "d = n mod 10"
  have split: "show_nat n = show_nat m @ [of_nat (48 + d)]"
    unfolding show_nat_def m_def d_def by (subst udec.simps) (simp add: n_def)
  have m: "m < 2 ^ 31" and d: "d < 10" using assms by (simp_all add: n_def m_def d_def)
  have eq: "(of_nat m * 10 + of_nat d :: u32) = of_nat p"
  proof -
    have "(of_nat (m * 10 + d) :: u32) = of_nat n" by (simp only: m_def d_def div_mult_mod_eq)
    also have "\<dots> = of_nat p"
      by (simp add: n_def word_unat_eq_iff unat_of_nat del: of_nat_add)
    finally show ?thesis by (simp only: of_nat_add of_nat_mult of_nat_numeral)
  qed
  have "unat (of_nat (48 + d) :: byte) = 48 + d" using d by (simp add: unat_of_nat del: of_nat_add)
  then have "parse_port_loop (of_nat m) [of_nat (48 + d)] = int p"
    using d by (simp add: EVUTIL_ISDIGIT_spec Let_def eq sint del: of_nat_add)
  then show "parse_port (show_nat (2 ^ 32 + p)) = int p"
    unfolding n_def [symmetric] split parse_port_show [OF m] .
qed

lemma parse_port_bounds_witness: "parse_port (show_nat 80) = 80 \<and> parse_port (show_nat (2 ^ 32 + 80)) = 80"
  using parse_port_bounds [of 80] by simp

end
