(* ===== verification/Tracker.thy ===== *)
theory Tracker
  imports Tracker_Decoder Tracker_Peers Evhttp_Query Server_Recv
begin

unbundle bit_operations_syntax

text \<open>
  The tracker (P2PTracker): its connections, the two request handlers and the server with
  its callbacks.  A connection object and a bufferevent are named by a number for their
  address.  The two handlers are process-wide objects made by \<open>GetInstance\<close> and counted by
  the connections: \<open>tk_peers\<close> is the count and the table of CHttpRequestCommandPeerTracker,
  \<open>tk_dig\<close> the count of CHttpRequestCommandDig, \<open>None\<close> when there is no instance.  Asserts are
  those of a release build, which do nothing.  What is written to a bufferevent is the
  output of a call.
\<close>

section \<open>Connections\<close>

datatype http_command = PeerTracker | Dig

record http_conn =
  hc_bufferev :: "nat option"
  hc_socket_ok :: bool
  hc_state :: rd_state
  hc_ip :: "byte list"
  hc_port :: u16
  hc_event :: bool
  hc_queue :: "byte list list"
  hc_commands :: "(byte list \<times> http_command) list"
  hc_http :: "request_line http_buf"
  hc_refs :: nat

record tracker =
  tk_clients :: "(nat \<times> nat) list"
  tk_heap :: "nat \<Rightarrow> http_conn option"
  tk_peers :: "(nat \<times> peer_map) option"
  tk_dig :: "nat option"
  tk_live :: "nat list"

type_synonym tk_out = "nat \<times> byte list"
type_synonym tk_result = "sb_error + tracker \<times> tk_out list"

definition CTrackerHttpServer :: tracker where
  "CTrackerHttpServer = \<lparr>tk_clients = [], tk_heap = Map.empty, tk_peers = None, tk_dig = None, tk_live = []\<rparr>"

subsection \<open>Counting\<close>

definition hc_store :: "nat \<Rightarrow> http_conn \<Rightarrow> tracker \<Rightarrow> tracker" where
  "hc_store q c w = w\<lparr>tk_heap := (tk_heap w)(q := if hc_refs c = 0 then None else Some c)\<rparr>"

definition hc_update :: "nat \<Rightarrow> (http_conn \<Rightarrow> http_conn) \<Rightarrow> tracker \<Rightarrow> sb_error + tracker" where
  "hc_update q f w = (case tk_heap w q of None \<Rightarrow> Inl MemFault | Some c \<Rightarrow> Inr (hc_store q (f c) w))"

definition hc_AddRef :: "nat \<Rightarrow> tracker \<Rightarrow> sb_error + tracker" where
  "hc_AddRef q = hc_update q (\<lambda>c. c\<lparr>hc_refs := hc_refs c + 1\<rparr>)"

definition hc_Release :: "nat \<Rightarrow> tracker \<Rightarrow> sb_error + tracker" where
  "hc_Release q = hc_update q (\<lambda>c. c\<lparr>hc_refs := hc_refs c - 1\<rparr>)"

text \<open>
  \<open>GetInstance\<close> and \<open>AddRef\<close> of the handlers; their \<open>Release\<close> deletes the instance, and with
  it the table of peers, when the last connection lets it go.
\<close>

definition cmd_AddRef :: "tracker \<Rightarrow> tracker" where
  "cmd_AddRef w = w\<lparr>
     tk_peers := (case tk_peers w of None \<Rightarrow> Some (1, []) | Some (refs, m) \<Rightarrow> Some (refs + 1, m)),
     tk_dig := (case tk_dig w of None \<Rightarrow> Some 1 | Some refs \<Rightarrow> Some (refs + 1))\<rparr>"

definition cmd_Release :: "http_command \<Rightarrow> tracker \<Rightarrow> tracker" where
  "cmd_Release c w =
     (case c of
        PeerTracker \<Rightarrow> w\<lparr>tk_peers := (case tk_peers w of None \<Rightarrow> None
          | Some (refs, m) \<Rightarrow> if refs - 1 = 0 then None else Some (refs - 1, m))\<rparr>
      | Dig \<Rightarrow> w\<lparr>tk_dig := (case tk_dig w of None \<Rightarrow> None
          | Some refs \<Rightarrow> if refs - 1 = 0 then None else Some (refs - 1))\<rparr>)"

subsection \<open>Operations\<close>

text \<open>The map of a connection, in the order of its keys.\<close>

definition InitHttpRequestCommandMap :: "(byte list \<times> http_command) list" where
  "InitHttpRequestCommandMap = [(str ''/c'', Dig), (str ''/p'', PeerTracker)]"

text \<open>The constructor; \<open>event_ok\<close> says whether \<open>event_new\<close> gave the event that holds a reference.\<close>

definition CHttpClientConnection :: "bool \<Rightarrow> nat option \<Rightarrow> bool \<Rightarrow> http_conn" where
  "CHttpClientConnection socket_ok bufferev event_ok =
     \<lparr>hc_bufferev = bufferev, hc_socket_ok = socket_ok, hc_state = RDCS_INVALID, hc_ip = [], hc_port = 0,
      hc_event = event_ok, hc_queue = [], hc_commands = InitHttpRequestCommandMap, hc_http = hc_Clear,
      hc_refs = (if event_ok then 1 else 0)\<rparr>"

definition hc_IsValid :: "http_conn \<Rightarrow> bool" where
  "hc_IsValid c = (if \<not> hc_socket_ok c \<or> hc_bufferev c = None then False else True)"

definition hc_OnConnect :: "http_conn \<Rightarrow> http_conn" where
  "hc_OnConnect c = c\<lparr>hc_state := RDCS_CONNECTED\<rparr>"

definition hc_drop_event :: "http_conn \<Rightarrow> http_conn" where
  "hc_drop_event c = (if hc_event c then c\<lparr>hc_event := False, hc_refs := hc_refs c - 1\<rparr> else c)"

definition hc_OnError :: "http_conn \<Rightarrow> http_conn" where
  "hc_OnError c = hc_drop_event (c\<lparr>hc_state := RDCS_DISCONNECTED, hc_bufferev := None\<rparr>)"

definition hc_Stop :: "nat \<Rightarrow> tracker \<Rightarrow> sb_error + tracker" where
  "hc_Stop q w =
     (case tk_heap w q of
        None \<Rightarrow> Inl MemFault
      | Some c \<Rightarrow>
          Inr (fold (\<lambda>e. cmd_Release (snd e)) (hc_commands c)
                (hc_store q (hc_drop_event (c\<lparr>hc_bufferev := None\<rparr>)\<lparr>hc_commands := []\<rparr>) w)))"

text \<open>The send event only empties a queue that nothing fills.\<close>

definition hc_OnAsynSendCommand :: "http_conn \<Rightarrow> http_conn" where
  "hc_OnAsynSendCommand c = c\<lparr>hc_queue := []\<rparr>"

definition hc_Send :: "byte list \<Rightarrow> http_conn \<Rightarrow> tk_out list" where
  "hc_Send data c = (case hc_bufferev c of None \<Rightarrow> [] | Some bev \<Rightarrow> [(bev, data)])"

definition HTTP_CONTENT_TYPE_TEXT_PLAIN :: "byte list" where
  "HTTP_CONTENT_TYPE_TEXT_PLAIN = str ''text/plain''"

definition hc_Send404 :: "http_conn \<Rightarrow> tk_out list" where
  "hc_Send404 = hc_Send (str ''HTTP/1.1 404 Not Found'' @ CRLF @ str ''Content-Type: '' @ HTTP_CONTENT_TYPE_TEXT_PLAIN
     @ CRLF @ str ''Content-Length: 0'' @ CRLF @ CRLF)"

section \<open>The peer handler\<close>

definition X_FORWARDED_FOR :: "byte list" where "X_FORWARDED_FOR = str ''X_FORWARDED_FOR''"
definition X_FORWARDED_FOR_PORT :: "byte list" where "X_FORWARDED_FOR_PORT = str ''X_FORWARDED_FOR_PORT''"

definition to_port :: "byte list \<Rightarrow> u16" where
  "to_port s = word_of_int (atoi_c s)"

definition body_200 :: "int \<Rightarrow> byte list \<Rightarrow> byte list" where
  "body_200 result strExtra =
     str ''result='' @ show_int result @ (if strExtra = [] then [] else 38 # strExtra)"

definition pt_Send200 :: "nat option \<Rightarrow> int \<Rightarrow> byte list \<Rightarrow> sb_error + tk_out list" where
  "pt_Send200 bufferev result strExtra =
     (case bufferev of
        None \<Rightarrow> Inl MemFault
      | Some bev \<Rightarrow>
          Inr [(bev, str ''HTTP/1.1 200 OK'' @ CRLF @ str ''Content-Type: '' @ HTTP_CONTENT_TYPE_TEXT_PLAIN @ CRLF
            @ str ''Content-Length: '' @ show_nat (length (body_200 result strExtra)) @ CRLF @ CRLF
            @ body_200 result strExtra)])"

text \<open>
  The four requests.  The result is whether the request was handled, the table and what was
  sent; \<open>GetLivePeer\<close>'s addresses are printed into a \<open>char [100]\<close>.
\<close>

type_synonym pt_result = "sb_error + bool \<times> peer_map \<times> tk_out list"

definition OnPeerOnline :: "nat \<Rightarrow> nat option \<Rightarrow> byte list \<Rightarrow> u16 \<Rightarrow> peer_map \<Rightarrow> pt_result" where
  "OnPeerOnline now bufferev ip port m =
     rd_bind (pt_Send200 bufferev 0 []) (\<lambda>outs. Inr (True, peer_online now (ip, port) m, outs))"

definition OnPeerPing :: "nat option \<Rightarrow> byte list \<Rightarrow> u16 \<Rightarrow> peer_map \<Rightarrow> pt_result" where
  "OnPeerPing bufferev ip port m =
     (case peer_ping (ip, port) m of
        None \<Rightarrow> Inr (False, m, [])
      | Some m' \<Rightarrow> rd_bind (pt_Send200 bufferev 0 []) (\<lambda>outs. Inr (True, m', outs)))"

definition OnPeerOffline :: "nat option \<Rightarrow> byte list \<Rightarrow> u16 \<Rightarrow> peer_map \<Rightarrow> pt_result" where
  "OnPeerOffline bufferev ip port m =
     (case peer_offline (ip, port) m of
        None \<Rightarrow> Inr (False, m, [])
      | Some m' \<Rightarrow> rd_bind (pt_Send200 bufferev 0 []) (\<lambda>outs. Inr (True, m', outs)))"

definition peer_text :: "peer_info \<Rightarrow> byte list" where
  "peer_text peer = fst peer @ COLON # show_nat (unat (snd peer))"

fun live_list :: "peer_info list \<Rightarrow> sb_error + byte list" where
  "live_list [] = Inr []"
| "live_list (peer # peers) =
     (let text = peer_text peer @ [44] in
      if length text + 1 > 100 then Inl MemFault
      else rd_bind (live_list peers) (\<lambda>rest. Inr (text @ rest)))"

definition OnPeerGetLive :: "nat option \<Rightarrow> peer_map \<Rightarrow> pt_result" where
  "OnPeerGetLive bufferev m =
     rd_bind (live_list (GetLivePeer m)) (\<lambda>live.
     rd_bind (pt_Send200 bufferev 0 (str ''peer='' @ live)) (\<lambda>outs. Inr (True, m, outs)))"

definition pt_Execute :: "nat \<Rightarrow> http_conn \<Rightarrow> evkeyvalq \<Rightarrow> byte list \<Rightarrow> peer_map \<Rightarrow> pt_result" where
  "pt_Execute now c headers strBody m =
     (case (evhttp_find_header headers X_FORWARDED_FOR, evhttp_find_header headers X_FORWARDED_FOR_PORT) of
        (Some ip, Some port) \<Rightarrow>
          if ip = [] \<or> port = [] then Inr (False, m, [])
          else
            let params = snd (evhttp_parse_query (c_str (str ''/?'' @ strBody))) in
            (case evhttp_find_header params (str ''c'') of
               None \<Rightarrow> Inr (False, m, [])
             | Some command \<Rightarrow>
                 if peek command = 115 then OnPeerOnline now (hc_bufferev c) ip (to_port port) m
                 else if peek command = 112 then OnPeerPing (hc_bufferev c) ip (to_port port) m
                 else if peek command = 103 then OnPeerGetLive (hc_bufferev c) m
                 else if peek command = 101 then OnPeerOffline (hc_bufferev c) ip (to_port port) m
                 else Inr (False, m, []))
      | _ \<Rightarrow> Inr (False, m, []))"

section \<open>The dig handler\<close>

definition header_text :: "evkeyvalq \<Rightarrow> byte list \<Rightarrow> byte list" where
  "header_text headers separator = concat (map (\<lambda>(k, v). k @ separator @ v @ CRLF) headers)"

definition copy_headers :: "evkeyvalq \<Rightarrow> evkeyvalq" where
  "copy_headers headers = fold (\<lambda>(k, v) hs. snd (evhttp_add_header hs k v)) headers []"

definition default_header :: "byte list \<Rightarrow> byte list \<Rightarrow> evkeyvalq \<Rightarrow> evkeyvalq" where
  "default_header k v hs = (if evhttp_find_header hs k = None then snd (evhttp_add_header hs k v) else hs)"

definition dig_Send200 :: "nat option \<Rightarrow> int \<Rightarrow> evkeyvalq \<Rightarrow> byte list \<Rightarrow> sb_error + tk_out list" where
  "dig_Send200 bufferev result pheaders strExtra =
     (let headers = default_header (str ''Content-Type'') HTTP_CONTENT_TYPE_TEXT_PLAIN (copy_headers pheaders) in
      case bufferev of
        None \<Rightarrow> Inl MemFault
      | Some bev \<Rightarrow>
          Inr [(bev, str ''HTTP/1.1 200 OK'' @ CRLF @ header_text headers [COLON]
            @ str ''Content-Length: '' @ show_nat (length (body_200 result strExtra)) @ CRLF @ CRLF
            @ body_200 result strExtra)])"

text \<open>The search of \<open>PeerConnectPeer\<close> and \<open>GetHttpClientConnection\<close>, in the order of the table.\<close>

fun find_client :: "(nat \<times> nat) list \<Rightarrow> (nat \<Rightarrow> http_conn option) \<Rightarrow> peer_info \<Rightarrow> (nat \<times> http_conn) option" where
  "find_client [] heap peer = None"
| "find_client ((bev, q) # clients) heap peer =
     (case heap q of
        Some c \<Rightarrow> if hc_ip c = fst peer \<and> hc_port c = snd peer then Some (q, c) else find_client clients heap peer
      | None \<Rightarrow> find_client clients heap peer)"

text \<open>The connection of the destination is used without a test, so an unknown peer is a fault.\<close>

definition PeerConnectPeer :: "tracker \<Rightarrow> peer_info \<Rightarrow> peer_info \<Rightarrow> sb_error + tk_out list" where
  "PeerConnectPeer w d_peer s_peer =
     (case find_client (tk_clients w) (tk_heap w) d_peer of
        None \<Rightarrow> Inl MemFault
      | Some (q, c) \<Rightarrow>
          Inr (hc_Send (str ''HTTP/1.1 200 OK'' @ CRLF @ str ''Connect-Peer: '' @ peer_text s_peer @ CRLF
            @ str ''Content-Type: '' @ HTTP_CONTENT_TYPE_TEXT_PLAIN @ CRLF @ str ''Content-Length: 0'' @ CRLF @ CRLF) c))"

definition parse_peer :: "byte list \<Rightarrow> peer_info option" where
  "parse_peer s = map_option (\<lambda>(ip, port). (ip, to_port port)) (split_at COLON s)"

definition OnRequestConnectPeer :: "http_conn \<Rightarrow> evkeyvalq \<Rightarrow> tracker \<Rightarrow> sb_error + bool \<times> tk_out list" where
  "OnRequestConnectPeer c headers w =
     (case evhttp_find_header headers (str ''Connect-Peer'') of
        None \<Rightarrow> Inl MemFault
      | Some connect \<Rightarrow>
          let params = snd (evhttp_parse_query (str ''/?'' @ connect)) in
          (case evhttp_find_header params (str ''d_peer'') of
             None \<Rightarrow> rd_bind (dig_Send200 (hc_bufferev c) (-1) [] []) (\<lambda>outs. Inr (False, outs))
           | Some d \<Rightarrow>
               (case parse_peer d of
                  None \<Rightarrow> rd_bind (dig_Send200 (hc_bufferev c) (-2) [] []) (\<lambda>outs. Inr (False, outs))
                | Some d_peer \<Rightarrow>
                    rd_bind (PeerConnectPeer w d_peer (hc_ip c, hc_port c)) (\<lambda>outs. Inr (True, outs)))))"

text \<open>The answer of the other peer; the reference \<open>GetHttpClientConnection\<close> takes is never given back.\<close>

definition OnRequestPeerConnectPeerResult ::
    "http_conn \<Rightarrow> evkeyvalq \<Rightarrow> tracker \<Rightarrow> sb_error + bool \<times> tracker \<times> tk_out list" where
  "OnRequestPeerConnectPeerResult c headers w =
     (case evhttp_find_header headers (str ''Connect-Peer-Result'') of
        None \<Rightarrow> Inl MemFault
      | Some answer \<Rightarrow>
          let params = snd (evhttp_parse_query (str ''/?'' @ answer)) in
          (case (evhttp_find_header params (str ''result''), evhttp_find_header params (str ''peer'')) of
             (Some result, Some p) \<Rightarrow>
               (case parse_peer p of
                  None \<Rightarrow> Inr (False, w, [])
                | Some peer \<Rightarrow>
                    (case find_client (tk_clients w) (tk_heap w) peer of
                       None \<Rightarrow> Inr (False, w, [])
                     | Some (q, dest) \<Rightarrow>
                         rd_bind (hc_AddRef q w) (\<lambda>w.
                         let strHeader = str ''result='' @ result @ str ''&peer='' @ peer_text (hc_ip c, hc_port c);
                             resultHeaders = snd (evhttp_add_header [] (str ''Connect-Peer-Result'') strHeader)
                         in rd_bind (dig_Send200 (hc_bufferev dest) (atoi_c result) resultHeaders [])
                              (\<lambda>outs. Inr (True, w, outs)))))
           | _ \<Rightarrow> Inr (False, w, [])))"

definition dig_Execute :: "http_conn \<Rightarrow> evkeyvalq \<Rightarrow> tracker \<Rightarrow> sb_error + bool \<times> tracker \<times> tk_out list" where
  "dig_Execute c headers w =
     (if evhttp_find_header headers (str ''Connect-Peer-Result'') \<noteq> None
      then OnRequestPeerConnectPeerResult c headers w
      else if evhttp_find_header headers (str ''Connect-Peer'') \<noteq> None
      then rd_bind (OnRequestConnectPeer c headers w) (\<lambda>(handled, outs). Inr (handled, w, outs))
      else Inr (False, w, []))"

section \<open>Requests\<close>

definition cmd_Execute :: "nat \<Rightarrow> http_command \<Rightarrow> http_conn \<Rightarrow> evkeyvalq \<Rightarrow> byte list \<Rightarrow> tracker
    \<Rightarrow> sb_error + bool \<times> tracker \<times> tk_out list" where
  "cmd_Execute now command c headers body w =
     (case command of
        PeerTracker \<Rightarrow>
          (case tk_peers w of
             None \<Rightarrow> Inl MemFault
           | Some (refs, m) \<Rightarrow>
               rd_bind (pt_Execute now c headers body m) (\<lambda>(handled, m, outs).
               Inr (handled, w\<lparr>tk_peers := Some (refs, m)\<rparr>, outs)))
      | Dig \<Rightarrow> dig_Execute c headers w)"

definition OnHttpRequest :: "nat \<Rightarrow> nat \<Rightarrow> byte list \<Rightarrow> evkeyvalq \<Rightarrow> byte list \<Rightarrow> tracker \<Rightarrow> tk_result" where
  "OnHttpRequest now q path headers body w =
     (case tk_heap w q of
        None \<Rightarrow> Inl MemFault
      | Some c \<Rightarrow>
          (case map_find path (hc_commands c) of
             None \<Rightarrow> Inr (w, hc_Send404 c)
           | Some command \<Rightarrow>
               rd_bind (cmd_Execute now command c headers body w) (\<lambda>(handled, w, outs).
               Inr (w, outs @ (if handled then [] else hc_Send404 c)))))"

text \<open>The forwarded address of a complete header; without one the address stays as it was.\<close>

definition set_forwarded :: "evkeyvalq \<Rightarrow> http_conn \<Rightarrow> http_conn" where
  "set_forwarded headers c =
     (case (evhttp_find_header headers X_FORWARDED_FOR, evhttp_find_header headers X_FORWARDED_FOR_PORT) of
        (Some ip, Some port) \<Rightarrow> c\<lparr>hc_ip := ip, hc_port := to_port port\<rparr>
      | _ \<Rightarrow> c)"

fun run_events :: "nat \<Rightarrow> nat \<Rightarrow> request_line http_event list \<Rightarrow> tracker \<Rightarrow> tk_result" where
  "run_events now q [] w = Inr (w, [])"
| "run_events now q (e # es) w =
     rd_bind
       (case e of
          Bad_line \<Rightarrow> (case tk_heap w q of None \<Rightarrow> Inl MemFault | Some c \<Rightarrow> Inr (w, hc_Send404 c))
        | Header_block headers \<Rightarrow> rd_bind (hc_update q (set_forwarded headers) w) (\<lambda>w. Inr (w, []))
        | Message line headers body \<Rightarrow> OnHttpRequest now q (snd line) headers body w)
       (\<lambda>(w, o1). rd_bind (run_events now q es w) (\<lambda>(w, o2). Inr (w, o1 @ o2)))"

definition hc_OnRead :: "nat \<Rightarrow> nat \<Rightarrow> byte list \<Rightarrow> tracker \<Rightarrow> tk_result" where
  "hc_OnRead now q data w =
     (if data = [] then Inr (w, [])
      else case tk_heap w q of
        None \<Rightarrow> Inl MemFault
      | Some c \<Rightarrow>
          let (d, evs) = hc_DecodeBuffer (hb_append data (hc_http c)) in
          run_events now q evs (hc_store q (c\<lparr>hc_http := d\<rparr>) w))"

section \<open>The server\<close>

definition tk_readcb :: "nat \<Rightarrow> nat \<Rightarrow> byte list \<Rightarrow> tracker \<Rightarrow> tk_result" where
  "tk_readcb now bev data w =
     (case map_find bev (tk_clients w) of
        None \<Rightarrow> Inr (w, [])
      | Some q \<Rightarrow>
          rd_bind (hc_AddRef q w) (\<lambda>w.
          rd_bind (hc_OnRead now q data w) (\<lambda>(w, outs).
          rd_bind (hc_Release q w) (\<lambda>w. Inr (w, outs)))))"

text \<open>
  The close of a connection.  The assignment to the smart pointer adds no reference, so its
  end gives back the table's.
\<close>

definition tk_eventcb :: "nat \<Rightarrow> nat \<Rightarrow> tracker \<Rightarrow> tk_result" where
  "tk_eventcb bev events w =
     (if events AND 0x10 = 0 \<and> events AND 0x20 = 0 then Inr (w, [])
      else
        rd_bind
          (case map_find bev (tk_clients w) of
             None \<Rightarrow> Inr w
           | Some q \<Rightarrow>
               rd_bind (hc_Stop q w) (\<lambda>w. hc_Release q (w\<lparr>tk_clients := map_erase bev (tk_clients w)\<rparr>)))
          (\<lambda>w. Inr (w\<lparr>tk_live := removeAll bev (tk_live w)\<rparr>, [])))"

text \<open>The comparison of two connections is by the forwarded address, which a fresh one does not have.\<close>

definition tk_already_connected :: "http_conn \<Rightarrow> tracker \<Rightarrow> bool" where
  "tk_already_connected p w \<longleftrightarrow>
     (\<exists>(b, q) \<in> set (tk_clients w). case tk_heap w q of
        None \<Rightarrow> False | Some c \<Rightarrow> hc_ip p = hc_ip c \<and> hc_port p = hc_port c)"

definition tk_listener_cb :: "nat option \<Rightarrow> nat \<Rightarrow> bool \<Rightarrow> bool \<Rightarrow> tracker \<Rightarrow> tk_result" where
  "tk_listener_cb fresh q socket_ok event_ok w =
     (case fresh of
        None \<Rightarrow> Inr (w, [])
      | Some bev \<Rightarrow>
          let p = CHttpClientConnection socket_ok (Some bev) event_ok;
              w0 = cmd_AddRef w;
              w1 = w0\<lparr>tk_heap := (tk_heap w0)(q \<mapsto> p\<lparr>hc_refs := hc_refs p + 1\<rparr>)\<rparr> in
          if \<not> hc_IsValid p then rd_bind (hc_Release q w1) (\<lambda>w. Inr (w, []))
          else if tk_already_connected p w then rd_bind (hc_Release q w1) (\<lambda>w. Inr (w, []))
          else
            rd_bind (hc_AddRef q w1) (\<lambda>w.
            rd_bind (hc_Release q (w\<lparr>tk_clients := map_put bev q (tk_clients w), tk_live := bev # tk_live w\<rparr>))
              (\<lambda>w. Inr (w, []))))"

fun tk_stop_all :: "nat list \<Rightarrow> tracker \<Rightarrow> sb_error + tracker" where
  "tk_stop_all [] w = Inr w"
| "tk_stop_all (q # qs) w = rd_bind (hc_Stop q w) (\<lambda>w. rd_bind (hc_Release q w) (tk_stop_all qs))"

definition tk_Stop :: "tracker \<Rightarrow> tk_result" where
  "tk_Stop w = rd_bind (tk_stop_all (map snd (tk_clients w)) w) (\<lambda>w. Inr (w\<lparr>tk_clients := []\<rparr>, []))"

text \<open>The timer belongs to the peer handler and exists as long as it does.\<close>

definition tk_timer :: "tracker \<Rightarrow> tk_result" where
  "tk_timer w = Inr (w\<lparr>tk_peers := map_option (map_prod id OnTimer) (tk_peers w)\<rparr>, [])"

inductive tk_step :: "tracker \<Rightarrow> tracker \<Rightarrow> bool" where
  step_accept: "fresh \<notin> set (tk_live w) \<Longrightarrow> tk_heap w q = None \<Longrightarrow>
    tk_listener_cb (Some fresh) q socket_ok event_ok w = Inr (w', outs) \<Longrightarrow> tk_step w w'"
| step_read: "bev \<in> set (tk_live w) \<Longrightarrow> tk_readcb now bev data w = Inr (w', outs) \<Longrightarrow> tk_step w w'"
| step_close: "bev \<in> set (tk_live w) \<Longrightarrow> tk_eventcb bev events w = Inr (w', outs) \<Longrightarrow> tk_step w w'"
| step_timer: "tk_timer w = Inr (w', outs) \<Longrightarrow> tk_step w w'"
| step_stop: "tk_Stop w = Inr (w', outs) \<Longrightarrow> tk_step w w'"

inductive tk_reachable :: "tracker \<Rightarrow> bool" where
  start: "tk_reachable CTrackerHttpServer"
| step: "tk_reachable w \<Longrightarrow> tk_step w w' \<Longrightarrow> tk_reachable w'"

end
