(* ===== verification/Tracker_Requests.thy ===== *)
theory Tracker_Requests
  imports Tracker
begin

text \<open>
  One request at the tracker: what a read of a complete well-formed request does, for each
  request of the two handlers, and the requests and the accepts that go wrong.
\<close>

section \<open>Parameters\<close>

lemma query_param:
  assumes "k \<noteq> []" and "list_all CHAR_IS_UNRESERVED k"
    and "query_ok v" and "38 \<notin> set v" and "37 \<notin> set v" and "43 \<notin> set v" and "nul_free v"
  shows "evhttp_parse_query (47 # 63 # k @ 61 # v) = (0, [(k, v)])"
proof -
  have "pair_ok (k, v)" using assms by (auto simp: pair_ok_def list_all_iff uri_chars_spec)
  moreover have "query_ok (query_text [(k, v)])"
    using assms by (intro query_ok_text) (simp add: query_ok_plain)
  ultimately show ?thesis
    using evhttp_parse_query_pairs [of "[(k, v)]"] assms by (simp add: decode_no_percent)
qed

lemma unreserved_plain:
  "list_all CHAR_IS_UNRESERVED s \<Longrightarrow> nul_free s \<and> c \<notin> set s"
  if "\<not> CHAR_IS_UNRESERVED c"
  using that by (auto simp: nul_free_def list_all_iff uri_chars_spec)

lemma digits_unreserved: "list_all CHAR_IS_UNRESERVED (show_nat n)"
  using show_nat_digit [of _ n] by (auto simp: list_all_iff uri_chars_spec word_le_nat_alt)

lemma to_port_show [simp]: "to_port (show_nat (unat p)) = p"
proof -
  have "unat p < 2 ^ LENGTH(16)" by (rule unsigned_less)
  then show ?thesis by (simp add: to_port_def)
qed

text \<open>Addresses the requests carry: dotted numbers, names, anything unreserved.\<close>

definition good_ip :: "byte list \<Rightarrow> bool" where
  "good_ip ip \<longleftrightarrow> ip \<noteq> [] \<and> list_all CHAR_IS_UNRESERVED ip"

lemma good_ip_facts:
  assumes "good_ip ip"
  shows "ip \<noteq> []" "COLON \<notin> set ip" "44 \<notin> set ip" "38 \<notin> set ip" "37 \<notin> set ip" "43 \<notin> set ip" "nul_free ip" "13 \<notin> set ip"
    "10 \<notin> set ip" "32 \<notin> set ip" "query_ok ip"
  using assms by (auto simp: good_ip_def COLON_def nul_free_def list_all_iff uri_chars_spec query_ok_plain)

lemma show_nat_not: "\<not> (48 \<le> unat c \<and> unat c \<le> 57) \<Longrightarrow> c \<notin> set (show_nat n)"
  using show_nat_digit [of c n] by (auto simp: word_le_nat_alt)

lemma show_nat_facts:
  "COLON \<notin> set (show_nat n)" "44 \<notin> set (show_nat n)" "38 \<notin> set (show_nat n)" "37 \<notin> set (show_nat n)"
  "43 \<notin> set (show_nat n)" "13 \<notin> set (show_nat n)" "10 \<notin> set (show_nat n)" "32 \<notin> set (show_nat n)" "query_ok (show_nat n)"
  by (simp_all add: COLON_def show_nat_not query_ok_plain digits_unreserved)

lemma parse_peer_text [simp]: "COLON \<notin> set (fst peer) \<Longrightarrow> parse_peer (peer_text peer) = Some peer"
  by (simp add: parse_peer_def peer_text_def split_at_prefix)

lemma peer_text_facts:
  assumes "good_ip (fst peer)"
  shows "query_ok (peer_text peer)" "38 \<notin> set (peer_text peer)" "37 \<notin> set (peer_text peer)" "43 \<notin> set (peer_text peer)"
    "nul_free (peer_text peer)" "13 \<notin> set (peer_text peer)" "10 \<notin> set (peer_text peer)" "32 \<notin> set (peer_text peer)"
    "44 \<notin> set (peer_text peer)"
proof -
  have "query_ok (COLON # show_nat n)" for n by (intro query_ok_char) (simp_all add: COLON_def show_nat_facts)
  then show "query_ok (peer_text peer)"
    unfolding peer_text_def by (intro query_ok_append) (simp_all add: good_ip_facts [OF assms])
qed (simp_all add: peer_text_def good_ip_facts [OF assms] show_nat_facts, simp_all add: COLON_def)

section \<open>A read of one request\<close>

lemma DecodeBuffer_request:
  assumes "rq_ok r"
  shows "hc_DecodeBuffer (hb_append (rq_text r) hc_Clear) = (hc_Clear, rq_events r)"
proof -
  have "hb_append (rq_text r) hc_Clear = hc_Clear\<lparr>hb_buf := concat (map rq_text [r])\<rparr>"
    by (simp add: hb_append_def hc_Clear_def)
  moreover have "hb_state (hc_Clear\<lparr>hb_buf := concat (map rq_text [r])\<rparr>) = HBS_READY" by (simp add: hc_Clear_def)
  ultimately show ?thesis
    using decode_requests [of "[r]"] assms by (simp add: hc_DecodeBuffer_def del: list.map concat.simps) simp
qed

lemma set_forwarded_sel [simp]:
  "hc_refs (set_forwarded hs c) = hc_refs c" "hc_commands (set_forwarded hs c) = hc_commands c"
  "hc_bufferev (set_forwarded hs c) = hc_bufferev c" "hc_event (set_forwarded hs c) = hc_event c"
  "hc_http (set_forwarded hs c) = hc_http c"
  by (auto simp: set_forwarded_def split: option.split)

lemma set_forwarded_refs: "set_forwarded hs (c\<lparr>hc_refs := n\<rparr>) = (set_forwarded hs c)\<lparr>hc_refs := n\<rparr>"
  by (auto simp: set_forwarded_def split: option.split)

definition at_request :: "nat \<Rightarrow> http_conn \<Rightarrow> http_request \<Rightarrow> tracker \<Rightarrow> tracker" where
  "at_request q c r w = w\<lparr>tk_heap := (tk_heap w)(q \<mapsto>
     (set_forwarded (rq_headers r) c)\<lparr>hc_refs := hc_refs c + 1\<rparr>)\<rparr>"

lemma readcb_request:
  assumes "map_find bev (tk_clients w) = Some q" and "tk_heap w q = Some c" and "hc_http c = hc_Clear"
    and "rq_ok r"
  shows "tk_readcb now bev (rq_text r) w =
    rd_bind (OnHttpRequest now q (rq_path r) (rq_headers r) (rq_body r) (at_request q c r w))
      (\<lambda>(w, outs). rd_bind (hc_Release q w) (\<lambda>w. Inr (w, outs)))"
proof -
  let ?c = "c\<lparr>hc_refs := hc_refs c + 1\<rparr>"
  have same: "c\<lparr>hc_refs := n, hc_http := hc_Clear\<rparr> = c\<lparr>hc_refs := n\<rparr>" for n
    using assms(3) by (cases c) simp
  have "hc_OnRead now q (rq_text r) (w\<lparr>tk_heap := (tk_heap w)(q \<mapsto> ?c)\<rparr>)
    = rd_bind (OnHttpRequest now q (rq_path r) (rq_headers r) (rq_body r) (at_request q c r w)) Inr"
    using assms rq_text_nonempty [of r] DecodeBuffer_request [OF assms(4)]
    by (simp add: hc_OnRead_def same hc_store_def rq_events_def hc_update_def at_request_def set_forwarded_refs
        rd_bind_def split: sum.split prod.split)
  then show ?thesis
    using assms(1,2) by (simp add: tk_readcb_def hc_AddRef_def hc_update_def hc_store_def rd_bind_def split: sum.split)
qed

lemma command_of_path [simp]:
  "map_find (str ''/p'') InitHttpRequestCommandMap = Some PeerTracker"
  "map_find (str ''/c'') InitHttpRequestCommandMap = Some Dig"
  by (simp_all add: InitHttpRequestCommandMap_def map_find_def)

text \<open>The command of a body \<open>c=x\<close>.\<close>

lemma pt_Execute_command:
  assumes "evhttp_find_header hs X_FORWARDED_FOR = Some ip" and "evhttp_find_header hs X_FORWARDED_FOR_PORT = Some port"
    and "ip \<noteq> []" and "port \<noteq> []" and "CHAR_IS_UNRESERVED x"
  shows "pt_Execute now c hs (str ''c='' @ [x]) m =
    (if x = 115 then OnPeerOnline now (hc_bufferev c) ip (to_port port) m
     else if x = 112 then OnPeerPing (hc_bufferev c) ip (to_port port) m
     else if x = 103 then OnPeerGetLive (hc_bufferev c) m
     else if x = 101 then OnPeerOffline (hc_bufferev c) ip (to_port port) m
     else Inr (False, m, []))"
proof -
  have x: "x \<notin> {38, 37, 43, 0}" using assms(5) by (auto simp: uri_chars_spec)
  have "evhttp_parse_query (47 # 63 # str ''c'' @ 61 # [x]) = (0, [(str ''c'', [x])])"
    using assms(5) x by (intro query_param) (auto simp: uri_chars_spec query_ok_plain)
  moreover have "evhttp_find_header [(str ''c'', [x])] (str ''c'') = Some [x]"
    by (simp add: strcasecmp_same_key same_key_def)
  ultimately show ?thesis
    using assms(1-4) x by (simp add: pt_Execute_def)
qed

section \<open>The requests of the peer handler\<close>

lemma hc_Send_bufferev: "hc_Send data c = (case hc_bufferev c of None \<Rightarrow> [] | Some b \<Rightarrow> [(b, data)])"
  by (simp add: hc_Send_def)

definition ok_200 :: "byte list \<Rightarrow> byte list" where
  "ok_200 strExtra = str ''HTTP/1.1 200 OK'' @ CRLF @ str ''Content-Type: '' @ HTTP_CONTENT_TYPE_TEXT_PLAIN @ CRLF
     @ str ''Content-Length: '' @ show_nat (length (body_200 0 strExtra)) @ CRLF @ CRLF @ body_200 0 strExtra"

lemma pt_Send200_ok: "pt_Send200 (Some b) 0 strExtra = Inr [(b, ok_200 strExtra)]"
  by (simp add: pt_Send200_def ok_200_def)

text \<open>The connection after a request: the address of the request, and nothing else.\<close>

lemma set_forwarded_same_refs: "(set_forwarded hs c)\<lparr>hc_refs := hc_refs c\<rparr> = set_forwarded hs c"
  using set_forwarded_refs [where hs = hs and c = c and n = "hc_refs c"] by (cases c) simp

lemma Release_at_request:
  "0 < hc_refs c \<Longrightarrow> hc_Release q ((at_request q c r w)\<lparr>tk_peers := P\<rparr>)
    = Inr (w\<lparr>tk_heap := (tk_heap w)(q \<mapsto> set_forwarded (rq_headers r) c), tk_peers := P\<rparr>)"
  by (cases w) (simp add: hc_Release_def hc_update_def at_request_def hc_store_def set_forwarded_same_refs)

lemma Release_at_request_only:
  "0 < hc_refs c \<Longrightarrow> hc_Release q (at_request q c r w)
    = Inr (w\<lparr>tk_heap := (tk_heap w)(q \<mapsto> set_forwarded (rq_headers r) c)\<rparr>)"
  by (simp add: hc_Release_def hc_update_def at_request_def hc_store_def set_forwarded_same_refs)

text \<open>A request of the peer handler that is handled.\<close>

lemma readcb_peer:
  assumes "map_find bev (tk_clients w) = Some q" and "tk_heap w q = Some c" and "hc_http c = hc_Clear"
    and "hc_commands c = InitHttpRequestCommandMap" and "0 < hc_refs c" and "rq_ok r" and "rq_path r = str ''/p''"
    and "tk_peers w = Some (refs, m)"
    and "pt_Execute now ((set_forwarded (rq_headers r) c)\<lparr>hc_refs := hc_refs c + 1\<rparr>) (rq_headers r) (rq_body r) m
      = Inr (True, m', outs)"
  shows "tk_readcb now bev (rq_text r) w =
    Inr (w\<lparr>tk_heap := (tk_heap w)(q \<mapsto> set_forwarded (rq_headers r) c), tk_peers := Some (refs, m')\<rparr>, outs)"
proof -
  have "OnHttpRequest now q (rq_path r) (rq_headers r) (rq_body r) (at_request q c r w)
    = Inr ((at_request q c r w)\<lparr>tk_peers := Some (refs, m')\<rparr>, outs)"
    using assms(4,7,8,9) by (simp add: OnHttpRequest_def at_request_def cmd_Execute_def del: str_simps)
  then show ?thesis
    unfolding readcb_request [OF assms(1-3,6)] by (simp add: Release_at_request [OF assms(5)])
qed

section \<open>A sample state\<close>

text \<open>One connection, fresh from the listener, and a request of it.\<close>

definition sample_conn :: http_conn where
  "sample_conn = (CHttpClientConnection True (Some 5) True)\<lparr>hc_refs := 2\<rparr>"

definition sample_tracker :: tracker where
  "sample_tracker = \<lparr>tk_clients = [(5, 9)], tk_heap = [9 \<mapsto> sample_conn],
     tk_peers = Some (1, [(str ''1.2.3.4'', 80, \<lparr>ps_state = RDPS_ONLINE, ps_online_tm = 0, ps_offline_times = 0\<rparr>)]),
     tk_dig = Some 1, tk_live = [5]\<rparr>"

definition connect_request :: http_request where
  "connect_request = \<lparr>rq_method = str ''POST'', rq_path = str ''/c'', rq_version = str ''HTTP/1.1'',
     rq_lines = [str ''X_FORWARDED_FOR: 1.2.3.4'', str ''X_FORWARDED_FOR_PORT: 80'',
       str ''Connect-Peer: d_peer=5.6.7.8:90''], rq_body = []\<rparr>"

lemma sample_conn_sel [simp]:
  "hc_http sample_conn = hc_Clear" "hc_commands sample_conn = InitHttpRequestCommandMap" "hc_refs sample_conn = 2"
  "hc_ip sample_conn = []" "hc_port sample_conn = 0" "hc_event sample_conn"
  by (simp_all add: sample_conn_def CHttpClientConnection_def)

lemma sample_tracker_sel [simp]:
  "map_find 5 (tk_clients sample_tracker) = Some 9" "tk_heap sample_tracker 9 = Some sample_conn"
  "(5, 9) \<in> set (tk_clients sample_tracker)"
  by (simp_all add: sample_tracker_def map_find_def)

lemma connect_request_facts:
  "rq_ok connect_request" "rq_path connect_request = str ''/c''"
  "evhttp_find_header (rq_headers connect_request) (str ''Connect-Peer-Result'') = None"
  "evhttp_find_header (rq_headers connect_request) (str ''Connect-Peer'')
    = Some (str ''d_peer='' @ peer_text (str ''5.6.7.8'', 90))"
  by code_simp+

section \<open>Properties\<close>

lemma connect_peer_read:
  assumes "map_find bev (tk_clients w) = Some q" and "tk_heap w q = Some c" and "hc_http c = hc_Clear"
    and "hc_commands c = InitHttpRequestCommandMap" and "0 < hc_refs c" and "rq_ok r" and "rq_path r = str ''/c''"
    and "evhttp_find_header (rq_headers r) (str ''Connect-Peer-Result'') = None"
    and "evhttp_find_header (rq_headers r) (str ''Connect-Peer'') = Some (str ''d_peer='' @ peer_text peer)"
    and "good_ip (fst peer)"
  shows "let c' = set_forwarded (rq_headers r) c in
    case find_client (tk_clients w) (tk_heap (at_request q c r w)) peer of
      None \<Rightarrow> tk_readcb now bev (rq_text r) w = Inl MemFault
    | Some (q', d) \<Rightarrow> tk_readcb now bev (rq_text r) w = Inr (w\<lparr>tk_heap := (tk_heap w)(q \<mapsto> c')\<rparr>,
        hc_Send (str ''HTTP/1.1 200 OK'' @ CRLF @ str ''Connect-Peer: '' @ peer_text (hc_ip c', hc_port c') @ CRLF
          @ str ''Content-Type: text/plain'' @ CRLF @ str ''Content-Length: 0'' @ CRLF @ CRLF) d)"
proof -
  have "evhttp_parse_query (47 # 63 # str ''d_peer'' @ 61 # peer_text peer) = (0, [(str ''d_peer'', peer_text peer)])"
    by (rule query_param) (simp_all add: peer_text_facts [OF assms(10)] uri_chars_spec)
  then have params: "evhttp_parse_query (str ''/?'' @ str ''d_peer='' @ peer_text peer) = (0, [(str ''d_peer'', peer_text peer)])"
    by simp
  have find: "evutil_ascii_strcasecmp (str ''d_peer'') (str ''d_peer'') = 0"
    by (simp add: strcasecmp_same_key same_key_def)
  let ?w = "at_request q c r w"
  let ?c = "(set_forwarded (rq_headers r) c)\<lparr>hc_refs := hc_refs c + 1\<rparr>"
  have "OnHttpRequest now q (rq_path r) (rq_headers r) (rq_body r) ?w
    = rd_bind (PeerConnectPeer ?w peer (hc_ip ?c, hc_port ?c)) (\<lambda>outs. Inr (?w, outs))"
    unfolding OnHttpRequest_def
    using assms(4,7,8,9) good_ip_facts(2) [OF assms(10)]
    by (simp add: at_request_def cmd_Execute_def dig_Execute_def OnRequestConnectPeer_def params find Let_def
        rd_bind_def del: str_simps split: sum.split)
  moreover have "hc_Release q ?w = Inr (w\<lparr>tk_heap := (tk_heap w)(q \<mapsto> set_forwarded (rq_headers r) c)\<rparr>)"
    by (rule Release_at_request_only [OF assms(5)])
  ultimately show ?thesis
    unfolding readcb_request [OF assms(1-3,6)]
    by (cases "find_client (tk_clients w) (tk_heap ?w) peer")
      (auto simp: PeerConnectPeer_def at_request_def Let_def HTTP_CONTENT_TYPE_TEXT_PLAIN_def)
qed

text \<open>
  C35. A peer's request to be connected to another: with the destination's address known to
  the tracker, the destination is sent the address of the asking peer and the request is
  handled; with an unknown address the tracker dereferences NULL.
\<close>

theorem connect_peer_relayed_or_faults:
  assumes "map_find bev (tk_clients w) = Some q" and "tk_heap w q = Some c" and "hc_http c = hc_Clear"
    and "hc_commands c = InitHttpRequestCommandMap" and "0 < hc_refs c" and "rq_ok r" and "rq_path r = str ''/c''"
    and "evhttp_find_header (rq_headers r) (str ''Connect-Peer-Result'') = None"
    and "evhttp_find_header (rq_headers r) (str ''Connect-Peer'') = Some (str ''d_peer='' @ peer_text peer)"
    and "good_ip (fst peer)"
  shows "let c' = set_forwarded (rq_headers r) c in
    case find_client (tk_clients w) (tk_heap (at_request q c r w)) peer of
      None \<Rightarrow> tk_readcb now bev (rq_text r) w = Inl MemFault
    | Some (q', d) \<Rightarrow> tk_readcb now bev (rq_text r) w = Inr (w\<lparr>tk_heap := (tk_heap w)(q \<mapsto> c')\<rparr>,
        hc_Send (str ''HTTP/1.1 200 OK'' @ CRLF @ str ''Connect-Peer: '' @ peer_text (hc_ip c', hc_port c') @ CRLF
          @ str ''Content-Type: text/plain'' @ CRLF @ str ''Content-Length: 0'' @ CRLF @ CRLF) d)"
  using assms by (rule connect_peer_read)
theorem connect_peer_relayed_or_faults_witness:
  "tk_readcb 0 5 (rq_text connect_request) sample_tracker = Inl MemFault"
proof -
  have "find_client (tk_clients sample_tracker) (tk_heap (at_request 9 sample_conn connect_request sample_tracker))
      (str ''5.6.7.8'', 90) = None"
    by code_simp
  moreover have "good_ip (str ''5.6.7.8'')" by code_simp
  ultimately show ?thesis
    using connect_peer_relayed_or_faults [OF sample_tracker_sel(1,2) sample_conn_sel(1,2) _ connect_request_facts, of 0]
    by (simp add: Let_def del: str_simps)
qed

lemma live_list_result:
  "live_list ps = (if \<exists>p \<in> set ps. 98 < length (peer_text p) then Inl MemFault
     else Inr (concat (map (\<lambda>p. peer_text p @ [44]) ps)))"
  by (induction ps) (auto simp: Let_def)

text \<open>
  The list of live peers: each address is printed into a buffer of 100 characters, and
  the request overruns it exactly when one of the listed peers, whose address comes from a
  request header, takes more than 98 characters with its port.
\<close>

lemma live_list_overruns:
  "OnPeerGetLive (Some bev) m =
     (if \<exists>p \<in> set (GetLivePeer m). 98 < length (peer_text p) then Inl MemFault
      else Inr (True, m, [(bev, ok_200 (str ''peer='' @ concat (map (\<lambda>p. peer_text p @ [44]) (GetLivePeer m))))]))"
  by (simp add: OnPeerGetLive_def live_list_result pt_Send200_ok)

text \<open>
  Accepting is refused while any connected client has not yet sent a request: the two
  are taken for the same connection because neither has a forwarded address.  The refused
  object is never freed.
\<close>

lemma second_idle_connection_refused:
  assumes "(bev, q) \<in> set (tk_clients w)" and "tk_heap w q = Some c" and "hc_ip c = []" and "hc_port c = 0"
  shows "\<exists>w'. tk_listener_cb (Some fresh) q' True True w = Inr (w', []) \<and> tk_clients w' = tk_clients w
    \<and> tk_heap w' q' \<noteq> None"
proof -
  let ?p = "CHttpClientConnection True (Some fresh) True"
  have valid: "hc_IsValid ?p" by (simp add: CHttpClientConnection_def hc_IsValid_def)
  have refs: "hc_refs ?p = 1" by (simp add: CHttpClientConnection_def)
  have "tk_already_connected ?p w"
    unfolding tk_already_connected_def using assms by (intro bexI [of _ "(bev, q)"])
      (auto simp: CHttpClientConnection_def)
  then show ?thesis
    by (simp add: tk_listener_cb_def valid Let_def hc_Release_def hc_update_def hc_store_def refs cmd_AddRef_def)
qed

lemma second_idle_connection_refused_witness:
  "\<exists>w'. tk_listener_cb (Some 6) 10 True True sample_tracker = Inr (w', [])
    \<and> tk_clients w' = tk_clients sample_tracker \<and> tk_heap w' 10 \<noteq> None"
  using second_idle_connection_refused [OF sample_tracker_sel(3,2)] by simp

text \<open>The close of a connection takes its references from the handlers, and nothing from the table of peers.\<close>

lemma close_releases_peers:
  assumes "map_find bev (tk_clients w) = Some q" and "tk_heap w q = Some c" and "0 < hc_refs c"
    and "hc_commands c = InitHttpRequestCommandMap" and "hc_event c \<longrightarrow> 1 < hc_refs c"
    and "tk_peers w = Some (refs, m)" and "events = 0x10 \<or> events = 0x20"
  shows "\<exists>w'. tk_eventcb bev events w = Inr (w', []) \<and> tk_peers w' = (if refs - 1 = 0 then None else Some (refs - 1, m))"
proof -
  let ?c = "(hc_drop_event (c\<lparr>hc_bufferev := None\<rparr>))\<lparr>hc_commands := []\<rparr>"
  have refs: "0 < hc_refs ?c" using assms(3,5) by (simp add: hc_drop_event_def)
  have ev: "events AND 0x10 \<noteq> 0 \<or> events AND 0x20 \<noteq> 0" using assms(7) by auto
  have "hc_Stop q w = Inr (cmd_Release PeerTracker (cmd_Release Dig (hc_store q ?c w)))"
    using assms(2,4) by (simp add: hc_Stop_def hc_drop_event_def InitHttpRequestCommandMap_def)
  then show ?thesis
    using refs ev assms(1,6)
    by (auto simp: tk_eventcb_def cmd_Release_def hc_store_def hc_Release_def hc_update_def)
qed

text \<open>
  The table of peers dies with the last connection: when the connection that holds the
  only reference to the peer handler is closed, every peer on line is forgotten.
\<close>

lemma last_close_forgets_peers:
  assumes "map_find bev (tk_clients w) = Some q" and "tk_heap w q = Some c" and "0 < hc_refs c"
    and "hc_commands c = InitHttpRequestCommandMap" and "hc_event c \<longrightarrow> 1 < hc_refs c"
    and "tk_peers w = Some (1, m)" and "events = 0x10 \<or> events = 0x20"
  shows "\<exists>w'. tk_eventcb bev events w = Inr (w', []) \<and> tk_peers w' = None"
  using close_releases_peers [OF assms] by simp

lemma last_close_forgets_peers_witness:
  "\<exists>w'. tk_eventcb 5 0x10 sample_tracker = Inr (w', []) \<and> tk_peers w' = None"
  using last_close_forgets_peers [OF sample_tracker_sel(1,2), of _ "0x10"] by (simp add: sample_tracker_def)

end
