(* ===== verification/Tracker_Client.thy ===== *)
theory Tracker_Client
  imports Tracker_Requests
begin

text \<open>
  What the two classes CP2PTrackerClient (RemoteDesktopServer/P2PTrackerClient.cpp and
  RemoteDesktopClient/P2PTrackerClient.cpp) have in common by copies of one text: the decoder
  of the tracker's responses, the queue of requests and the text of a request.  The response
  code of a status line without a space is read from before the buffer; the line of a response
  is therefore a fault or the code.
\<close>

section \<open>Responses\<close>

type_synonym response_line = "sb_error + int"

definition HTTP_1_1 :: "byte list" where "HTTP_1_1 = str ''HTTP/1.1''"

definition response_first_line :: "response_line \<Rightarrow> byte list \<Rightarrow> response_line first_line" where
  "response_first_line line buf =
     (if find_str HTTP_1_1 buf \<noteq> Some 0 then Fl_bad
      else case find_str CRLF buf of
        None \<Rightarrow> Fl_wait line
      | Some pos \<Rightarrow>
          let responseCode = (case find_str [32] buf of
                None \<Rightarrow> Inl MemFault
              | Some pos1 \<Rightarrow> Inr (atoi_c (drop pos1 buf)))
          in Fl_go responseCode (pos + 2))"

definition resp_Clear :: "response_line http_buf" where
  "resp_Clear = hb_clear (Inr 0)"

lemma response_first_line_go:
  "response_first_line line buf = Fl_go l n \<Longrightarrow> 0 < n \<and> n \<le> length buf"
  using find_str_SomeD [of CRLF buf]
  by (auto simp: response_first_line_def Let_def CRLF_def split: option.splits if_splits)

function resp_DecodeFirstLine :: "response_line http_buf \<Rightarrow> response_line http_buf \<times> response_line http_event list"
  and resp_DecodeHeader :: "response_line http_buf \<Rightarrow> response_line http_buf \<times> response_line http_event list"
  and resp_DecodeBody :: "response_line http_buf \<Rightarrow> response_line http_buf \<times> response_line http_event list" where
  "resp_DecodeFirstLine d =
     (case response_first_line (hb_line d) (hb_buf d) of
        Fl_wait line \<Rightarrow> (d\<lparr>hb_line := line\<rparr>, [])
      | Fl_bad \<Rightarrow> (resp_Clear, [Bad_line])
      | Fl_go line n \<Rightarrow>
          resp_DecodeHeader (d\<lparr>hb_line := line, hb_state := HBS_HEADER, hb_buf := drop n (hb_buf d)\<rparr>))"
| "resp_DecodeHeader d =
     (case find_str (CRLF @ CRLF) (hb_buf d) of
        None \<Rightarrow> (d, [])
      | Some pos \<Rightarrow>
          let headers = header_lines (hb_buf d) pos 0 (hb_headers d) in
          emit [Header_block headers]
            (resp_DecodeBody (d\<lparr>hb_headers := headers, hb_buf := drop (pos + 4) (hb_buf d), hb_state := HBS_BODY\<rparr>)))"
| "resp_DecodeBody d =
     (let n = content_length (hb_headers d); buf = hb_buf d in
      if n > int (length buf) then (d, [])
      else if n = int (length buf) then (resp_Clear, [Message (hb_line d) (hb_headers d) buf])
      else
        let k = body_bytes n buf in
        emit [Message (hb_line d) (hb_headers d) (take k buf)]
          (resp_DecodeFirstLine (resp_Clear\<lparr>hb_buf := drop k buf\<rparr>)))"
  by pat_completeness auto
termination
proof (relation "measure (\<lambda>x. case x of Inl d \<Rightarrow> 2 * length (hb_buf d)
    | Inr (Inl d) \<Rightarrow> 2 * length (hb_buf d) | Inr (Inr d) \<Rightarrow> Suc (2 * length (hb_buf d)))", goal_cases)
  case (2 d line n)
  then show ?case using response_first_line_go [OF 2] by auto
next
  case (3 d pos headers)
  then show ?case using find_str_SomeD [OF 3(1)] by (auto simp: CRLF_def)
qed simp_all

declare resp_DecodeFirstLine.simps [simp del] resp_DecodeHeader.simps [simp del] resp_DecodeBody.simps [simp del]

definition resp_DecodeBuffer :: "response_line http_buf \<Rightarrow> response_line http_buf \<times> response_line http_event list" where
  "resp_DecodeBuffer d =
     (case hb_state d of
        HBS_READY \<Rightarrow> resp_DecodeFirstLine d
      | HBS_HEADER \<Rightarrow> resp_DecodeHeader d
      | HBS_BODY \<Rightarrow> resp_DecodeBody d)"

interpretation resp: http_class resp_DecodeFirstLine resp_DecodeHeader resp_DecodeBody resp_DecodeBuffer
    response_first_line "Inr 0"
proof (unfold_locales, goal_cases)
  case (1 d)
  show ?case by (subst resp_DecodeFirstLine.simps) (simp only: resp_Clear_def)
next
  case (2 d)
  show ?case by (rule resp_DecodeHeader.simps)
next
  case (3 d)
  show ?case by (subst resp_DecodeBody.simps) (simp only: resp_Clear_def)
next
  case (4 d)
  show ?case by (simp add: resp_DecodeBuffer_def)
next
  case (5 l b l' n)
  then show ?case by (rule response_first_line_go)
qed

section \<open>Requests\<close>

record http_item =
  it_path :: "byte list"
  it_body :: "byte list"
  it_headers :: evkeyvalq

datatype evhttp_cmd_type = EVHTTP_REQ_GET | EVHTTP_REQ_POST | EVHTTP_REQ_HEAD | EVHTTP_REQ_PUT | EVHTTP_REQ_DELETE
  | EVHTTP_REQ_OPTIONS | EVHTTP_REQ_TRACE | EVHTTP_REQ_CONNECT | EVHTTP_REQ_PATCH

text \<open>The text passed to \<open>bufferevent_write\<close>; \<open>None\<close> is \<open>return false\<close>.\<close>

definition SendHttpPackage :: "evhttp_cmd_type \<Rightarrow> byte list \<Rightarrow> evkeyvalq \<Rightarrow> byte list \<Rightarrow> byte list option" where
  "SendHttpPackage t path headers strBody =
     (case (if t = EVHTTP_REQ_GET then Some (str ''GET '') else if t = EVHTTP_REQ_POST then Some (str ''POST '') else None) of
        None \<Rightarrow> None
      | Some method \<Rightarrow>
          Some (method @ path @ str '' HTTP/1.1'' @ CRLF @ header_text headers (str '': '')
            @ (if evhttp_find_header headers (str ''Content-Length'') = None
               then str ''Content-Length: '' @ show_nat (length strBody) @ CRLF else [])
            @ CRLF @ strBody))"

definition RD_REMOTE_P2PTRACKER_SERVER_HOST :: "byte list" where
  "RD_REMOTE_P2PTRACKER_SERVER_HOST = str ''150759bc.nat123.cc''"

text \<open>The headers of an item with the defaults of \<open>OnAsynSendHttp\<close>, and the text that is written for it.\<close>

definition item_headers :: "byte list \<Rightarrow> http_item \<Rightarrow> evkeyvalq" where
  "item_headers userAgent pItem =
     default_header (str ''User-Agent'') userAgent
      (default_header (str ''Content-Type'') HTTP_CONTENT_TYPE_TEXT_PLAIN
      (default_header (str ''Connection'') (str ''Keep-Alive'')
      (default_header (str ''Host'') RD_REMOTE_P2PTRACKER_SERVER_HOST
      (copy_headers (it_headers pItem)))))"

definition item_text :: "byte list \<Rightarrow> http_item \<Rightarrow> byte list" where
  "item_text userAgent pItem =
     (case SendHttpPackage EVHTTP_REQ_POST (it_path pItem) (item_headers userAgent pItem) (it_body pItem) of
        None \<Rightarrow> []
      | Some text \<Rightarrow> text)"

section \<open>Requests at the tracker\<close>

text \<open>
  The tracker reads the address of a peer from two headers that the classes do not send: they
  are added by the proxy in front of it.  A request as the tracker receives it is the text of an
  item with the proxy's lines after the first line.
\<close>

definition header_item :: "byte list \<times> byte list \<Rightarrow> bool" where
  "header_item kv \<longleftrightarrow> fst kv \<noteq> [] \<and> plain (fst kv) \<and> COLON \<notin> set (fst kv) \<and> plain (snd kv) \<and> snd kv \<noteq> [] \<and> hd (snd kv) \<noteq> 32"

definition header_lines_of :: "evkeyvalq \<Rightarrow> byte list list" where
  "header_lines_of hs = map (\<lambda>(k, v). k @ str '': '' @ v) hs"

definition forwarded :: "peer_info \<Rightarrow> evkeyvalq" where
  "forwarded peer = [(X_FORWARDED_FOR, fst peer), (X_FORWARDED_FOR_PORT, show_nat (unat (snd peer)))]"

definition sent_headers :: "byte list \<Rightarrow> http_item \<Rightarrow> evkeyvalq" where
  "sent_headers ua it = item_headers ua it @ [(str ''Content-Length'', show_nat (length (it_body it)))]"

definition item_request :: "peer_info \<Rightarrow> byte list \<Rightarrow> http_item \<Rightarrow> http_request" where
  "item_request peer ua it = \<lparr>rq_method = str ''POST'', rq_path = it_path it, rq_version = str ''HTTP/1.1'',
     rq_lines = header_lines_of (forwarded peer @ sent_headers ua it), rq_body = it_body it\<rparr>"

text \<open>What the program relies on of the proxy for a peer's address.\<close>

definition forwards :: "(byte list \<Rightarrow> byte list) \<Rightarrow> peer_info \<Rightarrow> bool" where
  "forwards proxy peer \<longleftrightarrow> (\<forall>line rest. 13 \<notin> set line \<longrightarrow>
     proxy (line @ CRLF @ rest) = line @ CRLF @ line_block (header_lines_of (forwarded peer)) @ rest)"

lemma line_block_append: "line_block (ls @ ls') = line_block ls @ line_block ls'"
  by (simp add: line_block_def)

lemma header_lines_of_append: "header_lines_of (hs @ hs') = header_lines_of hs @ header_lines_of hs'"
  by (simp add: header_lines_of_def)

lemma header_lines_of_one: "header_lines_of [(k, v)] = [k @ str '': '' @ v]"
  by (simp add: header_lines_of_def)

lemma header_text_lines: "header_text hs (str '': '') = line_block (header_lines_of hs)"
  by (induction hs) (auto simp: header_text_def line_block_def header_lines_of_def)

lemma find_header_None:
  "evhttp_find_header hs key = None \<longleftrightarrow> list_all (\<lambda>k. evutil_ascii_strcasecmp k key \<noteq> 0) (map fst hs)"
  by (induction hs) auto

lemma DecodeOneHeader_item: "header_item (k, v) \<Longrightarrow> DecodeOneHeader (k @ str '': '' @ v) hs = hs @ [(k, v)]"
  using DecodeOneHeader_line [of k v 1 hs] by (simp add: header_item_def COLON_def)

lemma DecodeOneHeader_items:
  "list_all header_item kvs \<Longrightarrow> fold DecodeOneHeader (header_lines_of kvs) hs = hs @ kvs"
  by (induction kvs arbitrary: hs) (auto simp: header_lines_of_def DecodeOneHeader_item simp del: str_simps)

lemma header_line_items: "list_all header_item kvs \<Longrightarrow> list_all header_line (header_lines_of kvs)"
  by (induction kvs) (auto simp: header_lines_of_def header_line_def header_item_def plain_def)

lemma hd_not: "c \<notin> set xs \<Longrightarrow> xs \<noteq> [] \<Longrightarrow> hd xs \<noteq> c"
  using hd_in_set by metis

lemma show_nat_item [simp]: "plain (show_nat n)" "hd (show_nat n) \<noteq> 32"
  using show_nat_facts [of n] by (simp_all add: plain_def hd_not)

lemma good_ip_item: "good_ip ip \<Longrightarrow> plain ip \<and> ip \<noteq> [] \<and> hd ip \<noteq> 32"
  using good_ip_facts [of ip] by (simp add: plain_def hd_not)

lemma plain_names [simp]:
  "plain X_FORWARDED_FOR" "plain X_FORWARDED_FOR_PORT" "COLON \<notin> set X_FORWARDED_FOR" "COLON \<notin> set X_FORWARDED_FOR_PORT"
  "X_FORWARDED_FOR \<noteq> []" "X_FORWARDED_FOR_PORT \<noteq> []"
  by code_simp+

lemma forwarded_items: "good_ip (fst peer) \<Longrightarrow> list_all header_item (forwarded peer)"
  by (simp add: forwarded_def header_item_def good_ip_item)

text \<open>The four kinds of items, by the names of their headers.\<close>

lemma default_header_plain:
  "plain k \<Longrightarrow> plain v \<Longrightarrow> default_header k v hs = (if evhttp_find_header hs k = None then hs @ [(k, v)] else hs)"
  by (simp add: default_header_def evhttp_add_header_plain)

lemma copy_headers_plain: "list_all header_item hs \<Longrightarrow> copy_headers hs = hs"
proof -
  assume hs: "list_all header_item hs"
  have "fold (\<lambda>(k, v) hs. snd (evhttp_add_header hs k v)) hs acc = acc @ hs" for acc
    using hs by (induction hs arbitrary: acc) (auto simp: evhttp_add_header_plain header_item_def)
  then show ?thesis by (simp add: copy_headers_def)
qed

lemma request_of_item:
  assumes "evhttp_find_header (item_headers ua it) (str ''Content-Length'') = None"
  shows "item_text ua it = str ''POST '' @ it_path it @ str '' HTTP/1.1'' @ CRLF
    @ line_block (header_lines_of (sent_headers ua it)) @ CRLF @ it_body it"
  using assms by (simp add: item_text_def SendHttpPackage_def header_text_lines sent_headers_def header_lines_of_append
      line_block_append header_lines_of_one del: str_simps) (simp add: line_block_def)

lemma forwarded_request:
  assumes "evhttp_find_header (item_headers ua it) (str ''Content-Length'') = None"
    and "forwards proxy peer" and "13 \<notin> set (it_path it)"
  shows "proxy (item_text ua it) = rq_text (item_request peer ua it)"
proof -
  have "13 \<notin> set (str ''POST '' @ it_path it @ str '' HTTP/1.1'')" using assms(3) by simp
  then have "proxy ((str ''POST '' @ it_path it @ str '' HTTP/1.1'') @ CRLF @ rest)
      = (str ''POST '' @ it_path it @ str '' HTTP/1.1'') @ CRLF @ line_block (header_lines_of (forwarded peer)) @ rest" for rest
    using assms(2) unfolding forwards_def by blast
  then show ?thesis
    unfolding request_of_item [OF assms(1)]
    by (simp add: rq_text_def rq_line_def item_request_def header_lines_of_append line_block_append)
qed

lemma rq_headers_item:
  assumes "list_all header_item (sent_headers ua it)" and "good_ip (fst peer)"
  shows "rq_headers (item_request peer ua it) = forwarded peer @ sent_headers ua it"
  using assms forwarded_items [of peer]
  by (simp add: rq_headers_def item_request_def DecodeOneHeader_items del: fold_append)

lemma rq_ok_item:
  assumes "list_all header_item (sent_headers ua it)" and "good_ip (fst peer)"
    and "32 \<notin> set (it_path it)" "13 \<notin> set (it_path it)" and "length (it_body it) < 2 ^ 31"
    and "evhttp_find_header (item_headers ua it) (str ''Content-Length'') = None"
  shows "rq_ok (item_request peer ua it)"
proof -
  have "list_all (\<lambda>k. evutil_ascii_strcasecmp k (str ''Content-Length'') \<noteq> 0) [X_FORWARDED_FOR, X_FORWARDED_FOR_PORT]"
    by code_simp
  then have "evhttp_find_header (forwarded peer) (str ''Content-Length'') = None"
    by (subst find_header_None) (simp add: forwarded_def)
  moreover have "evutil_ascii_strcasecmp (str ''Content-Length'') (str ''Content-Length'') = 0"
    by code_simp
  ultimately have "evhttp_find_header (forwarded peer @ sent_headers ua it) (str ''Content-Length'')
      = Some (show_nat (length (it_body it)))"
    using assms(6) by (simp add: evhttp_find_header_append sent_headers_def del: str_simps)
  moreover have "list_all header_line (header_lines_of (forwarded peer @ sent_headers ua it))"
    using assms(1,2) forwarded_items [of peer] by (intro header_line_items) simp
  ultimately show ?thesis
    using assms(3-5) unfolding rq_ok_def rq_headers_item [OF assms(1,2)]
    by (auto simp: item_request_def content_length_def header_lines_of_def forwarded_def)
qed

section \<open>The responses of the tracker\<close>

definition OK_line :: "byte list" where "OK_line = str ''HTTP/1.1 200 OK''"

definition response_text :: "byte list list \<Rightarrow> byte list \<Rightarrow> byte list" where
  "response_text ls b = OK_line @ CRLF @ line_block ls @ CRLF @ b"

lemma response_first_line_OK: "\<exists>c. response_first_line line (OK_line @ CRLF @ rest) = Fl_go (Inr c) (length (OK_line @ CRLF))"
proof -
  have "find_str HTTP_1_1 (OK_line @ CRLF @ rest) = Some 0"
    by (simp add: HTTP_1_1_def OK_line_def)
  moreover have "find_str CRLF (OK_line @ CRLF @ rest) = Some (length OK_line)"
    by (rule find_CRLF) (simp add: OK_line_def)
  moreover have "find_str [32] (OK_line @ CRLF @ rest) = Some 8"
    by (simp add: OK_line_def)
  ultimately show ?thesis by (simp add: response_first_line_def CRLF_def)
qed

lemma resp_message:
  assumes "ls \<noteq> []" and "list_all header_line ls" and "content_length (fold DecodeOneHeader ls []) = int (length b)"
  shows "\<exists>c. resp_DecodeBuffer (hb_append (response_text ls b) resp_Clear)
    = (resp_Clear, [Header_block (fold DecodeOneHeader ls []), Message (Inr c) (fold DecodeOneHeader ls []) b])"
proof -
  let ?d = "hb_append (response_text ls b) resp_Clear"
  obtain c where c: "response_first_line (hb_line ?d) (hb_buf ?d) = Fl_go (Inr c) (length (OK_line @ CRLF))"
    using response_first_line_OK [of "hb_line ?d" "line_block ls @ CRLF @ b"] by (auto simp: response_text_def resp_Clear_def)
  have "resp_DecodeFirstLine ?d = (resp_Clear, [Header_block (fold DecodeOneHeader ls []), Message (Inr c) (fold DecodeOneHeader ls []) b])"
    using resp.first_message [OF c, of ls b "[]"] assms by (simp add: response_text_def resp_Clear_def emit_def)
  moreover have "resp_DecodeBuffer ?d = resp_DecodeFirstLine ?d" by (simp add: resp_DecodeBuffer_def resp_Clear_def)
  ultimately show ?thesis by auto
qed

text \<open>Header lines with a colon alone, which the dig handler writes.\<close>

definition colon_lines_of :: "evkeyvalq \<Rightarrow> byte list list" where
  "colon_lines_of hs = map (\<lambda>(k, v). k @ COLON # v) hs"

lemma header_text_colon: "header_text hs [COLON] = line_block (colon_lines_of hs)"
  by (induction hs) (auto simp: header_text_def line_block_def colon_lines_of_def)

lemma DecodeOneHeader_colon: "list_all header_item kvs \<Longrightarrow> fold DecodeOneHeader (colon_lines_of kvs) hs = hs @ kvs"
proof (induction kvs arbitrary: hs)
  case (Cons kv kvs)
  then show ?case
    using DecodeOneHeader_line [of "fst kv" "snd kv" 0 hs]
    by (cases kv) (simp add: colon_lines_of_def header_item_def)
qed (simp add: colon_lines_of_def)

lemma header_line_colon: "list_all header_item kvs \<Longrightarrow> list_all header_line (colon_lines_of kvs)"
  by (induction kvs) (auto simp: colon_lines_of_def header_line_def header_item_def plain_def COLON_def)

lemma content_length_last:
  assumes "evhttp_find_header hs (str ''Content-Length'') = None" and "n < 2 ^ 31"
  shows "content_length (hs @ [(str ''Content-Length'', show_nat n)]) = int n"
proof -
  have "evutil_ascii_strcasecmp (str ''Content-Length'') (str ''Content-Length'') = 0" by code_simp
  then show ?thesis using assms by (simp add: content_length_def evhttp_find_header_append del: str_simps)
qed

definition text_plain_headers :: "nat \<Rightarrow> evkeyvalq" where
  "text_plain_headers n = [(str ''Content-Type'', HTTP_CONTENT_TYPE_TEXT_PLAIN), (str ''Content-Length'', show_nat n)]"

lemma text_plain_items: "list_all header_item (text_plain_headers n)"
  by (simp add: text_plain_headers_def header_item_def plain_def HTTP_CONTENT_TYPE_TEXT_PLAIN_def COLON_def show_nat_facts
      show_nat_item)

text \<open>A response with more header lines before those two.\<close>

lemma tracker_response:
  assumes "list_all header_line ls" and "fold DecodeOneHeader ls [] = hs"
    and "evhttp_find_header hs (str ''Content-Length'') = None" and "length b < 2 ^ 31"
  shows "\<exists>c. resp_DecodeBuffer (hb_append (response_text (ls @ header_lines_of (text_plain_headers (length b))) b) resp_Clear)
    = (resp_Clear, [Header_block (hs @ text_plain_headers (length b)), Message (Inr c) (hs @ text_plain_headers (length b)) b])"
proof -
  let ?t = "text_plain_headers (length b)"
  have fold: "fold DecodeOneHeader (ls @ header_lines_of ?t) [] = hs @ ?t"
    using assms(2) by (simp add: DecodeOneHeader_items [OF text_plain_items])
  have "evhttp_find_header (hs @ [(str ''Content-Type'', HTTP_CONTENT_TYPE_TEXT_PLAIN)]) (str ''Content-Length'') = None"
  proof -
    have "evutil_ascii_strcasecmp (str ''Content-Type'') (str ''Content-Length'') \<noteq> 0" by code_simp
    then show ?thesis using assms(3) by (simp add: evhttp_find_header_append del: str_simps)
  qed
  then have "content_length (hs @ ?t) = int (length b)"
    using content_length_last [of "hs @ [(str ''Content-Type'', HTTP_CONTENT_TYPE_TEXT_PLAIN)]" "length b"] assms(4)
    by (simp add: text_plain_headers_def)
  moreover have "list_all header_line (ls @ header_lines_of ?t)"
    using assms(1) header_line_items [OF text_plain_items] by simp
  moreover have "ls @ header_lines_of ?t \<noteq> []" by (simp add: text_plain_headers_def header_lines_of_def)
  ultimately show ?thesis using resp_message [of "ls @ header_lines_of ?t" b] unfolding fold by simp
qed

lemma ok_200_response: "ok_200 strExtra =
  response_text (header_lines_of (text_plain_headers (length (body_200 0 strExtra)))) (body_200 0 strExtra)"
  by (simp add: ok_200_def response_text_def header_lines_of_def text_plain_headers_def OK_line_def)

section \<open>The items of the two programs\<close>

text \<open>An item whose own headers are not among the default ones.\<close>

definition default_headers :: "byte list \<Rightarrow> evkeyvalq" where
  "default_headers ua = [(str ''Host'', RD_REMOTE_P2PTRACKER_SERVER_HOST), (str ''Connection'', str ''Keep-Alive''),
     (str ''Content-Type'', HTTP_CONTENT_TYPE_TEXT_PLAIN), (str ''User-Agent'', ua)]"

definition differs :: "byte list \<Rightarrow> byte list \<Rightarrow> bool" where
  "differs k k' \<longleftrightarrow> evutil_ascii_strcasecmp k k' \<noteq> 0"

definition own_key :: "byte list \<Rightarrow> bool" where
  "own_key k \<longleftrightarrow> list_all (differs k)
     [str ''Host'', str ''Connection'', str ''Content-Type'', str ''User-Agent'', str ''Content-Length'',
      X_FORWARDED_FOR, X_FORWARDED_FOR_PORT]"

lemma find_differs: "evhttp_find_header hs key = None \<longleftrightarrow> list_all (\<lambda>k. differs k key) (map fst hs)"
  by (simp add: find_header_None differs_def)

lemma default_keys:
  "differs (str ''Host'') (str ''Connection'')" "differs (str ''Host'') (str ''Content-Type'')"
  "differs (str ''Host'') (str ''User-Agent'')" "differs (str ''Connection'') (str ''Content-Type'')"
  "differs (str ''Connection'') (str ''User-Agent'')" "differs (str ''Content-Type'') (str ''User-Agent'')"
  "list_all (\<lambda>k. differs k (str ''Content-Length'')) (map fst (default_headers []))"
  "list_all (\<lambda>k. differs k (str ''Connect-Peer'')) (map fst (default_headers [] @ [(str ''Content-Length'', [])]))"
  "list_all (\<lambda>k. differs k (str ''Connect-Peer-Result'')) (map fst (default_headers [] @ [(str ''Content-Length'', [])]))"
  "plain (str ''Host'')" "plain (str ''Connection'')" "plain (str ''Content-Type'')" "plain (str ''User-Agent'')"
  "plain RD_REMOTE_P2PTRACKER_SERVER_HOST" "plain (str ''Keep-Alive'')" "plain HTTP_CONTENT_TYPE_TEXT_PLAIN"
  by code_simp+

lemma item_headers_own:
  assumes "list_all header_item (it_headers it)" and "list_all own_key (map fst (it_headers it))" and "plain ua"
  shows "item_headers ua it = it_headers it @ default_headers ua"
proof -
  have none: "evhttp_find_header (it_headers it) k = None"
    if "k \<in> {str ''Host'', str ''Connection'', str ''Content-Type'', str ''User-Agent''}" for k
    using assms(2) that unfolding find_differs by (auto simp: own_key_def list_all_iff simp del: str_simps)
  show ?thesis
    unfolding item_headers_def copy_headers_plain [OF assms(1)] default_headers_def
    using none assms(3) default_keys
    by (simp add: default_header_plain evhttp_find_header_append differs_def del: str_simps)
qed

lemma default_items: "header_item (str ''User-Agent'', ua) \<Longrightarrow> list_all header_item (default_headers ua)"
proof -
  have "list_all header_item [(str ''Host'', RD_REMOTE_P2PTRACKER_SERVER_HOST), (str ''Connection'', str ''Keep-Alive''),
      (str ''Content-Type'', HTTP_CONTENT_TYPE_TEXT_PLAIN)]"
    by code_simp
  then show "header_item (str ''User-Agent'', ua) \<Longrightarrow> ?thesis" by (simp add: default_headers_def del: str_simps)
qed

definition good_item :: "byte list \<Rightarrow> http_item \<Rightarrow> bool" where
  "good_item ua it \<longleftrightarrow> list_all header_item (it_headers it) \<and> list_all own_key (map fst (it_headers it))
     \<and> header_item (str ''User-Agent'', ua) \<and> 32 \<notin> set (it_path it) \<and> 13 \<notin> set (it_path it) \<and> length (it_body it) < 2 ^ 31"

lemma good_item_sent:
  assumes "good_item ua it"
  shows "sent_headers ua it = it_headers it @ default_headers ua @ [(str ''Content-Length'', show_nat (length (it_body it)))]"
    and "list_all header_item (sent_headers ua it)"
    and "evhttp_find_header (item_headers ua it) (str ''Content-Length'') = None"
proof -
  have ua: "plain ua" using assms by (simp add: good_item_def header_item_def)
  have own: "item_headers ua it = it_headers it @ default_headers ua"
    using assms ua by (intro item_headers_own) (simp_all add: good_item_def)
  then show "sent_headers ua it = it_headers it @ default_headers ua @ [(str ''Content-Length'', show_nat (length (it_body it)))]"
    by (simp add: sent_headers_def)
  moreover have "header_item (str ''Content-Length'', show_nat n)" for n
    by (simp add: header_item_def plain_def COLON_def show_nat_item show_nat_facts)
  ultimately show "list_all header_item (sent_headers ua it)"
    using assms default_items by (simp add: good_item_def del: str_simps)
  have "list_all (\<lambda>k. differs k (str ''Content-Length'')) (map fst (default_headers ua))"
    using default_keys(7) by (simp add: default_headers_def del: str_simps)
  then show "evhttp_find_header (item_headers ua it) (str ''Content-Length'') = None"
    using assms unfolding own find_differs
    by (auto simp: good_item_def own_key_def list_all_iff simp del: str_simps)
qed

lemma item_request_ok:
  assumes "good_item ua it" and "good_ip (fst peer)"
  shows "rq_ok (item_request peer ua it)"
    and "rq_headers (item_request peer ua it) = forwarded peer @ sent_headers ua it"
    and "forwards proxy peer \<Longrightarrow> proxy (item_text ua it) = rq_text (item_request peer ua it)"
  using assms good_item_sent [OF assms(1)]
  by (auto simp: good_item_def rq_headers_item intro!: rq_ok_item forwarded_request)

lemma forwarded_found:
  "evhttp_find_header (forwarded peer @ hs) X_FORWARDED_FOR = Some (fst peer)"
  "evhttp_find_header (forwarded peer @ hs) X_FORWARDED_FOR_PORT = Some (show_nat (unat (snd peer)))"
proof -
  have "\<not> differs X_FORWARDED_FOR X_FORWARDED_FOR" "\<not> differs X_FORWARDED_FOR_PORT X_FORWARDED_FOR_PORT"
      "differs X_FORWARDED_FOR X_FORWARDED_FOR_PORT"
    by code_simp+
  then show "evhttp_find_header (forwarded peer @ hs) X_FORWARDED_FOR = Some (fst peer)"
      "evhttp_find_header (forwarded peer @ hs) X_FORWARDED_FOR_PORT = Some (show_nat (unat (snd peer)))"
    by (simp_all add: forwarded_def differs_def)
qed

lemma forwarded_not_connect:
  "evhttp_find_header (forwarded peer) (str ''Connect-Peer'') = None"
  "evhttp_find_header (forwarded peer) (str ''Connect-Peer-Result'') = None"
proof -
  have "list_all (\<lambda>k. differs k (str ''Connect-Peer'')) [X_FORWARDED_FOR, X_FORWARDED_FOR_PORT]"
      "list_all (\<lambda>k. differs k (str ''Connect-Peer-Result'')) [X_FORWARDED_FOR, X_FORWARDED_FOR_PORT]"
    by code_simp+
  then show "evhttp_find_header (forwarded peer) (str ''Connect-Peer'') = None"
      "evhttp_find_header (forwarded peer) (str ''Connect-Peer-Result'') = None"
    by (simp_all add: find_differs differs_def forwarded_def del: str_simps)
qed

section \<open>A split status line\<close>

lemma not_first_line: "\<not> is_prefix HTTP_1_1 buf \<Longrightarrow> resp_DecodeBuffer (hb_append buf resp_Clear) = (resp_Clear, [Bad_line])"
proof -
  assume "\<not> is_prefix HTTP_1_1 buf"
  then have "find_str HTTP_1_1 buf \<noteq> Some 0"
    using find_str_SomeD [of HTTP_1_1 buf 0] by (auto simp: is_prefix_def)
  then show ?thesis
    by (simp add: resp_DecodeBuffer_def resp_Clear_def resp_DecodeFirstLine.simps response_first_line_def)
qed

lemma no_suffix_starts: "0 < k \<Longrightarrow> k < 8 \<Longrightarrow> \<not> is_prefix HTTP_1_1 (drop k HTTP_1_1 @ rest)"
proof -
  assume k: "0 < k" "k < 8"
  then have "k \<in> {1, 2, 3, 4, 5, 6, 7}" by auto
  then show ?thesis by (auto simp: HTTP_1_1_def is_prefix_def)
qed

lemma short_not_prefix: "k < 8 \<Longrightarrow> \<not> is_prefix HTTP_1_1 (take k HTTP_1_1)"
proof -
  assume "k < 8"
  then have "length (take 8 (take k HTTP_1_1)) < length HTTP_1_1" by (simp add: HTTP_1_1_def)
  then show ?thesis by (auto simp: is_prefix_def HTTP_1_1_def)
qed

text \<open>
  A response is lost when the network splits its status line: if a read ends inside the
  first eight bytes of a response, both parts are dropped and no handler is called.
\<close>

lemma split_status_line_lost:
  assumes "0 < k" and "k < 8"
  shows "resp_DecodeBuffer (hb_append (take k (HTTP_1_1 @ rest)) resp_Clear) = (resp_Clear, [Bad_line])
    \<and> resp_DecodeBuffer (hb_append (drop k (HTTP_1_1 @ rest)) resp_Clear) = (resp_Clear, [Bad_line])"
proof -
  have "length HTTP_1_1 = 8" by (simp add: HTTP_1_1_def)
  then show ?thesis
    using assms no_suffix_starts [OF assms, of rest] short_not_prefix [OF assms(2)]
    by (simp add: not_first_line)
qed

lemma split_status_line_lost_witness:
  "resp_DecodeBuffer (hb_append (take 3 (HTTP_1_1 @ str '' 200 OK'' @ CRLF)) resp_Clear) = (resp_Clear, [Bad_line])"
  using split_status_line_lost [of 3 "str '' 200 OK'' @ CRLF"] by simp

end
