(* ===== verification/Tracker_Client_Server.thy ===== *)
theory Tracker_Client_Server
  imports Tracker_Client
begin

text \<open>
  The tracker client of the server program (CP2PTrackerClient of
  RemoteDesktopServer/P2PTrackerClient.cpp): it puts the server on line, keeps it there with
  pings and answers the requests of clients to be connected to.  The outcome of \<open>inet_addr\<close> and
  of the DNS, whether the socket connects and the event is created, the local port, and the
  answer of the server to \<open>OnPeerConnecting\<close> are parameters; what is written and the calls of
  the IP2PTrackerClientEvent are the outputs.
\<close>

section \<open>State\<close>

datatype P2PTRACKER_STATE = P2PTS_INVALID | P2PTS_DNS | P2PTS_CONNECT | P2PTS_ONLINE | P2PTS_PING | P2PTS_OFFLINE

record track_srv =
  ts_base :: bool
  ts_bufferev :: bool
  ts_event :: bool
  ts_ip :: u32
  ts_port :: u16
  ts_http :: "response_line http_buf"
  ts_state :: P2PTRACKER_STATE
  ts_ping_failed :: u32
  ts_queue :: "http_item list"

datatype ts_out =
    Ts_write "byte list"
  | Ts_connect_success u16
  | Ts_connect_failed
  | Ts_peer_connecting peer_info

type_synonym ts_result = "sb_error + track_srv \<times> ts_out list"

definition INADDR_NONE :: u32 where "INADDR_NONE = 0xFFFFFFFF"

text \<open>\<open>ip\<close> is \<open>inet_addr\<close> of the host name.\<close>

definition ts_CP2PTrackerClient :: "u32 \<Rightarrow> track_srv" where
  "ts_CP2PTrackerClient ip = \<lparr>ts_base = False, ts_bufferev = False, ts_event = False, ts_ip = ip, ts_port = 80,
     ts_http = resp_Clear, ts_state = P2PTS_INVALID, ts_ping_failed = 0, ts_queue = []\<rparr>"

section \<open>Connecting and closing\<close>

definition ts_CloseClient :: "track_srv \<Rightarrow> track_srv" where
  "ts_CloseClient w = w\<lparr>ts_event := False, ts_bufferev := False\<rparr>"

definition ts_OnServerConnectFailed :: "track_srv \<Rightarrow> track_srv \<times> ts_out list" where
  "ts_OnServerConnectFailed w = ((ts_CloseClient w)\<lparr>ts_state := P2PTS_INVALID\<rparr>, [Ts_connect_failed])"

definition ts_Connect :: "u32 option \<Rightarrow> bool \<Rightarrow> bool \<Rightarrow> track_srv \<Rightarrow> bool \<times> track_srv \<times> ts_out list" where
  "ts_Connect dns connects event_ok w =
     (case (if ts_ip w = INADDR_NONE
            then (case dns of None \<Rightarrow> None | Some ip \<Rightarrow> Some (w\<lparr>ts_state := P2PTS_DNS, ts_ip := ip\<rparr>))
            else Some w) of
        None \<Rightarrow> (False, w\<lparr>ts_state := P2PTS_DNS\<rparr>, [])
      | Some w \<Rightarrow>
          let w = w\<lparr>ts_state := P2PTS_CONNECT, ts_bufferev := True\<rparr> in
          if connects then (True, w\<lparr>ts_event := event_ok\<rparr>, [])
          else (False, ts_OnServerConnectFailed (w\<lparr>ts_bufferev := False\<rparr>)))"

definition ts_Init :: "u32 option \<Rightarrow> bool \<Rightarrow> bool \<Rightarrow> track_srv \<Rightarrow> bool \<times> track_srv \<times> ts_out list" where
  "ts_Init dns connects event_ok w = ts_Connect dns connects event_ok (w\<lparr>ts_base := True\<rparr>)"

definition ts_Uninit :: "track_srv \<Rightarrow> track_srv" where
  "ts_Uninit w = (ts_CloseClient w)\<lparr>ts_base := False\<rparr>"

section \<open>Requests\<close>

text \<open>\<open>push\<close> and \<open>event_active\<close>, which dereferences its argument.\<close>

definition ts_push :: "http_item \<Rightarrow> track_srv \<Rightarrow> sb_error + track_srv" where
  "ts_push pItem w =
     (let w = w\<lparr>ts_queue := ts_queue w @ [pItem]\<rparr> in if ts_event w then Inr w else Inl MemFault)"

definition ts_SendOnline :: "track_srv \<Rightarrow> sb_error + bool \<times> track_srv" where
  "ts_SendOnline w =
     (if \<not> ts_bufferev w then Inr (False, w)
      else
        let w = w\<lparr>ts_state := P2PTS_ONLINE\<rparr>;
            pItem = \<lparr>it_path = str ''/p'', it_body = str ''c=s'', it_headers = []\<rparr>
        in rd_bind (ts_push pItem w) (\<lambda>w. Inr (True, w)))"

definition ts_SendPing :: "track_srv \<Rightarrow> sb_error + bool \<times> track_srv" where
  "ts_SendPing w =
     (if \<not> ts_bufferev w \<or> ts_state w = P2PTS_INVALID \<or> \<not> ts_event w then Inr (False, w)
      else
        let w = w\<lparr>ts_state := P2PTS_PING\<rparr>;
            pItem = \<lparr>it_path = str ''/p'', it_body = str ''c=p'', it_headers = []\<rparr>
        in rd_bind (ts_push pItem w) (\<lambda>w. Inr (True, w)))"

definition ts_SendOffline :: "track_srv \<Rightarrow> sb_error + bool \<times> track_srv" where
  "ts_SendOffline w =
     (if \<not> ts_bufferev w \<or> ts_state w = P2PTS_INVALID \<or> \<not> ts_event w then Inr (False, w)
      else
        let w = w\<lparr>ts_state := P2PTS_OFFLINE\<rparr>;
            pItem = \<lparr>it_path = str ''/p'', it_body = str ''c=e'',
              it_headers = snd (evhttp_add_header [] (str ''Connection'') (str ''Close''))\<rparr>
        in rd_bind (ts_push pItem w) (\<lambda>w. Inr (True, w)))"

definition ts_user_agent :: "byte list" where "ts_user_agent = str ''P2PTrackerServer''"

definition ts_OnAsynSendHttp :: "track_srv \<Rightarrow> track_srv \<times> ts_out list" where
  "ts_OnAsynSendHttp w =
     (if \<not> ts_bufferev w then (w, [])
      else (w\<lparr>ts_queue := []\<rparr>, map (\<lambda>pItem. Ts_write (item_text ts_user_agent pItem)) (ts_queue w)))"

section \<open>Responses\<close>

definition ts_OnServerConnectSuccess :: "u16 \<Rightarrow> track_srv \<Rightarrow> ts_result" where
  "ts_OnServerConnectSuccess local_port w =
     (if ts_bufferev w then Inr (w, [Ts_connect_success local_port]) else Inl MemFault)"

definition ts_OnServerPingSuccess :: "track_srv \<Rightarrow> track_srv" where
  "ts_OnServerPingSuccess w = w\<lparr>ts_ping_failed := 0\<rparr>"

definition ts_OnServerPingFailed :: "track_srv \<Rightarrow> track_srv" where
  "ts_OnServerPingFailed w =
     (let w = w\<lparr>ts_ping_failed := ts_ping_failed w + 1\<rparr> in
      if ts_ping_failed w > 3 then (ts_CloseClient w)\<lparr>ts_state := P2PTS_INVALID\<rparr> else w)"

definition ts_OnServerOfflineFinish :: "bool \<Rightarrow> track_srv \<Rightarrow> track_srv" where
  "ts_OnServerOfflineFinish result w = (ts_CloseClient w)\<lparr>ts_state := P2PTS_INVALID\<rparr>"

definition ts_OnPeerConnecting :: "(peer_info \<Rightarrow> bool) \<Rightarrow> peer_info \<Rightarrow> track_srv \<Rightarrow> ts_result" where
  "ts_OnPeerConnecting accepts peer w =
     (let strResult = str ''result='' @ (if accepts peer then str ''0'' else str ''-1'') @ str ''&peer='' @ peer_text peer;
          pItem = \<lparr>it_path = str ''/c'', it_body = [],
            it_headers = snd (evhttp_add_header [] (str ''Connect-Peer-Result'') (c_str strResult))\<rparr>
      in rd_bind (ts_push pItem w) (\<lambda>w. Inr (w, [Ts_peer_connecting peer])))"

definition ts_OnHttpResponse ::
    "(peer_info \<Rightarrow> bool) \<Rightarrow> u16 \<Rightarrow> evkeyvalq \<Rightarrow> byte list \<Rightarrow> track_srv \<Rightarrow> ts_result" where
  "ts_OnHttpResponse accepts local_port headers strBody w =
     (case evhttp_find_header headers (str ''Connect-Peer'') of
        Some pPeer \<Rightarrow>
          (case parse_peer pPeer of
             None \<Rightarrow> Inr (w, [])
           | Some peer \<Rightarrow> ts_OnPeerConnecting accepts peer w)
      | None \<Rightarrow>
          if find_str (str ''result=0'') strBody = Some 0 then
            (case ts_state w of
               P2PTS_ONLINE \<Rightarrow> ts_OnServerConnectSuccess local_port w
             | P2PTS_PING \<Rightarrow> Inr (w, [])
             | P2PTS_OFFLINE \<Rightarrow> Inr (ts_OnServerOfflineFinish True w, [])
             | _ \<Rightarrow> Inr (w, []))
          else
            (case ts_state w of
               P2PTS_ONLINE \<Rightarrow> Inr (ts_OnServerConnectFailed w)
             | P2PTS_PING \<Rightarrow> Inr (ts_OnServerPingFailed w, [])
             | P2PTS_OFFLINE \<Rightarrow> Inr (ts_OnServerOfflineFinish False w, [])
             | _ \<Rightarrow> Inr (w, [])))"

text \<open>
  No handler touches the decoder, so what a read decodes is handled afterwards, in order; a
  dropped line and a header alone call nothing, and a status line whose code was read out of
  bounds is a fault where its message, or the rest of it, is reached.
\<close>

fun ts_run :: "(peer_info \<Rightarrow> bool) \<Rightarrow> u16 \<Rightarrow> response_line http_event list \<Rightarrow> track_srv \<Rightarrow> ts_result" where
  "ts_run accepts local_port [] w = (if isl (hb_line (ts_http w)) then Inl MemFault else Inr (w, []))"
| "ts_run accepts local_port (e # es) w =
     rd_bind
       (case e of
          Message line headers body \<Rightarrow>
            if isl line then Inl MemFault else ts_OnHttpResponse accepts local_port headers body w
        | Bad_line \<Rightarrow> Inr (w, [])
        | Header_block headers \<Rightarrow> Inr (w, []))
       (\<lambda>(w, o1). rd_bind (ts_run accepts local_port es w) (\<lambda>(w, o2). Inr (w, o1 @ o2)))"

definition ts_conn_readcb :: "(peer_info \<Rightarrow> bool) \<Rightarrow> u16 \<Rightarrow> byte list \<Rightarrow> track_srv \<Rightarrow> ts_result" where
  "ts_conn_readcb accepts local_port data w =
     (if data = [] then Inr (w, [])
      else
        let (d, evs) = resp_DecodeBuffer (hb_append data (ts_http w)) in
        ts_run accepts local_port evs (w\<lparr>ts_http := d\<rparr>))"

text \<open>The event callback only logs.\<close>

definition ts_conn_eventcb :: "u16 \<Rightarrow> track_srv \<Rightarrow> track_srv" where
  "ts_conn_eventcb events w = w"

end
