(* ===== verification/Tracker_Client_Viewer.thy ===== *)
theory Tracker_Client_Viewer
  imports Tracker_Client
begin

text \<open>
  The tracker client of the viewing program (CP2PTrackerClient of
  RemoteDesktopClient/P2PTrackerClient.cpp) with the handlers of CRemoteClient it calls
  (RemoteDesktopClient/RemoteClient.cpp): it asks the tracker for the peers on line, asks to be
  connected to the first of them and waits for that peer's answer.  The loop over the list
  of peers is a \<open>partial_function\<close>, so that a read that never returns would be the value \<open>None\<close>.
\<close>

section \<open>State\<close>

record track_cli =
  tc_base :: bool
  tc_bufferev :: bool
  tc_event :: bool
  tc_ip :: u32
  tc_port :: u16
  tc_http :: "response_line http_buf"
  tc_ping_failed :: u32
  tc_local_port :: u16
  tc_queue :: "http_item list"

datatype tc_out =
    Tc_write "byte list"
  | Tc_live_list "peer_info list"
  | Tc_live_failed
  | Tc_connect_result peer_info u16
  | Tc_set_timer

definition tc_CP2PTrackerClient :: "u32 \<Rightarrow> track_cli" where
  "tc_CP2PTrackerClient ip = \<lparr>tc_base = False, tc_bufferev = False, tc_event = False, tc_ip = ip, tc_port = 80,
     tc_http = resp_Clear, tc_ping_failed = 0, tc_local_port = 0, tc_queue = []\<rparr>"

section \<open>Connecting and closing\<close>

text \<open>Unlike that of the server program, it clears the decoder and the queue when it closes.\<close>

definition tc_CloseClient :: "track_cli \<Rightarrow> track_cli" where
  "tc_CloseClient w = w\<lparr>tc_event := False, tc_bufferev := False, tc_http := resp_Clear, tc_ping_failed := 0, tc_queue := []\<rparr>"

definition tc_Connect :: "u32 option \<Rightarrow> bool \<Rightarrow> bool \<Rightarrow> u16 \<Rightarrow> track_cli \<Rightarrow> bool \<times> track_cli" where
  "tc_Connect dns connects event_ok local_port w =
     (case (if tc_ip w = 0xFFFFFFFF
            then (case dns of None \<Rightarrow> None | Some ip \<Rightarrow> Some (w\<lparr>tc_ip := ip\<rparr>)) else Some w) of
        None \<Rightarrow> (False, w)
      | Some w \<Rightarrow>
          let w = w\<lparr>tc_bufferev := True\<rparr> in
          if connects then (True, w\<lparr>tc_local_port := local_port, tc_event := event_ok\<rparr>)
          else (False, w\<lparr>tc_bufferev := False\<rparr>))"

definition tc_Init :: "u32 option \<Rightarrow> bool \<Rightarrow> bool \<Rightarrow> u16 \<Rightarrow> track_cli \<Rightarrow> bool \<times> track_cli" where
  "tc_Init dns connects event_ok local_port w = tc_Connect dns connects event_ok local_port (w\<lparr>tc_base := True\<rparr>)"

definition tc_Uninit :: "track_cli \<Rightarrow> track_cli" where
  "tc_Uninit w = (tc_CloseClient w)\<lparr>tc_base := False\<rparr>"

section \<open>Requests\<close>

definition tc_GetLivePeerList :: "track_cli \<Rightarrow> bool \<times> track_cli" where
  "tc_GetLivePeerList w =
     (if \<not> tc_bufferev w \<or> \<not> tc_event w then (False, w)
      else (True, w\<lparr>tc_queue := tc_queue w @ [\<lparr>it_path = str ''/p'', it_body = str ''c=g'', it_headers = []\<rparr>]\<rparr>))"

text \<open>The header is printed into a \<open>char [100]\<close>.\<close>

definition tc_ConnectPeer :: "peer_info \<Rightarrow> track_cli \<Rightarrow> sb_error + bool \<times> track_cli" where
  "tc_ConnectPeer d_peer w =
     (if \<not> tc_bufferev w \<or> \<not> tc_event w then Inr (False, w)
      else
        let szHeader = str ''d_peer='' @ peer_text (c_str (fst d_peer), snd d_peer) in
        if length szHeader + 1 > 100 then Inl MemFault
        else Inr (True, w\<lparr>tc_queue := tc_queue w @ [\<lparr>it_path = str ''/c'', it_body = [],
            it_headers = snd (evhttp_add_header [] (str ''Connect-Peer'') szHeader)\<rparr>]\<rparr>))"

definition tc_user_agent :: "byte list" where "tc_user_agent = str ''P2PTrackerClient''"

definition tc_OnAsynSendHttp :: "track_cli \<Rightarrow> track_cli \<times> tc_out list" where
  "tc_OnAsynSendHttp w =
     (if \<not> tc_bufferev w then (w, [])
      else (w\<lparr>tc_queue := []\<rparr>, map (\<lambda>pItem. Tc_write (item_text tc_user_agent pItem)) (tc_queue w)))"

section \<open>Responses\<close>

text \<open>The handlers of CRemoteClient: what they return is the state and whether it was closed.\<close>

type_synonym tc_result = "sb_error + bool \<times> track_cli \<times> tc_out list"

definition rc_OnGetLivePeerList :: "peer_info list \<Rightarrow> track_cli \<Rightarrow> tc_result" where
  "rc_OnGetLivePeerList listPeer w =
     (case listPeer of
        [] \<Rightarrow> Inr (False, w, [Tc_live_list listPeer])
      | peer # _ \<Rightarrow> rd_bind (tc_ConnectPeer peer w) (\<lambda>(_, w). Inr (False, w, [Tc_live_list listPeer])))"

definition rc_OnConnectPeerResult :: "peer_info \<Rightarrow> u16 \<Rightarrow> track_cli \<Rightarrow> tc_result" where
  "rc_OnConnectPeerResult peer port w =
     Inr (True, tc_CloseClient w, [Tc_connect_result peer port, Tc_set_timer])"

definition tc_OnConnectPeerResult :: "byte list \<Rightarrow> track_cli \<Rightarrow> tc_result" where
  "tc_OnConnectPeerResult pPeerResult w =
     (let params = snd (evhttp_parse_query (str ''/?'' @ pPeerResult)) in
      case (evhttp_find_header params (str ''result''), evhttp_find_header params (str ''peer'')) of
        (Some result, Some ppeer) \<Rightarrow>
          if result \<noteq> str ''0'' then Inr (False, w, [])
          else (case parse_peer ppeer of
              None \<Rightarrow> Inr (False, w, [])
            | Some peer \<Rightarrow> rc_OnConnectPeerResult peer (tc_local_port w) w)
      | _ \<Rightarrow> Inr (False, w, []))"

text \<open>The loop over the commas; a piece without a colon is skipped.\<close>

partial_function (option) live_peers_loop ::
    "byte list \<Rightarrow> nat \<Rightarrow> peer_info list \<Rightarrow> peer_info list option" where
  "live_peers_loop body pos_begin listPeer =
     (case find_from [44] body pos_begin of
        None \<Rightarrow> Some listPeer
      | Some pos1 \<Rightarrow>
          live_peers_loop body (pos1 + 1)
            (listPeer @ (case parse_peer (substr body pos_begin (pos1 - pos_begin)) of
                None \<Rightarrow> [] | Some peer \<Rightarrow> [peer])))"

definition live_peers :: "byte list \<Rightarrow> peer_info list option" where
  "live_peers body =
     (case find_str (str ''peer='') body of
        None \<Rightarrow> Some []
      | Some pos \<Rightarrow> live_peers_loop body (pos + 5) [])"

definition tc_OnHttpResponse :: "evkeyvalq \<Rightarrow> byte list \<Rightarrow> track_cli \<Rightarrow> tc_result option" where
  "tc_OnHttpResponse headers strBody w =
     (case evhttp_find_header headers (str ''Connect-Peer-Result'') of
        Some pPeerResult \<Rightarrow> Some (tc_OnConnectPeerResult pPeerResult w)
      | None \<Rightarrow>
          if find_str (str ''result=0'') strBody = Some 0
          then map_option (\<lambda>listPeer. rc_OnGetLivePeerList listPeer w) (live_peers strBody)
          else Some (Inr (False, w, [Tc_live_failed])))"

text \<open>
  A handler that closes the connection also clears the receive buffer, so that nothing of the
  read is left to decode.
\<close>

fun tc_run :: "response_line http_event list \<Rightarrow> track_cli \<Rightarrow> (sb_error + track_cli \<times> tc_out list) option" where
  "tc_run [] w = Some (if isl (hb_line (tc_http w)) then Inl MemFault else Inr (w, []))"
| "tc_run (e # es) w =
     (case e of
        Message line headers body \<Rightarrow>
          if isl line then Some (Inl MemFault)
          else Option.bind (tc_OnHttpResponse headers body w) (\<lambda>r. case r of
            Inl err \<Rightarrow> Some (Inl err)
          | Inr (closed, w, o1) \<Rightarrow>
              if closed then Some (Inr (w, o1))
              else map_option (\<lambda>r. rd_bind r (\<lambda>(w, o2). Inr (w, o1 @ o2))) (tc_run es w))
      | Bad_line \<Rightarrow> tc_run es w
      | Header_block headers \<Rightarrow> tc_run es w)"

definition tc_conn_readcb :: "byte list \<Rightarrow> track_cli \<Rightarrow> (sb_error + track_cli \<times> tc_out list) option" where
  "tc_conn_readcb data w =
     (if data = [] then Some (Inr (w, []))
      else
        let (d, evs) = resp_DecodeBuffer (hb_append data (tc_http w)) in tc_run evs (w\<lparr>tc_http := d\<rparr>))"

definition tc_conn_eventcb :: "u16 \<Rightarrow> track_cli \<Rightarrow> track_cli" where
  "tc_conn_eventcb events w = w"

section \<open>The loop over the peers\<close>

lemma live_peers_loop_returns: "\<exists>ps. live_peers_loop body k listPeer = Some ps"
proof (induction "Suc (length body) - k" arbitrary: k listPeer rule: less_induct)
  case less
  show ?case
  proof (cases "find_from [44] body k")
    case None
    then show ?thesis by (subst live_peers_loop.simps) simp
  next
    case (Some i)
    then have "Suc (length body) - (i + 1) < Suc (length body) - k" using find_from_SomeD [OF Some] by simp
    from less [OF this] Some show ?thesis by (subst live_peers_loop.simps) simp
  qed
qed

lemma live_peers_returns: "live_peers body \<noteq> None"
  using live_peers_loop_returns by (auto simp: live_peers_def split: option.split)

lemma live_peers_loop_list:
  assumes "\<forall>p \<in> set ps. 44 \<notin> set (peer_text p) \<and> COLON \<notin> set (fst p)"
  shows "live_peers_loop (pre @ concat (map (\<lambda>p. peer_text p @ [44]) ps)) (length pre) listPeer = Some (listPeer @ ps)"
  using assms
proof (induction ps arbitrary: pre listPeer)
  case Nil
  then show ?case by (subst live_peers_loop.simps) (simp add: find_from_def)
next
  case (Cons p ps)
  let ?rest = "concat (map (\<lambda>p. peer_text p @ [44]) ps)"
  have body: "pre @ concat (map (\<lambda>p. peer_text p @ [44]) (p # ps)) = pre @ peer_text p @ 44 # ?rest" by simp
  have pos: "find_from [44] (pre @ peer_text p @ 44 # ?rest) (length pre) = Some (length pre + length (peer_text p))"
    using Cons.prems by (intro find_char_from) simp
  have "substr (pre @ peer_text p @ 44 # ?rest) (length pre) (length (peer_text p)) = peer_text p"
    by (simp add: substr_def)
  then show ?case
    using Cons.IH [of "pre @ peer_text p @ [44]" "listPeer @ [p]"] Cons.prems pos
    unfolding body by (subst live_peers_loop.simps) simp
qed

lemma body_200_peers: "body_200 0 (str ''peer='' @ l) = str ''result=0&peer='' @ l"
proof -
  have "show_int 0 = str ''0''" by code_simp
  then show ?thesis by (simp add: body_200_def)
qed

lemma live_peers_body:
  assumes "\<forall>p \<in> set ps. good_ip (fst p)"
  shows "live_peers (str ''result=0&peer='' @ concat (map (\<lambda>p. peer_text p @ [44]) ps)) = Some ps"
proof -
  have "\<forall>p \<in> set ps. 44 \<notin> set (peer_text p) \<and> COLON \<notin> set (fst p)"
    using assms peer_text_facts good_ip_facts by blast
  from live_peers_loop_list [OF this, of "str ''result=0&peer=''" "[]"]
  have "live_peers_loop (str ''result=0&peer='' @ concat (map (\<lambda>p. peer_text p @ [44]) ps)) 14 [] = Some ps"
    by (simp add: numeral_eq_Suc del: str_simps) (simp add: str_def)
  moreover have "find_str (str ''peer='') (str ''result=0&peer='' @ s) = Some 9" for s by simp
  ultimately show ?thesis by (simp add: live_peers_def del: str_simps)
qed

section \<open>Properties\<close>

definition connect_item :: "peer_info \<Rightarrow> http_item" where
  "connect_item peer = \<lparr>it_path = str ''/c'', it_body = [],
     it_headers = [(str ''Connect-Peer'', str ''d_peer='' @ peer_text peer)]\<rparr>"

lemma tc_ConnectPeer_good:
  assumes "good_ip (fst peer)" and "tc_bufferev w" and "tc_event w"
  shows "tc_ConnectPeer peer w = (if 92 < length (peer_text peer) then Inl MemFault
    else Inr (True, w\<lparr>tc_queue := tc_queue w @ [connect_item peer]\<rparr>))"
proof -
  have "plain (str ''d_peer='' @ peer_text peer)" using peer_text_facts [OF assms(1)] by (simp add: plain_def)
  moreover have "plain (str ''Connect-Peer'')" by code_simp
  ultimately have "evhttp_add_header [] (str ''Connect-Peer'') (str ''d_peer='' @ peer_text peer)
      = (0, [(str ''Connect-Peer'', str ''d_peer='' @ peer_text peer)])"
    by (subst evhttp_add_header_plain) simp_all
  then show ?thesis
    using assms good_ip_facts(7) [OF assms(1)] by (simp add: tc_ConnectPeer_def connect_item_def del: str_simps) simp
qed

lemma tc_same_http: "tc_http w = resp_Clear \<Longrightarrow> w\<lparr>tc_http := resp_Clear\<rparr> = w"
  by (cases w) simp

lemma resp_Clear_line [simp]: "hb_line resp_Clear = Inr 0"
  by (simp add: resp_Clear_def)

lemma tc_readcb_message:
  assumes "tc_http w = resp_Clear" and "text \<noteq> []"
    and "\<exists>c. resp_DecodeBuffer (hb_append text resp_Clear) = (resp_Clear, [Header_block hs, Message (Inr c) hs b])"
    and "tc_OnHttpResponse hs b w = Some r" and "\<And>w' outs. r = Inr (False, w', outs) \<Longrightarrow> tc_http w' = resp_Clear"
  shows "tc_conn_readcb text w = Some (rd_bind r (\<lambda>(closed, w, outs). Inr (w, outs)))"
  using assms
  by (cases r) (auto simp: tc_conn_readcb_def tc_same_http)

lemma response_text_nonempty [simp]: "response_text ls b \<noteq> []"
  by (simp add: response_text_def OK_line_def)

lemma list_answer:
  assumes "length (str ''result=0&peer='' @ l) < 2 ^ 31"
  shows "\<exists>c hs. resp_DecodeBuffer (hb_append (ok_200 (str ''peer='' @ l)) resp_Clear)
      = (resp_Clear, [Header_block hs, Message (Inr c) hs (str ''result=0&peer='' @ l)])
    \<and> evhttp_find_header hs (str ''Connect-Peer-Result'') = None"
proof -
  have "list_all (\<lambda>k. evutil_ascii_strcasecmp k (str ''Connect-Peer-Result'') \<noteq> 0) [str ''Content-Type'', str ''Content-Length'']"
    by code_simp
  then have none: "evhttp_find_header (text_plain_headers n) (str ''Connect-Peer-Result'') = None" for n
    by (subst find_header_None) (simp add: text_plain_headers_def del: str_simps)
  show ?thesis
    using tracker_response [of "[]" "[]" "str ''result=0&peer='' @ l"] assms none
    unfolding ok_200_response body_200_peers by (auto simp del: str_simps)
qed

lemma live_list_read:
  assumes "OnPeerGetLive (Some bev) m = Inr (True, m, [(bev, text)])"
    and "\<forall>p \<in> set (GetLivePeer m). good_ip (fst p)" and "length text < 2 ^ 31"
    and "tc_http w = resp_Clear" and "tc_bufferev w" and "tc_event w"
  shows "tc_conn_readcb text w = Some
    (case GetLivePeer m of
       [] \<Rightarrow> Inr (w, [Tc_live_list []])
     | peer # peers \<Rightarrow>
         if 92 < length (peer_text peer) then Inl MemFault
         else Inr (w\<lparr>tc_queue := tc_queue w @ [connect_item peer]\<rparr>, [Tc_live_list (peer # peers)]))"
proof -
  let ?ps = "GetLivePeer m"
  let ?l = "concat (map (\<lambda>p. peer_text p @ [44]) ?ps)"
  have answer: "text = ok_200 (str ''peer='' @ ?l)"
    using assms(1) by (simp add: OnPeerGetLive_def live_list_result pt_Send200_ok split: if_splits)
  have "length (str ''result=0&peer='' @ ?l) \<le> length text"
    unfolding answer ok_200_response body_200_peers by (simp add: response_text_def del: str_simps)
  then have short: "length (str ''result=0&peer='' @ ?l) < 2 ^ 31" using assms(3) by linarith
  from list_answer [OF this] obtain c hs
    where dec: "resp_DecodeBuffer (hb_append text resp_Clear)
        = (resp_Clear, [Header_block hs, Message (Inr c) hs (str ''result=0&peer='' @ ?l)])"
      and none: "evhttp_find_header hs (str ''Connect-Peer-Result'') = None"
    unfolding answer by blast
  have "find_str (str ''result=0'') (str ''result=0&peer='' @ ?l) = Some 0" by simp
  then have "tc_OnHttpResponse hs (str ''result=0&peer='' @ ?l) w = Some (rc_OnGetLivePeerList ?ps w)"
    using none live_peers_body [OF assms(2)] by (simp add: tc_OnHttpResponse_def del: str_simps)
  moreover have "text \<noteq> []" unfolding answer ok_200_response by simp
  ultimately have "tc_conn_readcb text w
      = Some (rd_bind (rc_OnGetLivePeerList ?ps w) (\<lambda>(closed, w, outs). Inr (w, outs)))"
    using dec assms(4-6)
    by (intro tc_readcb_message) (auto simp: rc_OnGetLivePeerList_def tc_ConnectPeer_def Let_def split: list.splits if_splits)
  then show ?thesis
    using assms(2,5,6) by (cases ?ps) (simp_all add: rc_OnGetLivePeerList_def tc_ConnectPeer_good)
qed

text \<open>
  C36. The list of live peers from the tracker to the viewer: what the tracker answers is read
  back as exactly its list, and the viewer asks to be connected to the first of them, unless
  its address takes more than 92 characters with its port, which the tracker still sends and
  which overruns the viewer's buffer.
\<close>

theorem live_list_roundtrip:
  assumes "OnPeerGetLive (Some bev) m = Inr (True, m, [(bev, text)])"
    and "\<forall>p \<in> set (GetLivePeer m). good_ip (fst p)" and "length text < 2 ^ 31"
    and "tc_http w = resp_Clear" and "tc_bufferev w" and "tc_event w"
  shows "tc_conn_readcb text w = Some
    (case GetLivePeer m of
       [] \<Rightarrow> Inr (w, [Tc_live_list []])
     | peer # peers \<Rightarrow>
         if 92 < length (peer_text peer) then Inl MemFault
         else Inr (w\<lparr>tc_queue := tc_queue w @ [connect_item peer]\<rparr>, [Tc_live_list (peer # peers)]))"
  using assms by (rule live_list_read)
definition sample_viewer :: track_cli where
  "sample_viewer = (tc_CP2PTrackerClient 0)\<lparr>tc_bufferev := True, tc_event := True\<rparr>"

definition sample_peers :: peer_map where
  "sample_peers = [(str ''1.2.3.4'', 80, \<lparr>ps_state = RDPS_ONLINE, ps_online_tm = 0, ps_offline_times = 0\<rparr>)]"

lemma sample_peers_live: "GetLivePeer sample_peers = [(str ''1.2.3.4'', 80)]"
  by (simp add: sample_peers_def)

theorem live_list_roundtrip_witness:
  "tc_conn_readcb (ok_200 (str ''peer=1.2.3.4:80,'')) sample_viewer
    = Some (Inr (sample_viewer\<lparr>tc_queue := [connect_item (str ''1.2.3.4'', 80)]\<rparr>, [Tc_live_list [(str ''1.2.3.4'', 80)]]))"
proof -
  have "OnPeerGetLive (Some 5) sample_peers = Inr (True, sample_peers, [(5, ok_200 (str ''peer=1.2.3.4:80,''))])"
    by code_simp
  moreover have "good_ip (str ''1.2.3.4'')" "length (ok_200 (str ''peer=1.2.3.4:80,'')) < 100"
      "length (peer_text (str ''1.2.3.4'', 80)) < 92"
    by code_simp+
  moreover have "tc_http sample_viewer = resp_Clear" "tc_bufferev sample_viewer" "tc_event sample_viewer" "tc_queue sample_viewer = []"
    by (simp_all add: sample_viewer_def tc_CP2PTrackerClient_def)
  ultimately show ?thesis
    using live_list_roundtrip [of 5 sample_peers "ok_200 (str ''peer=1.2.3.4:80,'')" sample_viewer]
    by (simp add: sample_peers_live del: str_simps)
qed

lemma tc_OnHttpResponse_returns: "tc_OnHttpResponse headers body w \<noteq> None"
  using live_peers_returns by (simp add: tc_OnHttpResponse_def split: option.split)

lemma tc_run_returns: "tc_run es w \<noteq> None"
proof (induction es w rule: tc_run.induct)
  case (2 e es w)
  then show ?case
    using tc_OnHttpResponse_returns by (fastforce split: http_event.split sum.split prod.split)
qed simp

text \<open>
  C37. Every read of the viewer returns, whatever the tracker sends: the decoder and the loop
  over the list of peers end.
\<close>

theorem tc_readcb_returns: "\<exists>r. tc_conn_readcb data w = Some r"
  using tc_run_returns by (simp add: tc_conn_readcb_def case_prod_beta flip: not_None_eq)

end
