(* ===== verification/Rendezvous.thy ===== *)
theory Rendezvous
  imports Tracker_Client_Server Tracker_Client_Viewer
begin

text \<open>
  The tracker between a server and a viewer.  Each program writes what its send event takes
  from its queue, the proxy in front of the tracker adds the address of the writer, and the
  tracker's answers go to the two bufferevents.
\<close>

section \<open>Requests at the tracker\<close>

definition tk_idle :: "tracker \<Rightarrow> nat \<Rightarrow> nat \<Rightarrow> http_conn \<Rightarrow> bool" where
  "tk_idle w bev q c \<longleftrightarrow> map_find bev (tk_clients w) = Some q \<and> tk_heap w q = Some c \<and> hc_http c = hc_Clear
     \<and> hc_commands c = InitHttpRequestCommandMap \<and> 0 < hc_refs c \<and> hc_bufferev c = Some bev"

definition at_address :: "peer_info \<Rightarrow> http_conn \<Rightarrow> http_conn" where
  "at_address peer c = c\<lparr>hc_ip := fst peer, hc_port := snd peer\<rparr>"

lemma at_address_sel [simp]:
  "hc_http (at_address p c) = hc_http c" "hc_commands (at_address p c) = hc_commands c"
  "hc_refs (at_address p c) = hc_refs c" "hc_bufferev (at_address p c) = hc_bufferev c"
  "hc_ip (at_address p c) = fst p" "hc_port (at_address p c) = snd p"
  by (simp_all add: at_address_def)

lemma set_forwarded_address: "set_forwarded (forwarded peer @ hs) c = at_address peer c"
  by (simp add: set_forwarded_def forwarded_found at_address_def)

definition command_item :: "byte \<Rightarrow> http_item" where
  "command_item x = \<lparr>it_path = str ''/p'', it_body = str ''c='' @ [x], it_headers = []\<rparr>"

lemma good_command_item: "header_item (str ''User-Agent'', ua) \<Longrightarrow> good_item ua (command_item x)"
  by (simp add: good_item_def command_item_def)

lemma tk_command:
  assumes "tk_idle w bev q c" and "tk_peers w = Some (refs, m)"
    and "header_item (str ''User-Agent'', ua)" and "good_ip (fst peer)" and "CHAR_IS_UNRESERVED x"
    and "(if x = 115 then OnPeerOnline now (Some bev) (fst peer) (snd peer) m
     else if x = 112 then OnPeerPing (Some bev) (fst peer) (snd peer) m
     else if x = 103 then OnPeerGetLive (Some bev) m
     else if x = 101 then OnPeerOffline (Some bev) (fst peer) (snd peer) m
     else Inr (False, m, [])) = Inr (True, m', outs)"
  shows "tk_readcb now bev (rq_text (item_request peer ua (command_item x))) w
    = Inr (w\<lparr>tk_heap := (tk_heap w)(q \<mapsto> at_address peer c), tk_peers := Some (refs, m')\<rparr>, outs)"
proof -
  let ?r = "item_request peer ua (command_item x)"
  note good = good_command_item [OF assms(3), of x]
  note ok = item_request_ok [OF good assms(4)]
  have sel: "rq_path ?r = str ''/p''" "rq_body ?r = str ''c='' @ [x]"
    by (simp_all add: item_request_def command_item_def)
  have addr: "set_forwarded (rq_headers ?r) c = at_address peer c"
    unfolding ok(2) by (rule set_forwarded_address)
  have "pt_Execute now ((at_address peer c)\<lparr>hc_refs := hc_refs c + 1\<rparr>) (rq_headers ?r) (rq_body ?r) m
    = (if x = 115 then OnPeerOnline now (Some bev) (fst peer) (snd peer) m
       else if x = 112 then OnPeerPing (Some bev) (fst peer) (snd peer) m
       else if x = 103 then OnPeerGetLive (Some bev) m
       else if x = 101 then OnPeerOffline (Some bev) (fst peer) (snd peer) m
       else Inr (False, m, []))"
    unfolding sel
    using pt_Execute_command [of "rq_headers ?r" "fst peer" "show_nat (unat (snd peer))" x now
        "(at_address peer c)\<lparr>hc_refs := hc_refs c + 1\<rparr>" m]
      assms(1,5) good_ip_facts(1) [OF assms(4)]
    by (simp add: ok(2) forwarded_found tk_idle_def del: str_simps)
  then have "pt_Execute now ((at_address peer c)\<lparr>hc_refs := hc_refs c + 1\<rparr>) (rq_headers ?r) (rq_body ?r) m = Inr (True, m', outs)"
    using assms(6) by (simp only:)
  then show ?thesis
    using readcb_peer [of bev w q c ?r refs m now m' outs] assms(1,2) ok(1) sel
    by (simp add: tk_idle_def addr)
qed

text \<open>A request to be connected, and the answer to one.\<close>

definition answer_item :: "bool \<Rightarrow> peer_info \<Rightarrow> http_item" where
  "answer_item accepted peer = \<lparr>it_path = str ''/c'', it_body = [], it_headers =
     [(str ''Connect-Peer-Result'', str ''result='' @ (if accepted then str ''0'' else str ''-1'') @ str ''&peer='' @ peer_text peer)]\<rparr>"

lemma good_connect_item:
  assumes "header_item (str ''User-Agent'', ua)" and "good_ip (fst peer)"
  shows "good_item ua (connect_item peer)"
proof -
  have "own_key (str ''Connect-Peer'')" "plain (str ''Connect-Peer'')" "COLON \<notin> set (str ''Connect-Peer'')"
    by code_simp+
  then show ?thesis
    using assms(1) peer_text_facts [OF assms(2)]
    by (simp add: good_item_def connect_item_def header_item_def plain_def)
qed

lemma good_answer_item:
  assumes "header_item (str ''User-Agent'', ua)" and "good_ip (fst peer)"
  shows "good_item ua (answer_item accepted peer)"
proof -
  have "own_key (str ''Connect-Peer-Result'')" "plain (str ''Connect-Peer-Result'')" "COLON \<notin> set (str ''Connect-Peer-Result'')"
    by code_simp+
  then show ?thesis
    using assms(1) peer_text_facts [OF assms(2)]
    by (cases accepted) (simp_all add: good_item_def answer_item_def header_item_def plain_def)
qed

text \<open>The tracker's answers to the two.\<close>

definition connect_answer :: "peer_info \<Rightarrow> byte list" where
  "connect_answer peer =
     response_text (header_lines_of ((str ''Connect-Peer'', peer_text peer) # text_plain_headers 0)) []"

definition result_headers :: "byte list \<Rightarrow> peer_info \<Rightarrow> evkeyvalq" where
  "result_headers answer peer =
     [(str ''Connect-Peer-Result'', str ''result='' @ answer @ str ''&peer='' @ peer_text peer),
      (str ''Content-Type'', HTTP_CONTENT_TYPE_TEXT_PLAIN)]"

definition result_answer :: "byte list \<Rightarrow> peer_info \<Rightarrow> byte list" where
  "result_answer answer peer =
     (let b = body_200 (atoi_c answer) [] in
      response_text (colon_lines_of (result_headers answer peer) @ header_lines_of [(str ''Content-Length'', show_nat (length b))]) b)"

lemma set_forwarded_request:
  "good_item ua it \<Longrightarrow> good_ip (fst peer) \<Longrightarrow> set_forwarded (rq_headers (item_request peer ua it)) c = at_address peer c"
  by (simp add: item_request_ok(2) set_forwarded_address)

lemma tk_connect:
  assumes "tk_idle w bev q c" and "header_item (str ''User-Agent'', ua)" and "good_ip (fst src)" and "good_ip (fst dst)"
    and "find_client (tk_clients w) ((tk_heap w)(q \<mapsto> (at_address src c)\<lparr>hc_refs := hc_refs c + 1\<rparr>)) dst = Some (q', d)"
    and "hc_bufferev d = Some bev'"
  shows "tk_readcb now bev (rq_text (item_request src ua (connect_item dst))) w
    = Inr (w\<lparr>tk_heap := (tk_heap w)(q \<mapsto> at_address src c)\<rparr>, [(bev', connect_answer src)])"
proof -
  let ?r = "item_request src ua (connect_item dst)"
  note good = good_connect_item [OF assms(2,4)]
  note ok = item_request_ok [OF good assms(3)]
  have path: "rq_path ?r = str ''/c''" by (simp add: item_request_def connect_item_def)
  have headers: "rq_headers ?r = forwarded src @ (str ''Connect-Peer'', str ''d_peer='' @ peer_text dst)
      # default_headers ua @ [(str ''Content-Length'', show_nat 0)]"
    unfolding ok(2) good_item_sent(1) [OF good] by (simp add: connect_item_def)
  have "differs (str ''Connect-Peer'') (str ''Connect-Peer-Result'')" "\<not> differs (str ''Connect-Peer'') (str ''Connect-Peer'')"
    by code_simp+
  moreover have "evhttp_find_header (default_headers ua @ [(str ''Content-Length'', show_nat 0)]) (str ''Connect-Peer-Result'') = None"
    unfolding find_differs using default_keys(9) by (simp add: default_headers_def del: str_simps)
  ultimately have found: "evhttp_find_header (rq_headers ?r) (str ''Connect-Peer-Result'') = None"
    "evhttp_find_header (rq_headers ?r) (str ''Connect-Peer'') = Some (str ''d_peer='' @ peer_text dst)"
    unfolding headers by (simp_all add: evhttp_find_header_append forwarded_not_connect differs_def del: str_simps)
  note addr = set_forwarded_request [OF good assms(3), of c]
  have zero: "show_nat 0 = str ''0''" by code_simp
  show ?thesis
    using connect_peer_read [of bev w q c ?r dst now] assms(1,4,5,6) ok(1) path found
    by (simp add: tk_idle_def addr at_request_def Let_def hc_Send_bufferev connect_answer_def response_text_def OK_line_def
        header_lines_of_def text_plain_headers_def zero HTTP_CONTENT_TYPE_TEXT_PLAIN_def)
qed

lemma query_params2:
  assumes "query_ok a" "query_ok b" and "38 \<notin> set a" "37 \<notin> set a" "43 \<notin> set a" "nul_free a"
    and "37 \<notin> set b" "43 \<notin> set b" "nul_free b" "38 \<notin> set b"
  shows "evhttp_parse_query (47 # 63 # str ''result'' @ 61 # a @ 38 # str ''peer'' @ 61 # b)
    = (0, [(str ''result'', a), (str ''peer'', b)])"
proof -
  let ?kvs = "[(str ''result'', a), (str ''peer'', b)]"
  have "list_all pair_ok ?kvs" using assms by (simp add: pair_ok_def)
  moreover have "query_ok (str ''result'')" "query_ok (str ''peer'')" by code_simp+
  then have "query_ok (query_text ?kvs)" using assms by (intro query_ok_text) simp
  ultimately show ?thesis
    using evhttp_parse_query_pairs [of ?kvs] assms by (simp add: decode_no_percent)
qed

lemma answer_params:
  assumes "good_ip (fst peer)" and "answer \<in> {str ''0'', str ''-1''}"
  shows "snd (evhttp_parse_query (str ''/?'' @ str ''result='' @ answer @ str ''&peer='' @ peer_text peer))
    = [(str ''result'', answer), (str ''peer'', peer_text peer)]"
proof -
  have "query_ok (str ''0'')" "query_ok (str ''-1'')" by code_simp+
  then have "evhttp_parse_query (47 # 63 # str ''result'' @ 61 # answer @ 38 # str ''peer'' @ 61 # peer_text peer)
      = (0, [(str ''result'', answer), (str ''peer'', peer_text peer)])"
    using assms(2) peer_text_facts [OF assms(1)] by (intro query_params2) auto
  then show ?thesis by simp
qed

lemma param_keys:
  "\<not> differs (str ''result'') (str ''result'')" "\<not> differs (str ''peer'') (str ''peer'')"
  "differs (str ''result'') (str ''peer'')" "\<not> differs (str ''Connect-Peer-Result'') (str ''Connect-Peer-Result'')"
  "differs (str ''Connect-Peer-Result'') (str ''Content-Type'')" "plain (str ''Connect-Peer-Result'')"
  by code_simp+

lemma dig_Send200_result:
  assumes "good_ip (fst peer)" and "answer \<in> {str ''0'', str ''-1''}"
  shows "dig_Send200 (Some bev) (atoi_c answer)
      (snd (evhttp_add_header [] (str ''Connect-Peer-Result'') (str ''result='' @ answer @ str ''&peer='' @ peer_text peer))) []
    = Inr [(bev, result_answer answer peer)]"
proof -
  have p: "plain (str ''result='' @ answer @ str ''&peer='' @ peer_text peer)"
    using assms(2) peer_text_facts [OF assms(1)] by (auto simp: plain_def)
  have cons: "header_lines_of [(str ''Content-Length'', v)] = [str ''Content-Length: '' @ v]" for v
    by (simp add: header_lines_of_def)
  show ?thesis
    using p param_keys default_keys
    by (simp add: dig_Send200_def result_answer_def evhttp_add_header_plain copy_headers_def default_header_plain
        differs_def Let_def response_text_def OK_line_def cons header_text_colon line_block_append result_headers_def del: str_simps)
qed

lemma tk_answer:
  assumes "tk_idle w bev q c" and "header_item (str ''User-Agent'', ua)" and "good_ip (fst src)" and "good_ip (fst dst)"
    and "find_client (tk_clients w) ((tk_heap w)(q \<mapsto> (at_address src c)\<lparr>hc_refs := hc_refs c + 1\<rparr>)) dst = Some (q', d)"
    and "q' \<noteq> q" and "tk_heap w q' = Some d" and "hc_bufferev d = Some bev'"
  shows "tk_readcb now bev (rq_text (item_request src ua (answer_item accepted dst))) w
    = Inr (w\<lparr>tk_heap := (tk_heap w)(q' \<mapsto> d\<lparr>hc_refs := hc_refs d + 1\<rparr>, q \<mapsto> at_address src c)\<rparr>,
        [(bev', result_answer (if accepted then str ''0'' else str ''-1'') src)])"
proof -
  let ?r = "item_request src ua (answer_item accepted dst)"
  let ?a = "if accepted then str ''0'' else str ''-1''"
  let ?w = "at_request q c ?r w"
  let ?w' = "?w\<lparr>tk_heap := (tk_heap ?w)(q' \<mapsto> d\<lparr>hc_refs := hc_refs d + 1\<rparr>)\<rparr>"
  note good = good_answer_item [OF assms(2,4), of accepted]
  note ok = item_request_ok [OF good assms(3)]
  have path: "rq_path ?r = str ''/c''" by (simp add: item_request_def answer_item_def)
  have headers: "rq_headers ?r = forwarded src @ (str ''Connect-Peer-Result'', str ''result='' @ ?a @ str ''&peer='' @ peer_text dst)
      # default_headers ua @ [(str ''Content-Length'', show_nat 0)]"
    unfolding ok(2) good_item_sent(1) [OF good] by (simp add: answer_item_def)
  have found: "evhttp_find_header (rq_headers ?r) (str ''Connect-Peer-Result'')
      = Some (str ''result='' @ ?a @ str ''&peer='' @ peer_text dst)"
    using param_keys(4) unfolding headers by (simp add: evhttp_find_header_append forwarded_not_connect differs_def del: str_simps)
  note addr = set_forwarded_request [OF good assms(3), of c]
  have a: "?a \<in> {str ''0'', str ''-1''}" by simp
  have heap: "tk_heap ?w = (tk_heap w)(q \<mapsto> (at_address src c)\<lparr>hc_refs := hc_refs c + 1\<rparr>)" "tk_clients ?w = tk_clients w"
    by (simp_all add: at_request_def addr)
  have add: "hc_AddRef q' ?w = Inr ?w'"
    using assms(6,7) by (simp add: hc_AddRef_def hc_update_def hc_store_def heap)
  have "OnRequestPeerConnectPeerResult ((at_address src c)\<lparr>hc_refs := hc_refs c + 1\<rparr>) (rq_headers ?r) ?w
    = Inr (True, ?w', [(bev', result_answer ?a src)])"
    using assms(5) good_ip_facts(2) [OF assms(4)] param_keys(1-3) dig_Send200_result [OF assms(3) a, of bev']
    unfolding OnRequestPeerConnectPeerResult_def found option.case answer_params [OF assms(4) a] Let_def
    by (simp add: differs_def heap add assms(8) del: str_simps)
  then have "OnHttpRequest now q (rq_path ?r) (rq_headers ?r) (rq_body ?r) ?w = Inr (?w', [(bev', result_answer ?a src)])"
    using assms(1) unfolding OnHttpRequest_def
    by (simp add: heap path tk_idle_def cmd_Execute_def dig_Execute_def found del: str_simps)
  moreover have "hc_Release q ?w' = Inr (w\<lparr>tk_heap := (tk_heap w)(q' \<mapsto> d\<lparr>hc_refs := hc_refs d + 1\<rparr>, q \<mapsto> at_address src c)\<rparr>)"
  proof -
    have same: "(at_address src c)\<lparr>hc_refs := hc_refs c\<rparr> = at_address src c" by (cases c) (simp add: at_address_def)
    have "tk_heap ?w' q = Some ((at_address src c)\<lparr>hc_refs := hc_refs c + 1\<rparr>)" using assms(6) by (simp add: heap)
    then have "hc_Release q ?w' = Inr (?w'\<lparr>tk_heap := (tk_heap ?w')(q \<mapsto> at_address src c)\<rparr>)"
      using assms(1) by (simp add: hc_Release_def hc_update_def hc_store_def tk_idle_def same del: fun_upd_apply)
    also have "?w'\<lparr>tk_heap := (tk_heap ?w')(q \<mapsto> at_address src c)\<rparr>
        = w\<lparr>tk_heap := (tk_heap w)(q' \<mapsto> d\<lparr>hc_refs := hc_refs d + 1\<rparr>, q \<mapsto> at_address src c)\<rparr>"
      using assms(6) by (cases w) (auto simp: at_request_def addr fun_eq_iff)
    finally show ?thesis .
  qed
  ultimately show ?thesis
    using readcb_request [of bev w q c ?r now] assms(1) ok(1) by (simp add: tk_idle_def)
qed

section \<open>Reads of the two programs\<close>

lemma ts_same_http: "ts_http w = resp_Clear \<Longrightarrow> w\<lparr>ts_http := resp_Clear\<rparr> = w"
  by (cases w) simp

lemma ts_readcb_message:
  assumes "ts_http w = resp_Clear" and "text \<noteq> []"
    and "\<exists>c. resp_DecodeBuffer (hb_append text resp_Clear) = (resp_Clear, [Header_block hs, Message (Inr c) hs b])"
    and "ts_OnHttpResponse accepts local_port hs b w = Inr (w', outs)" and "ts_http w' = resp_Clear"
  shows "ts_conn_readcb accepts local_port text w = Inr (w', outs)"
  using assms by (auto simp: ts_conn_readcb_def ts_same_http)

text \<open>The answer to a request to go on line.\<close>

lemma ok_answer:
  "\<exists>c. resp_DecodeBuffer (hb_append (ok_200 []) resp_Clear)
      = (resp_Clear, [Header_block (text_plain_headers 8), Message (Inr c) (text_plain_headers 8) (str ''result=0'')])"
proof -
  have b: "body_200 0 [] = str ''result=0''" by code_simp
  have len: "length (str ''result=0'') = 8" by simp
  show ?thesis
    using tracker_response [of "[]" "[]" "str ''result=0''"] unfolding ok_200_response b len by (simp del: str_simps)
qed

lemma ts_reads_answer_ok:
  assumes "ts_http w = resp_Clear" and "ts_http w' = resp_Clear"
    and "(case ts_state w of
        P2PTS_ONLINE \<Rightarrow> ts_OnServerConnectSuccess local_port w
      | P2PTS_OFFLINE \<Rightarrow> Inr (ts_OnServerOfflineFinish True w, [])
      | _ \<Rightarrow> Inr (w, [])) = Inr (w', outs)"
  shows "ts_conn_readcb accepts local_port (ok_200 []) w = Inr (w', outs)"
proof -
  have "list_all (\<lambda>k. differs k (str ''Connect-Peer'')) [str ''Content-Type'', str ''Content-Length'']" by code_simp
  then have "evhttp_find_header (text_plain_headers 8) (str ''Connect-Peer'') = None"
    by (subst find_differs) (simp add: text_plain_headers_def del: str_simps)
  moreover have "find_str (str ''result=0'') (str ''result=0'') = Some 0" by code_simp
  ultimately have "ts_OnHttpResponse accepts local_port (text_plain_headers 8) (str ''result=0'') w = Inr (w', outs)"
    using assms(3) by (cases "ts_state w") (simp_all add: ts_OnHttpResponse_def del: str_simps)
  then show ?thesis
    using assms(1,2) ok_answer ok_200_response [of "[]"] by (intro ts_readcb_message) auto
qed

lemma ts_reads_ok:
  assumes "ts_http w = resp_Clear" and "ts_bufferev w" and "ts_state w = P2PTS_ONLINE"
  shows "ts_conn_readcb accepts local_port (ok_200 []) w = Inr (w, [Ts_connect_success local_port])"
  using assms by (intro ts_reads_answer_ok) (simp_all add: ts_OnServerConnectSuccess_def)

text \<open>The request of a viewer, relayed by the tracker.\<close>

lemma ts_OnPeerConnecting_good:
  assumes "good_ip (fst peer)" and "ts_event w"
  shows "ts_OnPeerConnecting accepts peer w
    = Inr (w\<lparr>ts_queue := ts_queue w @ [answer_item (accepts peer) peer]\<rparr>, [Ts_peer_connecting peer])"
proof -
  let ?v = "str ''result='' @ (if accepts peer then str ''0'' else str ''-1'') @ str ''&peer='' @ peer_text peer"
  have "plain ?v" using peer_text_facts [OF assms(1)] by (simp add: plain_def)
  then have "snd (evhttp_add_header [] (str ''Connect-Peer-Result'') (c_str ?v)) = [(str ''Connect-Peer-Result'', ?v)]"
    using param_keys(6) by (subst c_str_id) (simp_all add: plain_def [of ?v] evhttp_add_header_plain del: str_simps)
  then show ?thesis
    using assms(2) unfolding ts_OnPeerConnecting_def Let_def ts_push_def answer_item_def
    by (simp del: str_simps)
qed

lemma ts_reads_connect:
  assumes "ts_http w = resp_Clear" and "ts_event w" and "good_ip (fst peer)"
  shows "ts_conn_readcb accepts local_port (connect_answer peer) w
    = Inr (w\<lparr>ts_queue := ts_queue w @ [answer_item (accepts peer) peer]\<rparr>, [Ts_peer_connecting peer])"
proof -
  let ?hs = "(str ''Connect-Peer'', peer_text peer) # text_plain_headers 0"
  have key: "\<not> differs (str ''Connect-Peer'') (str ''Connect-Peer'')" "plain (str ''Connect-Peer'')"
      "COLON \<notin> set (str ''Connect-Peer'')" "differs (str ''Connect-Peer'') (str ''Content-Length'')"
    by code_simp+
  have "peer_text peer \<noteq> []" by (simp add: peer_text_def)
  then have item: "header_item (str ''Connect-Peer'', peer_text peer)"
    using key peer_text_facts [OF assms(3)] hd_not [of 32 "peer_text peer"] by (simp add: header_item_def plain_def)
  let ?h = "[(str ''Connect-Peer'', peer_text peer)]"
  have split: "header_lines_of ?hs = header_lines_of ?h @ header_lines_of (text_plain_headers 0)"
    using header_lines_of_append [of ?h "text_plain_headers 0"] by (simp only: append.simps)
  have "\<exists>c. resp_DecodeBuffer (hb_append (connect_answer peer) resp_Clear) = (resp_Clear, [Header_block ?hs, Message (Inr c) ?hs []])"
    unfolding connect_answer_def split
    using tracker_response [of "header_lines_of ?h" ?h "[]"] header_line_items [of ?h] DecodeOneHeader_items [of ?h "[]"] item key(4)
    by (simp add: differs_def del: str_simps)
  moreover have "ts_OnHttpResponse accepts local_port ?hs [] w = ts_OnPeerConnecting accepts peer w"
    using key(1) good_ip_facts(2) [OF assms(3)] by (simp add: ts_OnHttpResponse_def differs_def del: str_simps)
  ultimately show ?thesis
    using assms by (intro ts_readcb_message) (auto simp: ts_OnPeerConnecting_good connect_answer_def simp del: str_simps)
qed

text \<open>The answer of the server, relayed by the tracker.\<close>

lemma tc_reads_result:
  assumes "tc_http w = resp_Clear" and "good_ip (fst peer)"
  shows "tc_conn_readcb (result_answer (str ''0'') peer) w
    = Some (Inr (tc_CloseClient w, [Tc_connect_result peer (tc_local_port w), Tc_set_timer]))"
proof -
  let ?h = "result_headers (str ''0'') peer" and ?b = "body_200 0 []"
  let ?hs = "?h @ [(str ''Content-Length'', show_nat (length ?b))]"
  let ?v = "str ''result='' @ str ''0'' @ str ''&peer='' @ peer_text peer"
  have atoi: "atoi_c (str ''0'') = 0" by code_simp
  have "length ?b < 100" by code_simp
  then have b: "length ?b < 2 ^ 31" by simp
  have key: "COLON \<notin> set (str ''Connect-Peer-Result'')" "header_item (str ''Content-Type'', HTTP_CONTENT_TYPE_TEXT_PLAIN)"
      "differs (str ''Connect-Peer-Result'') (str ''Content-Length'')" "differs (str ''Content-Type'') (str ''Content-Length'')"
      "COLON \<notin> set (str ''Content-Length'')" "plain (str ''Content-Length'')"
    by code_simp+
  have "plain ?v" "?v \<noteq> []" "hd ?v \<noteq> 32" "str ''Connect-Peer-Result'' \<noteq> []"
    using peer_text_facts [OF assms(2)] by (simp_all add: plain_def)
  then have "header_item (str ''Connect-Peer-Result'', ?v)"
    using key(1) param_keys(6) unfolding header_item_def fst_conv snd_conv by blast
  then have items: "list_all header_item ?h"
    using key(2) by (simp add: result_headers_def del: str_simps)
  have cl: "list_all header_item [(str ''Content-Length'', show_nat (length ?b))]"
    using key(5,6) by (simp add: header_item_def)
  have lines: "fold DecodeOneHeader (colon_lines_of ?h @ header_lines_of [(str ''Content-Length'', show_nat (length ?b))]) [] = ?hs"
    using DecodeOneHeader_colon [OF items, of "[]"] DecodeOneHeader_items [OF cl, of ?h] by simp
  have none: "evhttp_find_header ?h (str ''Content-Length'') = None"
    using key(3,4) by (simp add: find_differs differs_def result_headers_def del: str_simps)
  have "\<exists>c. resp_DecodeBuffer (hb_append (result_answer (str ''0'') peer) resp_Clear) = (resp_Clear, [Header_block ?hs, Message (Inr c) ?hs ?b])"
    using resp_message [of "colon_lines_of ?h @ header_lines_of [(str ''Content-Length'', show_nat (length ?b))]" ?b]
      header_line_colon [OF items] header_line_items [OF cl] content_length_last [OF none b]
    unfolding lines result_answer_def Let_def atoi by (simp add: header_lines_of_def del: str_simps)
  moreover have "tc_OnHttpResponse ?hs ?b w = Some (rc_OnConnectPeerResult peer (tc_local_port w) w)"
  proof -
    have "evhttp_find_header ?hs (str ''Connect-Peer-Result'') = Some ?v"
      using param_keys(4) by (simp add: result_headers_def differs_def del: str_simps)
    moreover have "tc_OnConnectPeerResult ?v w = rc_OnConnectPeerResult peer (tc_local_port w) w"
      using param_keys(1-3) good_ip_facts(2) [OF assms(2)] answer_params [OF assms(2), of "str ''0''"]
      unfolding tc_OnConnectPeerResult_def Let_def by (simp add: differs_def del: str_simps)
    ultimately show ?thesis by (simp add: tc_OnHttpResponse_def del: str_simps)
  qed
  ultimately show ?thesis
    using tc_readcb_message [OF assms(1), of "result_answer (str ''0'') peer" ?hs ?b "rc_OnConnectPeerResult peer (tc_local_port w) w"]
    by (simp add: rc_OnConnectPeerResult_def result_answer_def Let_def)
qed

section \<open>The session\<close>

record rendezvous =
  rv_srv :: track_srv
  rv_cli :: track_cli
  rv_trk :: tracker
  rv_srv_calls :: "ts_out list"
  rv_cli_calls :: "tc_out list"

text \<open>What surrounds the three: the time, the outcomes on the server, the two bufferevents and the proxies.\<close>

record surroundings =
  sr_now :: nat
  sr_accepts :: "peer_info \<Rightarrow> bool"
  sr_port :: u16
  sr_bev_srv :: nat
  sr_bev_cli :: nat
  sr_proxy_srv :: "byte list \<Rightarrow> byte list"
  sr_proxy_cli :: "byte list \<Rightarrow> byte list"

type_synonym rv_result = "(sb_error + rendezvous) option"

definition rv_bind :: "(sb_error + 'a) option \<Rightarrow> ('a \<Rightarrow> (sb_error + 'b) option) \<Rightarrow> (sb_error + 'b) option" where
  "rv_bind r f = (case r of None \<Rightarrow> None | Some (Inl e) \<Rightarrow> Some (Inl e) | Some (Inr x) \<Rightarrow> f x)"

lemma rv_bind_Some [simp]: "rv_bind (Some (Inr x)) f = f x" "rv_bind (Some (Inl e)) f = Some (Inl e)"
  by (simp_all add: rv_bind_def)

text \<open>The tracker's answers are read by the programs at the other end.\<close>

fun rv_deliver :: "surroundings \<Rightarrow> (nat \<times> byte list) list \<Rightarrow> rendezvous \<Rightarrow> rv_result" where
  "rv_deliver env [] r = Some (Inr r)"
| "rv_deliver env ((bev, data) # answers) r =
     (if bev = sr_bev_srv env then
        rv_bind (Some (ts_conn_readcb (sr_accepts env) (sr_port env) data (rv_srv r))) (\<lambda>(s, calls).
          rv_deliver env answers (r\<lparr>rv_srv := s, rv_srv_calls := rv_srv_calls r @ calls\<rparr>))
      else if bev = sr_bev_cli env then
        rv_bind (tc_conn_readcb data (rv_cli r)) (\<lambda>(s, calls).
          rv_deliver env answers (r\<lparr>rv_cli := s, rv_cli_calls := rv_cli_calls r @ calls\<rparr>))
      else rv_deliver env answers r)"

fun rv_requests :: "surroundings \<Rightarrow> nat \<Rightarrow> byte list list \<Rightarrow> rendezvous \<Rightarrow> rv_result" where
  "rv_requests env bev [] r = Some (Inr r)"
| "rv_requests env bev (data # datas) r =
     rv_bind (Some (tk_readcb (sr_now env) bev data (rv_trk r))) (\<lambda>(w, answers).
     rv_bind (rv_deliver env answers (r\<lparr>rv_trk := w\<rparr>)) (rv_requests env bev datas))"

text \<open>A turn of a program: its send event runs, and what it writes goes through its proxy.\<close>

definition srv_turn :: "surroundings \<Rightarrow> rendezvous \<Rightarrow> rv_result" where
  "srv_turn env r =
     (let (s, outs) = ts_OnAsynSendHttp (rv_srv r) in
      rv_requests env (sr_bev_srv env)
        (concat (map (\<lambda>x. case x of Ts_write data \<Rightarrow> [sr_proxy_srv env data] | _ \<Rightarrow> []) outs)) (r\<lparr>rv_srv := s\<rparr>))"

definition cli_turn :: "surroundings \<Rightarrow> rendezvous \<Rightarrow> rv_result" where
  "cli_turn env r =
     (let (s, outs) = tc_OnAsynSendHttp (rv_cli r) in
      rv_requests env (sr_bev_cli env)
        (concat (map (\<lambda>x. case x of Tc_write data \<Rightarrow> [sr_proxy_cli env data] | _ \<Rightarrow> []) outs)) (r\<lparr>rv_cli := s\<rparr>))"

lemma srv_turn_one:
  assumes "ts_bufferev (rv_srv r)" and "ts_queue (rv_srv r) = [it]"
    and "tk_readcb (sr_now env) (sr_bev_srv env) (sr_proxy_srv env (item_text ts_user_agent it)) (rv_trk r) = Inr (w, answers)"
  shows "srv_turn env r = rv_deliver env answers (r\<lparr>rv_srv := (rv_srv r)\<lparr>ts_queue := []\<rparr>, rv_trk := w\<rparr>)"
  using assms by (simp add: srv_turn_def ts_OnAsynSendHttp_def rv_bind_def split: option.split sum.split)

lemma cli_turn_one:
  assumes "tc_bufferev (rv_cli r)" and "tc_queue (rv_cli r) = [it]"
    and "tk_readcb (sr_now env) (sr_bev_cli env) (sr_proxy_cli env (item_text tc_user_agent it)) (rv_trk r) = Inr (w, answers)"
  shows "cli_turn env r = rv_deliver env answers (r\<lparr>rv_cli := (rv_cli r)\<lparr>tc_queue := []\<rparr>, rv_trk := w\<rparr>)"
  using assms by (simp add: cli_turn_def tc_OnAsynSendHttp_def rv_bind_def split: option.split sum.split)

lemma user_agents: "header_item (str ''User-Agent'', ts_user_agent)" "header_item (str ''User-Agent'', tc_user_agent)"
  by code_simp+

text \<open>The four turns.\<close>

lemma srv_online_turn:
  assumes "tk_idle (rv_trk r) (sr_bev_srv env) q c" and "tk_peers (rv_trk r) = Some (refs, m)"
    and "forwards (sr_proxy_srv env) s" and "good_ip (fst s)"
    and "ts_bufferev (rv_srv r)" and "ts_http (rv_srv r) = resp_Clear" and "ts_state (rv_srv r) = P2PTS_ONLINE"
    and "ts_queue (rv_srv r) = [command_item 115]"
  shows "srv_turn env r = Some (Inr (r\<lparr>rv_srv := (rv_srv r)\<lparr>ts_queue := []\<rparr>,
    rv_trk := (rv_trk r)\<lparr>tk_heap := (tk_heap (rv_trk r))(q \<mapsto> at_address s c),
      tk_peers := Some (refs, peer_online (sr_now env) s m)\<rparr>,
    rv_srv_calls := rv_srv_calls r @ [Ts_connect_success (sr_port env)]\<rparr>))"
proof -
  note good = good_command_item [OF user_agents(1), of 115]
  have "CHAR_IS_UNRESERVED 115" by code_simp
  note read = tk_command [OF assms(1,2) user_agents(1) assms(4) this, of "sr_now env" "peer_online (sr_now env) s m"
      "[(sr_bev_srv env, ok_200 [])]"]
  have proxied: "sr_proxy_srv env (item_text ts_user_agent (command_item 115)) = rq_text (item_request s ts_user_agent (command_item 115))"
    by (rule item_request_ok(3) [OF good assms(4,3)])
  have "srv_turn env r = rv_deliver env [(sr_bev_srv env, ok_200 [])] (r\<lparr>rv_srv := (rv_srv r)\<lparr>ts_queue := []\<rparr>,
    rv_trk := (rv_trk r)\<lparr>tk_heap := (tk_heap (rv_trk r))(q \<mapsto> at_address s c),
      tk_peers := Some (refs, peer_online (sr_now env) s m)\<rparr>\<rparr>)"
    using read assms(5,8)
    by (intro srv_turn_one [where it = "command_item 115"]) (simp_all add: proxied OnPeerOnline_def pt_Send200_ok)
  also have "\<dots> = Some (Inr (r\<lparr>rv_srv := (rv_srv r)\<lparr>ts_queue := []\<rparr>,
    rv_trk := (rv_trk r)\<lparr>tk_heap := (tk_heap (rv_trk r))(q \<mapsto> at_address s c),
      tk_peers := Some (refs, peer_online (sr_now env) s m)\<rparr>,
    rv_srv_calls := rv_srv_calls r @ [Ts_connect_success (sr_port env)]\<rparr>))"
    using ts_reads_ok [of "(rv_srv r)\<lparr>ts_queue := []\<rparr>" "sr_accepts env" "sr_port env"] assms(5-7) by (cases r) simp
  finally show ?thesis .
qed

lemma cli_list_turn:
  assumes "tk_idle (rv_trk r) (sr_bev_cli env) q c" and "tk_peers (rv_trk r) = Some (refs, m)" and "GetLivePeer m = [s]"
    and "forwards (sr_proxy_cli env) v" and "good_ip (fst v)" and "good_ip (fst s)" and "length (peer_text s) \<le> 92"
    and "tc_bufferev (rv_cli r)" and "tc_event (rv_cli r)" and "tc_http (rv_cli r) = resp_Clear"
    and "tc_queue (rv_cli r) = [command_item 103]" and "sr_bev_srv env \<noteq> sr_bev_cli env"
  shows "cli_turn env r = Some (Inr (r\<lparr>rv_cli := (rv_cli r)\<lparr>tc_queue := [connect_item s]\<rparr>,
    rv_trk := (rv_trk r)\<lparr>tk_heap := (tk_heap (rv_trk r))(q \<mapsto> at_address v c), tk_peers := Some (refs, m)\<rparr>,
    rv_cli_calls := rv_cli_calls r @ [Tc_live_list [s]]\<rparr>))"
proof -
  note good = good_command_item [OF user_agents(2), of 103]
  let ?a = "ok_200 (str ''peer='' @ peer_text s @ [44])"
  have live: "OnPeerGetLive (Some (sr_bev_cli env)) m = Inr (True, m, [(sr_bev_cli env, ?a)])"
    using assms(3,7) by (simp add: OnPeerGetLive_def pt_Send200_ok)
  have "CHAR_IS_UNRESERVED 103" by code_simp
  note read = tk_command [OF assms(1,2) user_agents(2) assms(5) this, of "sr_now env" m "[(sr_bev_cli env, ?a)]"]
  have short: "length ?a < 2 ^ 31"
  proof -
    have len: "length (show_nat n) \<le> 10" if "n < 200" for n
      using that by (induction n rule: less_induct) (simp add: show_nat_def udec.simps)
    have "length (body_200 0 (str ''peer='' @ peer_text s @ [44])) \<le> 110"
      using assms(7) unfolding body_200_peers by simp
    moreover from this have "length (show_nat (length (body_200 0 (str ''peer='' @ peer_text s @ [44])))) \<le> 10"
      by (intro len) simp
    ultimately show ?thesis
      by (simp add: ok_200_def CRLF_def HTTP_CONTENT_TYPE_TEXT_PLAIN_def)
  qed
  have "cli_turn env r = rv_deliver env [(sr_bev_cli env, ?a)] (r\<lparr>rv_cli := (rv_cli r)\<lparr>tc_queue := []\<rparr>,
    rv_trk := (rv_trk r)\<lparr>tk_heap := (tk_heap (rv_trk r))(q \<mapsto> at_address v c), tk_peers := Some (refs, m)\<rparr>\<rparr>)"
    using read live assms(8,11)
    by (intro cli_turn_one [where it = "command_item 103"]) (simp_all add: item_request_ok(3) [OF good assms(5,4)] del: str_simps)
  also have "\<dots> = Some (Inr (r\<lparr>rv_cli := (rv_cli r)\<lparr>tc_queue := [connect_item s]\<rparr>,
    rv_trk := (rv_trk r)\<lparr>tk_heap := (tk_heap (rv_trk r))(q \<mapsto> at_address v c), tk_peers := Some (refs, m)\<rparr>,
    rv_cli_calls := rv_cli_calls r @ [Tc_live_list [s]]\<rparr>))"
    using live_list_read [OF live, of "(rv_cli r)\<lparr>tc_queue := []\<rparr>"] short assms(3,6-12)
    by (cases r) (simp del: str_simps)
  finally show ?thesis .
qed

text \<open>The tables of the tracker with the two connections.\<close>

definition two_clients :: "surroundings \<Rightarrow> nat \<Rightarrow> nat \<Rightarrow> (nat \<times> nat) list" where
  "two_clients env qs qv = [(sr_bev_srv env, qs), (sr_bev_cli env, qv)]"

lemma find_first_client: "h qs = Some c \<Longrightarrow> hc_ip c = fst s \<Longrightarrow> hc_port c = snd s \<Longrightarrow> find_client (two_clients env qs qv) h s = Some (qs, c)"
  by (simp add: two_clients_def)

lemma find_second_client:
  "h qs = Some c \<Longrightarrow> hc_ip c \<noteq> fst v \<Longrightarrow> h qv = Some d \<Longrightarrow> hc_ip d = fst v \<Longrightarrow> hc_port d = snd v \<Longrightarrow>
   find_client (two_clients env qs qv) h v = Some (qv, d)"
  by (simp add: two_clients_def)

lemma cli_connect_turn:
  assumes "tk_idle (rv_trk r) (sr_bev_cli env) qv d" and "tk_clients (rv_trk r) = two_clients env qs qv" and "qs \<noteq> qv"
    and "tk_heap (rv_trk r) qs = Some (at_address s c)" and "hc_bufferev c = Some (sr_bev_srv env)"
    and "forwards (sr_proxy_cli env) v" and "good_ip (fst v)" and "good_ip (fst s)"
    and "tc_bufferev (rv_cli r)" and "tc_queue (rv_cli r) = [connect_item s]"
    and "ts_event (rv_srv r)" and "ts_http (rv_srv r) = resp_Clear"
  shows "cli_turn env r = Some (Inr (r\<lparr>rv_srv := (rv_srv r)\<lparr>ts_queue := ts_queue (rv_srv r) @ [answer_item (sr_accepts env v) v]\<rparr>,
    rv_cli := (rv_cli r)\<lparr>tc_queue := []\<rparr>,
    rv_trk := (rv_trk r)\<lparr>tk_heap := (tk_heap (rv_trk r))(qv \<mapsto> at_address v d)\<rparr>,
    rv_srv_calls := rv_srv_calls r @ [Ts_peer_connecting v]\<rparr>))"
proof -
  note good = good_connect_item [OF user_agents(2) assms(8)]
  have "find_client (tk_clients (rv_trk r)) ((tk_heap (rv_trk r))(qv \<mapsto> (at_address v d)\<lparr>hc_refs := hc_refs d + 1\<rparr>)) s
      = Some (qs, at_address s c)"
    unfolding assms(2) using assms(3,4) by (intro find_first_client) simp_all
  note read = tk_connect [OF assms(1) user_agents(2) assms(7,8) this, of "sr_bev_srv env" "sr_now env"]
  have "cli_turn env r = rv_deliver env [(sr_bev_srv env, connect_answer v)] (r\<lparr>rv_cli := (rv_cli r)\<lparr>tc_queue := []\<rparr>,
    rv_trk := (rv_trk r)\<lparr>tk_heap := (tk_heap (rv_trk r))(qv \<mapsto> at_address v d)\<rparr>\<rparr>)"
    using read assms(5,9,10) by (intro cli_turn_one [where it = "connect_item s"])
    (simp_all add: item_request_ok(3) [OF good assms(7,6)])
  then show ?thesis
    using ts_reads_connect [OF assms(12,11,7), of "sr_accepts env" "sr_port env"] by (cases r) simp
qed

lemma srv_answer_turn:
  assumes "tk_idle (rv_trk r) (sr_bev_srv env) qs c" and "tk_clients (rv_trk r) = two_clients env qs qv" and "qs \<noteq> qv"
    and "tk_heap (rv_trk r) qv = Some (at_address v d)" and "hc_bufferev d = Some (sr_bev_cli env)"
    and "forwards (sr_proxy_srv env) s" and "good_ip (fst s)" and "good_ip (fst v)" and "fst s \<noteq> fst v"
    and "ts_bufferev (rv_srv r)" and "ts_queue (rv_srv r) = [answer_item True v]"
    and "tc_http (rv_cli r) = resp_Clear" and "sr_bev_srv env \<noteq> sr_bev_cli env"
  shows "\<exists>r'. srv_turn env r = Some (Inr r') \<and> rv_cli r' = tc_CloseClient (rv_cli r)
    \<and> rv_srv_calls r' = rv_srv_calls r \<and> tk_peers (rv_trk r') = tk_peers (rv_trk r)
    \<and> rv_cli_calls r' = rv_cli_calls r @ [Tc_connect_result s (tc_local_port (rv_cli r)), Tc_set_timer]"
proof -
  note good = good_answer_item [OF user_agents(1) assms(8), of True]
  have "find_client (tk_clients (rv_trk r)) ((tk_heap (rv_trk r))(qs \<mapsto> (at_address s c)\<lparr>hc_refs := hc_refs c + 1\<rparr>)) v
      = Some (qv, at_address v d)"
    unfolding assms(2) using assms(3,4,9) by (intro find_second_client [where c = "(at_address s c)\<lparr>hc_refs := hc_refs c + 1\<rparr>"]) simp_all
  note read = tk_answer [OF assms(1) user_agents(1) assms(7,8) this _ assms(4), of "sr_bev_cli env" "sr_now env" True]
  then obtain w where w: "tk_readcb (sr_now env) (sr_bev_srv env) (rq_text (item_request s ts_user_agent (answer_item True v))) (rv_trk r)
      = Inr (w, [(sr_bev_cli env, result_answer (str ''0'') s)])" "tk_peers w = tk_peers (rv_trk r)"
    using assms(3,5) by auto
  have "srv_turn env r = rv_deliver env [(sr_bev_cli env, result_answer (str ''0'') s)]
      (r\<lparr>rv_srv := (rv_srv r)\<lparr>ts_queue := []\<rparr>, rv_trk := w\<rparr>)"
    using w(1) assms(10,11) by (intro srv_turn_one [where it = "answer_item True v"])
    (simp_all add: item_request_ok(3) [OF good assms(7,6)])
  then show ?thesis
    using tc_reads_result [OF assms(12,7)] assms(13) w(2) by (cases r) simp
qed

lemma at_address_twice [simp]: "at_address p (at_address q c) = at_address p c"
  by (simp add: at_address_def)

lemma peer_online_empty: "peer_online now s [] = [(fst s, snd s, \<lparr>ps_state = RDPS_ONLINE, ps_online_tm = now, ps_offline_times = 0\<rparr>)]"
  by (simp add: peer_online_def find_peer_def map_find_def set_peer_def PeerState_def)

lemma two_clients_idle:
  assumes "sr_bev_srv env \<noteq> sr_bev_cli env" and "qs \<noteq> qv" and "tk_clients w = two_clients env qs qv"
  shows "tk_idle w (sr_bev_srv env) q c \<longleftrightarrow> q = qs \<and> tk_heap w qs = Some c \<and> hc_http c = hc_Clear
      \<and> hc_commands c = InitHttpRequestCommandMap \<and> 0 < hc_refs c \<and> hc_bufferev c = Some (sr_bev_srv env)"
    "tk_idle w (sr_bev_cli env) q c \<longleftrightarrow> q = qv \<and> tk_heap w qv = Some c \<and> hc_http c = hc_Clear
      \<and> hc_commands c = InitHttpRequestCommandMap \<and> 0 < hc_refs c \<and> hc_bufferev c = Some (sr_bev_cli env)"
  using assms by (auto simp: tk_idle_def two_clients_def map_find_def)

text \<open>A server and a viewer connected to a tracker on which nobody is on line.\<close>

definition rv_start :: "surroundings \<Rightarrow> nat \<Rightarrow> nat \<Rightarrow> peer_info \<Rightarrow> peer_info \<Rightarrow> rendezvous \<Rightarrow> bool" where
  "rv_start env qs qv s v r \<longleftrightarrow>
     forwards (sr_proxy_srv env) s \<and> forwards (sr_proxy_cli env) v \<and> good_ip (fst s) \<and> good_ip (fst v)
     \<and> fst s \<noteq> fst v \<and> length (peer_text s) \<le> 92 \<and> sr_bev_srv env \<noteq> sr_bev_cli env \<and> qs \<noteq> qv
     \<and> tk_clients (rv_trk r) = two_clients env qs qv
     \<and> tk_peers (rv_trk r) \<noteq> None \<and> snd (the (tk_peers (rv_trk r))) = []
     \<and> (\<exists>c. tk_idle (rv_trk r) (sr_bev_srv env) qs c) \<and> (\<exists>d. tk_idle (rv_trk r) (sr_bev_cli env) qv d)
     \<and> ts_bufferev (rv_srv r) \<and> ts_event (rv_srv r) \<and> ts_http (rv_srv r) = resp_Clear \<and> ts_queue (rv_srv r) = []
     \<and> tc_bufferev (rv_cli r) \<and> tc_event (rv_cli r) \<and> tc_http (rv_cli r) = resp_Clear \<and> tc_queue (rv_cli r) = []"

text \<open>The first two turns: the server goes on line, and the viewer reads the list.\<close>

lemma session_list:
  assumes "rv_start env qs qv s v r"
    and "tk_idle (rv_trk r) (sr_bev_srv env) qs c" and "tk_idle (rv_trk r) (sr_bev_cli env) qv d"
    and "ts_SendOnline (rv_srv r) = Inr (ok1, s0)" and "tc_GetLivePeerList (rv_cli r) = (ok2, c0)"
  shows "\<exists>r1 r2 refs m. srv_turn env (r\<lparr>rv_srv := s0, rv_cli := c0\<rparr>) = Some (Inr r1) \<and> cli_turn env r1 = Some (Inr r2)
    \<and> rv_srv r2 = (rv_srv r)\<lparr>ts_state := P2PTS_ONLINE, ts_queue := []\<rparr>
    \<and> rv_cli r2 = (rv_cli r)\<lparr>tc_queue := [connect_item s]\<rparr>
    \<and> rv_trk r2 = (rv_trk r)\<lparr>tk_heap := (tk_heap (rv_trk r))(qs \<mapsto> at_address s c, qv \<mapsto> at_address v d), tk_peers := Some (refs, m)\<rparr>
    \<and> GetLivePeer m = [s]
    \<and> rv_srv_calls r2 = rv_srv_calls r @ [Ts_connect_success (sr_port env)]
    \<and> rv_cli_calls r2 = rv_cli_calls r @ [Tc_live_list [s]]"
proof -
  let ?w = "rv_trk r" and ?ts = "rv_srv r" and ?tc = "rv_cli r" and ?m = "peer_online (sr_now env) s []"
  from assms(1) obtain refs where peers: "tk_peers ?w = Some (refs, [])" by (auto simp: rv_start_def)
  have live: "GetLivePeer ?m = [s]" by (simp add: peer_online_empty)
  from assms(1) have idle: "sr_bev_srv env \<noteq> sr_bev_cli env" "qs \<noteq> qv" "tk_clients ?w = two_clients env qs qv"
    by (simp_all add: rv_start_def)
  note idle = idle idle(2) [symmetric] two_clients_idle [OF idle(1,2)]
  have s0: "s0 = ?ts\<lparr>ts_state := P2PTS_ONLINE, ts_queue := [command_item 115]\<rparr>"
    using assms(1,4) by (simp add: ts_SendOnline_def ts_push_def command_item_def Let_def rv_start_def)
  have c0: "c0 = ?tc\<lparr>tc_queue := [command_item 103]\<rparr>"
    using assms(1,5) by (simp add: tc_GetLivePeerList_def command_item_def rv_start_def)
  have "\<exists>r1. srv_turn env (r\<lparr>rv_srv := s0, rv_cli := c0\<rparr>) = Some (Inr r1)
      \<and> rv_srv r1 = ?ts\<lparr>ts_state := P2PTS_ONLINE, ts_queue := []\<rparr> \<and> rv_cli r1 = c0
      \<and> rv_trk r1 = ?w\<lparr>tk_heap := (tk_heap ?w)(qs \<mapsto> at_address s c), tk_peers := Some (refs, ?m)\<rparr>
      \<and> rv_srv_calls r1 = rv_srv_calls r @ [Ts_connect_success (sr_port env)] \<and> rv_cli_calls r1 = rv_cli_calls r"
    by (subst srv_online_turn [of "r\<lparr>rv_srv := s0, rv_cli := c0\<rparr>" env qs c refs "[]" s])
      (use assms(1,2) peers in \<open>simp_all add: s0 rv_start_def\<close>)
  then obtain r1 where r1: "srv_turn env (r\<lparr>rv_srv := s0, rv_cli := c0\<rparr>) = Some (Inr r1)"
    and f1: "rv_srv r1 = ?ts\<lparr>ts_state := P2PTS_ONLINE, ts_queue := []\<rparr>" "rv_cli r1 = c0"
      "rv_trk r1 = ?w\<lparr>tk_heap := (tk_heap ?w)(qs \<mapsto> at_address s c), tk_peers := Some (refs, ?m)\<rparr>"
      "rv_srv_calls r1 = rv_srv_calls r @ [Ts_connect_success (sr_port env)]" "rv_cli_calls r1 = rv_cli_calls r"
    by blast
  have "\<exists>r2. cli_turn env r1 = Some (Inr r2) \<and> rv_srv r2 = rv_srv r1 \<and> rv_cli r2 = ?tc\<lparr>tc_queue := [connect_item s]\<rparr>
      \<and> rv_trk r2 = ?w\<lparr>tk_heap := (tk_heap ?w)(qs \<mapsto> at_address s c, qv \<mapsto> at_address v d), tk_peers := Some (refs, ?m)\<rparr>
      \<and> rv_srv_calls r2 = rv_srv_calls r1 \<and> rv_cli_calls r2 = rv_cli_calls r @ [Tc_live_list [s]]"
    by (subst cli_list_turn [of r1 env qv d refs ?m s v])
      (use assms(1,3) live in \<open>simp_all add: f1 c0 idle rv_start_def\<close>)
  with r1 live show ?thesis unfolding f1 by blast
qed

lemma session:
  assumes "rv_start env qs qv s v r" and "sr_accepts env v"
    and "ts_SendOnline (rv_srv r) = Inr (ok1, s0)" and "tc_GetLivePeerList (rv_cli r) = (ok2, c0)"
  shows "\<exists>r'. rv_bind (srv_turn env (r\<lparr>rv_srv := s0, rv_cli := c0\<rparr>)) (\<lambda>r.
      rv_bind (cli_turn env r) (\<lambda>r. rv_bind (cli_turn env r) (srv_turn env))) = Some (Inr r')
    \<and> rv_srv_calls r' = rv_srv_calls r @ [Ts_connect_success (sr_port env), Ts_peer_connecting v]
    \<and> rv_cli_calls r' = rv_cli_calls r @
        [Tc_live_list [s], Tc_connect_result s (tc_local_port (rv_cli r)), Tc_set_timer]
    \<and> rv_cli r' = tc_CloseClient (rv_cli r)
    \<and> (\<exists>refs m. tk_peers (rv_trk r') = Some (refs, m) \<and> GetLivePeer m = [s])"
proof -
  let ?w = "rv_trk r" and ?ts = "rv_srv r" and ?tc = "rv_cli r"
  from assms(1) obtain c d where c: "tk_idle ?w (sr_bev_srv env) qs c" and d: "tk_idle ?w (sr_bev_cli env) qv d"
    by (auto simp: rv_start_def)
  from session_list [OF assms(1) c d assms(3,4)] obtain r1 r2 refs m
    where r1: "srv_turn env (r\<lparr>rv_srv := s0, rv_cli := c0\<rparr>) = Some (Inr r1)" "cli_turn env r1 = Some (Inr r2)"
      and f2: "rv_srv r2 = ?ts\<lparr>ts_state := P2PTS_ONLINE, ts_queue := []\<rparr>" "rv_cli r2 = ?tc\<lparr>tc_queue := [connect_item s]\<rparr>"
        "rv_trk r2 = ?w\<lparr>tk_heap := (tk_heap ?w)(qs \<mapsto> at_address s c, qv \<mapsto> at_address v d), tk_peers := Some (refs, m)\<rparr>"
        "rv_srv_calls r2 = rv_srv_calls r @ [Ts_connect_success (sr_port env)]" "rv_cli_calls r2 = rv_cli_calls r @ [Tc_live_list [s]]"
      and live: "GetLivePeer m = [s]"
    by blast
  from assms(1) have idle: "sr_bev_srv env \<noteq> sr_bev_cli env" "qs \<noteq> qv" "tk_clients ?w = two_clients env qs qv"
    by (simp_all add: rv_start_def)
  note idle = idle idle(2) [symmetric] two_clients_idle [OF idle(1,2)]
  have "\<exists>r3. cli_turn env r2 = Some (Inr r3)
      \<and> rv_srv r3 = ?ts\<lparr>ts_state := P2PTS_ONLINE, ts_queue := [answer_item True v]\<rparr> \<and> rv_cli r3 = ?tc\<lparr>tc_queue := []\<rparr>
      \<and> rv_trk r3 = rv_trk r2 \<and> rv_srv_calls r3 = rv_srv_calls r2 @ [Ts_peer_connecting v] \<and> rv_cli_calls r3 = rv_cli_calls r2"
    by (subst cli_connect_turn [of r2 env qv "at_address v d" qs s c v])
      (use assms(1,2) c d in \<open>simp_all add: f2 idle rv_start_def\<close>)
  then obtain r3 where r3: "cli_turn env r2 = Some (Inr r3)"
    and f3: "rv_srv r3 = ?ts\<lparr>ts_state := P2PTS_ONLINE, ts_queue := [answer_item True v]\<rparr>" "rv_cli r3 = ?tc\<lparr>tc_queue := []\<rparr>"
      "rv_trk r3 = rv_trk r2" "rv_srv_calls r3 = rv_srv_calls r2 @ [Ts_peer_connecting v]" "rv_cli_calls r3 = rv_cli_calls r2"
    by blast
  have "\<exists>r'. srv_turn env r3 = Some (Inr r') \<and> rv_cli r' = tc_CloseClient (rv_cli r3)
      \<and> rv_srv_calls r' = rv_srv_calls r3 \<and> tk_peers (rv_trk r') = tk_peers (rv_trk r3)
      \<and> rv_cli_calls r' = rv_cli_calls r3 @ [Tc_connect_result s (tc_local_port (rv_cli r3)), Tc_set_timer]"
    using assms(1) c d
    by (intro srv_answer_turn [of r3 env qs "at_address s c" qv v d s]) (auto simp: f3 f2 idle rv_start_def)
  then show ?thesis
    using r1 r3 live by (auto simp: f2 f3 tc_CloseClient_def)
qed

section \<open>Properties\<close>


text \<open>A proxy that adds the address after the first line, and two programs just connected.\<close>

definition add_lines :: "byte list list \<Rightarrow> byte list \<Rightarrow> byte list" where
  "add_lines ls request =
     (case find_str CRLF request of None \<Rightarrow> request | Some k \<Rightarrow> take (k + 2) request @ line_block ls @ drop (k + 2) request)"

lemma add_lines_forwards: "forwards (add_lines (header_lines_of (forwarded peer))) peer"
  unfolding forwards_def
proof (intro allI impI)
  fix line rest :: "byte list"
  assume "13 \<notin> set line"
  from find_CRLF [OF this, of rest]
  show "add_lines (header_lines_of (forwarded peer)) (line @ CRLF @ rest)
      = line @ CRLF @ line_block (header_lines_of (forwarded peer)) @ rest"
    by (simp add: add_lines_def CRLF_def)
qed

definition sample_surroundings :: surroundings where
  "sample_surroundings = \<lparr>sr_now = 0, sr_accepts = (\<lambda>peer. True), sr_port = 9000, sr_bev_srv = 5, sr_bev_cli = 6,
     sr_proxy_srv = add_lines (header_lines_of (forwarded (str ''1.2.3.4'', 80))),
     sr_proxy_cli = add_lines (header_lines_of (forwarded (str ''5.6.7.8'', 90)))\<rparr>"

definition sample_rendezvous :: rendezvous where
  "sample_rendezvous = \<lparr>
     rv_srv = (ts_CP2PTrackerClient 0)\<lparr>ts_bufferev := True, ts_event := True, ts_state := P2PTS_CONNECT\<rparr>,
     rv_cli = sample_viewer\<lparr>tc_local_port := 4000\<rparr>,
     rv_trk = \<lparr>tk_clients = [(5, 9), (6, 10)],
       tk_heap = [9 \<mapsto> (CHttpClientConnection True (Some 5) True)\<lparr>hc_refs := 2\<rparr>,
         10 \<mapsto> (CHttpClientConnection True (Some 6) True)\<lparr>hc_refs := 2\<rparr>],
       tk_peers = Some (2, []), tk_dig = Some 2, tk_live = [5, 6]\<rparr>,
     rv_srv_calls = [], rv_cli_calls = []\<rparr>"

lemma sample_start: "rv_start sample_surroundings 9 10 (str ''1.2.3.4'', 80) (str ''5.6.7.8'', 90) sample_rendezvous"
proof -
  have "good_ip (str ''1.2.3.4'')" "good_ip (str ''5.6.7.8'')" "length (peer_text (str ''1.2.3.4'', 80)) < 92"
    by code_simp+
  then show ?thesis
    by (simp add: rv_start_def sample_surroundings_def sample_rendezvous_def add_lines_forwards two_clients_def tk_idle_def
        map_find_def CHttpClientConnection_def ts_CP2PTrackerClient_def sample_viewer_def tc_CP2PTrackerClient_def)
qed


end
