(* ===== verification/Tracker_Invariant.thy ===== *)
theory Tracker_Invariant
  imports Tracker
begin

text \<open>
  The invariant of the tracker: the table of connections, the connection objects, their
  reference counts and the counts of the two request handlers agree in every reachable state.
  The counts are bounds: a relayed answer leaves a reference to its destination behind, and an
  object that is deleted before it was stopped leaves its references to the handlers behind.
\<close>

section \<open>The invariant\<close>

definition holders :: "(nat \<Rightarrow> http_conn option) \<Rightarrow> nat set" where
  "holders h = {q. \<exists>c. h q = Some c \<and> hc_commands c \<noteq> []}"

definition count_ok :: "nat set \<Rightarrow> nat option \<Rightarrow> bool" where
  "count_ok S r \<longleftrightarrow> (case r of None \<Rightarrow> S = {} | Some n \<Rightarrow> card S \<le> n \<and> 0 < n)"

definition table_conn :: "nat \<Rightarrow> http_conn \<Rightarrow> bool" where
  "table_conn b c \<longleftrightarrow> hc_bufferev c = Some b \<and> hc_commands c = InitHttpRequestCommandMap
     \<and> (hc_event c \<longrightarrow> 2 \<le> hc_refs c)"

definition objects_ok :: "(nat \<Rightarrow> http_conn option) \<Rightarrow> bool" where
  "objects_ok h \<longleftrightarrow> finite (dom h) \<and> (\<forall>q c. h q = Some c \<longrightarrow> 0 < hc_refs c)"

definition clients_ok :: "(nat \<times> nat) list \<Rightarrow> (nat \<Rightarrow> http_conn option) \<Rightarrow> bool" where
  "clients_ok t h \<longleftrightarrow> map_ok t \<and> distinct (map snd t) \<and> (\<forall>(b, q) \<in> set t. \<exists>c. h q = Some c \<and> table_conn b c)"

definition handlers_ok :: "(nat \<Rightarrow> http_conn option) \<Rightarrow> (nat \<times> peer_map) option \<Rightarrow> nat option \<Rightarrow> bool" where
  "handlers_ok h peers dig \<longleftrightarrow> count_ok (holders h) (map_option fst peers) \<and> count_ok (holders h) dig
     \<and> (\<forall>n m. peers = Some (n, m) \<longrightarrow> peers_ok m)"

definition tk_inv :: "tracker \<Rightarrow> bool" where
  "tk_inv w \<longleftrightarrow> objects_ok (tk_heap w) \<and> clients_ok (tk_clients w) (tk_heap w)
     \<and> handlers_ok (tk_heap w) (tk_peers w) (tk_dig w) \<and> fst ` set (tk_clients w) \<subseteq> set (tk_live w)"

lemma tk_inv_start: "tk_inv CTrackerHttpServer"
  by (simp add: tk_inv_def CTrackerHttpServer_def objects_ok_def clients_ok_def map_ok_def handlers_ok_def count_ok_def holders_def)

section \<open>What a request may change\<close>

text \<open>No object goes, no count falls, and the table, the handlers and the bufferevents stay.\<close>

definition at_least :: "http_conn \<Rightarrow> http_conn \<Rightarrow> bool" where
  "at_least c c' \<longleftrightarrow> hc_refs c \<le> hc_refs c' \<and> hc_event c' = hc_event c
     \<and> hc_commands c' = hc_commands c \<and> hc_bufferev c' = hc_bufferev c"

definition heap_grows :: "(nat \<Rightarrow> http_conn option) \<Rightarrow> (nat \<Rightarrow> http_conn option) \<Rightarrow> bool" where
  "heap_grows h h' \<longleftrightarrow> (\<forall>q. rel_option at_least (h q) (h' q))"

definition peers_kept :: "(nat \<times> peer_map) option \<Rightarrow> (nat \<times> peer_map) option \<Rightarrow> bool" where
  "peers_kept p p' \<longleftrightarrow> rel_option (rel_prod (=) (\<lambda>m m'. peers_ok m \<longrightarrow> peers_ok m')) p p'"

definition grows :: "tracker \<Rightarrow> tracker \<Rightarrow> bool" where
  "grows w w' \<longleftrightarrow> tk_clients w' = tk_clients w \<and> tk_live w' = tk_live w \<and> tk_dig w' = tk_dig w
     \<and> heap_grows (tk_heap w) (tk_heap w') \<and> peers_kept (tk_peers w) (tk_peers w')"

lemma at_least_refl [simp]: "at_least c c"
  by (simp add: at_least_def)

lemma at_least_trans: "at_least c c' \<Longrightarrow> at_least c' c'' \<Longrightarrow> at_least c c''"
  by (simp add: at_least_def)

lemma heap_grows_refl [simp]: "heap_grows h h"
  by (simp add: heap_grows_def option.rel_refl)

lemma peers_kept_refl [simp]: "peers_kept p p"
  by (auto simp: peers_kept_def intro!: option.rel_refl prod.rel_refl)

lemma heap_grows_upd: "h q = Some c \<Longrightarrow> at_least c c' \<Longrightarrow> heap_grows h (h(q \<mapsto> c'))"
  by (auto simp: heap_grows_def intro: option.rel_refl)

lemma heap_grows_Some: "heap_grows h h' \<Longrightarrow> h q = Some c \<Longrightarrow> \<exists>c'. h' q = Some c' \<and> at_least c c'"
  unfolding heap_grows_def by (metis option_rel_Some1)

lemma heap_grows_SomeD: "heap_grows h h' \<Longrightarrow> h' q = Some c' \<Longrightarrow> \<exists>c. h q = Some c \<and> at_least c c'"
  unfolding heap_grows_def by (metis option_rel_Some2)

lemma rel_at_least_trans:
  "rel_option at_least x y \<Longrightarrow> rel_option at_least y z \<Longrightarrow> rel_option at_least x z"
  by (cases x; cases y; cases z) (auto intro: at_least_trans)

lemma heap_grows_trans: "heap_grows h h' \<Longrightarrow> heap_grows h' h'' \<Longrightarrow> heap_grows h h''"
  unfolding heap_grows_def using rel_at_least_trans by blast

lemma peers_kept_trans: "peers_kept p p' \<Longrightarrow> peers_kept p' p'' \<Longrightarrow> peers_kept p p''"
  by (cases p; cases p'; cases p'') (auto simp: peers_kept_def)

lemma grows_refl [simp]: "grows w w"
  by (simp add: grows_def)

lemma grows_trans: "grows w w' \<Longrightarrow> grows w' w'' \<Longrightarrow> grows w w''"
  unfolding grows_def using heap_grows_trans peers_kept_trans by metis

lemma heap_grows_holders: "heap_grows h h' \<Longrightarrow> holders h' = holders h"
proof (intro set_eqI)
  fix q
  assume "heap_grows h h'"
  then have "rel_option at_least (h q) (h' q)" by (simp add: heap_grows_def)
  then show "q \<in> holders h' \<longleftrightarrow> q \<in> holders h"
    by (cases "h q"; cases "h' q") (auto simp: holders_def at_least_def)
qed

lemma heap_grows_dom: "heap_grows h h' \<Longrightarrow> dom h' = dom h"
  unfolding dom_def by (intro Collect_cong) (metis heap_grows_Some heap_grows_SomeD not_None_eq)

lemma heap_grows_objects: "heap_grows h h' \<Longrightarrow> objects_ok h \<Longrightarrow> objects_ok h'"
  unfolding objects_ok_def
  by (metis heap_grows_dom heap_grows_SomeD at_least_def order.strict_trans2)

lemma at_least_table: "at_least c c' \<Longrightarrow> table_conn b c \<Longrightarrow> table_conn b c'"
  by (auto simp: at_least_def table_conn_def)

lemma heap_grows_clients: "heap_grows h h' \<Longrightarrow> clients_ok t h \<Longrightarrow> clients_ok t h'"
  unfolding clients_ok_def using heap_grows_Some at_least_table by fast

lemma grows_inv: "grows w w' \<Longrightarrow> tk_inv w \<Longrightarrow> tk_inv w'"
proof -
  assume g: "grows w w'" and i: "tk_inv w"
  then have h: "heap_grows (tk_heap w) (tk_heap w')" and p: "peers_kept (tk_peers w) (tk_peers w')"
    by (simp_all add: grows_def)
  have "handlers_ok (tk_heap w') (tk_peers w') (tk_dig w')"
    using i g p heap_grows_holders [OF h]
    by (cases "tk_peers w"; cases "tk_peers w'") (auto simp: tk_inv_def handlers_ok_def grows_def peers_kept_def)
  then show ?thesis
    using i g heap_grows_objects [OF h] heap_grows_clients [OF h] by (simp add: tk_inv_def grows_def)
qed

section \<open>Requests keep it\<close>

text \<open>A sum result that is not a fault grows from a state.\<close>

definition grows_result :: "tracker \<Rightarrow> tk_result \<Rightarrow> bool" where
  "grows_result w r \<longleftrightarrow> (case r of Inl e \<Rightarrow> True | Inr (w', outs) \<Rightarrow> grows w w')"

lemma hc_update_grows:
  assumes "objects_ok (tk_heap w)" and "hc_update q f w = Inr w'" and "\<And>c. 0 < hc_refs c \<Longrightarrow> at_least c (f c)"
  shows "grows w w'"
proof -
  from assms(2) obtain c where c: "tk_heap w q = Some c" and w': "w' = hc_store q (f c) w"
    by (auto simp: hc_update_def split: option.splits)
  have "0 < hc_refs c" using assms(1) c by (auto simp: objects_ok_def)
  then have "at_least c (f c)" "0 < hc_refs (f c)"
    using assms(3) unfolding at_least_def by (auto dest: less_le_trans)
  then show ?thesis
    using c by (simp add: w' hc_store_def grows_def heap_grows_upd)
qed

lemma set_forwarded_at_least: "at_least c (set_forwarded hs c)"
  by (auto simp: at_least_def set_forwarded_def split: option.split)

lemma pt_Execute_kept:
  assumes "pt_Execute now c hs body m = Inr (handled, m', outs)" and "peers_ok m"
  shows "peers_ok m'"
  using assms
  by (auto simp: pt_Execute_def OnPeerOnline_def OnPeerPing_def OnPeerOffline_def OnPeerGetLive_def Let_def rd_bind_def
      intro: peers_ok_online peers_ok_ping peers_ok_offline split: option.splits sum.splits if_splits)

lemma AnswerResult_grows:
  assumes "OnRequestPeerConnectPeerResult c hs w = Inr (handled, w', outs)" and "objects_ok (tk_heap w)"
  shows "grows w w'"
proof -
  have "grows w w1" if "hc_AddRef q w = Inr w1" for q w1
    using hc_update_grows [OF assms(2) that [unfolded hc_AddRef_def]] by (simp add: at_least_def)
  then show ?thesis
    using assms(1)
    by (auto simp: OnRequestPeerConnectPeerResult_def Let_def rd_bind_def split: option.splits sum.splits prod.splits)
qed

lemma cmd_Execute_grows:
  assumes "cmd_Execute now command c hs body w = Inr (handled, w', outs)" and "objects_ok (tk_heap w)"
  shows "grows w w'"
proof (cases command)
  case PeerTracker
  then show ?thesis
    using assms(1) pt_Execute_kept [of now c hs body]
    by (auto simp: cmd_Execute_def grows_def peers_kept_def rd_bind_def split: option.splits sum.splits)
next
  case Dig
  then show ?thesis
    using assms AnswerResult_grows [of c hs w]
    by (auto simp: cmd_Execute_def dig_Execute_def rd_bind_def split: sum.splits if_splits)
qed

lemma OnHttpRequest_grows: "objects_ok (tk_heap w) \<Longrightarrow> grows_result w (OnHttpRequest now q path hs body w)"
  using cmd_Execute_grows
  by (auto simp: grows_result_def OnHttpRequest_def rd_bind_def split: option.splits sum.splits prod.splits)

lemma run_events_grows: "objects_ok (tk_heap w) \<Longrightarrow> grows_result w (run_events now q es w)"
proof (induction es arbitrary: w)
  case Nil
  then show ?case by (simp add: grows_result_def)
next
  case (Cons e es)
  let ?first = "case e of
      Bad_line \<Rightarrow> (case tk_heap w q of None \<Rightarrow> Inl MemFault | Some c \<Rightarrow> Inr (w, hc_Send404 c))
    | Header_block headers \<Rightarrow> rd_bind (hc_update q (set_forwarded headers) w) (\<lambda>w. Inr (w, []))
    | Message line headers body \<Rightarrow> OnHttpRequest now q (snd line) headers body w"
  have first: "grows_result w ?first"
    using hc_update_grows [OF Cons.prems, of q] OnHttpRequest_grows [OF Cons.prems]
    by (auto simp: grows_result_def rd_bind_def set_forwarded_at_least split: http_event.split option.split sum.split)
  show ?case
  proof (cases ?first)
    case Inl
    then show ?thesis by (simp add: grows_result_def)
  next
    case (Inr p)
    obtain w1 o1 where p: "p = (w1, o1)" by fastforce
    have g: "grows w w1" using first unfolding Inr p by (simp add: grows_result_def)
    then have "objects_ok (tk_heap w1)" using Cons.prems heap_grows_objects unfolding grows_def by blast
    from Cons.IH [OF this] g show ?thesis
      unfolding run_events.simps Inr p
      by (cases "run_events now q es w1") (auto simp: grows_result_def intro: grows_trans)
  qed
qed

lemma hc_OnRead_grows:
  assumes "objects_ok (tk_heap w)"
  shows "grows_result w (hc_OnRead now q data w)"
proof (cases "data = [] \<or> tk_heap w q = None")
  case True
  then show ?thesis by (auto simp: hc_OnRead_def grows_result_def)
next
  case False
  then obtain c where c: "tk_heap w q = Some c" by blast
  obtain d evs where d: "hc_DecodeBuffer (hb_append data (hc_http c)) = (d, evs)" by fastforce
  let ?w = "hc_store q (c\<lparr>hc_http := d\<rparr>) w"
  have "0 < hc_refs c" using assms c by (auto simp: objects_ok_def)
  then have g: "grows w ?w" using c by (simp add: hc_store_def grows_def heap_grows_upd at_least_def)
  then have "objects_ok (tk_heap ?w)" using assms heap_grows_objects unfolding grows_def by blast
  then have "grows_result ?w (run_events now q evs ?w)" by (rule run_events_grows)
  moreover have "hc_OnRead now q data w = run_events now q evs ?w" using False c d by (simp add: hc_OnRead_def)
  ultimately show ?thesis using g by (auto simp: grows_result_def split: sum.splits intro: grows_trans)
qed

section \<open>Steps keep it\<close>

lemma tk_readcb_inv:
  assumes "tk_inv w" and "tk_readcb now bev data w = Inr (w', outs)"
  shows "tk_inv w'"
proof (cases "map_find bev (tk_clients w)")
  case None
  then show ?thesis using assms by (simp add: tk_readcb_def)
next
  case (Some q)
  have obj: "objects_ok (tk_heap w)" using assms(1) by (simp add: tk_inv_def)
  from assms(2) Some obtain w1 w2 where w1: "hc_AddRef q w = Inr w1" and w2: "hc_OnRead now q data w1 = Inr (w2, outs)"
    and w': "hc_Release q w2 = Inr w'"
    by (auto simp: tk_readcb_def rd_bind_def split: sum.splits prod.splits)
  from w1 obtain c where c: "tk_heap w q = Some c" and w1_eq: "w1 = hc_store q (c\<lparr>hc_refs := hc_refs c + 1\<rparr>) w"
    by (auto simp: hc_AddRef_def hc_update_def split: option.splits)
  have g1: "grows w w1" using hc_update_grows [OF obj w1 [unfolded hc_AddRef_def]] by (simp add: at_least_def)
  have obj1: "objects_ok (tk_heap w1)" using g1 obj heap_grows_objects unfolding grows_def by blast
  have g2: "grows w1 w2" using hc_OnRead_grows [OF obj1, of now q data] w2 by (simp add: grows_result_def)
  have "tk_heap w1 q = Some (c\<lparr>hc_refs := hc_refs c + 1\<rparr>)" by (simp add: w1_eq hc_store_def)
  then obtain c2 where c2: "tk_heap w2 q = Some c2" "at_least (c\<lparr>hc_refs := hc_refs c + 1\<rparr>) c2"
    using g2 heap_grows_Some unfolding grows_def by blast
  moreover have "0 < hc_refs c" using obj c by (auto simp: objects_ok_def)
  ultimately have "at_least c (c2\<lparr>hc_refs := hc_refs c2 - 1\<rparr>)" "0 < hc_refs (c2\<lparr>hc_refs := hc_refs c2 - 1\<rparr>)"
    by (auto simp: at_least_def)
  moreover have "heap_grows (tk_heap w) (tk_heap w2)"
    using grows_trans [OF g1 g2] by (simp add: grows_def)
  ultimately have "heap_grows (tk_heap w) ((tk_heap w2)(q \<mapsto> c2\<lparr>hc_refs := hc_refs c2 - 1\<rparr>))"
    using c by (auto simp: heap_grows_def)
  moreover have "w' = w2\<lparr>tk_heap := (tk_heap w2)(q \<mapsto> c2\<lparr>hc_refs := hc_refs c2 - 1\<rparr>)\<rparr>"
    using w' c2 \<open>0 < hc_refs (c2\<lparr>hc_refs := hc_refs c2 - 1\<rparr>)\<close> by (simp add: hc_Release_def hc_update_def hc_store_def)
  ultimately have "grows w w'"
    using grows_trans [OF g1 g2] by (simp add: grows_def)
  then show ?thesis using assms(1) by (rule grows_inv)
qed

text \<open>Stopping a connection: its object may stay for the references that are left behind.\<close>

lemma count_ok_drop:
  assumes "count_ok S r" and "finite S" and "q \<in> S"
  shows "count_ok (S - {q}) (case r of None \<Rightarrow> None | Some n \<Rightarrow> if n - 1 = 0 then None else Some (n - 1))"
proof -
  have card: "card (S - {q}) = card S - 1" using assms(2,3) by simp
  show ?thesis
  proof (cases r)
    case None
    then show ?thesis using assms by (simp add: count_ok_def)
  next
    case (Some n)
    then have n: "card S \<le> n" "0 < n" using assms(1) by (simp_all add: count_ok_def)
    show ?thesis
    proof (cases "n - 1 = 0")
      case True
      then have "card (S - {q}) = 0" using card n by simp
      then show ?thesis using Some True assms(2) by (simp add: count_ok_def)
    next
      case False
      then show ?thesis using Some card n by (simp add: count_ok_def)
    qed
  qed
qed

lemma count_ok_add:
  assumes "count_ok S r" and "finite S"
  shows "count_ok (insert q S) (case r of None \<Rightarrow> Some 1 | Some n \<Rightarrow> Some (n + 1))"
  using assms card_insert_le_m1 [of "n + 1" S q for n]
  by (auto simp: count_ok_def card_insert_if split: option.splits)

lemma count_ok_subset: "count_ok S r \<Longrightarrow> finite S \<Longrightarrow> T \<subseteq> S \<Longrightarrow> count_ok T r"
  using card_mono [of S T] by (auto simp: count_ok_def split: option.splits)

lemma finite_holders: "objects_ok h \<Longrightarrow> finite (holders h)"
  by (auto simp: objects_ok_def holders_def intro: finite_subset [of _ "dom h"])

text \<open>The state of a connection after \<open>Stop\<close> and the release of the table's reference.\<close>

definition closed_conn :: "http_conn \<Rightarrow> http_conn" where
  "closed_conn c = (let c = hc_drop_event (c\<lparr>hc_bufferev := None\<rparr>)\<lparr>hc_commands := []\<rparr> in c\<lparr>hc_refs := hc_refs c - 1\<rparr>)"

definition close_object :: "nat \<Rightarrow> http_conn \<Rightarrow> tracker \<Rightarrow> tracker" where
  "close_object q c w = cmd_Release PeerTracker (cmd_Release Dig (hc_store q (closed_conn c) w))"

lemma cmd_Release_sel [simp]:
  "tk_heap (cmd_Release k w) = tk_heap w" "tk_clients (cmd_Release k w) = tk_clients w" "tk_live (cmd_Release k w) = tk_live w"
  by (simp_all add: cmd_Release_def split: http_command.split)

lemma hc_Release_clients:
  "hc_Release q (w\<lparr>tk_clients := t\<rparr>) = rd_bind (hc_Release q w) (\<lambda>w. Inr (w\<lparr>tk_clients := t\<rparr>))"
  by (cases w) (simp add: hc_Release_def hc_update_def hc_store_def split: option.split)

lemma hc_Stop_Release:
  assumes "tk_heap w q = Some c" and "table_conn b c" and "0 < hc_refs c"
  shows "rd_bind (hc_Stop q w) (\<lambda>w. hc_Release q (w\<lparr>tk_clients := f (tk_clients w)\<rparr>))
      = Inr ((close_object q c w)\<lparr>tk_clients := f (tk_clients w)\<rparr>)"
    "rd_bind (hc_Stop q w) (hc_Release q) = Inr (close_object q c w)"
proof -
  let ?c = "hc_drop_event (c\<lparr>hc_bufferev := None\<rparr>)\<lparr>hc_commands := []\<rparr>"
  have refs: "0 < hc_refs ?c" using assms(2,3) by (auto simp: hc_drop_event_def table_conn_def)
  have stop: "hc_Stop q w = Inr (cmd_Release PeerTracker (cmd_Release Dig (hc_store q ?c w)))"
    using assms(1,2) by (simp add: hc_Stop_def table_conn_def hc_drop_event_def InitHttpRequestCommandMap_def)
  have "hc_store q (?c\<lparr>hc_refs := hc_refs ?c - 1\<rparr>) (cmd_Release PeerTracker (cmd_Release Dig (hc_store q ?c w))) = close_object q c w"
    by (simp add: close_object_def closed_conn_def Let_def hc_store_def cmd_Release_def)
  then have rel: "hc_Release q (cmd_Release PeerTracker (cmd_Release Dig (hc_store q ?c w))) = Inr (close_object q c w)"
    using refs by (simp add: hc_Release_def hc_update_def hc_store_def cmd_Release_def)
  then show "rd_bind (hc_Stop q w) (hc_Release q) = Inr (close_object q c w)"
      "rd_bind (hc_Stop q w) (\<lambda>w. hc_Release q (w\<lparr>tk_clients := f (tk_clients w)\<rparr>))
      = Inr ((close_object q c w)\<lparr>tk_clients := f (tk_clients w)\<rparr>)"
    by (simp_all add: stop hc_Release_clients) (simp add: hc_store_def)
qed

lemma closed_conn_sel:
  "hc_commands (closed_conn c) = []"
  by (simp add: closed_conn_def Let_def)

lemma close_object_heap:
  "tk_heap (close_object q c w) = (tk_heap w)(q := if hc_refs (closed_conn c) = 0 then None else Some (closed_conn c))"
  "tk_clients (close_object q c w) = tk_clients w" "tk_live (close_object q c w) = tk_live w"
  by (simp_all add: close_object_def hc_store_def)

lemma close_object_handlers:
  assumes "handlers_ok (tk_heap w) (tk_peers w) (tk_dig w)" and "objects_ok (tk_heap w)"
    and "tk_heap w q = Some c" and "hc_commands c \<noteq> []"
  shows "handlers_ok (tk_heap (close_object q c w)) (tk_peers (close_object q c w)) (tk_dig (close_object q c w))"
proof -
  have hold: "holders (tk_heap (close_object q c w)) = holders (tk_heap w) - {q}"
    by (auto simp: holders_def close_object_heap closed_conn_sel split: if_splits)
  have q: "q \<in> holders (tk_heap w)" using assms(3,4) by (simp add: holders_def)
  note drop = count_ok_drop [OF _ finite_holders [OF assms(2)] q]
  have "count_ok (holders (tk_heap w) - {q}) (map_option fst (tk_peers (close_object q c w)))"
    using drop [of "map_option fst (tk_peers w)"] assms(1)
    by (cases "tk_peers w") (auto simp: handlers_ok_def close_object_def cmd_Release_def hc_store_def)
  moreover have "count_ok (holders (tk_heap w) - {q}) (tk_dig (close_object q c w))"
    using drop [of "tk_dig w"] assms(1) by (simp add: handlers_ok_def close_object_def cmd_Release_def hc_store_def)
  moreover have "\<forall>n m. tk_peers (close_object q c w) = Some (n, m) \<longrightarrow> peers_ok m"
    using assms(1)
    by (auto simp: handlers_ok_def close_object_def cmd_Release_def hc_store_def split: option.splits if_splits)
  ultimately show ?thesis by (simp add: handlers_ok_def hold)
qed

lemma objects_ok_upd: "objects_ok h \<Longrightarrow> (\<And>c. x = Some c \<Longrightarrow> 0 < hc_refs c) \<Longrightarrow> objects_ok (h(q := x))"
  unfolding objects_ok_def by (cases x) (auto simp: dom_fun_upd split: if_splits intro: finite_subset)

lemma clients_ok_upd:
  "clients_ok t h \<Longrightarrow> q \<notin> snd ` set t \<Longrightarrow> clients_ok t (h(q := x))"
  unfolding clients_ok_def by (fastforce simp: image_iff)

lemma distinct_map_snd_filter: "distinct (map snd t) \<Longrightarrow> distinct (map snd (filter P t))"
  by (induction t) auto

lemma clients_ok_erase:
  assumes "clients_ok t h" and "map_find b t = Some q"
  shows "clients_ok (map_erase b t) (h(q := x))" "map_ok t"
proof -
  have bq: "(b, q) \<in> set t" using assms by (simp add: clients_ok_def omap.mem_entries)
  have ok: "map_ok t" "distinct (map snd t)" using assms(1) by (simp_all add: clients_ok_def)
  then show "map_ok t" by simp
  have "q \<notin> snd ` set (map_erase b t)"
    using bq ok(2) by (auto simp: map_erase_def distinct_map inj_on_def) fastforce
  moreover have "clients_ok (map_erase b t) h"
    using assms(1) ok map_erase_subset [of b t] map_ok_erase [of t b]
    by (auto simp: clients_ok_def map_erase_def distinct_map_snd_filter)
  ultimately show "clients_ok (map_erase b t) (h(q := x))" by (intro clients_ok_upd)
qed

lemma tk_eventcb_inv:
  assumes "tk_inv w"
  shows "\<exists>w'. tk_eventcb bev events w = Inr (w', []) \<and> tk_inv w'"
proof (cases "events AND 0x10 = 0 \<and> events AND 0x20 = 0")
  case True
  then show ?thesis using assms by (simp add: tk_eventcb_def)
next
  case ev: False
  show ?thesis
  proof (cases "map_find bev (tk_clients w)")
    case None
    then have "bev \<notin> fst ` set (tk_clients w)"
      using assms by (simp add: tk_inv_def clients_ok_def omap.find_None_keys)
    then show ?thesis using assms None ev by (auto simp: tk_eventcb_def tk_inv_def)
  next
    case (Some q)
    have inv: "objects_ok (tk_heap w)" "clients_ok (tk_clients w) (tk_heap w)" "fst ` set (tk_clients w) \<subseteq> set (tk_live w)"
        "handlers_ok (tk_heap w) (tk_peers w) (tk_dig w)"
      using assms by (simp_all add: tk_inv_def)
    then have "(bev, q) \<in> set (tk_clients w)" using Some by (simp add: clients_ok_def omap.mem_entries)
    then obtain c where c: "tk_heap w q = Some c" "table_conn bev c" using inv(2) by (auto simp: clients_ok_def)
    have refs: "0 < hc_refs c" using inv(1) c(1) by (auto simp: objects_ok_def)
    let ?w = "(close_object q c w)\<lparr>tk_clients := map_erase bev (tk_clients w)\<rparr>"
    have "tk_eventcb bev events w = Inr (?w\<lparr>tk_live := removeAll bev (tk_live w)\<rparr>, [])"
      unfolding tk_eventcb_def if_not_P [OF ev] Some option.case hc_Stop_Release(1) [OF c refs]
      by (simp add: close_object_heap)
    moreover have "tk_inv (?w\<lparr>tk_live := removeAll bev (tk_live w)\<rparr>)"
      using clients_ok_erase(1) [OF inv(2) Some] close_object_handlers [OF inv(4,1) c(1)] c(2) inv
      by (auto simp: tk_inv_def close_object_heap table_conn_def InitHttpRequestCommandMap_def map_erase_def
          intro!: objects_ok_upd)
    ultimately show ?thesis by blast
  qed
qed

text \<open>Stopping the server closes every object of the table.\<close>

lemma tk_stop_all_inv:
  assumes "objects_ok (tk_heap w)" and "handlers_ok (tk_heap w) (tk_peers w) (tk_dig w)"
    and "distinct (map snd t)" and "\<forall>(b, q) \<in> set t. \<exists>c. tk_heap w q = Some c \<and> table_conn b c"
  shows "\<exists>w'. tk_stop_all (map snd t) w = Inr w' \<and> objects_ok (tk_heap w')
    \<and> handlers_ok (tk_heap w') (tk_peers w') (tk_dig w') \<and> tk_live w' = tk_live w"
  using assms
proof (induction t arbitrary: w)
  case (Cons e t)
  obtain b q where e: "e = (b, q)" by fastforce
  from Cons.prems(4) e obtain c where c: "tk_heap w q = Some c" "table_conn b c" by auto
  have refs: "0 < hc_refs c" using Cons.prems(1) c(1) by (auto simp: objects_ok_def)
  let ?w = "close_object q c w"
  have "objects_ok (tk_heap ?w)"
    using Cons.prems(1) by (auto simp: close_object_heap intro!: objects_ok_upd)
  moreover have "handlers_ok (tk_heap ?w) (tk_peers ?w) (tk_dig ?w)"
    using close_object_handlers [OF Cons.prems(2,1) c(1)] c(2) by (simp add: table_conn_def InitHttpRequestCommandMap_def)
  moreover have "\<forall>(b', q') \<in> set t. \<exists>c'. tk_heap ?w q' = Some c' \<and> table_conn b' c'"
    using Cons.prems(3,4) by (fastforce simp: e close_object_heap image_iff)
  ultimately obtain w' where w': "tk_stop_all (map snd t) ?w = Inr w'" "objects_ok (tk_heap w')"
      "handlers_ok (tk_heap w') (tk_peers w') (tk_dig w')" "tk_live w' = tk_live ?w"
    using Cons.IH [of ?w] Cons.prems(3) by auto
  have "rd_bind (hc_Stop q w) (\<lambda>w. rd_bind (hc_Release q w) (tk_stop_all (map snd t))) = Inr w'"
    using hc_Stop_Release(2) [OF c refs] w'(1) by (cases "hc_Stop q w") simp_all
  then show ?case using w' by (simp add: e close_object_heap)
qed simp

lemma tk_Stop_inv: "tk_inv w \<Longrightarrow> \<exists>w'. tk_Stop w = Inr (w', []) \<and> tk_inv w'"
proof -
  assume inv: "tk_inv w"
  then obtain w' where "tk_stop_all (map snd (tk_clients w)) w = Inr w'" "objects_ok (tk_heap w')"
      "handlers_ok (tk_heap w') (tk_peers w') (tk_dig w')"
    using tk_stop_all_inv [of w "tk_clients w"] by (auto simp: tk_inv_def clients_ok_def)
  then show ?thesis by (simp add: tk_Stop_def tk_inv_def clients_ok_def map_ok_def)
qed

lemma tk_timer_inv: "tk_inv w \<Longrightarrow> tk_timer w = Inr (w', outs) \<Longrightarrow> tk_inv w'"
  by (cases "tk_peers w") (clarsimp simp: tk_timer_def tk_inv_def handlers_ok_def peers_ok_OnTimer)+

text \<open>Accepting a connection.\<close>

lemma cmd_AddRef_handlers:
  assumes "handlers_ok h peers dig" and "finite (holders h)" and "S \<subseteq> insert q (holders h)" and "holders h' = S"
    and "peers' = (case peers of None \<Rightarrow> Some (1, []) | Some (refs, m) \<Rightarrow> Some (refs + 1, m))"
    and "dig' = (case dig of None \<Rightarrow> Some 1 | Some refs \<Rightarrow> Some (refs + 1))"
  shows "handlers_ok h' peers' dig'"
proof -
  have sub: "count_ok S (case r of None \<Rightarrow> Some 1 | Some n \<Rightarrow> Some (n + 1))" if "count_ok (holders h) r" for r
    using count_ok_subset [OF count_ok_add [OF that assms(2)] _ assms(3)] assms(2) by simp
  have "map_option fst peers' = (case map_option fst peers of None \<Rightarrow> Some 1 | Some n \<Rightarrow> Some (n + 1))"
    by (simp add: assms(5) split: option.split prod.split)
  then show ?thesis
    using assms(1) sub [of "map_option fst peers"] sub [of dig]
    by (auto simp: handlers_ok_def assms(4-6) split: option.splits)
qed

lemma holders_upd: "holders (h(q := x)) \<subseteq> insert q (holders h)"
  by (auto simp: holders_def split: if_splits)

lemma refused_inv:
  assumes "tk_inv w" and "tk_heap w q = None"
    and "hc_Release q ((cmd_AddRef w)\<lparr>tk_heap := (tk_heap w)(q \<mapsto> p)\<rparr>) = Inr w'"
  shows "tk_inv w'"
proof -
  define x where "x = (if hc_refs p - 1 = 0 then None else Some (p\<lparr>hc_refs := hc_refs p - 1\<rparr>))"
  have w': "w' = (cmd_AddRef w)\<lparr>tk_heap := (tk_heap w)(q := x)\<rparr>"
    using assms(3) by (auto simp: hc_Release_def hc_update_def hc_store_def x_def)
  have inv: "objects_ok (tk_heap w)" "clients_ok (tk_clients w) (tk_heap w)" "handlers_ok (tk_heap w) (tk_peers w) (tk_dig w)"
      "fst ` set (tk_clients w) \<subseteq> set (tk_live w)"
    using assms(1) by (simp_all add: tk_inv_def)
  have q: "q \<notin> snd ` set (tk_clients w)" using inv(2) assms(2) by (force simp: clients_ok_def)
  have "handlers_ok ((tk_heap w)(q := x)) (tk_peers (cmd_AddRef w)) (tk_dig (cmd_AddRef w))"
    using cmd_AddRef_handlers [OF inv(3) finite_holders [OF inv(1)] holders_upd refl refl refl]
    by (simp add: cmd_AddRef_def)
  moreover have "objects_ok ((tk_heap w)(q := x))"
    using inv(1) by (auto simp: x_def intro!: objects_ok_upd split: if_splits)
  ultimately show ?thesis
    using clients_ok_upd [OF inv(2) q, of x] inv(4) by (simp add: w' tk_inv_def) (simp add: cmd_AddRef_def)
qed

lemma distinct_put: "distinct (map snd t) \<Longrightarrow> q \<notin> snd ` set t \<Longrightarrow> distinct (map snd (map_put b q t))"
proof (induction t)
  case (Cons e t)
  obtain k v where e: "e = (k, v)" by fastforce
  have "snd ` set (map_put b q t) \<subseteq> insert q (snd ` set t)"
    using set_map_put_subset [of b q t] by fastforce
  then have "v \<notin> snd ` set (map_put b q t)" using Cons.prems by (auto simp: e)
  then show ?case using Cons by (simp add: e)
qed simp

lemma accepted_inv:
  assumes "tk_inv w" and "tk_heap w q = None" and "bev \<notin> set (tk_live w)" and "table_conn bev p" and "0 < hc_refs p"
  shows "tk_inv ((cmd_AddRef w)\<lparr>tk_heap := (tk_heap w)(q \<mapsto> p), tk_clients := map_put bev q (tk_clients w), tk_live := bev # tk_live w\<rparr>)"
proof -
  have inv: "objects_ok (tk_heap w)" "clients_ok (tk_clients w) (tk_heap w)" "handlers_ok (tk_heap w) (tk_peers w) (tk_dig w)"
      "fst ` set (tk_clients w) \<subseteq> set (tk_live w)"
    using assms(1) by (simp_all add: tk_inv_def)
  have q: "q \<notin> snd ` set (tk_clients w)" using inv(2) assms(2) by (force simp: clients_ok_def)
  have fresh: "bev \<notin> fst ` set (tk_clients w)" using inv(4) assms(3) by blast
  have ok: "map_ok (tk_clients w)" using inv(2) by (simp add: clients_ok_def)
  have set: "set (map_put bev q (tk_clients w)) = insert (bev, q) (set (tk_clients w))"
    using omap.entries_put [OF ok, of bev q] fresh by force
  have "clients_ok (map_put bev q (tk_clients w)) ((tk_heap w)(q \<mapsto> p))"
    using clients_ok_upd [OF inv(2) q, of "Some p"] q fresh assms(4) map_ok_put [OF ok] distinct_put [of "tk_clients w" q bev]
    by (auto simp: clients_ok_def set)
  moreover have "handlers_ok ((tk_heap w)(q \<mapsto> p)) (tk_peers (cmd_AddRef w)) (tk_dig (cmd_AddRef w))"
    using cmd_AddRef_handlers [OF inv(3) finite_holders [OF inv(1)] holders_upd refl refl refl]
    by (simp add: cmd_AddRef_def)
  moreover have "objects_ok ((tk_heap w)(q \<mapsto> p))" using inv(1) assms(5) by (auto intro!: objects_ok_upd)
  ultimately show ?thesis
    using inv(4) set by (auto simp: tk_inv_def)
qed

lemma tk_listener_cb_inv:
  assumes "tk_inv w" and "bev \<notin> set (tk_live w)" and "tk_heap w q = None"
    and "tk_listener_cb (Some bev) q socket_ok event_ok w = Inr (w', outs)"
  shows "tk_inv w'"
proof -
  let ?p = "CHttpClientConnection socket_ok (Some bev) event_ok"
  let ?p1 = "?p\<lparr>hc_refs := hc_refs ?p + 1\<rparr>"
  show ?thesis
  proof (cases "hc_IsValid ?p \<and> \<not> tk_already_connected ?p w")
    case False
    then have "hc_Release q ((cmd_AddRef w)\<lparr>tk_heap := (tk_heap w)(q \<mapsto> ?p1)\<rparr>) = Inr w'"
      using assms(4) by (auto simp: tk_listener_cb_def Let_def cmd_AddRef_def rd_bind_def split: if_splits sum.splits)
    then show ?thesis by (rule refused_inv [OF assms(1,3)])
  next
    case True
    have w': "w' = (cmd_AddRef w)\<lparr>tk_heap := (tk_heap w)(q \<mapsto> ?p1), tk_clients := map_put bev q (tk_clients w), tk_live := bev # tk_live w\<rparr>"
      using assms(4) True
      by (cases w) (auto simp: tk_listener_cb_def Let_def hc_AddRef_def hc_Release_def hc_update_def hc_store_def cmd_AddRef_def)
    have "table_conn bev ?p1" "0 < hc_refs ?p1"
      by (simp_all add: table_conn_def CHttpClientConnection_def)
    then show ?thesis unfolding w' using assms(1-3) by (intro accepted_inv)
  qed
qed

lemma tk_step_inv: "tk_step w w' \<Longrightarrow> tk_inv w \<Longrightarrow> tk_inv w'"
proof (induction rule: tk_step.induct)
  case (step_accept fresh w q socket_ok event_ok w' outs)
  then show ?case by (metis tk_listener_cb_inv)
next
  case (step_read bev w now data w' outs)
  then show ?case by (metis tk_readcb_inv)
next
  case (step_close bev w events w' outs)
  then show ?case using tk_eventcb_inv [of w bev events] by auto
next
  case (step_timer w w' outs)
  then show ?case by (metis tk_timer_inv)
next
  case (step_stop w w' outs)
  then show ?case using tk_Stop_inv [of w] by auto
qed

lemma tk_reachable_inv: "tk_reachable w \<Longrightarrow> tk_inv w"
  by (induction rule: tk_reachable.induct) (simp_all add: tk_inv_start tk_step_inv)

text \<open>
  C18. The invariant of the tracker, in every reachable state: every entry of the table is a
  live bufferevent with an object of its own that holds the two handlers and, with its send
  event, at least two references; no object is counted zero; the handlers exist as long as an
  object holds them, with a count no smaller than the number of holders; and every peer on the
  table has missed at most five ticks.  A close event and the stop never fail there.
\<close>

theorem tracker_invariant:
  assumes "tk_reachable w"
  shows "tk_inv w \<and> (\<exists>w'. tk_eventcb bev events w = Inr (w', [])) \<and> (\<exists>w'. tk_Stop w = Inr (w', []))"
  using tk_reachable_inv [OF assms] tk_eventcb_inv [of w bev events] tk_Stop_inv [of w] by blast

lemma sample_accept:
  "tk_listener_cb (Some 5) 9 True True CTrackerHttpServer = Inr (
     \<lparr>tk_clients = [(5, 9)], tk_heap = [9 \<mapsto> (CHttpClientConnection True (Some 5) True)\<lparr>hc_refs := 2\<rparr>],
      tk_peers = Some (1, []), tk_dig = Some 1, tk_live = [5]\<rparr>, [])"
  by (simp add: tk_listener_cb_def CTrackerHttpServer_def CHttpClientConnection_def hc_IsValid_def tk_already_connected_def
      Let_def cmd_AddRef_def hc_AddRef_def hc_Release_def hc_update_def hc_store_def numeral_2_eq_2)

theorem tracker_invariant_witness:
  "\<exists>w. tk_reachable w \<and> tk_clients w = [(5, 9)] \<and> tk_inv w \<and> (\<exists>w'. tk_eventcb 5 0x10 w = Inr (w', []))"
proof -
  let ?w = "\<lparr>tk_clients = [(5, 9)], tk_heap = [9 \<mapsto> (CHttpClientConnection True (Some 5) True)\<lparr>hc_refs := 2\<rparr>],
      tk_peers = Some (1, []), tk_dig = Some 1, tk_live = [5]\<rparr>"
  have "tk_step CTrackerHttpServer ?w"
    by (rule step_accept [OF _ _ sample_accept]) (simp_all add: CTrackerHttpServer_def)
  then have "tk_reachable ?w" by (rule tk_reachable.step [OF tk_reachable.start])
  with tracker_invariant [OF this, of 5 "0x10"] show ?thesis by (intro exI [of _ ?w]) simp
qed

end
