(* ===== verification/Client_Lifecycle.thy ===== *)
theory Client_Lifecycle
  imports Rendezvous Client_Connection
begin

text \<open>
  The life of CRemoteClient (RemoteDesktopClient/RemoteClient.cpp) around its connection: the
  thread that connects to the tracker and runs the event loop, \<open>Stop\<close>, and the timer with which it
  goes on when the server has answered.  Whether the thread starts, the outcomes of the tracker
  client's connecting and of the timer's socket calls are parameters; the connection itself is
  the \<open>remote_client\<close> of Client_Connection, the tracker client the \<open>track_cli\<close> of
  Tracker_Client_Viewer.
\<close>

section \<open>State\<close>

text \<open>\<open>cp_loop\<close>: the thread is in \<open>event_base_dispatch\<close>; \<open>cp_exit\<close>: it was asked to leave it.\<close>

record client_program =
  cp_thread :: bool
  cp_event_base :: bool
  cp_hwnd :: bool
  cp_timer :: bool
  cp_loop :: bool
  cp_exit :: bool
  cp_track :: track_cli
  cp_client :: remote_client

definition new_client_program :: "u32 \<Rightarrow> main_window \<Rightarrow> client_program" where
  "new_client_program ip window = \<lparr>cp_thread = False, cp_event_base = False, cp_hwnd = True, cp_timer = False,
     cp_loop = False, cp_exit = False, cp_track = tc_CP2PTrackerClient ip, cp_client = CRemoteClient window\<rparr>"

section \<open>Operations\<close>

definition cp_Connect :: "bool \<Rightarrow> client_program \<Rightarrow> bool \<times> client_program" where
  "cp_Connect thread_ok w = (if cp_thread w then (True, w) else (thread_ok, w\<lparr>cp_thread := thread_ok\<rparr>))"

text \<open>The thread's function up to the loop, with its result if it returns before.\<close>

definition cp_DoConnect_begin :: "u32 option \<Rightarrow> bool \<Rightarrow> bool \<Rightarrow> u16 \<Rightarrow> client_program \<Rightarrow> nat option \<times> client_program" where
  "cp_DoConnect_begin dns connects event_ok local_port w =
     (let (bInit, t) = tc_Init dns connects event_ok local_port (cp_track w);
          w = w\<lparr>cp_event_base := True, cp_track := t\<rparr> in
      if \<not> bInit then (Some 1, w\<lparr>cp_event_base := False\<rparr>)
      else
        let (bGet, t) = tc_GetLivePeerList t; w = w\<lparr>cp_track := t\<rparr> in
        if \<not> bGet then (Some 2, w\<lparr>cp_track := tc_Uninit t, cp_event_base := False\<rparr>)
        else (None, w\<lparr>cp_loop := True\<rparr>))"

definition cp_DoConnect_end :: "client_program \<Rightarrow> nat \<times> client_program" where
  "cp_DoConnect_end w =
     (0, w\<lparr>cp_client := (cp_client w)\<lparr>rcl_send_event := False, rcl_bufferev := False\<rparr>,
           cp_event_base := False, cp_loop := False, cp_exit := False\<rparr>)"

definition cp_Stop :: "client_program \<Rightarrow> client_program" where
  "cp_Stop w =
     (let w = (if cp_event_base w then w\<lparr>cp_exit := True\<rparr> else w) in
      if cp_hwnd w then w\<lparr>cp_hwnd := False, cp_timer := False\<rparr> else w)"

text \<open>A read from the tracker in the loop; the timer belongs to the window.\<close>

definition cp_track_read :: "byte list \<Rightarrow> client_program \<Rightarrow> (sb_error + client_program \<times> tc_out list) option" where
  "cp_track_read data w =
     map_option (\<lambda>r. rd_bind r (\<lambda>(t, calls).
       Inr (w\<lparr>cp_track := t, cp_timer := cp_timer w \<or> Tc_set_timer \<in> set calls \<and> cp_hwnd w\<rparr>, calls)))
       (tc_conn_readcb data (cp_track w))"

definition punch_lines :: "byte list list" where
  "punch_lines = [str ''Content-Length: 3'', str ''Host: 150759bc.nat123.cc'', str ''User-Agent: RemoteClient'',
     str ''Content-Type: text/plain'', str ''Connection: Keep-Alive'']"

definition punch_text :: "byte list" where
  "punch_text = str ''POST /c HTTP/1.1'' @ CRLF @ line_block punch_lines @ CRLF @ str ''c=g''"

text \<open>The timer runs until a request could be sent; what is sent is the output.\<close>

definition cp_OnTimer :: "bool \<Rightarrow> bool \<Rightarrow> bool \<Rightarrow> client_program \<Rightarrow> client_program \<times> byte list list" where
  "cp_OnTimer binds connects sends w =
     (if \<not> binds then (w, [])
      else if \<not> connects then (w, [])
      else if \<not> sends then (w, [])
      else (w\<lparr>cp_timer := False\<rparr>, [punch_text]))"

text \<open>The ticks of the timer while it is set.\<close>

fun cp_ticks :: "(bool \<times> bool \<times> bool) list \<Rightarrow> client_program \<Rightarrow> client_program \<times> byte list list" where
  "cp_ticks [] w = (w, [])"
| "cp_ticks ((binds, connects, sends) # ts) w =
     (if \<not> cp_timer w then (w, [])
      else
        let (w, o1) = cp_OnTimer binds connects sends w; (w, o2) = cp_ticks ts w in (w, o1 @ o2))"

section \<open>Invariant\<close>

inductive cp_step :: "client_program \<Rightarrow> client_program \<Rightarrow> bool" where
  step_connect: "\<not> cp_thread w \<Longrightarrow> cp_Connect True w = (r, w1) \<Longrightarrow>
    cp_DoConnect_begin dns connects event_ok local_port w1 = (res, w') \<Longrightarrow> cp_step w w'"
| step_end: "cp_loop w \<Longrightarrow> cp_exit w \<or> \<not> tc_bufferev (cp_track w) \<Longrightarrow> cp_DoConnect_end w = (n, w') \<Longrightarrow> cp_step w w'"
| step_send: "cp_loop w \<Longrightarrow> tc_event (cp_track w) \<Longrightarrow> tc_OnAsynSendHttp (cp_track w) = (t, outs) \<Longrightarrow> cp_step w (w\<lparr>cp_track := t\<rparr>)"
| step_read: "cp_loop w \<Longrightarrow> tc_bufferev (cp_track w) \<Longrightarrow> cp_track_read data w = Some (Inr (w', calls)) \<Longrightarrow> cp_step w w'"
| step_timer: "cp_timer w \<Longrightarrow> cp_OnTimer binds connects sends w = (w', outs) \<Longrightarrow> cp_step w w'"
| step_stop: "cp_step w (cp_Stop w)"

inductive cp_reachable :: "client_program \<Rightarrow> bool" where
  start: "cp_reachable (new_client_program ip window)"
| step: "cp_reachable w \<Longrightarrow> cp_step w w' \<Longrightarrow> cp_reachable w'"

text \<open>
  The loop runs on an event base; the tracker client's event comes with its bufferevent, and what
  it has queued can be sent; the timer belongs to a live window; the connection to the server
  is never opened.
\<close>

definition cp_inv :: "client_program \<Rightarrow> bool" where
  "cp_inv w \<longleftrightarrow> (cp_loop w \<longleftrightarrow> cp_event_base w) \<and> (cp_event_base w \<longrightarrow> cp_thread w) \<and> (cp_exit w \<longrightarrow> cp_event_base w)
     \<and> (tc_event (cp_track w) \<longrightarrow> tc_bufferev (cp_track w)) \<and> (tc_queue (cp_track w) \<noteq> [] \<longrightarrow> tc_event (cp_track w))
     \<and> (tc_bufferev (cp_track w) \<longrightarrow> cp_thread w) \<and> (cp_timer w \<longrightarrow> cp_hwnd w)
     \<and> \<not> rcl_bufferev (cp_client w) \<and> \<not> rcl_send_event (cp_client w)"

definition track_ok :: "track_cli \<Rightarrow> bool" where
  "track_ok t \<longleftrightarrow> (tc_event t \<longrightarrow> tc_bufferev t) \<and> (tc_queue t \<noteq> [] \<longrightarrow> tc_event t)"

lemma cp_inv_track:
  "cp_inv w \<longleftrightarrow> (cp_loop w \<longleftrightarrow> cp_event_base w) \<and> (cp_event_base w \<longrightarrow> cp_thread w) \<and> (cp_exit w \<longrightarrow> cp_event_base w)
     \<and> track_ok (cp_track w) \<and> (tc_bufferev (cp_track w) \<longrightarrow> cp_thread w) \<and> (cp_timer w \<longrightarrow> cp_hwnd w)
     \<and> \<not> rcl_bufferev (cp_client w) \<and> \<not> rcl_send_event (cp_client w)"
  by (auto simp: cp_inv_def track_ok_def)

lemma tc_ConnectPeer_ok: "tc_ConnectPeer peer t = Inr (r, t') \<Longrightarrow> track_ok t \<Longrightarrow> track_ok t' \<and> tc_bufferev t' = tc_bufferev t"
  by (auto simp: tc_ConnectPeer_def track_ok_def Let_def split: if_splits)

lemma tc_CloseClient_ok: "track_ok (tc_CloseClient t)" "\<not> tc_bufferev (tc_CloseClient t)"
  by (simp_all add: tc_CloseClient_def track_ok_def)

lemma tc_OnConnectPeerResult_ok:
  "tc_OnConnectPeerResult p t = Inr (closed, t', outs) \<Longrightarrow> track_ok t \<Longrightarrow> track_ok t' \<and> (tc_bufferev t' \<longrightarrow> tc_bufferev t)"
  by (auto simp: tc_OnConnectPeerResult_def rc_OnConnectPeerResult_def Let_def tc_CloseClient_ok split: option.splits if_splits)

lemma tc_OnHttpResponse_ok:
  assumes "tc_OnHttpResponse hs b t = Some (Inr (closed, t', outs))" and "track_ok t"
  shows "track_ok t' \<and> (tc_bufferev t' \<longrightarrow> tc_bufferev t)"
proof -
  have "rc_OnGetLivePeerList ps t = Inr (closed, t', outs) \<Longrightarrow> track_ok t' \<and> (tc_bufferev t' \<longrightarrow> tc_bufferev t)" for ps
    using assms(2) by (auto simp: rc_OnGetLivePeerList_def rd_bind_Inr dest: tc_ConnectPeer_ok split: list.splits)
  then show ?thesis
    using assms by (auto simp: tc_OnHttpResponse_def dest: tc_OnConnectPeerResult_ok split: option.splits if_splits)
qed

lemma tc_run_ok:
  "tc_run es t = Some (Inr (t', outs)) \<Longrightarrow> track_ok t \<Longrightarrow> track_ok t' \<and> (tc_bufferev t' \<longrightarrow> tc_bufferev t)"
proof (induction es arbitrary: t t' outs)
  case Nil
  then show ?case by (auto split: if_splits)
next
  case (Cons e es)
  show ?case
  proof (cases e)
    case (Message line headers body)
    with Cons.prems(1) obtain r where r: "tc_OnHttpResponse headers body t = Some r"
      and nl: "\<not> isl line"
      by (auto simp: bind_eq_Some_conv split: if_splits)
    with Cons.prems(1) Message obtain closed t1 o1 where i: "r = Inr (closed, t1, o1)"
      by (auto split: sum.splits)
    have ok: "track_ok t1 \<and> (tc_bufferev t1 \<longrightarrow> tc_bufferev t)"
      using tc_OnHttpResponse_ok r Cons.prems(2) unfolding i by blast
    show ?thesis
    proof (cases closed)
      case True
      then show ?thesis using Cons.prems(1) Message r nl ok unfolding i by simp
    next
      case False
      then obtain o2 where "tc_run es t1 = Some (Inr (t', o2))"
        using Cons.prems(1) Message r nl unfolding i by (auto simp: rd_bind_Inr)
      from Cons.IH [OF this] ok show ?thesis by blast
    qed
  qed (use Cons in auto)
qed

lemma tc_Init_ok:
  "tc_Init dns connects event_ok local_port t = (r, t') \<Longrightarrow> \<not> tc_bufferev t \<Longrightarrow> track_ok t \<Longrightarrow>
   track_ok t' \<and> tc_bufferev t' = r"
  by (auto simp: tc_Init_def tc_Connect_def track_ok_def Let_def split: option.splits if_splits)

lemma tc_GetLivePeerList_ok:
  "tc_GetLivePeerList t = (r, t') \<Longrightarrow> track_ok t \<Longrightarrow> track_ok t' \<and> tc_bufferev t' = tc_bufferev t"
  by (auto simp: tc_GetLivePeerList_def track_ok_def split: if_splits)

lemma tc_Uninit_ok: "track_ok (tc_Uninit t)" "\<not> tc_bufferev (tc_Uninit t)"
  by (simp_all add: tc_Uninit_def tc_CloseClient_def track_ok_def)

lemma cp_DoConnect_begin_inv:
  assumes "cp_DoConnect_begin dns connects event_ok local_port w = (res, w')" and "cp_thread w" and "\<not> cp_event_base w"
    and "\<not> tc_bufferev (cp_track w)" and "cp_inv w"
  shows "cp_inv w'"
proof -
  obtain r t where i: "tc_Init dns connects event_ok local_port (cp_track w) = (r, t)" by fastforce
  then have t: "track_ok t" "tc_bufferev t = r" using tc_Init_ok assms(4,5) by (auto simp: cp_inv_track)
  obtain r2 t2 where g: "tc_GetLivePeerList t = (r2, t2)" by fastforce
  then have "track_ok t2" using tc_GetLivePeerList_ok t(1) by blast
  then show ?thesis
    using assms t i g by (auto simp: cp_DoConnect_begin_def cp_inv_track tc_Uninit_ok Let_def split: if_splits)
qed

lemma cp_step_inv: "cp_step w w' \<Longrightarrow> cp_inv w \<Longrightarrow> cp_inv w'"
proof (induction rule: cp_step.induct)
  case (step_connect w r w1 dns connects event_ok local_port res w')
  have w1: "w1 = w\<lparr>cp_thread := True\<rparr>" using step_connect.hyps(1,2) by (auto simp: cp_Connect_def)
  with step_connect show ?case
    by (intro cp_DoConnect_begin_inv [OF step_connect.hyps(3)]) (auto simp: cp_inv_def)
next
  case (step_read w data w' calls)
  then obtain t where "tc_conn_readcb data (cp_track w) = Some (Inr (t, calls))"
    and w': "w' = w\<lparr>cp_track := t, cp_timer := cp_timer w \<or> Tc_set_timer \<in> set calls \<and> cp_hwnd w\<rparr>"
    by (auto simp: cp_track_read_def rd_bind_Inr)
  moreover have "track_ok ((cp_track w)\<lparr>tc_http := d\<rparr>)" for d using step_read.prems by (simp add: cp_inv_track track_ok_def)
  ultimately have "track_ok t \<and> (tc_bufferev t \<longrightarrow> tc_bufferev (cp_track w))"
    using step_read.prems tc_run_ok [of _ "(cp_track w)\<lparr>tc_http := d\<rparr>" for d]
    by (fastforce simp: tc_conn_readcb_def cp_inv_track split: if_splits prod.splits)
  then show ?case using step_read.prems by (auto simp: cp_inv_track w')
qed (auto simp: cp_inv_def cp_DoConnect_end_def tc_OnAsynSendHttp_def cp_OnTimer_def cp_Stop_def Let_def split: if_splits)

lemma cp_inv_start: "cp_inv (new_client_program ip window)"
  by (simp add: cp_inv_def new_client_program_def tc_CP2PTrackerClient_def CRemoteClient_def)

lemma cp_reachable_inv: "cp_reachable w \<Longrightarrow> cp_inv w"
  by (induction rule: cp_reachable.induct) (blast intro: cp_inv_start cp_step_inv)+

section \<open>The timer\<close>

lemma ticks_send_once:
  assumes "cp_timer w" and "\<forall>(binds, connects, sends) \<in> set failing. \<not> (binds \<and> connects \<and> sends)"
  shows "cp_ticks (failing @ (True, True, True) # rest) w = (w\<lparr>cp_timer := False\<rparr>, [punch_text])"
  using assms
proof (induction failing)
  case Nil
  then show ?case by (cases rest) (auto simp: cp_OnTimer_def)
next
  case (Cons t failing)
  obtain binds connects sends where t: "t = (binds, connects, sends)" by (cases t)
  then have "cp_OnTimer binds connects sends w = (w, [])" using Cons.prems(2) by (auto simp: cp_OnTimer_def)
  with Cons t show ?case by simp
qed

section \<open>The tracker's answer to the request of the timer\<close>

definition punch_headers :: evkeyvalq where
  "punch_headers = [(str ''Content-Length'', str ''3''), (str ''Host'', str ''150759bc.nat123.cc''),
     (str ''User-Agent'', str ''RemoteClient''), (str ''Content-Type'', str ''text/plain''), (str ''Connection'', str ''Keep-Alive'')]"

lemma punch_headers_facts:
  "header_lines_of punch_headers = punch_lines" "list_all header_item punch_headers"
  "list_all (\<lambda>k. differs k (str ''Connect-Peer'')) (map fst punch_headers)"
  "list_all (\<lambda>k. differs k (str ''Connect-Peer-Result'')) (map fst punch_headers)"
  "content_length punch_headers = 3"
  by code_simp+

definition punch_request :: "peer_info \<Rightarrow> http_request" where
  "punch_request peer = \<lparr>rq_method = str ''POST'', rq_path = str ''/c'', rq_version = str ''HTTP/1.1'',
     rq_lines = header_lines_of (forwarded peer @ punch_headers), rq_body = str ''c=g''\<rparr>"

lemma punch_request_forwarded:
  assumes "forwards proxy peer"
  shows "proxy punch_text = rq_text (punch_request peer)"
proof -
  have "13 \<notin> set (str ''POST /c HTTP/1.1'')" by code_simp
  then have "proxy (str ''POST /c HTTP/1.1'' @ CRLF @ rest)
      = str ''POST /c HTTP/1.1'' @ CRLF @ line_block (header_lines_of (forwarded peer)) @ rest" for rest
    using assms unfolding forwards_def by blast
  then show ?thesis
    by (simp add: punch_text_def rq_text_def rq_line_def punch_request_def header_lines_of_append line_block_append
        punch_headers_facts(1))
qed

lemma forwarded_no_length: "evhttp_find_header (forwarded peer) (str ''Content-Length'') = None"
proof -
  have "list_all (\<lambda>k. differs k (str ''Content-Length'')) [X_FORWARDED_FOR, X_FORWARDED_FOR_PORT]" by code_simp
  then show ?thesis by (subst find_differs) (simp add: forwarded_def)
qed

lemma punch_request_ok:
  assumes "good_ip (fst peer)"
  shows "rq_ok (punch_request peer)" and "rq_headers (punch_request peer) = forwarded peer @ punch_headers"
proof -
  have items: "list_all header_item (forwarded peer @ punch_headers)"
    using forwarded_items [OF assms] punch_headers_facts(2) by simp
  show hs: "rq_headers (punch_request peer) = forwarded peer @ punch_headers"
    using items by (simp add: rq_headers_def punch_request_def DecodeOneHeader_items del: fold_append list_all_append)
  have "content_length (forwarded peer @ punch_headers) = content_length punch_headers"
    by (simp add: content_length_def evhttp_find_header_append forwarded_no_length del: str_simps)
  then show "rq_ok (punch_request peer)"
    using header_line_items [OF items] punch_headers_facts(5) hs
    by (simp add: rq_ok_def punch_request_def forwarded_def header_lines_of_def)
qed

lemma punch_refused:
  assumes "tk_idle w bev q c" and "forwards proxy peer" and "good_ip (fst peer)"
  shows "tk_readcb now bev (proxy punch_text) w
    = Inr (w\<lparr>tk_heap := (tk_heap w)(q \<mapsto> at_address peer c)\<rparr>, hc_Send404 c)"
proof -
  let ?r = "punch_request peer"
  note ok = punch_request_ok [OF assms(3)]
  have none: "evhttp_find_header (rq_headers ?r) (str ''Connect-Peer-Result'') = None"
    "evhttp_find_header (rq_headers ?r) (str ''Connect-Peer'') = None"
    unfolding ok(2) evhttp_find_header_append
    using punch_headers_facts(3,4) by (simp_all add: forwarded_not_connect find_differs del: str_simps)
  have path: "rq_path ?r = str ''/c''" by (simp add: punch_request_def)
  have addr: "set_forwarded (rq_headers ?r) c = at_address peer c"
    unfolding ok(2) by (rule set_forwarded_address)
  have "OnHttpRequest now q (rq_path ?r) (rq_headers ?r) (rq_body ?r) (at_request q c ?r w)
      = Inr (at_request q c ?r w, hc_Send404 c)"
    using assms(1) none path
    by (simp add: OnHttpRequest_def at_request_def cmd_Execute_def dig_Execute_def tk_idle_def hc_Send404_def hc_Send_bufferev
        del: str_simps)
  then show ?thesis
    using readcb_request [of bev w q c ?r now] assms(1) ok(1) addr
    by (simp add: punch_request_forwarded [OF assms(2)] tk_idle_def Release_at_request_only)
qed

section \<open>Properties\<close>



text \<open>
  How the viewer goes on after the server's answer: the timer retries until the socket
  could be bound, connected and written, sends one request and stops; the tracker decodes that
  request from an idle connection as one for \<open>/c\<close> that names no peer and refuses it with 404,
  keeping its table of peers, so that no connection to the server program comes of it.
\<close>

lemma punch_request_refused:
  assumes "cp_timer w" and "\<forall>(binds, connects, sends) \<in> set failing. \<not> (binds \<and> connects \<and> sends)"
    and "tk_idle t bev q c" and "forwards proxy peer" and "good_ip (fst peer)"
  shows "\<exists>w' request t' answer. cp_ticks (failing @ (True, True, True) # rest) w = (w', [request]) \<and> \<not> cp_timer w'
    \<and> tk_readcb now bev (proxy request) t = Inr (t', [(bev, answer)]) \<and> tk_peers t' = tk_peers t
    \<and> take 24 answer = str ''HTTP/1.1 404 Not Found'' @ CRLF"
proof -
  have "hc_bufferev c = Some bev" using assms(3) by (simp add: tk_idle_def)
  then have "\<exists>answer. hc_Send404 c = [(bev, answer)] \<and> take 24 answer = str ''HTTP/1.1 404 Not Found'' @ CRLF"
    by (simp add: hc_Send404_def hc_Send_bufferev CRLF_def)
  then show ?thesis
    using ticks_send_once [OF assms(1,2), of rest] punch_refused [OF assms(3-5), of now] by force
qed

lemma punch_request_refused_witness:
  "\<exists>w w' request t t' answer. cp_ticks [(True, False, True), (True, True, True), (True, True, True)] w = (w', [request])
    \<and> tk_readcb 0 6 (add_lines (header_lines_of (forwarded (str ''5.6.7.8'', 90))) request) t = Inr (t', [(6, answer)])
    \<and> take 24 answer = str ''HTTP/1.1 404 Not Found'' @ CRLF"
proof -
  let ?p = "(str ''5.6.7.8'', 90) :: peer_info"
  let ?w = "(new_client_program 1 (new_main_window (bitmap_info_of_bytes (replicate 1064 0)) 4))\<lparr>cp_timer := True\<rparr>"
  have start: "rv_start sample_surroundings 9 10 (str ''1.2.3.4'', 80) ?p sample_rendezvous" by (rule sample_start)
  then obtain d where d: "tk_idle (rv_trk sample_rendezvous) 6 10 d"
    by (auto simp: rv_start_def sample_surroundings_def)
  have g: "good_ip (fst ?p)" using start by (simp add: rv_start_def)
  have tick: "cp_timer ?w" "\<forall>(binds, connects, sends) \<in> set [(True, False, True)]. \<not> (binds \<and> connects \<and> sends)"
    by simp_all
  from punch_request_refused [OF tick d add_lines_forwards g, of "[(True, True, True)]" 0]
  show ?thesis unfolding append.simps by blast
qed

end
