(* ===== verification/Client_Window.thy ===== *)
theory Client_Window
  imports Screen_Transfer "HOL-Library.Signed_Division"
begin

text \<open>
  The rest of the client's window (CMainWindow of RemoteDesktopClient/MainWindow.cpp): where
  \<open>DrawRemoteDesktop\<close> puts the picture in the client area, in the \<open>int\<close> arithmetic of the program,
  and the small accessors.  The size of the client area is a parameter; the call of
  \<open>StretchDIBits\<close> is the outcome.
\<close>

section \<open>Arithmetic of \<open>int\<close> and \<open>LONG\<close>\<close>

definition long_mul :: "int \<Rightarrow> int \<Rightarrow> int" where
  "long_mul a b = sint (word_of_int (a * b) :: u32)"

text \<open>The division truncates; by 0, and of the least number by -1, the processor faults.\<close>

definition long_div :: "int \<Rightarrow> int \<Rightarrow> int option" where
  "long_div a b = (if b = 0 \<or> a = - (2 ^ 31) \<and> b = -1 then None else Some (a sdiv b))"

lemma long_mul_exact: "- (2 ^ 31) \<le> a * b \<Longrightarrow> a * b < 2 ^ 31 \<Longrightarrow> long_mul a b = a * b"
  unfolding long_mul_def by (subst signed_of_int) (simp add: signed_take_bit_int_eq_self)

lemma sdiv_pos:
  fixes a b :: int
  assumes "0 \<le> a" "0 < b"
  shows "a sdiv b = a div b"
  using assms by (cases "a = 0") (simp_all add: signed_divide_int_def)

lemma long_div_exact: "0 \<le> a \<Longrightarrow> 0 < b \<Longrightarrow> long_div a b = Some (a div b)"
  by (simp add: long_div_def sdiv_pos)

section \<open>Drawing\<close>

datatype drawing = Nothing_drawn | Divide_fault | StretchDIBits int int int int

definition DrawRemoteDesktop :: "int \<Rightarrow> int \<Rightarrow> main_window \<Rightarrow> drawing" where
  "DrawRemoteDesktop rcWidth rcHeight mw =
     (case mw_buffer mw of
        None \<Rightarrow> Nothing_drawn
      | Some fb \<Rightarrow>
          let bmWidth = sint (biWidth (mw_info mw)); bmHeight = sint (biHeight (mw_info mw)) in
          if long_mul rcWidth bmHeight > long_mul bmWidth rcHeight then
            (let height = rcHeight in
             case long_div (long_mul bmWidth height) bmHeight of
               None \<Rightarrow> Divide_fault
             | Some width \<Rightarrow> StretchDIBits ((rcWidth - width) sdiv 2) 0 width height)
          else
            (let width = rcWidth in
             case long_div (long_mul bmHeight width) bmWidth of
               None \<Rightarrow> Divide_fault
             | Some height \<Rightarrow> StretchDIBits 0 ((rcHeight - height) sdiv 2) width height))"

section \<open>Accessors\<close>

definition MainWindow_GetBitmapInfo :: "main_window \<Rightarrow> bitmap_info" where
  "MainWindow_GetBitmapInfo mw = mw_info mw"

definition MainWindow_GetPixelBytes :: "main_window \<Rightarrow> u16" where
  "MainWindow_GetPixelBytes mw = mw_px mw"

text \<open>An offset into the buffer.\<close>

definition MainWindow_GetBuffer :: "u32 \<Rightarrow> u32 \<Rightarrow> main_window \<Rightarrow> u32 option" where
  "MainWindow_GetBuffer x y mw =
     (case mw_buffer mw of
        None \<Rightarrow> None
      | Some fb \<Rightarrow>
          let bmWidthBytes = biWidth (mw_info mw) * ucast (mw_px mw) in
          Some (y * bmWidthBytes + x * ucast (mw_px mw)))"

definition MainWindow_Destroy :: "main_window \<Rightarrow> main_window" where
  "MainWindow_Destroy mw = mw\<lparr>mw_buffer := None\<rparr>"

lemma Destroy_then_modified: "MainWindow_OnGetTransferModifyBitmap n blocks buf (MainWindow_Destroy mw) = Some (MainWindow_Destroy mw)"
  by (simp add: MainWindow_OnGetTransferModifyBitmap_def MainWindow_Destroy_def)

section \<open>The picture fits the window\<close>

lemma bounded_product:
  fixes a b :: int
  assumes "0 \<le> a" "a < 32768" "0 \<le> b" "b < 32768"
  shows "0 \<le> a * b" "a * b < 2 ^ 31"
proof -
  have "a * b \<le> 32767 * 32767" using assms by (intro mult_mono) simp_all
  then show "a * b < 2 ^ 31" by simp
qed (use assms in simp)

lemma half_of: "0 \<le> (n :: int) \<Longrightarrow> n sdiv 2 = n div 2"
  by (simp add: sdiv_pos)

text \<open>The scaled side of a picture of \<open>a\<close> by \<open>b\<close> whose other side is \<open>h\<close>.\<close>

lemma scaled_side:
  fixes a b h :: int
  assumes "0 < b" and "0 \<le> a * h"
  shows "0 \<le> a * h div b" "a * h - a * h div b * b < b" "a * h div b * b \<le> a * h"
proof -
  have eq: "a * h - a * h div b * b = a * h mod b" by (rule minus_div_mult_eq_mod)
  show "0 \<le> a * h div b" using assms by (simp add: pos_imp_zdiv_nonneg_iff)
  show "a * h - a * h div b * b < b" unfolding eq using assms(1) by simp
  have "0 \<le> a * h mod b" using assms(1) by simp
  then show "a * h div b * b \<le> a * h" using eq by linarith
qed

definition fits :: "int \<Rightarrow> int \<Rightarrow> int \<Rightarrow> int \<Rightarrow> int \<Rightarrow> int \<Rightarrow> bool" where
  "fits rcWidth rcHeight left tp width height \<longleftrightarrow>
     0 \<le> left \<and> 0 \<le> tp \<and> 0 \<le> width \<and> 0 \<le> height
     \<and> rcWidth - (left + width) \<in> {left, left + 1} \<and> rcHeight - (tp + height) \<in> {tp, tp + 1}
     \<and> (width = rcWidth \<or> height = rcHeight)"

lemma fits_scaled:
  fixes n k :: int
  assumes "0 \<le> k" "k \<le> n" "0 \<le> m"
  shows "fits n m ((n - k) div 2) 0 k m" "fits m n 0 ((n - k) div 2) m k"
  using assms by (simp_all add: fits_def, presburger+)

lemma draws_inside:
  fixes rcWidth rcHeight :: int and mw :: main_window
  defines "bw \<equiv> sint (biWidth (mw_info mw))" and "bh \<equiv> sint (biHeight (mw_info mw))"
  assumes "mw_buffer mw \<noteq> None" and "0 \<le> rcWidth" "rcWidth < 32768" "0 \<le> rcHeight" "rcHeight < 32768"
    and "0 < bw" "bw < 32768" "0 < bh" "bh < 32768"
  shows "\<exists>left tp width height. DrawRemoteDesktop rcWidth rcHeight mw = StretchDIBits left tp width height
    \<and> fits rcWidth rcHeight left tp width height \<and> \<bar>bw * height - bh * width\<bar> < max bw bh"
proof -
  obtain fb where fb: "mw_buffer mw = Some fb" using assms(3) by auto
  have mul: "long_mul rcWidth bh = rcWidth * bh" "long_mul bw rcHeight = bw * rcHeight" "long_mul bh rcWidth = bh * rcWidth"
    by (rule long_mul_exact; use assms(4-11) bounded_product [of rcWidth bh] bounded_product [of bw rcHeight]
        bounded_product [of bh rcWidth] in linarith)+
  show ?thesis
  proof (cases "rcWidth * bh > bw * rcHeight")
    case True
    let ?w = "bw * rcHeight div bh"
    have nn: "0 \<le> bw * rcHeight" using assms(6,8) by simp
    note s = scaled_side [OF \<open>0 < bh\<close> nn]
    have "?w * bh < rcWidth * bh" using s(3) True by linarith
    then have le: "?w \<le> rcWidth" using assms(10) by (simp add: mult_less_cancel_right)
    have "DrawRemoteDesktop rcWidth rcHeight mw = StretchDIBits ((rcWidth - ?w) div 2) 0 ?w rcHeight"
      using fb True mul nn assms(10) le
      by (simp add: DrawRemoteDesktop_def bw_def [symmetric] bh_def [symmetric] long_div_exact half_of)
    moreover have "\<bar>bw * rcHeight - bh * ?w\<bar> < max bw bh" using s(2,3) by (simp add: mult.commute [of bh])
    ultimately show ?thesis using fits_scaled(1) [OF s(1) le assms(6)] by blast
  next
    case False
    let ?h = "bh * rcWidth div bw"
    have nn: "0 \<le> bh * rcWidth" using assms(4,10) by simp
    note s = scaled_side [OF \<open>0 < bw\<close> nn]
    have "?h * bw \<le> rcHeight * bw" using s(3) False by (simp add: mult.commute)
    then have le: "?h \<le> rcHeight" using assms(8) by (simp add: mult_le_cancel_right)
    have "DrawRemoteDesktop rcWidth rcHeight mw = StretchDIBits 0 ((rcHeight - ?h) div 2) rcWidth ?h"
      using fb False mul nn assms(8) le
      by (simp add: DrawRemoteDesktop_def bw_def [symmetric] bh_def [symmetric] long_div_exact half_of)
    moreover have "\<bar>bw * ?h - bh * rcWidth\<bar> < max bw bh" using s(2,3) by (simp add: mult.commute [of bw])
    ultimately show ?thesis using fits_scaled(2) [OF s(1) le assms(4)] by blast
  qed
qed

text \<open>A picture without pixels is accepted by the window, whose next paint divides by 0.\<close>

lemma empty_picture_faults:
  assumes "MainWindow_OnGetTransferBitmap info px buf mw = Some mw'" and "biWidth info = 0" and "biHeight info = 0"
  shows "DrawRemoteDesktop rcWidth rcHeight mw' = Divide_fault"
  using assms by (auto simp: MainWindow_OnGetTransferBitmap_def DrawRemoteDesktop_def long_mul_def long_div_def split: if_splits)

section \<open>Properties\<close>

text \<open>
  C24. The picture is drawn inside the window: for a picture and a client area whose sides are
  below 2^15, the rectangle given to \<open>StretchDIBits\<close> lies in the client area, fills it in one
  direction and is centred in the other to within a pixel, and keeps the proportions of the
  picture to within the rounding of one division.
\<close>

theorem picture_drawn_inside:
  assumes "mw_buffer mw \<noteq> None" and "0 \<le> rcWidth" "rcWidth < 32768" "0 \<le> rcHeight" "rcHeight < 32768"
    and "0 < sint (biWidth (mw_info mw))" "sint (biWidth (mw_info mw)) < 32768"
    and "0 < sint (biHeight (mw_info mw))" "sint (biHeight (mw_info mw)) < 32768"
  shows "\<exists>left tp width height. DrawRemoteDesktop rcWidth rcHeight mw = StretchDIBits left tp width height
    \<and> 0 \<le> left \<and> 0 \<le> tp \<and> 0 \<le> width \<and> 0 \<le> height
    \<and> rcWidth - (left + width) \<in> {left, left + 1} \<and> rcHeight - (tp + height) \<in> {tp, tp + 1}
    \<and> (width = rcWidth \<or> height = rcHeight)
    \<and> \<bar>sint (biWidth (mw_info mw)) * height - sint (biHeight (mw_info mw)) * width\<bar>
        < max (sint (biWidth (mw_info mw))) (sint (biHeight (mw_info mw)))"
  using draws_inside [OF assms] unfolding fits_def by blast

definition sample_picture :: main_window where
  "sample_picture =
     (let info = bitmap_info_of_bytes (replicate 1064 0) in
      \<lparr>mw_info = info\<lparr>biWidth := 4, biHeight := 3\<rparr>, mw_buffer = Some (replicate 12 0), mw_px = 1, mw_rows = 1, mw_cols = 1\<rparr>)"

theorem picture_drawn_inside_witness:
  "\<exists>left tp width height. DrawRemoteDesktop 101 60 sample_picture = StretchDIBits left tp width height
    \<and> tp = 0 \<and> height = 60 \<and> \<bar>width - 80\<bar> \<le> 1 \<and> \<bar>left - 10\<bar> \<le> 1"
proof -
  have sz: "mw_buffer sample_picture \<noteq> None" "sint (biWidth (mw_info sample_picture)) = 4" "sint (biHeight (mw_info sample_picture)) = 3"
    by (simp_all add: sample_picture_def Let_def)
  obtain left tp width height where d: "DrawRemoteDesktop 101 60 sample_picture = StretchDIBits left tp width height"
    "0 \<le> left" "0 \<le> tp" "0 \<le> height" "101 - (left + width) \<in> {left, left + 1}" "60 - (tp + height) \<in> {tp, tp + 1}"
    "width = 101 \<or> height = 60" "\<bar>4 * height - 3 * width\<bar> < max 4 (3 :: int)"
    using picture_drawn_inside [of sample_picture 101 60, unfolded sz] sz(1) by auto
  then have h: "height = 60" by auto
  then have "\<bar>width - 80\<bar> \<le> 1" "tp = 0" using d by auto
  moreover have "\<bar>left - 10\<bar> \<le> 1" using calculation d(5) by auto
  ultimately show ?thesis using d(1) h by blast
qed

end
