(* ===== verification/Compress.thy ===== *)
theory Compress
  imports Stream_Buffer
begin

text \<open>
  The compression objects of \<^verbatim>\<open>common/compress_base.h\<close> and \<^verbatim>\<open>common/compress_zip.h\<close> that
  \<open>CCompressFactory\<close> makes (its model \<open>CreateCompress\<close> is in Server_Connection).  From the
  vendored zlib the checks of the arguments in \<open>deflateInit2_\<close> and \<open>inflateReset2\<close> are
  translated, because the program's calls depend on them; \<open>deflate\<close>, \<open>inflate\<close> and the two \<open>End\<close>
  functions are parameters: from a state, the input and the room for output they give a code, a
  state, the number of bytes they took and the bytes they wrote.  The loops run until zlib says
  so, hence they are \<open>partial_function\<close>s.
\<close>

section \<open>The interface of zlib\<close>

definition Z_OK :: int where "Z_OK = 0"
definition Z_STREAM_END :: int where "Z_STREAM_END = 1"
definition Z_STREAM_ERROR :: int where "Z_STREAM_ERROR = -2"
definition Z_DATA_ERROR :: int where "Z_DATA_ERROR = -3"
definition Z_MEM_ERROR :: int where "Z_MEM_ERROR = -4"
definition Z_NO_FLUSH :: int where "Z_NO_FLUSH = 0"
definition Z_FINISH :: int where "Z_FINISH = 4"
definition Z_DEFAULT_COMPRESSION :: int where "Z_DEFAULT_COMPRESSION = -1"
definition Z_DEFAULT_STRATEGY :: int where "Z_DEFAULT_STRATEGY = 0"
definition Z_FIXED :: int where "Z_FIXED = 4"
definition Z_DEFLATED :: int where "Z_DEFLATED = 8"
definition MAX_MEM_LEVEL :: int where "MAX_MEM_LEVEL = 9"

lemmas z_defs = Z_OK_def Z_STREAM_END_def Z_STREAM_ERROR_def Z_DATA_ERROR_def Z_MEM_ERROR_def Z_NO_FLUSH_def
  Z_FINISH_def Z_DEFAULT_COMPRESSION_def Z_DEFAULT_STRATEGY_def Z_FIXED_def Z_DEFLATED_def MAX_MEM_LEVEL_def

text \<open>\<open>memory\<close>: whether zlib's own allocations succeed.\<close>

definition deflateInit2 :: "bool \<Rightarrow> int \<Rightarrow> int \<Rightarrow> int \<Rightarrow> int \<Rightarrow> int \<Rightarrow> int" where
  "deflateInit2 memory level0 method windowBits0 memLevel strategy =
     (let level = (if level0 = Z_DEFAULT_COMPRESSION then 6 else level0);
          (wrap, windowBits) = (if windowBits0 < 0 then (0, - windowBits0)
             else if windowBits0 > 15 then (2, windowBits0 - 16) else (1 :: int, windowBits0)) in
      if memLevel < 1 \<or> memLevel > MAX_MEM_LEVEL \<or> method \<noteq> Z_DEFLATED \<or> windowBits < 8 \<or> windowBits > 15
         \<or> level < 0 \<or> level > 9 \<or> strategy < 0 \<or> strategy > Z_FIXED \<or> windowBits = 8 \<and> wrap \<noteq> 1
      then Z_STREAM_ERROR
      else if \<not> memory then Z_MEM_ERROR else Z_OK)"

definition inflateReset2 :: "int \<Rightarrow> int" where
  "inflateReset2 windowBits0 =
     (let windowBits = (if windowBits0 < 0 then - windowBits0
             else if windowBits0 < 48 then windowBits0 AND 15 else windowBits0) in
      if windowBits \<noteq> 0 \<and> (windowBits < 8 \<or> windowBits > 15) then Z_STREAM_ERROR else Z_OK)"

definition inflateInit2 :: "bool \<Rightarrow> int \<Rightarrow> int" where
  "inflateInit2 memory windowBits = (if \<not> memory then Z_MEM_ERROR else inflateReset2 windowBits)"

text \<open>What \<open>next_in\<close> points into: the source or the two bytes of \<open>dummy_head\<close>.\<close>

datatype z_ptr = In_src nat | In_dummy nat

record 'z z_stream =
  zs_state :: 'z
  zs_next_in :: z_ptr
  zs_avail_in :: u32
  zs_total_in :: u32
  zs_next_out :: nat
  zs_avail_out :: u32
  zs_total_out :: u32
  zs_dst :: "byte list"

type_synonym 'z codec = "'z \<Rightarrow> byte list \<Rightarrow> nat \<Rightarrow> int \<times> 'z \<times> nat \<times> byte list"

definition dummy_head :: "byte list" where
  "dummy_head = [0x8 + 0x7 * 0x10, word_of_int ((((0x8 + 0x7 * 0x10) * 0x100 + 30) div 31 * 31) AND 0xFF)]"

text \<open>zlib may read all the input it is offered; bytes that are in no object are a fault.\<close>

definition z_input :: "byte list \<Rightarrow> z_ptr \<Rightarrow> nat \<Rightarrow> byte list option" where
  "z_input src p n =
     (case p of
        In_src k \<Rightarrow> if k + n \<le> length src then Some (take n (drop k src)) else None
      | In_dummy k \<Rightarrow> if k + n \<le> length dummy_head then Some (take n (drop k dummy_head)) else None)"

fun z_advance :: "nat \<Rightarrow> z_ptr \<Rightarrow> z_ptr" where
  "z_advance n (In_src k) = In_src (k + n)"
| "z_advance n (In_dummy k) = In_dummy (k + n)"

definition z_call :: "'z codec \<Rightarrow> byte list \<Rightarrow> 'z z_stream \<Rightarrow> sb_error + int \<times> 'z z_stream" where
  "z_call codec src w =
     (case z_input src (zs_next_in w) (unat (zs_avail_in w)) of
        None \<Rightarrow> Inl MemFault
      | Some inp \<Rightarrow>
          (case codec (zs_state w) inp (unat (zs_avail_out w)) of
             (err, z, used, outp) \<Rightarrow>
               if zs_next_out w + length outp > length (zs_dst w) then Inl MemFault
               else Inr (err, w\<lparr>zs_state := z, zs_next_in := z_advance used (zs_next_in w),
                 zs_avail_in := zs_avail_in w - of_nat used, zs_total_in := zs_total_in w + of_nat used,
                 zs_next_out := zs_next_out w + length outp, zs_avail_out := zs_avail_out w - of_nat (length outp),
                 zs_total_out := zs_total_out w + of_nat (length outp), zs_dst := blit (zs_next_out w) outp (zs_dst w)\<rparr>)))"

section \<open>The objects\<close>

text \<open>
  The outcome of a call: false with the two results untouched, false with them set to NULL and
  0, or true with the buffer (its whole allocation) and the length.
\<close>

datatype codec_result = Untouched | Cleared | Done "byte list" u32

definition ICompressBase_encode :: "byte list \<Rightarrow> u32 \<Rightarrow> codec_result" where
  "ICompressBase_encode src srclen = Done src srclen"

definition ICompressBase_decode :: "byte list \<Rightarrow> u32 \<Rightarrow> codec_result" where
  "ICompressBase_decode src srclen = Done src srclen"

subsection \<open>encode\<close>

type_synonym 'z z_loop = "(sb_error + 'z z_stream option) option"

text \<open>The two loops; \<open>Some None\<close> is a \<open>return false\<close>.\<close>

partial_function (option) encode_loop :: "'z codec \<Rightarrow> byte list \<Rightarrow> u32 \<Rightarrow> 'z z_stream \<Rightarrow> 'z z_loop" where
  "encode_loop deflate src dstlen w =
     (if zs_avail_in w \<noteq> 0 \<and> zs_total_out w < dstlen then
        (case z_call deflate src w of
           Inl e \<Rightarrow> Some (Inl e)
         | Inr (err, w) \<Rightarrow> if err \<noteq> Z_OK then Some (Inr None) else encode_loop deflate src dstlen w)
      else Some (Inr (Some w)))"

partial_function (option) finish_loop :: "'z codec \<Rightarrow> byte list \<Rightarrow> 'z z_stream \<Rightarrow> 'z z_loop" where
  "finish_loop deflate src w =
     (case z_call deflate src w of
        Inl e \<Rightarrow> Some (Inl e)
      | Inr (err, w) \<Rightarrow>
          if err = Z_STREAM_END then Some (Inr (Some w))
          else if err \<noteq> Z_OK then Some (Inr None) else finish_loop deflate src w)"

definition new_z_stream :: "'z \<Rightarrow> u32 \<Rightarrow> u32 \<Rightarrow> u32 \<Rightarrow> 'z z_stream" where
  "new_z_stream z0 avail_in avail_out dstlen =
     \<lparr>zs_state = z0, zs_next_in = In_src 0, zs_avail_in = avail_in, zs_total_in = 0, zs_next_out = 0,
      zs_avail_out = avail_out, zs_total_out = 0, zs_dst = replicate (unat dstlen) 0\<rparr>"

definition CCompressZip_encode ::
    "bool \<Rightarrow> 'z \<Rightarrow> (int \<Rightarrow> 'z codec) \<Rightarrow> ('z \<Rightarrow> int) \<Rightarrow> (u32 \<Rightarrow> bool) \<Rightarrow> byte list \<Rightarrow> u32
     \<Rightarrow> (sb_error + codec_result) option" where
  "CCompressZip_encode memory z0 deflate deflateEnd can_alloc src srclen =
     (if deflateInit2 memory Z_DEFAULT_COMPRESSION Z_DEFLATED 47 8 Z_DEFAULT_STRATEGY \<noteq> Z_OK then Some (Inr Untouched)
      else if \<not> can_alloc srclen then Some (Inl BadAlloc)
      else
        (case encode_loop (deflate Z_NO_FLUSH) src srclen (new_z_stream z0 srclen srclen srclen) of
           None \<Rightarrow> None
         | Some (Inl e) \<Rightarrow> Some (Inl e)
         | Some (Inr None) \<Rightarrow> Some (Inr Cleared)
         | Some (Inr (Some w)) \<Rightarrow>
             if zs_avail_in w \<noteq> 0 then Some (Inr Cleared)
             else
               (case finish_loop (deflate Z_FINISH) src w of
                  None \<Rightarrow> None
                | Some (Inl e) \<Rightarrow> Some (Inl e)
                | Some (Inr None) \<Rightarrow> Some (Inr Cleared)
                | Some (Inr (Some w)) \<Rightarrow>
                    if deflateEnd (zs_state w) \<noteq> Z_OK then Some (Inr Cleared)
                    else Some (Inr (Done (zs_dst w) (zs_total_out w))))))"

subsection \<open>decode\<close>

definition COMPRESS_REALLOC_SIZE :: u32 where "COMPRESS_REALLOC_SIZE = 10240"

text \<open>The buffer grows when it is full; it is full of output then, so the copy takes all of it.\<close>

definition decode_grow :: "(u32 \<Rightarrow> bool) \<Rightarrow> 'z z_stream \<Rightarrow> u32 \<Rightarrow> sb_error + 'z z_stream \<times> u32" where
  "decode_grow can_alloc w dstlen =
     (if zs_total_out w \<noteq> dstlen then Inr (w, dstlen)
      else
        let dstlen1 = dstlen + COMPRESS_REALLOC_SIZE in
        if \<not> can_alloc dstlen1 then Inl BadAlloc
        else if unat dstlen1 < unat dstlen then Inl MemFault
        else Inr (w\<lparr>zs_dst := take (unat dstlen) (zs_dst w) @ replicate (unat COMPRESS_REALLOC_SIZE) 0\<rparr>, dstlen1))"

text \<open>After a data error zlib is offered \<open>dummy_head\<close>, and \<open>next_in\<close> stays there.\<close>

partial_function (option) decode_loop ::
    "'z codec \<Rightarrow> (u32 \<Rightarrow> bool) \<Rightarrow> byte list \<Rightarrow> u32 \<Rightarrow> 'z z_stream \<Rightarrow> u32 \<Rightarrow> 'z z_loop" where
  "decode_loop inflate can_alloc src srclen w dstlen =
     (if \<not> zs_total_in w < srclen then Some (Inr (Some w))
      else case decode_grow can_alloc w dstlen of
        Inl e \<Rightarrow> Some (Inl e)
      | Inr (w, dstlen) \<Rightarrow>
          (case z_call inflate src (w\<lparr>zs_avail_in := 1, zs_avail_out := 1\<rparr>) of
             Inl e \<Rightarrow> Some (Inl e)
           | Inr (err, w) \<Rightarrow>
               if err = Z_STREAM_END then Some (Inr (Some w))
               else if err = Z_OK then decode_loop inflate can_alloc src srclen w dstlen
               else if err = Z_DATA_ERROR then
                 (case z_call inflate src (w\<lparr>zs_next_in := In_dummy 0, zs_avail_in := of_nat (length dummy_head)\<rparr>) of
                    Inl e \<Rightarrow> Some (Inl e)
                  | Inr (err, w) \<Rightarrow>
                      if err \<noteq> Z_OK then Some (Inr None)
                      else decode_loop inflate can_alloc src srclen w dstlen)
               else Some (Inr None)))"

definition CCompressZip_decode ::
    "bool \<Rightarrow> 'z \<Rightarrow> 'z codec \<Rightarrow> ('z \<Rightarrow> int) \<Rightarrow> (u32 \<Rightarrow> bool) \<Rightarrow> byte list \<Rightarrow> u32 \<Rightarrow> (sb_error + codec_result) option" where
  "CCompressZip_decode memory z0 inflate inflateEnd can_alloc src srclen =
     (if \<not> can_alloc srclen then Some (Inl BadAlloc)
      else if inflateInit2 memory 47 \<noteq> Z_OK then Some (Inr Cleared)
      else
        (case decode_loop inflate can_alloc src srclen (new_z_stream z0 0 0 srclen) srclen of
           None \<Rightarrow> None
         | Some (Inl e) \<Rightarrow> Some (Inl e)
         | Some (Inr None) \<Rightarrow> Some (Inr Cleared)
         | Some (Inr (Some w)) \<Rightarrow>
             if inflateEnd (zs_state w) \<noteq> Z_OK then Some (Inr Cleared)
             else Some (Inr (Done (zs_dst w) (zs_total_out w)))))"

section \<open>Decoding\<close>

text \<open>
  \<open>inflates codec z bs plain z'\<close>: offered the bytes \<open>bs\<close> one at a time with room for one byte, zlib
  writes \<open>plain\<close> and is in the state \<open>z'\<close> when the stream ends or the bytes are used up.
\<close>

inductive inflates :: "'z codec \<Rightarrow> 'z \<Rightarrow> byte list \<Rightarrow> byte list \<Rightarrow> 'z \<Rightarrow> bool" for codec where
  used_up: "inflates codec z [] [] z"
| stream_end: "codec z [b] 1 = (Z_STREAM_END, z', used, outp) \<Longrightarrow> used \<le> 1 \<Longrightarrow> length outp \<le> 1 \<Longrightarrow>
    inflates codec z (b # bs) outp z'"
| more: "codec z [b] 1 = (Z_OK, z', used, outp) \<Longrightarrow> used \<le> 1 \<Longrightarrow> length outp \<le> 1 \<Longrightarrow>
    inflates codec z' (drop used (b # bs)) plain z'' \<Longrightarrow> inflates codec z (b # bs) (outp @ plain) z''"

text \<open>The stream of \<open>decode\<close> after \<open>k\<close> bytes were taken and \<open>out\<close> was written.\<close>

definition decoding :: "byte list \<Rightarrow> nat \<Rightarrow> byte list \<Rightarrow> 'z \<Rightarrow> 'z z_stream \<Rightarrow> u32 \<Rightarrow> bool" where
  "decoding src k out z w dstlen \<longleftrightarrow>
     zs_state w = z \<and> zs_next_in w = In_src k \<and> unat (zs_total_in w) = k \<and> k \<le> length src
     \<and> zs_next_out w = length out \<and> unat (zs_total_out w) = length out
     \<and> length (zs_dst w) = unat dstlen \<and> take (length out) (zs_dst w) = out \<and> length out \<le> unat dstlen
     \<and> unat dstlen \<le> length src + length out + 10240"

lemma decode_grow_room:
  assumes "decoding src k out z w dstlen" and "\<forall>n. can_alloc n" and "length src + length out + 10240 < 2 ^ 32"
  shows "\<exists>w' dstlen'. decode_grow can_alloc w dstlen = Inr (w', dstlen')
    \<and> decoding src k out z w' dstlen' \<and> length out < unat dstlen'"
proof (cases "zs_total_out w = dstlen")
  case False
  then have "unat (zs_total_out w) \<noteq> unat dstlen" by (simp add: word_unat_eq_iff)
  then show ?thesis using assms(1) False by (auto simp: decode_grow_def decoding_def)
next
  case True
  then have len: "unat dstlen = length out" using assms(1) by (auto simp: decoding_def)
  have sz: "unat COMPRESS_REALLOC_SIZE = 10240" by (simp add: COMPRESS_REALLOC_SIZE_def)
  have sum: "unat (dstlen + COMPRESS_REALLOC_SIZE) = length out + 10240"
    using assms(3) len sz by (subst unat_add_u32) simp_all
  show ?thesis
    using True assms(1,2) len sum sz by (auto simp: decode_grow_def Let_def decoding_def)
qed

text \<open>One call of \<open>inflate\<close>.\<close>

lemma decode_call:
  assumes "decoding src k out z w dstlen" and "length out < unat dstlen" and "drop k src = b # bs"
    and "inflate z [b] 1 = (err, z', used, outp)" and "used \<le> 1" and "length outp \<le> 1"
    and "length src < 2 ^ 32"
  shows "\<exists>w'. z_call inflate src (w\<lparr>zs_avail_in := 1, zs_avail_out := 1\<rparr>) = Inr (err, w')
    \<and> decoding src (k + used) (out @ outp) z' w' dstlen"
proof -
  have k: "k < length src" using assms(3) by (metis drop_all list.distinct(1) not_less)
  then have "take 1 (drop k src) = [b]" using assms(3) by simp
  then have inp: "z_input src (In_src k) 1 = Some [b]" using k by (simp add: z_input_def)
  have ti: "unat (zs_total_in w + of_nat used) = k + used"
    using assms(1,5,7) k by (subst unat_add_u32) (simp_all add: decoding_def unat_of_nat_u32)
  have "length out + length outp < 2 ^ 32" using assms(2,6) unat_less_u32 [of dstlen] by linarith
  then have "length outp < 2 ^ 32" "unat (zs_total_out w) + length outp < 2 ^ 32"
    using assms(1) by (simp_all add: decoding_def)
  then have to: "unat (zs_total_out w + of_nat (length outp)) = length out + length outp"
    using assms(1) by (subst unat_add_u32) (simp_all add: decoding_def unat_of_nat_u32)
  have room: "length out + length outp \<le> length (zs_dst w)" using assms(1,2,6) by (simp add: decoding_def)
  have "take (length out + length outp) (blit (length out) outp (zs_dst w)) = out @ outp"
    using room assms(1) by (simp add: blit_def decoding_def)
  then show ?thesis
    using assms(1,2,4,5,6) inp ti to room k by (auto simp: z_call_def decoding_def)
qed

lemma decode_loop_inflates:
  assumes "inflates inflate z bs plain z'"
    and "decoding src k out z w dstlen" and "drop k src = bs" and "srclen = of_nat (length src)"
    and "\<forall>n. can_alloc n" and "length src + length out + length plain + 10240 < 2 ^ 32"
  shows "\<exists>w' dstlen'. decode_loop inflate can_alloc src srclen w dstlen = Some (Inr (Some w'))
    \<and> zs_state w' = z' \<and> unat (zs_total_out w') = length (out @ plain) \<and> take (length (out @ plain)) (zs_dst w') = out @ plain"
  using assms
proof (induction arbitrary: k out w dstlen rule: inflates.induct)
  case (used_up z)
  then have "\<not> zs_total_in w < srclen"
    by (auto simp: decoding_def word_less_nat_alt unat_of_nat_u32)
  then show ?case using used_up by (subst decode_loop.simps) (auto simp: decoding_def)
next
  case (stream_end z b z' used outp bs)
  have k: "k < length src" using stream_end.prems(2) by (metis drop_all list.distinct(1) not_less)
  have lt: "zs_total_in w < srclen"
    using stream_end.prems k by (simp add: decoding_def word_less_nat_alt unat_of_nat_u32)
  obtain w1 d1 where g: "decode_grow can_alloc w dstlen = Inr (w1, d1)" "decoding src k out z w1 d1" "length out < unat d1"
    using decode_grow_room [OF stream_end.prems(1,4)] stream_end.prems(5) by auto
  obtain w2 where "z_call inflate src (w1\<lparr>zs_avail_in := 1, zs_avail_out := 1\<rparr>) = Inr (Z_STREAM_END, w2)"
      "decoding src (k + used) (out @ outp) z' w2 d1"
    using decode_call [where inflate = inflate, OF g(2,3) stream_end.prems(2) stream_end.hyps] stream_end.prems(5) by auto
  then show ?case using lt g(1) by (subst decode_loop.simps) (auto simp: decoding_def)
next
  case (more z b z' used outp bs plain z'')
  have k: "k < length src" using more.prems(2) by (metis drop_all list.distinct(1) not_less)
  have lt: "zs_total_in w < srclen"
    using more.prems k by (simp add: decoding_def word_less_nat_alt unat_of_nat_u32)
  obtain w1 d1 where g: "decode_grow can_alloc w dstlen = Inr (w1, d1)" "decoding src k out z w1 d1" "length out < unat d1"
    using decode_grow_room [OF more.prems(1,4)] more.prems(5) by auto
  obtain w2 where w2: "z_call inflate src (w1\<lparr>zs_avail_in := 1, zs_avail_out := 1\<rparr>) = Inr (Z_OK, w2)"
      "decoding src (k + used) (out @ outp) z' w2 d1"
    using decode_call [where inflate = inflate, OF g(2,3) more.prems(2) more.hyps(1-3)] more.prems(5) by auto
  have "drop (k + used) src = drop used (b # bs)" using more.prems(2) by (metis add.commute drop_drop)
  moreover have "length src + length (out @ outp) + length plain + 10240 < 2 ^ 32" using more.prems(5) by simp
  ultimately show ?case
    using more.IH [OF w2(2) _ more.prems(3,4)] lt g(1) w2(1)
    by (subst decode_loop.simps) (auto simp: z_defs)
qed

lemma decode_inflates:
  assumes "inflates inflate z0 src plain z'" and "inflateEnd z' = Z_OK" and "memory" and "\<forall>n. can_alloc n"
    and "length src + length plain + 10240 < 2 ^ 32"
  shows "\<exists>dst n. CCompressZip_decode memory z0 inflate inflateEnd can_alloc src (of_nat (length src)) = Some (Inr (Done dst n))
    \<and> unat n = length plain \<and> take (unat n) dst = plain"
proof -
  have "decoding src 0 [] z0 (new_z_stream z0 0 0 (of_nat (length src))) (of_nat (length src))"
    using assms(5) by (simp add: decoding_def new_z_stream_def unat_of_nat_u32)
  from decode_loop_inflates [OF assms(1) this _ refl assms(4)] assms(5)
  obtain w' where "decode_loop inflate can_alloc src (of_nat (length src)) (new_z_stream z0 0 0 (of_nat (length src))) (of_nat (length src))
      = Some (Inr (Some w'))" "zs_state w' = z'" "unat (zs_total_out w') = length plain" "take (length plain) (zs_dst w') = plain"
    by auto
  moreover have "inflateInit2 memory 47 = Z_OK"
    using assms(3) by (simp add: inflateInit2_def inflateReset2_def z_defs)
  ultimately show ?thesis using assms(2,4) by (simp add: CCompressZip_decode_def)
qed

text \<open>After a data error the next byte is read behind the two bytes of \<open>dummy_head\<close>.\<close>

lemma decode_data_error_faults:
  assumes "src = b # bs" and "bs \<noteq> []" and "length src < 2 ^ 31" and "memory" and "\<forall>n. can_alloc n"
    and "inflate z0 [b] 1 = (Z_DATA_ERROR, z1, used, [])" and "used \<le> 1"
    and "inflate z1 dummy_head 1 = (Z_OK, z2, 2, [])" and "used + 2 < length src"
  shows "CCompressZip_decode memory z0 inflate inflateEnd can_alloc src (of_nat (length src)) = Some (Inl MemFault)"
proof -
  let ?n = "of_nat (length src) :: u32" and ?w = "new_z_stream z0 0 0 (of_nat (length src))"
  have n: "unat ?n = length src" using assms(3) by (simp add: unat_of_nat_u32)
  then have n0: "?n \<noteq> 0" using assms(1) by auto
  have grow: "decode_grow can_alloc w ?n = Inr (w, ?n)" if "zs_total_out w = 0" for w :: "'a z_stream"
    using that n0 by (simp add: decode_grow_def)
  have len: "length dummy_head = 2" by (simp add: dummy_head_def)
  define w1 where "w1 = ?w\<lparr>zs_state := z1, zs_next_in := In_src used, zs_avail_in := 1 - of_nat used, zs_total_in := of_nat used,
      zs_avail_out := 1\<rparr>"
  have c1: "z_call inflate src (?w\<lparr>zs_avail_in := 1, zs_avail_out := 1\<rparr>) = Inr (Z_DATA_ERROR, w1)"
    using assms(1,6) by (simp add: z_call_def z_input_def new_z_stream_def w1_def)
  define w2 where "w2 = w1\<lparr>zs_state := z2, zs_next_in := In_dummy 2, zs_avail_in := 0, zs_total_in := of_nat used + 2\<rparr>"
  have c2: "z_call inflate src (w1\<lparr>zs_next_in := In_dummy 0, zs_avail_in := of_nat (length dummy_head)\<rparr>) = Inr (Z_OK, w2)"
    using assms(8) len by (simp add: z_call_def z_input_def w1_def w2_def new_z_stream_def)
  have c3: "z_call inflate src (w2\<lparr>zs_avail_in := 1, zs_avail_out := 1\<rparr>) = Inl MemFault"
    using len by (simp add: z_call_def z_input_def w2_def)
  have "unat (of_nat used + 2 :: u32) = used + 2" using assms(7) by (subst unat_add_u32) (simp_all add: unat_of_nat_u32)
  then have lt: "zs_total_in ?w < ?n" "zs_total_in w2 < ?n"
    using assms(1,9) n n0 by (simp_all add: new_z_stream_def w2_def word_less_nat_alt)
  have "decode_loop inflate can_alloc src ?n w2 ?n = Some (Inl MemFault)"
    using lt(2) c3 by (subst decode_loop.simps) (simp add: grow w2_def w1_def new_z_stream_def)
  then have "decode_loop inflate can_alloc src ?n ?w ?n = Some (Inl MemFault)"
    using lt(1) c1 c2 by (subst decode_loop.simps) (simp add: grow new_z_stream_def z_defs)
  then show ?thesis
    using assms(4,5) by (simp add: CCompressZip_decode_def inflateInit2_def inflateReset2_def z_defs)
qed

section \<open>Properties\<close>

text \<open>
  The ZIP object never compresses: its window size of 47 is refused by zlib's \<open>deflateInit2_\<close>
  whatever the memory, the data and the behaviour of \<open>deflate\<close>, so \<open>encode\<close> returns false and
  sets no result.
\<close>

lemma zip_encode_always_fails:
  "CCompressZip_encode memory z0 deflate deflateEnd can_alloc src srclen = Some (Inr Untouched)"
  by (simp add: CCompressZip_encode_def deflateInit2_def z_defs)

text \<open>
  C25. \<open>decode\<close> of the ZIP object returns what zlib writes: if \<open>inflate\<close>, offered the source a byte
  at a time with room for one byte, writes \<open>plain\<close> until it ends the stream or the source is used
  up, then the loop ends, growing its buffer as often as needed without leaving it, and gives
  true with the length of \<open>plain\<close> and a buffer that begins with it - also when the stream was cut
  short.
\<close>

theorem zip_decode_inflates:
  assumes "inflates inflate z0 src plain z'" and "inflateEnd z' = Z_OK" and "memory" and "\<forall>n. can_alloc n"
    and "length src + length plain + 10240 < 2 ^ 32"
  shows "\<exists>dst n. CCompressZip_decode memory z0 inflate inflateEnd can_alloc src (of_nat (length src)) = Some (Inr (Done dst n))
    \<and> unat n = length plain \<and> take (unat n) dst = plain"
  using assms by (rule decode_inflates)

text \<open>A zlib that writes every byte twice and ends at a zero byte.\<close>

definition twice :: "bool codec" where
  "twice z inp room =
     (if inp \<noteq> [] \<and> hd inp = 0 then (Z_STREAM_END, z, 1, [])
      else if z then (Z_OK, False, 1, take 1 inp) else (Z_OK, True, 0, take 1 inp))"

theorem zip_decode_inflates_witness:
  "\<exists>dst n. CCompressZip_decode True False twice (\<lambda>z. Z_OK) (\<lambda>n. True) [7, 8, 0] 3 = Some (Inr (Done dst n))
    \<and> unat n = 4 \<and> take (unat n) dst = [7, 7, 8, 8]"
proof -
  have "inflates twice False [0] [] False"
    by (rule inflates.stream_end [where used = 1]) (simp_all add: twice_def)
  then have "inflates twice True [8, 0] ([8] @ []) False"
    by (intro inflates.more [where used = 1]) (simp_all add: twice_def)
  then have "inflates twice False [8, 0] ([8] @ [8]) False"
    by (intro inflates.more [where used = 0]) (simp_all add: twice_def)
  then have "inflates twice True [7, 8, 0] ([7] @ [8, 8]) False"
    by (intro inflates.more [where used = 1]) (simp_all add: twice_def)
  then have "inflates twice False [7, 8, 0] ([7] @ [7, 8, 8]) False"
    by (intro inflates.more [where used = 0]) (simp_all add: twice_def)
  then have run: "inflates twice False [7, 8, 0] [7, 7, 8, 8] False" by simp
  have len: "of_nat (length [7, 8, 0 :: byte]) = (3 :: u32)" "length [7, 7, 8, 8 :: byte] = 4" by simp_all
  have "length [7, 8, 0 :: byte] + length [7, 7, 8, 8 :: byte] + 10240 < 2 ^ 32" by simp
  from zip_decode_inflates [OF run _ TrueI _ this, of "\<lambda>z. Z_OK" "\<lambda>n. True"] show ?thesis
    unfolding len by blast
qed

end
