(* ===== verification/Keep_Alive.thy ===== *)
theory Keep_Alive
  imports Rendezvous
begin

text \<open>
  A server on line and the tracker: every tick of the server's timer sends a ping
  (\<open>CRemoteServer::OnTimer\<close>), every tick of the tracker's ages its peers
  (\<open>CHttpRequestCommandPeerTracker::OnTimer\<close>).  The state is that of Rendezvous, the viewer's part
  unused.
\<close>

section \<open>Rounds\<close>

text \<open>The server's timer fires, and its ping goes to the tracker and is answered.\<close>

definition ping_turn :: "surroundings \<Rightarrow> rendezvous \<Rightarrow> rv_result" where
  "ping_turn env r = rv_bind (Some (ts_SendPing (rv_srv r))) (\<lambda>(_, s). srv_turn env (r\<lparr>rv_srv := s\<rparr>))"

fun tracker_ticks :: "nat \<Rightarrow> rendezvous \<Rightarrow> rv_result" where
  "tracker_ticks 0 r = Some (Inr r)"
| "tracker_ticks (Suc k) r = rv_bind (Some (tk_timer (rv_trk r))) (\<lambda>(w, _). tracker_ticks k (r\<lparr>rv_trk := w\<rparr>))"

fun keep_alive :: "surroundings \<Rightarrow> nat list \<Rightarrow> rendezvous \<Rightarrow> rv_result" where
  "keep_alive env [] r = Some (Inr r)"
| "keep_alive env (k # ks) r = rv_bind (tracker_ticks k r) (\<lambda>r. rv_bind (ping_turn env r) (keep_alive env ks))"

section \<open>One round\<close>

text \<open>The server's side between rounds, and the tracker's, with the server heard of \<open>n\<close> ticks ago.\<close>

definition ready_to_ping :: "track_srv \<Rightarrow> bool" where
  "ready_to_ping s \<longleftrightarrow> ts_bufferev s \<and> ts_event s \<and> ts_http s = resp_Clear \<and> ts_queue s = []
     \<and> (ts_state s = P2PTS_ONLINE \<or> ts_state s = P2PTS_PING)"

definition listed :: "surroundings \<Rightarrow> nat \<Rightarrow> peer_info \<Rightarrow> nat \<Rightarrow> rendezvous \<Rightarrow> bool" where
  "listed env q s n r \<longleftrightarrow> ready_to_ping (rv_srv r) \<and> (\<exists>c. tk_idle (rv_trk r) (sr_bev_srv env) q c)
     \<and> (\<exists>refs m. tk_peers (rv_trk r) = Some (refs, m) \<and> peers_ok m \<and> ages m (fst s) = Some n)"

lemma listed_live:
  "listed env q s n r \<Longrightarrow> \<exists>refs m. tk_peers (rv_trk r) = Some (refs, m) \<and> fst s \<in> fst ` set (GetLivePeer m)"
  using live_ages by (fastforce simp: listed_def)

lemma tracker_ticks_listed:
  "listed env q s n r \<Longrightarrow> n + k \<le> 5 \<Longrightarrow> \<exists>r'. tracker_ticks k r = Some (Inr r') \<and> listed env q s (n + k) r'
    \<and> rv_srv_calls r' = rv_srv_calls r \<and> rv_cli r' = rv_cli r"
proof (induction k arbitrary: n r)
  case (Suc k)
  from Suc.prems(1) obtain refs m c where m: "tk_peers (rv_trk r) = Some (refs, m)" "peers_ok m" "ages m (fst s) = Some n"
    and c: "tk_idle (rv_trk r) (sr_bev_srv env) q c" and p: "ready_to_ping (rv_srv r)"
    by (auto simp: listed_def)
  let ?w = "(rv_trk r)\<lparr>tk_peers := Some (refs, OnTimer m)\<rparr>"
  have "ages (OnTimer m) (fst s) = Some (Suc n)"
    using m(2,3) Suc.prems(2) by (simp add: ages_OnTimer age_step_def)
  then have "listed env q s (Suc n) (r\<lparr>rv_trk := ?w\<rparr>)"
    using c p m(2) peers_ok_OnTimer by (auto simp: listed_def tk_idle_def)
  from Suc.IH [OF this] Suc.prems(2) show ?case using m(1) by (simp add: tk_timer_def)
qed simp

lemma ping_answered:
  assumes "tk_idle (rv_trk r) (sr_bev_srv env) q c" and "tk_peers (rv_trk r) = Some (refs, m)"
    and "peer_ping s m = Some m'" and "forwards (sr_proxy_srv env) s" and "good_ip (fst s)" and "ready_to_ping (rv_srv r)"
  shows "ping_turn env r = Some (Inr (r\<lparr>rv_srv := (rv_srv r)\<lparr>ts_state := P2PTS_PING\<rparr>,
    rv_trk := (rv_trk r)\<lparr>tk_heap := (tk_heap (rv_trk r))(q \<mapsto> at_address s c), tk_peers := Some (refs, m')\<rparr>\<rparr>))"
proof -
  let ?s = "(rv_srv r)\<lparr>ts_state := P2PTS_PING\<rparr>" and ?w = "(rv_trk r)\<lparr>tk_heap := (tk_heap (rv_trk r))(q \<mapsto> at_address s c), tk_peers := Some (refs, m')\<rparr>"
  note good = good_command_item [OF user_agents(1), of 112]
  have "CHAR_IS_UNRESERVED 112" by code_simp
  note read = tk_command [OF assms(1,2) user_agents(1) assms(5) this, of "sr_now env" m' "[(sr_bev_srv env, ok_200 [])]"]
  have ping: "ts_SendPing (rv_srv r) = Inr (True, ?s\<lparr>ts_queue := [command_item 112]\<rparr>)"
    using assms(6) by (auto simp: ts_SendPing_def ts_push_def Let_def ready_to_ping_def command_item_def)
  have "srv_turn env (r\<lparr>rv_srv := ?s\<lparr>ts_queue := [command_item 112]\<rparr>\<rparr>)
      = rv_deliver env [(sr_bev_srv env, ok_200 [])] (r\<lparr>rv_srv := ?s\<lparr>ts_queue := []\<rparr>, rv_trk := ?w\<rparr>)"
    using read assms(3,6)
    by (intro srv_turn_one [where it = "command_item 112", THEN trans])
      (simp_all add: item_request_ok(3) [OF good assms(5,4)] OnPeerPing_def pt_Send200_ok ready_to_ping_def
        del: rv_deliver.simps)
  moreover have same: "?s\<lparr>ts_queue := []\<rparr> = ?s" using assms(6) by (cases "rv_srv r") (simp add: ready_to_ping_def)
  moreover have "ts_conn_readcb (sr_accepts env) (sr_port env) (ok_200 []) ?s = Inr (?s, [])"
    using assms(6) by (intro ts_reads_answer_ok) (simp_all add: ready_to_ping_def)
  ultimately show ?thesis using ping by (cases r) (simp add: ping_turn_def)
qed

lemma ping_turn_listed:
  assumes "listed env q s n r" and "forwards (sr_proxy_srv env) s" and "good_ip (fst s)"
  shows "\<exists>r'. ping_turn env r = Some (Inr r') \<and> listed env q s 0 r'
    \<and> rv_srv_calls r' = rv_srv_calls r \<and> rv_cli r' = rv_cli r"
proof -
  from assms(1) obtain refs m c where m: "tk_peers (rv_trk r) = Some (refs, m)" "peers_ok m" "ages m (fst s) = Some n"
    and c: "tk_idle (rv_trk r) (sr_bev_srv env) q c" and p: "ready_to_ping (rv_srv r)"
    by (auto simp: listed_def)
  have "peer_ping s m \<noteq> None" using m(3) by (auto simp: peer_ping_def ages_find [of m "fst s" "snd s"] split: option.split)
  then obtain m' where m': "peer_ping s m = Some m'" by auto
  then have "ages m' (fst s) = Some 0" using ages_ping [where q = s and m = m] m(3) by (simp add: age_step_def)
  moreover have "peers_ok m'" by (rule peers_ok_ping [OF m(2) m'])
  ultimately show ?thesis
    using ping_answered [OF c m(1) m' assms(2,3) p] c p by (auto simp: listed_def tk_idle_def ready_to_ping_def)
qed

lemma keep_alive_listed:
  "listed env q s 0 r \<Longrightarrow> forwards (sr_proxy_srv env) s \<Longrightarrow> good_ip (fst s) \<Longrightarrow> \<forall>k \<in> set ks. k \<le> 5 \<Longrightarrow>
   \<exists>r'. keep_alive env ks r = Some (Inr r') \<and> listed env q s 0 r' \<and> rv_srv_calls r' = rv_srv_calls r"
proof (induction ks arbitrary: r)
  case (Cons k ks)
  obtain r1 where r1: "tracker_ticks k r = Some (Inr r1)" "listed env q s (0 + k) r1" "rv_srv_calls r1 = rv_srv_calls r"
    using tracker_ticks_listed [OF Cons.prems(1), of k] Cons.prems(4) by auto
  obtain r2 where r2: "ping_turn env r1 = Some (Inr r2)" "listed env q s 0 r2" "rv_srv_calls r2 = rv_srv_calls r1"
    using ping_turn_listed [OF r1(2) Cons.prems(2,3)] by blast
  from Cons.IH [OF r2(2) Cons.prems(2,3)] Cons.prems(4) r1 r2 show ?case by simp
qed simp

lemma tracker_ticks_add: "tracker_ticks (j + k) r = rv_bind (tracker_ticks j r) (tracker_ticks k)"
  by (induction j arbitrary: r) (simp_all add: tk_timer_def)

text \<open>Without a ping the sixth tick takes the server off the list.\<close>

lemma sixth_tick_drops:
  assumes "listed env q s 0 r"
  shows "\<exists>r' refs m. tracker_ticks 6 r = Some (Inr r') \<and> tk_peers (rv_trk r') = Some (refs, m) \<and> fst s \<notin> fst ` set (GetLivePeer m)"
proof -
  obtain r1 where r1: "tracker_ticks 5 r = Some (Inr r1)" "listed env q s 5 r1"
    using tracker_ticks_listed [OF assms, of 5] by auto
  then obtain refs m where m: "tk_peers (rv_trk r1) = Some (refs, m)" "peers_ok m" "ages m (fst s) = Some 5"
    by (auto simp: listed_def)
  have "ages (OnTimer m) (fst s) = None" using m(2,3) by (simp add: ages_OnTimer age_step_def)
  then have "fst s \<notin> fst ` set (GetLivePeer (OnTimer m))"
    using live_ages [OF peers_ok_OnTimer [OF m(2)]] by auto
  then show ?thesis using tracker_ticks_add [of 5 1 r] r1(1) m(1) by (simp add: tk_timer_def)
qed

section \<open>Properties\<close>



end
