(* ===== verification/Server_Lifecycle.thy ===== *)
theory Server_Lifecycle
  imports Remote_Server Keep_Alive
begin

text \<open>
  The life of CRemoteServer (RemoteDesktopServer/RemoteServer.cpp) around its clients: the thread
  that goes on line at the tracker and runs the event loop, the listener, the timers, and
  \<open>Stop\<close>.  The outcomes of starting the thread, of the tracker client's connecting, of binding the
  listener and of connecting to a peer are parameters; the clients are the \<open>remote_server\<close> of
  Remote_Server and the tracker client the \<open>track_srv\<close> of Tracker_Client_Server.
\<close>

section \<open>State\<close>

text \<open>
  \<open>sp_loop\<close>: the thread is in \<open>event_base_dispatch\<close>; \<open>sp_exit\<close>: it was asked to leave it;
  \<open>sp_hold\<close> and \<open>sp_delay\<close>: the two timers of the window.
\<close>

record server_program =
  sp_thread :: bool
  sp_event_base :: bool
  sp_hwnd :: bool
  sp_hold :: bool
  sp_delay :: bool
  sp_listening :: "u16 list"
  sp_loop :: bool
  sp_exit :: bool
  sp_track :: track_srv
  sp_server :: remote_server

datatype sp_out =
    Sp_write "byte list"
  | Sp_OnStart
  | Sp_OnStop
  | Sp_peer_write peer_info "byte list"
  | Sp_client nat conn_out

definition new_server_program :: "u32 \<Rightarrow> screen \<Rightarrow> server_program" where
  "new_server_program ip scr = \<lparr>sp_thread = False, sp_event_base = False, sp_hwnd = True, sp_hold = False, sp_delay = False,
     sp_listening = [], sp_loop = False, sp_exit = False, sp_track = ts_CP2PTrackerClient ip, sp_server = CRemoteServer scr\<rparr>"

section \<open>Calls of the tracker client\<close>

definition sp_OnServerConnectSuccess :: "bool \<Rightarrow> u16 \<Rightarrow> server_program \<Rightarrow> server_program \<times> sp_out list" where
  "sp_OnServerConnectSuccess binds tcp_port w =
     (if \<not> binds then (w, [])
      else (w\<lparr>sp_listening := sp_listening w @ [tcp_port], sp_hold := sp_hwnd w\<rparr>, if sp_hwnd w then [Sp_OnStart] else []))"

definition sp_OnServerConnectFailed :: "server_program \<Rightarrow> server_program" where
  "sp_OnServerConnectFailed w = (if sp_event_base w then w\<lparr>sp_exit := True\<rparr> else w)"

definition sp_OnServerDisconnect :: "server_program \<Rightarrow> server_program" where
  "sp_OnServerDisconnect w = w\<lparr>sp_hold := False\<rparr>"

definition sp_OnPeerConnecting :: "(peer_info \<Rightarrow> bool) \<Rightarrow> peer_info \<Rightarrow> server_program \<Rightarrow> bool \<times> server_program \<times> sp_out list" where
  "sp_OnPeerConnecting connects peer w =
     (if connects peer then (True, w\<lparr>sp_delay := sp_hwnd w\<rparr>, [Sp_peer_write peer (str ''invalid message.'')])
      else (False, w, []))"

definition sp_call :: "(peer_info \<Rightarrow> bool) \<Rightarrow> bool \<Rightarrow> ts_out \<Rightarrow> server_program \<Rightarrow> server_program \<times> sp_out list" where
  "sp_call connects binds c w =
     (case c of
        Ts_write data \<Rightarrow> (w, [Sp_write data])
      | Ts_connect_success tcp_port \<Rightarrow> sp_OnServerConnectSuccess binds tcp_port w
      | Ts_connect_failed \<Rightarrow> (sp_OnServerConnectFailed w, [])
      | Ts_peer_connecting peer \<Rightarrow> snd (sp_OnPeerConnecting connects peer w))"

fun sp_calls :: "(peer_info \<Rightarrow> bool) \<Rightarrow> bool \<Rightarrow> ts_out list \<Rightarrow> server_program \<Rightarrow> server_program \<times> sp_out list" where
  "sp_calls connects binds [] w = (w, [])"
| "sp_calls connects binds (c # cs) w =
     (let (w, o1) = sp_call connects binds c w; (w, o2) = sp_calls connects binds cs w in (w, o1 @ o2))"

text \<open>A read from the tracker; the answer to a peer is the outcome of \<open>OnPeerConnecting\<close>.\<close>

definition sp_track_read ::
    "(peer_info \<Rightarrow> bool) \<Rightarrow> bool \<Rightarrow> u16 \<Rightarrow> byte list \<Rightarrow> server_program \<Rightarrow> sb_error + server_program \<times> sp_out list" where
  "sp_track_read connects binds local_port data w =
     rd_bind (ts_conn_readcb (\<lambda>peer. fst (sp_OnPeerConnecting connects peer w)) local_port data (sp_track w)) (\<lambda>(t, calls).
       Inr (sp_calls connects binds calls (w\<lparr>sp_track := t\<rparr>)))"

section \<open>The thread\<close>

definition sp_Start :: "bool \<Rightarrow> server_program \<Rightarrow> bool \<times> server_program" where
  "sp_Start thread_ok w = (if sp_thread w then (True, w) else (thread_ok, w\<lparr>sp_thread := thread_ok\<rparr>))"

definition sp_DoStart_end :: "server_program \<Rightarrow> nat \<times> server_program \<times> sp_out list" where
  "sp_DoStart_end w =
     (0, w\<lparr>sp_event_base := False, sp_loop := False, sp_exit := False\<rparr>, if sp_hwnd w then [Sp_OnStop] else [])"

text \<open>Up to the loop, or to the end if the tracker client cannot go on line.\<close>

definition sp_DoStart_begin ::
    "bool \<Rightarrow> u32 option \<Rightarrow> bool \<Rightarrow> bool \<Rightarrow> server_program \<Rightarrow> sb_error + nat option \<times> server_program \<times> sp_out list" where
  "sp_DoStart_begin base_ok dns connects event_ok w =
     (if \<not> base_ok then Inr (Some 1, w, [])
      else
        let (bInit, t, calls) = ts_Init dns connects event_ok (sp_track w);
            (w, o1) = sp_calls (\<lambda>_. False) False calls (w\<lparr>sp_event_base := True, sp_track := t\<rparr>) in
        rd_bind (if bInit then ts_SendOnline (sp_track w) else Inr (False, sp_track w)) (\<lambda>(bTrack, t).
          let w = w\<lparr>sp_track := t\<rparr> in
          if bTrack then Inr (None, w\<lparr>sp_loop := True\<rparr>, o1)
          else let (n, w, o2) = sp_DoStart_end w in Inr (Some n, w, o1 @ o2)))"

definition TIMERID_P2PTRACKER_PEER_HOLD :: nat where "TIMERID_P2PTRACKER_PEER_HOLD = 0"
definition TIMERID_PEER_CONNECTING_DELAY_CLOSE :: nat where "TIMERID_PEER_CONNECTING_DELAY_CLOSE = 1"

definition sp_OnTimer :: "nat \<Rightarrow> server_program \<Rightarrow> sb_error + server_program" where
  "sp_OnTimer timer w =
     (if timer = TIMERID_P2PTRACKER_PEER_HOLD then rd_bind (ts_SendPing (sp_track w)) (\<lambda>(_, t). Inr (w\<lparr>sp_track := t\<rparr>))
      else Inr w)"

text \<open>An error of the listener.\<close>

definition sp_accept_error_cb :: "server_program \<Rightarrow> sb_error + server_program" where
  "sp_accept_error_cb w =
     rd_bind (ts_SendOffline (sp_track w)) (\<lambda>(_, t). Inr (w\<lparr>sp_track := ts_Uninit t, sp_exit := True\<rparr>))"

text \<open>\<open>Stop\<close>: the clients, then the tracker client if there is an event base, then the window.\<close>

definition sp_stop_tracker :: "server_program \<Rightarrow> sb_error + server_program" where
  "sp_stop_tracker w =
     (if \<not> sp_event_base w then Inr w
      else
        rd_bind (ts_SendOffline (sp_track w)) (\<lambda>(_, t).
          Inr (w\<lparr>sp_track := ts_Uninit t, sp_hold := sp_hold w \<and> \<not> sp_hwnd w, sp_delay := sp_delay w \<and> \<not> sp_hwnd w,
                 sp_exit := True\<rparr>)))"

definition sp_DestroyWindow :: "server_program \<Rightarrow> server_program" where
  "sp_DestroyWindow w = (if sp_hwnd w then w\<lparr>sp_hwnd := False, sp_hold := False, sp_delay := False\<rparr> else w)"

definition sp_Stop :: "env \<Rightarrow> server_program \<Rightarrow> sb_error + server_program \<times> sp_out list" where
  "sp_Stop e w =
     rd_bind (srv_Stop e (sp_server w)) (\<lambda>(s, outs).
     rd_bind (sp_stop_tracker (w\<lparr>sp_server := s\<rparr>)) (\<lambda>w.
     Inr (sp_DestroyWindow w, map (\<lambda>(q, out). Sp_client q out) outs)))"

text \<open>The send event of the tracker client.\<close>

definition sp_track_send :: "server_program \<Rightarrow> server_program \<times> sp_out list" where
  "sp_track_send w =
     (let (t, calls) = ts_OnAsynSendHttp (sp_track w) in sp_calls (\<lambda>_. False) False calls (w\<lparr>sp_track := t\<rparr>))"

section \<open>Steps\<close>

text \<open>
  Without an exit the loop ends when it has no event left to wait for: neither the tracker's
  bufferevent nor a listener.
\<close>

inductive sp_step :: "env \<Rightarrow> server_program \<Rightarrow> server_program \<Rightarrow> bool" for e where
  step_start: "\<not> sp_thread w \<Longrightarrow> sp_Start True w = (r, w1) \<Longrightarrow>
    sp_DoStart_begin base_ok dns connects event_ok w1 = Inr (res, w', outs) \<Longrightarrow> sp_step e w w'"
| step_end: "sp_loop w \<Longrightarrow> sp_exit w \<or> \<not> ts_bufferev (sp_track w) \<and> sp_listening w = [] \<Longrightarrow>
    sp_DoStart_end w = (n, w', outs) \<Longrightarrow> sp_step e w w'"
| step_send: "sp_loop w \<Longrightarrow> ts_event (sp_track w) \<Longrightarrow> sp_track_send w = (w', outs) \<Longrightarrow> sp_step e w w'"
| step_read: "sp_loop w \<Longrightarrow> ts_bufferev (sp_track w) \<Longrightarrow>
    sp_track_read accepts binds local_port data w = Inr (w', outs) \<Longrightarrow> sp_step e w w'"
| step_timer: "sp_hold w \<or> sp_delay w \<Longrightarrow> sp_OnTimer timer w = Inr w' \<Longrightarrow> sp_step e w w'"
| step_accept_error: "sp_loop w \<Longrightarrow> sp_listening w \<noteq> [] \<Longrightarrow> sp_accept_error_cb w = Inr w' \<Longrightarrow> sp_step e w w'"
| step_clients: "srv_step e (sp_server w) s \<Longrightarrow> sp_step e w (w\<lparr>sp_server := s\<rparr>)"
| step_stop: "sp_Stop e w = Inr (w', outs) \<Longrightarrow> sp_step e w w'"

inductive sp_reachable :: "env \<Rightarrow> server_program \<Rightarrow> bool" for e where
  start: "sp_reachable e (new_server_program ip scr)"
| step: "sp_reachable e w \<Longrightarrow> sp_step e w w' \<Longrightarrow> sp_reachable e w'"

section \<open>The tracker client\<close>

text \<open>What the operations of the tracker client keep: it never opens its bufferevent again.\<close>

definition ts_linked :: "track_srv \<Rightarrow> bool" where
  "ts_linked t \<longleftrightarrow> (ts_event t \<longrightarrow> ts_bufferev t)"

definition ts_shrinks :: "track_srv \<Rightarrow> track_srv \<Rightarrow> bool" where
  "ts_shrinks t t' \<longleftrightarrow> (ts_linked t \<longrightarrow> ts_linked t') \<and> (ts_bufferev t' \<longrightarrow> ts_bufferev t)"

lemma ts_shrinks_refl [simp]: "ts_shrinks t t"
  by (simp add: ts_shrinks_def)

lemma ts_shrinks_trans: "ts_shrinks t u \<Longrightarrow> ts_shrinks u v \<Longrightarrow> ts_shrinks t v"
  by (auto simp: ts_shrinks_def)

lemma ts_shrinks_upd [simp]:
  "ts_shrinks t (u\<lparr>ts_state := x\<rparr>) = ts_shrinks t u" "ts_shrinks t (u\<lparr>ts_queue := q\<rparr>) = ts_shrinks t u"
  "ts_shrinks t (u\<lparr>ts_ping_failed := n\<rparr>) = ts_shrinks t u" "ts_shrinks t (u\<lparr>ts_http := d\<rparr>) = ts_shrinks t u"
  "ts_shrinks t (u\<lparr>ts_base := b\<rparr>) = ts_shrinks t u" "ts_shrinks (u\<lparr>ts_http := d\<rparr>) t = ts_shrinks u t"
  by (simp_all add: ts_shrinks_def ts_linked_def)

lemma ts_CloseClient_shrinks [simp]: "ts_shrinks t (ts_CloseClient u)" "\<not> ts_bufferev (ts_CloseClient u)"
  by (simp_all add: ts_CloseClient_def ts_shrinks_def ts_linked_def)

lemma ts_push_shrinks: "ts_push it t = Inr t' \<Longrightarrow> ts_shrinks t t'"
  by (auto simp: ts_push_def Let_def split: if_splits)

lemma ts_Send_shrinks:
  "ts_SendOnline t = Inr (r, t') \<Longrightarrow> ts_shrinks t t'" "ts_SendPing t = Inr (r, t') \<Longrightarrow> ts_shrinks t t'"
  "ts_SendOffline t = Inr (r, t') \<Longrightarrow> ts_shrinks t t'"
  by (auto simp: ts_SendOnline_def ts_SendPing_def ts_SendOffline_def ts_push_def Let_def split: if_splits)

lemma ts_OnHttpResponse_shrinks:
  assumes "ts_OnHttpResponse accepts local_port hs b t = Inr (t', calls)"
  shows "ts_shrinks t t'" and "Ts_connect_failed \<in> set calls \<Longrightarrow> \<not> ts_bufferev t'"
  using assms
  by (auto simp: ts_OnHttpResponse_def ts_OnPeerConnecting_def ts_OnServerConnectSuccess_def ts_OnServerConnectFailed_def
      ts_OnServerPingFailed_def ts_OnServerOfflineFinish_def Let_def rd_bind_Inr dest!: ts_push_shrinks
      split: option.splits if_splits P2PTRACKER_STATE.splits)

lemma ts_run_shrinks:
  "ts_run accepts local_port es t = Inr (t', calls) \<Longrightarrow>
   ts_shrinks t t' \<and> (Ts_connect_failed \<in> set calls \<longrightarrow> \<not> ts_bufferev t')"
proof (induction es arbitrary: t calls)
  case Nil
  then show ?case by (auto split: if_splits)
next
  case (Cons e es)
  from Cons.prems obtain t1 o1 o2 where run: "ts_run accepts local_port es t1 = Inr (t', o2)" and calls: "calls = o1 @ o2"
    and e: "(case e of Message line headers body \<Rightarrow>
          if isl line then Inl MemFault else ts_OnHttpResponse accepts local_port headers body t
        | Bad_line \<Rightarrow> Inr (t, []) | Header_block headers \<Rightarrow> Inr (t, [])) = Inr (t1, o1)"
    by (auto simp: rd_bind_Inr)
  have one: "ts_shrinks t t1" "Ts_connect_failed \<in> set o1 \<Longrightarrow> \<not> ts_bufferev t1"
    using e ts_OnHttpResponse_shrinks by (auto split: http_event.splits if_splits)
  from Cons.IH [OF run] show ?case
    using one ts_shrinks_trans [OF one(1)] calls by (auto simp: ts_shrinks_def)
qed

lemma ts_conn_readcb_shrinks:
  assumes "ts_conn_readcb accepts local_port data t = Inr (t', calls)"
  shows "ts_shrinks t t' \<and> (Ts_connect_failed \<in> set calls \<longrightarrow> \<not> ts_bufferev t')"
  using assms ts_run_shrinks [of accepts local_port _ "t\<lparr>ts_http := _\<rparr>" t' calls]
  by (auto simp: ts_conn_readcb_def split: if_splits prod.splits)

lemma ts_Init_calls:
  assumes "ts_Init dns connects event_ok t = (r, t', calls)" and "\<not> ts_bufferev t" and "ts_linked t"
  shows "ts_linked t'" "ts_bufferev t' = r" "r \<Longrightarrow> calls = []"
  using assms
  by (auto simp: ts_Init_def ts_Connect_def ts_OnServerConnectFailed_def ts_CloseClient_def ts_linked_def Let_def
      split: option.splits if_splits)

section \<open>Invariant\<close>

text \<open>
  The loop runs on the event base, in a started thread; while the tracker client has its
  bufferevent the event base exists and no exit was asked for; the ping timer runs only while
  the window is alive, and only after a listener was bound; the clients are consistent.
\<close>

definition sp_ok :: "server_program \<Rightarrow> bool" where
  "sp_ok w \<longleftrightarrow> (sp_loop w \<longrightarrow> sp_event_base w) \<and> (sp_event_base w \<longrightarrow> sp_thread w)
     \<and> (sp_exit w \<longrightarrow> sp_event_base w \<and> \<not> ts_bufferev (sp_track w))
     \<and> (ts_bufferev (sp_track w) \<longrightarrow> sp_event_base w) \<and> ts_linked (sp_track w)
     \<and> (sp_hold w \<longrightarrow> sp_hwnd w \<and> sp_listening w \<noteq> []) \<and> srv_inv (\<lambda>_. 0) (sp_server w)"

definition sp_inv :: "server_program \<Rightarrow> bool" where
  "sp_inv w \<longleftrightarrow> sp_ok w \<and> (sp_event_base w \<longrightarrow> sp_loop w)"

lemma sp_call_keeps:
  assumes "sp_call connects binds c w = (w', outs)"
  shows "sp_track w' = sp_track w" "sp_event_base w' = sp_event_base w" "sp_thread w' = sp_thread w"
    "sp_loop w' = sp_loop w" "sp_hwnd w' = sp_hwnd w" "sp_server w' = sp_server w"
    "sp_exit w' \<Longrightarrow> sp_exit w \<or> c = Ts_connect_failed \<and> sp_event_base w"
    "sp_hold w' \<Longrightarrow> sp_hold w \<or> sp_hwnd w \<and> sp_listening w' \<noteq> []" "sp_listening w \<noteq> [] \<Longrightarrow> sp_listening w' \<noteq> []"
  using assms
  by (auto simp: sp_call_def sp_OnServerConnectSuccess_def sp_OnServerConnectFailed_def sp_OnPeerConnecting_def
      split: ts_out.splits if_splits)

lemma sp_calls_keep:
  "sp_calls connects binds cs w = (w', outs) \<Longrightarrow> sp_ok w \<Longrightarrow> Ts_connect_failed \<in> set cs \<longrightarrow> \<not> ts_bufferev (sp_track w) \<Longrightarrow>
   sp_ok w' \<and> sp_track w' = sp_track w \<and> sp_loop w' = sp_loop w \<and> sp_event_base w' = sp_event_base w"
proof (induction cs arbitrary: w outs)
  case (Cons c cs)
  obtain w1 o1 where c: "sp_call connects binds c w = (w1, o1)" by fastforce
  then obtain o2 where cs: "sp_calls connects binds cs w1 = (w', o2)"
    using Cons.prems(1) by (auto split: prod.splits)
  note k = sp_call_keeps [OF c]
  have "sp_ok w1"
    using Cons.prems(2,3) k unfolding sp_ok_def by auto
  with Cons.IH [OF cs] Cons.prems(3) k show ?case by auto
qed simp

lemma sp_track_upd_ok: "sp_ok w \<Longrightarrow> ts_shrinks (sp_track w) t \<Longrightarrow> sp_ok (w\<lparr>sp_track := t\<rparr>)"
  by (auto simp: sp_ok_def ts_shrinks_def)

lemma sp_DoStart_end_inv:
  "sp_DoStart_end w = (n, w', outs) \<Longrightarrow> sp_ok w \<Longrightarrow> \<not> ts_bufferev (sp_track w) \<Longrightarrow> sp_inv w'"
  by (auto simp: sp_DoStart_end_def sp_inv_def sp_ok_def)

lemma sp_start_inv:
  assumes "sp_DoStart_begin base_ok dns connects event_ok w = Inr (res, w', outs)" and "sp_inv w" and "sp_thread w"
    and "\<not> sp_event_base w"
  shows "sp_inv w'"
proof (cases base_ok)
  case False
  then show ?thesis using assms by (simp add: sp_DoStart_begin_def)
next
  case True
  have off: "\<not> ts_bufferev (sp_track w)" "ts_linked (sp_track w)" "\<not> sp_loop w" "\<not> sp_exit w"
    using assms(2,4) by (auto simp: sp_inv_def sp_ok_def)
  obtain r t calls where i: "ts_Init dns connects event_ok (sp_track w) = (r, t, calls)"
    by (cases "ts_Init dns connects event_ok (sp_track w)")
  note t = ts_Init_calls [OF i off(1,2)]
  obtain w1 o1 where c: "sp_calls (\<lambda>_. False) False calls (w\<lparr>sp_event_base := True, sp_track := t\<rparr>) = (w1, o1)" by fastforce
  have "sp_ok (w\<lparr>sp_event_base := True, sp_track := t\<rparr>)"
    using assms(2,3) off t(1) by (auto simp: sp_inv_def sp_ok_def)
  from sp_calls_keep [OF c this] t(2,3)
  have k: "sp_ok w1" "sp_track w1 = t" "sp_event_base w1" by auto
  have eq: "sp_DoStart_begin base_ok dns connects event_ok w
      = rd_bind (if r then ts_SendOnline t else Inr (False, t)) (\<lambda>(bTrack, t).
          if bTrack then Inr (None, w1\<lparr>sp_track := t, sp_loop := True\<rparr>, o1)
          else let (n, w, o2) = sp_DoStart_end (w1\<lparr>sp_track := t\<rparr>) in Inr (Some n, w, o1 @ o2))"
    using True i c k(2) by (simp add: sp_DoStart_begin_def Let_def)
  show ?thesis
  proof (cases r)
    case False
    then have "sp_ok (w1\<lparr>sp_track := t\<rparr>)" using k(1,2) sp_track_upd_ok [OF k(1), of t] by simp
    with False show ?thesis
      using assms(1) t(2) sp_DoStart_end_inv [of "w1\<lparr>sp_track := t\<rparr>"] unfolding eq by (auto split: prod.splits)
  next
    case r: True
    then obtain ok t2 where s: "ts_SendOnline t = Inr (ok, t2)"
      using assms(1) unfolding eq by (auto simp: rd_bind_Inr)
    then have ok: "ok" using t(2) r by (auto simp: ts_SendOnline_def rd_bind_Inr Let_def)
    have "sp_ok (w1\<lparr>sp_track := t2\<rparr>)"
      using sp_track_upd_ok [OF k(1)] ts_Send_shrinks(1) [OF s] k(2) by simp
    then have "sp_inv (w1\<lparr>sp_track := t2, sp_loop := True\<rparr>)" using k(3) by (simp add: sp_inv_def sp_ok_def)
    then show ?thesis using assms(1) r s ok unfolding eq by simp
  qed
qed

lemma ts_Uninit_off [simp]: "\<not> ts_bufferev (ts_Uninit t)" "ts_linked (ts_Uninit t)" "\<not> ts_event (ts_Uninit t)"
  by (simp_all add: ts_Uninit_def ts_CloseClient_def ts_linked_def)

lemma sp_stop_tracker_inv: "sp_stop_tracker w = Inr w' \<Longrightarrow> sp_inv w \<Longrightarrow> sp_inv w'"
  by (auto simp: sp_stop_tracker_def sp_inv_def sp_ok_def rd_bind_Inr split: if_splits)

lemma sp_DestroyWindow_inv: "sp_inv w \<Longrightarrow> sp_inv (sp_DestroyWindow w)"
  by (auto simp: sp_DestroyWindow_def sp_inv_def sp_ok_def)

lemma sp_Stop_inv:
  assumes "sp_Stop e w = Inr (w', outs)" and "sp_inv w"
  shows "sp_inv w'"
proof -
  obtain s couts w1 where s: "srv_Stop e (sp_server w) = Inr (s, couts)"
    and w1: "sp_stop_tracker (w\<lparr>sp_server := s\<rparr>) = Inr w1" and w': "w' = sp_DestroyWindow w1"
    using assms(1) by (auto simp: sp_Stop_def rd_bind_Inr)
  have "srv_inv (\<lambda>_. 0) s"
    using srv_step_inv [OF srv_step.stop [OF s]] assms(2) by (simp add: sp_inv_def sp_ok_def)
  then have "sp_inv (w\<lparr>sp_server := s\<rparr>)" using assms(2) by (simp add: sp_inv_def sp_ok_def)
  then show ?thesis unfolding w' by (intro sp_DestroyWindow_inv sp_stop_tracker_inv [OF w1])
qed

lemma sp_step_inv: "sp_step e w w' \<Longrightarrow> sp_inv w \<Longrightarrow> sp_inv w'"
proof (induction rule: sp_step.induct)
  case (step_start w r w1 base_ok dns connects event_ok res w' outs)
  have "w1 = w\<lparr>sp_thread := True\<rparr>" using step_start.hyps(1,2) by (auto simp: sp_Start_def)
  with step_start show ?case
    by (intro sp_start_inv [OF step_start.hyps(3)]) (auto simp: sp_inv_def sp_ok_def)
next
  case (step_end w n w' outs)
  then show ?case by (intro sp_DoStart_end_inv [OF step_end.hyps(3)]) (auto simp: sp_inv_def sp_ok_def)
next
  case (step_send w w' outs)
  obtain t calls where c: "ts_OnAsynSendHttp (sp_track w) = (t, calls)" by fastforce
  then have "ts_shrinks (sp_track w) t" "Ts_connect_failed \<notin> set calls"
    by (auto simp: ts_OnAsynSendHttp_def split: if_splits)
  then show ?case
    using step_send.hyps(3) step_send.prems c sp_calls_keep sp_track_upd_ok
    by (fastforce simp: sp_track_send_def sp_inv_def)
next
  case (step_read w accepts binds local_port data w' outs)
  then obtain t calls where c: "ts_conn_readcb (\<lambda>peer. fst (sp_OnPeerConnecting accepts peer w)) local_port data (sp_track w) = Inr (t, calls)"
    and w': "sp_calls accepts binds calls (w\<lparr>sp_track := t\<rparr>) = (w', outs)"
    by (auto simp: sp_track_read_def rd_bind_Inr)
  note sh = ts_conn_readcb_shrinks [OF c]
  have "sp_ok (w\<lparr>sp_track := t\<rparr>)" using sp_track_upd_ok sh step_read.prems by (simp add: sp_inv_def)
  from sp_calls_keep [OF w' this] sh step_read.prems show ?case by (simp add: sp_inv_def)
next
  case (step_timer w timer w')
  then show ?case
    using ts_Send_shrinks(2) sp_track_upd_ok by (fastforce simp: sp_OnTimer_def rd_bind_Inr sp_inv_def split: if_splits)
next
  case (step_accept_error w w')
  then show ?case
    by (auto simp: sp_accept_error_cb_def rd_bind_Inr sp_inv_def sp_ok_def ts_Uninit_def ts_CloseClient_def ts_linked_def)
next
  case (step_clients w s)
  then show ?case using srv_step_inv by (simp add: sp_inv_def sp_ok_def)
next
  case (step_stop w w' outs)
  then show ?case using sp_Stop_inv by blast
qed

lemma sp_reachable_inv: "sp_reachable e w \<Longrightarrow> sp_inv w"
proof (induction rule: sp_reachable.induct)
  case (start ip scr)
  show ?case
    using srv_reachable_inv [OF srv_reachable.start]
    by (simp add: new_server_program_def sp_inv_def sp_ok_def ts_CP2PTrackerClient_def ts_linked_def)
qed (blast intro: sp_step_inv)

section \<open>Stopping\<close>

definition offline_item :: http_item where
  "offline_item = \<lparr>it_path = str ''/p'', it_body = str ''c=e'',
     it_headers = snd (evhttp_add_header [] (str ''Connection'') (str ''Close''))\<rparr>"

lemma ts_SendOffline_queues:
  "ts_bufferev t \<Longrightarrow> ts_event t \<Longrightarrow> ts_state t \<noteq> P2PTS_INVALID \<Longrightarrow>
   ts_SendOffline t = Inr (True, t\<lparr>ts_state := P2PTS_OFFLINE, ts_queue := ts_queue t @ [offline_item]\<rparr>)"
  by (simp add: ts_SendOffline_def ts_push_def Let_def offline_item_def)

lemma stopped:
  assumes "sp_Stop e w = Inr (w', outs)" and "sp_event_base w"
    and "ts_bufferev (sp_track w)" and "ts_event (sp_track w)" and "ts_state (sp_track w) \<noteq> P2PTS_INVALID"
  shows "ts_queue (sp_track w') = ts_queue (sp_track w) @ [offline_item]" and "sp_track_send w' = (w', [])"
    and "Sp_write d \<notin> set outs" and "sp_exit w'"
proof -
  obtain s couts where s: "srv_Stop e (sp_server w) = Inr (s, couts)" and o: "outs = map (\<lambda>(q, out). Sp_client q out) couts"
    and w': "w' = sp_DestroyWindow (w\<lparr>sp_server := s, sp_track := ts_Uninit ((sp_track w)\<lparr>ts_state := P2PTS_OFFLINE,
        ts_queue := ts_queue (sp_track w) @ [offline_item]\<rparr>), sp_hold := sp_hold w \<and> \<not> sp_hwnd w,
        sp_delay := sp_delay w \<and> \<not> sp_hwnd w, sp_exit := True\<rparr>)"
    using assms by (auto simp: sp_Stop_def sp_stop_tracker_def ts_SendOffline_queues rd_bind_Inr)
  have t: "sp_track w' = ts_Uninit ((sp_track w)\<lparr>ts_state := P2PTS_OFFLINE, ts_queue := ts_queue (sp_track w) @ [offline_item]\<rparr>)"
    unfolding w' by (simp add: sp_DestroyWindow_def)
  show "ts_queue (sp_track w') = ts_queue (sp_track w) @ [offline_item]"
    unfolding t by (simp add: ts_Uninit_def ts_CloseClient_def)
  have "\<not> ts_bufferev (sp_track w')" unfolding t by simp
  then show "sp_track_send w' = (w', [])" by (cases w') (simp add: sp_track_send_def ts_OnAsynSendHttp_def)
  show "Sp_write d \<notin> set outs" unfolding o by auto
  show "sp_exit w'" unfolding w' by (simp add: sp_DestroyWindow_def)
qed

section \<open>Properties\<close>


definition online_program :: server_program where
  "online_program = (new_server_program 1 (CScreenBitmap 32 32 []))\<lparr>sp_thread := True, sp_event_base := True, sp_loop := True,
     sp_track := (ts_CP2PTrackerClient 1)\<lparr>ts_base := True, ts_bufferev := True, ts_event := True, ts_state := P2PTS_ONLINE,
       ts_queue := [command_item 115]\<rparr>\<rparr>"

lemma online_program_step: "sp_step e (new_server_program 1 (CScreenBitmap 32 32 [])) online_program"
proof (rule sp_step.step_start)
  show "sp_Start True (new_server_program 1 (CScreenBitmap 32 32 [])) = (True, (new_server_program 1 (CScreenBitmap 32 32 []))\<lparr>sp_thread := True\<rparr>)"
    by (simp add: sp_Start_def new_server_program_def)
  show "sp_DoStart_begin True None True True ((new_server_program 1 (CScreenBitmap 32 32 []))\<lparr>sp_thread := True\<rparr>) = Inr (None, online_program, [])"
    by (simp add: sp_DoStart_begin_def new_server_program_def ts_Init_def ts_Connect_def ts_CP2PTrackerClient_def INADDR_NONE_def
        ts_SendOnline_def ts_push_def Let_def online_program_def command_item_def)
qed (simp add: new_server_program_def)




end
