(* ===== verification/Event_Runs.thy ===== *)
theory Event_Runs
  imports Main
begin

text \<open>
  What the models of interleaved threads share: events that happen in a state, may be impossible
  there (\<open>None\<close>) or end in a fault (\<open>Inl\<close>), and runs of them.  The locale states how a run follows its
  events; Capture_Thread and Thread_Pool interpret it on theirs.
\<close>

locale event_runs =
  fixes step :: "'e \<Rightarrow> 's \<Rightarrow> ('f + 's) option"
    and run :: "'e list \<Rightarrow> 's \<Rightarrow> ('f + 's) option"
  assumes run_Nil: "run [] s = Some (Inr s)"
    and run_Cons: "run (ev # evs) s = (case step ev s of Some (Inr s1) \<Rightarrow> run evs s1 | r \<Rightarrow> r)"
begin

lemma run_ConsE:
  assumes "run (ev # evs) s = Some (Inr s')"
  obtains s1 where "step ev s = Some (Inr s1)" and "run evs s1 = Some (Inr s')"
  using assms by (auto simp: run_Cons split: option.splits sum.splits)

text \<open>What every event of a set preserves, every run of such events preserves.\<close>

lemma run_invariant:
  assumes "P s" and "run evs s = Some (Inr s')" and "set evs \<subseteq> E"
    and "\<And>ev s s'. ev \<in> E \<Longrightarrow> P s \<Longrightarrow> step ev s = Some (Inr s') \<Longrightarrow> P s'"
  shows "P s'"
  using assms(1-3)
proof (induction evs arbitrary: s)
  case Nil
  then show ?case by (simp add: run_Nil)
next
  case (Cons ev evs)
  from Cons.prems(2) obtain s1 where "step ev s = Some (Inr s1)" and "run evs s1 = Some (Inr s')" by (rule run_ConsE)
  with Cons assms(4) show ?case by (metis insert_subset list.simps(15))
qed

text \<open>If no event of the set faults under the invariant, no run of them does.\<close>

lemma run_no_fault:
  assumes "P s" and "run evs s = Some r" and "set evs \<subseteq> E"
    and "\<And>ev s r. ev \<in> E \<Longrightarrow> P s \<Longrightarrow> step ev s = Some r \<Longrightarrow> \<exists>s'. r = Inr s' \<and> P s'"
  shows "\<exists>s'. r = Inr s' \<and> P s'"
  using assms(1-3)
proof (induction evs arbitrary: s)
  case Nil
  then show ?case by (auto simp: run_Nil)
next
  case (Cons ev evs)
  from Cons.prems(2) obtain r1 where r1: "step ev s = Some r1" by (auto simp: run_Cons split: option.splits)
  with assms(4) Cons.prems(1,3) obtain s1 where "r1 = Inr s1" "P s1" by (metis insert_subset list.simps(15))
  with r1 Cons show ?case by (simp add: run_Cons)
qed

text \<open>A run whose events all make a measure smaller has no more events than the measure allows.\<close>

lemma run_measure:
  assumes "P s" and "run evs s = Some (Inr s')" and "set evs \<subseteq> E"
    and "\<And>ev s s'. ev \<in> E \<Longrightarrow> P s \<Longrightarrow> step ev s = Some (Inr s') \<Longrightarrow> P s' \<and> m s' < (m s :: nat)"
  shows "length evs + m s' \<le> m s"
  using assms(1-3)
proof (induction evs arbitrary: s)
  case Nil
  then show ?case by (simp add: run_Nil)
next
  case (Cons ev evs)
  from Cons.prems(2) obtain s1 where s1: "step ev s = Some (Inr s1)" "run evs s1 = Some (Inr s')" by (rule run_ConsE)
  with assms(4) Cons.prems(1,3) have "P s1 \<and> m s1 < m s" by (metis insert_subset list.simps(15))
  moreover from this Cons.IH [OF _ s1(2)] Cons.prems(3) have "length evs + m s' \<le> m s1" by simp
  ultimately show ?case by simp
qed

end

end
