(* ===== verification/Capture_Thread.thy ===== *)
theory Capture_Thread
  imports Screen Event_Runs
begin

text \<open>
  The capture thread of CScreenBitmap (RemoteDesktopServer/ScreenBitmap.cpp) beside the thread
  that owns its window.  \<open>DoStartCapture\<close> and \<open>CaptureDesktop\<close> are cut into the pieces between
  two accesses of shared members, each section under \<open>m_lock\<close> being one piece; the operations of
  the window's thread run in one piece.  The picture buffers are addresses of a memory, so that
  what was deleted can be told from what is alive.  That \<open>_beginthreadex\<close> and \<open>Create\<close> succeed,
  that a thread has its message queue from its start, and that \<open>GetMessage\<close> without a window
  handle does not answer -1, is taken for granted.
\<close>

section \<open>State\<close>

datatype cap_fault = Freed_memory | Out_of_bounds | Null_call

datatype thread_msg = Msg_timer | Msg_close | Msg_other

text \<open>Where a capture thread is, with the local variables that are alive there.\<close>

datatype cap_pc =
    Get_message
  | Grab_screen "nat option"
  | Set_info "nat option" bitmap_info "nat option"
  | Test_last "nat option" "nat option"
  | Test_window "nat option"
  | Compare nat "nat option"
  | Publish nat nat nat "nat list"
  | Post_modified nat "nat list"
  | Set_first "nat option"
  | Call_first
  | Wait_first
  | Returned

record cap_thread =
  ct_queue :: "thread_msg list"
  ct_pc :: cap_pc

text \<open>
  \<open>cap_obj\<close> holds the other members (its own \<open>scr_buffer\<close> is not used); \<open>cap_buffer\<close> is
  \<open>m_pBuffer\<close>, \<open>cap_tid\<close> is \<open>m_uThreadId\<close>, \<open>cap_posted\<close> the messages \<open>WM_SCREENBITMAP_MODIFIED\<close> in
  the queue of the window.
\<close>

record capture =
  cap_obj :: screen
  cap_buffer :: "nat option"
  cap_mem :: "nat \<Rightarrow> byte list option"
  cap_fresh :: nat
  cap_tid :: "nat option"
  cap_timer :: bool
  cap_posted :: "(nat \<times> nat list) list"
  cap_threads :: "cap_thread list"
  cap_refs :: nat

datatype cap_out = Out_modified nat "nat list" | Out_first bitmap_info "nat option"

type_synonym cap_grab = "(bitmap_info \<times> byte list) option"

definition new_capture :: "nat \<Rightarrow> nat \<Rightarrow> byte list \<Rightarrow> capture" where
  "new_capture width height colors = \<lparr>cap_obj = CScreenBitmap width height colors, cap_buffer = None,
     cap_mem = (\<lambda>_. None), cap_fresh = 0, cap_tid = None, cap_timer = False, cap_posted = [], cap_threads = [], cap_refs = 1\<rparr>"

text \<open>The object as the other theories see it.\<close>

definition cap_screen :: "capture \<Rightarrow> screen" where
  "cap_screen c = (cap_obj c)\<lparr>scr_buffer := Option.bind (cap_buffer c) (cap_mem c)\<rparr>"

section \<open>The thread of the window\<close>

definition post_thread :: "nat \<Rightarrow> thread_msg \<Rightarrow> capture \<Rightarrow> capture" where
  "post_thread t m c = c\<lparr>cap_threads := (cap_threads c)
     [t := (cap_threads c ! t)\<lparr>ct_queue := ct_queue (cap_threads c ! t) @ [m]\<rparr>]\<rparr>"

definition cap_StartCapture :: "capture \<Rightarrow> capture" where
  "cap_StartCapture c =
     (if cap_tid c \<noteq> None then c
      else c\<lparr>cap_obj := StartCapture (cap_obj c), cap_timer := True, cap_refs := cap_refs c + 1,
             cap_threads := cap_threads c @ [\<lparr>ct_queue = [], ct_pc = Get_message\<rparr>],
             cap_tid := Some (length (cap_threads c))\<rparr>)"

text \<open>\<open>DestroyWindow\<close> drops what is in the queue of the window and lets a waiting \<open>SendMessage\<close> return.\<close>

definition end_send :: "cap_thread \<Rightarrow> cap_thread" where
  "end_send th = (if ct_pc th = Wait_first then th\<lparr>ct_pc := Get_message\<rparr> else th)"

definition end_thread :: "capture \<Rightarrow> capture" where
  "end_thread c =
     (case cap_tid c of
        None \<Rightarrow> c
      | Some t \<Rightarrow> let c = post_thread t Msg_close c in
          c\<lparr>cap_tid := None, cap_timer := False, cap_posted := [], cap_threads := map end_send (cap_threads c)\<rparr>)"

definition cap_StopCapture :: "capture \<Rightarrow> cap_fault + capture" where
  "cap_StopCapture c =
     (let c = end_thread c in
      case cap_buffer c of
        None \<Rightarrow> Inr (c\<lparr>cap_obj := StopCapture (cap_obj c)\<rparr>)
      | Some a \<Rightarrow>
          if cap_mem c a = None then Inl Freed_memory
          else Inr (c\<lparr>cap_mem := (cap_mem c)(a := None), cap_buffer := None, cap_obj := StopCapture (cap_obj c)\<rparr>))"

definition cap_OnTimer :: "capture \<Rightarrow> capture" where
  "cap_OnTimer c = (case cap_tid c of None \<Rightarrow> c | Some t \<Rightarrow> post_thread t Msg_timer c)"

definition cap_OnModified :: "nat \<Rightarrow> nat list \<Rightarrow> capture \<Rightarrow> cap_fault + capture \<times> cap_out list" where
  "cap_OnModified count blocks c =
     (if \<not> scr_event (cap_obj c) then Inl Null_call else Inr (c, [Out_modified count blocks]))"

definition cap_OnFirstBitmap :: "capture \<Rightarrow> cap_fault + capture \<times> cap_out list" where
  "cap_OnFirstBitmap c =
     (if \<not> scr_event (cap_obj c) then Inl Null_call else Inr (c, [Out_first (scr_info (cap_obj c)) (cap_buffer c)]))"

section \<open>The capture thread\<close>

definition at_pc :: "nat \<Rightarrow> cap_pc \<Rightarrow> capture \<Rightarrow> capture" where
  "at_pc t pc c = c\<lparr>cap_threads := (cap_threads c)[t := (cap_threads c ! t)\<lparr>ct_pc := pc\<rparr>]\<rparr>"

text \<open>The body of the loop of \<open>DoStartCapture\<close>: where the thread goes on after a message.\<close>

definition DoStartCapture_message :: "thread_msg \<Rightarrow> capture \<Rightarrow> cap_pc" where
  "DoStartCapture_message m c =
     (case m of
        Msg_timer \<Rightarrow> Grab_screen (cap_buffer c)
      | Msg_close \<Rightarrow> let bQuit = False in if bQuit then Returned else Get_message
      | Msg_other \<Rightarrow> Get_message)"

fun CaptureDesktop_step :: "cap_grab \<Rightarrow> nat \<Rightarrow> cap_pc \<Rightarrow> capture \<Rightarrow> (cap_fault + capture) option" where
  "CaptureDesktop_step grab t (Grab_screen pLast) c =
     (case grab of
        None \<Rightarrow> Some (Inr (at_pc t (Set_info pLast (scr_info (cap_obj c)) None) c))
      | Some (info, bits) \<Rightarrow>
          Some (Inr (at_pc t (Set_info pLast info (Some (cap_fresh c)))
            (c\<lparr>cap_mem := (cap_mem c)(cap_fresh c \<mapsto> bits), cap_fresh := cap_fresh c + 1\<rparr>))))"
| "CaptureDesktop_step grab t (Set_info pLast info pNew) c =
     Some (Inr (at_pc t (Test_last pLast pNew) (c\<lparr>cap_obj := (cap_obj c)\<lparr>scr_info := info\<rparr>\<rparr>)))"
| "CaptureDesktop_step grab t (Test_last pLast pNew) c =
     Some (Inr (case pLast of
                  Some a \<Rightarrow> if scr_hWnd (cap_obj c) then at_pc t (Compare a pNew) c else at_pc t (Test_window pNew) c
                | None \<Rightarrow> at_pc t (Test_window pNew) c))"
| "CaptureDesktop_step grab t (Test_window pNew) c =
     Some (Inr (if scr_hWnd (cap_obj c) then at_pc t (Set_first pNew) c else at_pc t Get_message c))"
| "CaptureDesktop_step grab t (Compare a pNew) c =
     Some (case pNew of
             None \<Rightarrow> Inl Out_of_bounds
           | Some b \<Rightarrow>
               (case (cap_mem c b, cap_mem c a) of
                  (Some new, Some old) \<Rightarrow>
                    (case GetModifiedBlocks (cap_obj c) new old of
                       None \<Rightarrow> Inl Out_of_bounds
                     | Some (count, blocks) \<Rightarrow> Inr (at_pc t (Publish a b count blocks) c))
                | _ \<Rightarrow> Inl Freed_memory))"
| "CaptureDesktop_step grab t (Publish a b count blocks) c =
     Some (if cap_mem c a = None then Inl Freed_memory
           else Inr (at_pc t (Post_modified count blocks) (c\<lparr>cap_mem := (cap_mem c)(a := None), cap_buffer := Some b\<rparr>)))"
| "CaptureDesktop_step grab t (Post_modified count blocks) c =
     Some (Inr (at_pc t Get_message
       (if scr_event (cap_obj c) \<and> count > 0 \<and> scr_hWnd (cap_obj c)
        then c\<lparr>cap_posted := cap_posted c @ [(count, blocks)]\<rparr> else c)))"
| "CaptureDesktop_step grab t (Set_first pNew) c = Some (Inr (at_pc t Call_first (c\<lparr>cap_buffer := pNew\<rparr>)))"
| "CaptureDesktop_step grab t Call_first c =
     Some (Inr (if scr_hWnd (cap_obj c) then at_pc t Wait_first c else at_pc t Get_message c))"
| "CaptureDesktop_step grab t Get_message c = None"
| "CaptureDesktop_step grab t Wait_first c = None"
| "CaptureDesktop_step grab t Returned c = None"

section \<open>Interleaving\<close>

datatype cap_event =
    Ui_start
  | Ui_stop
  | Ui_timer
  | Ui_modified
  | Ui_first nat
  | Take nat
  | Capture nat cap_grab

type_synonym cap_result = "(cap_fault + capture \<times> cap_out list) option"

definition silent :: "cap_fault + capture \<Rightarrow> cap_fault + capture \<times> cap_out list" where
  "silent r = (case r of Inl e \<Rightarrow> Inl e | Inr c \<Rightarrow> Inr (c, []))"

lemma silent_Inr [simp]: "silent r = Inr (c, outs) \<longleftrightarrow> r = Inr c \<and> outs = []"
  by (auto simp: silent_def split: sum.splits)

text \<open>\<open>None\<close>: the event cannot happen now.\<close>

definition cap_step :: "cap_event \<Rightarrow> capture \<Rightarrow> cap_result" where
  "cap_step ev c =
     (case ev of
        Ui_start \<Rightarrow> Some (Inr (cap_StartCapture c, []))
      | Ui_stop \<Rightarrow> Some (silent (cap_StopCapture c))
      | Ui_timer \<Rightarrow> if cap_timer c then Some (Inr (cap_OnTimer c, [])) else None
      | Ui_modified \<Rightarrow>
          (case cap_posted c of
             [] \<Rightarrow> None
           | (count, blocks) # ms \<Rightarrow> Some (cap_OnModified count blocks (c\<lparr>cap_posted := ms\<rparr>)))
      | Ui_first t \<Rightarrow>
          if t < length (cap_threads c) \<and> ct_pc (cap_threads c ! t) = Wait_first
          then Some (cap_OnFirstBitmap (at_pc t Get_message c)) else None
      | Take t \<Rightarrow>
          if t < length (cap_threads c) \<and> ct_pc (cap_threads c ! t) = Get_message then
            (case ct_queue (cap_threads c ! t) of
               [] \<Rightarrow> None
             | m # ms \<Rightarrow> Some (Inr (c\<lparr>cap_threads := (cap_threads c)
                          [t := \<lparr>ct_queue = ms, ct_pc = DoStartCapture_message m c\<rparr>]\<rparr>, [])))
          else None
      | Capture t grab \<Rightarrow>
          if t < length (cap_threads c)
          then map_option silent (CaptureDesktop_step grab t (ct_pc (cap_threads c ! t)) c) else None)"

fun cap_run :: "cap_event list \<Rightarrow> capture \<Rightarrow> cap_result" where
  "cap_run [] c = Some (Inr (c, []))"
| "cap_run (ev # evs) c =
     (case cap_step ev c of
        None \<Rightarrow> None
      | Some (Inl e) \<Rightarrow> Some (Inl e)
      | Some (Inr (c, o1)) \<Rightarrow>
          (case cap_run evs c of
             Some (Inr (c, o2)) \<Rightarrow> Some (Inr (c, o1 @ o2))
           | r \<Rightarrow> r))"

text \<open>The states alone, without what the window is told.\<close>

definition cap_move :: "cap_event \<Rightarrow> capture \<Rightarrow> (cap_fault + capture) option" where
  "cap_move ev c = map_option (map_sum id fst) (cap_step ev c)"

definition cap_moves :: "cap_event list \<Rightarrow> capture \<Rightarrow> (cap_fault + capture) option" where
  "cap_moves evs c = map_option (map_sum id fst) (cap_run evs c)"

interpretation cap_runs: event_runs cap_move cap_moves
  by unfold_locales (auto simp: cap_move_def cap_moves_def split: option.splits sum.splits)

lemma cap_moves_run: "cap_run evs c = Some (Inr (c', outs)) \<Longrightarrow> cap_moves evs c = Some (Inr c')"
  by (simp add: cap_moves_def)

lemma cap_move_step: "cap_move ev c = Some (Inr c') \<Longrightarrow> \<exists>outs. cap_step ev c = Some (Inr (c', outs))"
  by (cases "cap_step ev c"; cases "the (cap_step ev c)") (auto simp: cap_move_def)

inductive cap_reachable :: "capture \<Rightarrow> bool" where
  start: "cap_reachable (new_capture width height colors)"
| step: "cap_reachable c \<Longrightarrow> cap_step ev c = Some (Inr (c', outs)) \<Longrightarrow> cap_reachable c'"

text \<open>
  The discipline the code does not enforce: \<open>StopCapture\<close> is called only while no capture is going on
  or on its way.
\<close>

definition quiet :: "capture \<Rightarrow> bool" where
  "quiet c \<longleftrightarrow> (\<forall>th \<in> set (cap_threads c). ct_pc th = Get_message \<and> Msg_timer \<notin> set (ct_queue th))"

inductive calm :: "capture \<Rightarrow> bool" where
  start: "calm (new_capture width height colors)"
| step: "calm c \<Longrightarrow> cap_step ev c = Some (Inr (c', outs)) \<Longrightarrow> ev = Ui_stop \<longrightarrow> quiet c \<Longrightarrow> calm c'"

section \<open>Invariant of the calm runs\<close>

text \<open>The buffer a thread has filled and not handed over, and the one it compares with.\<close>

fun pc_new :: "cap_pc \<Rightarrow> nat option" where
  "pc_new (Set_info pLast info pNew) = pNew"
| "pc_new (Test_last pLast pNew) = pNew"
| "pc_new (Test_window pNew) = pNew"
| "pc_new (Compare a pNew) = pNew"
| "pc_new (Publish a b count blocks) = Some b"
| "pc_new (Set_first pNew) = pNew"
| "pc_new _ = None"

fun pc_last_is :: "cap_pc \<Rightarrow> nat option \<Rightarrow> bool" where
  "pc_last_is (Grab_screen pLast) buf \<longleftrightarrow> buf = pLast"
| "pc_last_is (Set_info pLast info pNew) buf \<longleftrightarrow> buf = pLast"
| "pc_last_is (Test_last pLast pNew) buf \<longleftrightarrow> buf = pLast"
| "pc_last_is (Test_window pNew) buf \<longleftrightarrow> buf = None"
| "pc_last_is (Compare a pNew) buf \<longleftrightarrow> buf = Some a"
| "pc_last_is (Publish a b count blocks) buf \<longleftrightarrow> buf = Some a"
| "pc_last_is (Set_first pNew) buf \<longleftrightarrow> buf = None"
| "pc_last_is Returned buf \<longleftrightarrow> False"
| "pc_last_is _ buf \<longleftrightarrow> True"

definition owned :: "capture \<Rightarrow> cap_pc \<Rightarrow> bool" where
  "owned c pc \<longleftrightarrow> dom (cap_mem c) = set_option (cap_buffer c) \<union> set_option (pc_new pc)
     \<and> set_option (cap_buffer c) \<inter> set_option (pc_new pc) = {} \<and> pc_last_is pc (cap_buffer c)
     \<and> (\<forall>a \<in> dom (cap_mem c). a < cap_fresh c)"

definition idle_thread :: "cap_thread \<Rightarrow> bool" where
  "idle_thread th \<longleftrightarrow> ct_pc th = Get_message \<and> Msg_timer \<notin> set (ct_queue th)"

definition cap_inv :: "capture \<Rightarrow> bool" where
  "cap_inv c \<longleftrightarrow> scr_thread (cap_obj c) = (cap_tid c \<noteq> None) \<and> scr_hWnd (cap_obj c) = (cap_tid c \<noteq> None)
     \<and> scr_event (cap_obj c) = (cap_tid c \<noteq> None) \<and> cap_timer c = (cap_tid c \<noteq> None)
     \<and> (\<forall>t < length (cap_threads c). cap_tid c = Some t \<or> idle_thread (cap_threads c ! t))
     \<and> (case cap_tid c of
          None \<Rightarrow> cap_posted c = [] \<and> cap_buffer c = None \<and> owned c Get_message
        | Some t \<Rightarrow> t < length (cap_threads c) \<and> owned c (ct_pc (cap_threads c ! t)))"

lemma inv_current:
  "cap_inv c \<Longrightarrow> t < length (cap_threads c) \<Longrightarrow> ct_pc (cap_threads c ! t) \<noteq> Get_message \<Longrightarrow> cap_tid c = Some t"
  by (auto simp: cap_inv_def idle_thread_def)

definition running :: "nat \<Rightarrow> capture \<Rightarrow> bool" where
  "running t c \<longleftrightarrow> cap_tid c = Some t \<and> scr_thread (cap_obj c) \<and> scr_hWnd (cap_obj c) \<and> scr_event (cap_obj c) \<and> cap_timer c
     \<and> t < length (cap_threads c) \<and> (\<forall>u < length (cap_threads c). u = t \<or> idle_thread (cap_threads c ! u))"

lemma inv_running:
  "cap_tid c = Some t \<Longrightarrow> cap_inv c \<longleftrightarrow> running t c \<and> owned c (ct_pc (cap_threads c ! t))"
  by (auto simp: cap_inv_def running_def)

lemma inv_stopped:
  "cap_tid c = None \<Longrightarrow> cap_inv c \<longleftrightarrow> \<not> scr_thread (cap_obj c) \<and> \<not> scr_hWnd (cap_obj c) \<and> \<not> scr_event (cap_obj c)
     \<and> \<not> cap_timer c \<and> (\<forall>t < length (cap_threads c). idle_thread (cap_threads c ! t)) \<and> cap_posted c = []
     \<and> cap_buffer c = None \<and> owned c Get_message"
  by (simp add: cap_inv_def)

lemma at_pc_inv: "running t c \<Longrightarrow> owned c pc \<Longrightarrow> cap_inv (at_pc t pc c)"
  by (auto simp: cap_inv_def running_def at_pc_def owned_def nth_list_update)

lemma capture_inv:
  assumes "running t c" and "owned c pc" and "CaptureDesktop_step grab t pc c = Some (Inr c')"
  shows "cap_inv c'"
proof -
  have hwnd: "scr_hWnd (cap_obj c)" using assms(1) by (simp add: running_def)
  have mem: "running t (c\<lparr>cap_mem := m, cap_fresh := n\<rparr>)" "running t (c\<lparr>cap_mem := m, cap_buffer := b\<rparr>)"
    "running t (c\<lparr>cap_buffer := b\<rparr>)" "running t (c\<lparr>cap_posted := ms\<rparr>)" "running t (c\<lparr>cap_obj := (cap_obj c)\<lparr>scr_info := i\<rparr>\<rparr>)"
    for m n b ms i using assms(1) by (simp_all add: running_def)
  show ?thesis
  proof (cases pc)
    case (Grab_screen pLast)
    have fresh: "cap_mem c (cap_fresh c) = None" using assms(2) by (auto simp: owned_def)
    then have "cap_buffer c \<noteq> Some (cap_fresh c)" using assms(2) by (auto simp: owned_def)
    then show ?thesis using assms(2,3) Grab_screen
      by (cases grab) (auto simp: owned_def intro!: at_pc_inv assms(1) mem)
  next
    case (Publish a b count blocks)
    then show ?thesis using assms(2,3) by (auto simp: owned_def split: if_splits intro!: at_pc_inv mem)
  qed (use assms hwnd in \<open>auto simp: owned_def intro!: at_pc_inv mem split: option.splits if_splits prod.splits\<close>)
qed

lemma capture_no_freed:
  assumes "owned c pc" and "CaptureDesktop_step grab t pc c = Some (Inl e)"
  shows "e = Out_of_bounds"
proof (cases pc)
  case (Compare a pNew)
  with assms(1) have "pNew = Some b \<Longrightarrow> cap_mem c b \<noteq> None" "cap_mem c a \<noteq> None" for b
    by (auto simp: owned_def)
  then show ?thesis using assms(2) Compare by (auto split: option.splits)
qed (use assms in \<open>auto simp: owned_def split: option.splits if_splits\<close>)

lemma start_inv: "cap_inv c \<Longrightarrow> cap_inv (cap_StartCapture c)"
  by (auto simp: cap_StartCapture_def cap_inv_def StartCapture_def nth_append owned_def split: option.splits)

lemma idle_post: "m \<noteq> Msg_timer \<Longrightarrow> idle_thread th \<Longrightarrow> idle_thread (th\<lparr>ct_queue := ct_queue th @ [m]\<rparr>)"
  by (simp add: idle_thread_def)

lemma idle_end_send: "idle_thread th \<Longrightarrow> end_send th = th"
  by (simp add: end_send_def idle_thread_def)

lemma stop_quiet:
  assumes "cap_inv c" and "quiet c"
  shows "\<exists>c'. cap_StopCapture c = Inr c' \<and> cap_inv c' \<and> length (cap_threads c') = length (cap_threads c)"
proof -
  have idle: "\<forall>th \<in> set (cap_threads c). idle_thread th" using assms(2) by (auto simp: quiet_def idle_thread_def)
  show ?thesis
  proof (cases "cap_tid c")
    case None
    with assms(1) show ?thesis by (auto simp: inv_stopped cap_StopCapture_def end_thread_def StopCapture_def owned_def)
  next
    case (Some t)
    with assms(1) have r: "running t c" and o: "owned c (ct_pc (cap_threads c ! t))" by (simp_all add: inv_running)
    from r idle have pc: "ct_pc (cap_threads c ! t) = Get_message" by (auto simp: running_def idle_thread_def)
    let ?ths = "cap_threads (post_thread t Msg_close c)"
    have "\<forall>th \<in> set ?ths. idle_thread th"
      using idle r by (auto simp: post_thread_def running_def idle_post dest!: set_update_subset_insert [THEN subsetD])
    then have "map end_send ?ths = ?ths" and "\<forall>u < length ?ths. idle_thread (?ths ! u)"
      by (simp_all add: idle_end_send map_idI)
    then show ?thesis using Some r o pc
      by (auto simp: cap_StopCapture_def end_thread_def inv_stopped StopCapture_def owned_def running_def post_thread_def Let_def
          split: option.splits)
  qed
qed

lemma timer_inv: "cap_inv c \<Longrightarrow> cap_inv (cap_OnTimer c)"
  by (cases "cap_tid c") (auto simp: cap_OnTimer_def post_thread_def cap_inv_def owned_def nth_list_update)

lemma take_inv:
  assumes "cap_inv c" and "t < length (cap_threads c)" and "ct_pc (cap_threads c ! t) = Get_message"
    and "ct_queue (cap_threads c ! t) = m # ms"
  shows "cap_inv (c\<lparr>cap_threads := (cap_threads c)[t := \<lparr>ct_queue = ms, ct_pc = DoStartCapture_message m c\<rparr>]\<rparr>)"
proof (cases "cap_tid c = Some t")
  case True
  then show ?thesis using assms
    by (cases m) (auto simp: inv_running running_def owned_def DoStartCapture_message_def nth_list_update)
next
  case False
  with assms have "idle_thread (cap_threads c ! t)" by (auto simp: cap_inv_def)
  with assms(3,4) have "m \<noteq> Msg_timer" "Msg_timer \<notin> set ms" by (auto simp: idle_thread_def)
  with False show ?thesis using assms
    by (cases m) (auto simp: cap_inv_def owned_def DoStartCapture_message_def nth_list_update idle_thread_def split: option.splits)
qed

lemma first_inv:
  assumes "cap_inv c" and "t < length (cap_threads c)" and "ct_pc (cap_threads c ! t) = Wait_first"
  shows "cap_inv (at_pc t Get_message c) \<and> scr_event (cap_obj c)"
proof -
  have "cap_tid c = Some t" using inv_current assms by simp
  with assms show ?thesis by (auto simp: inv_running running_def owned_def intro!: at_pc_inv)
qed

lemma modified_inv:
  "cap_inv c \<Longrightarrow> cap_posted c = x # ms \<Longrightarrow> cap_inv (c\<lparr>cap_posted := ms\<rparr>) \<and> scr_event (cap_obj c)"
  by (auto simp: cap_inv_def owned_def split: option.splits)

text \<open>One event from a state of the invariant: no memory that was freed is touched, and the invariant stays.\<close>

lemma calm_step:
  assumes "cap_inv c" and "ev = Ui_stop \<longrightarrow> quiet c" and "cap_step ev c = Some r"
  shows "case r of Inl e \<Rightarrow> e = Out_of_bounds | Inr (c', outs) \<Rightarrow> cap_inv c'"
proof (cases ev)
  case Ui_stop
  with assms show ?thesis using stop_quiet by (force simp: cap_step_def silent_def)
next
  case (Ui_first t)
  with assms show ?thesis using first_inv [of c t]
    by (auto simp: cap_step_def cap_OnFirstBitmap_def at_pc_def split: if_splits)
next
  case Ui_modified
  with assms show ?thesis using modified_inv [of c]
    by (auto simp: cap_step_def cap_OnModified_def split: list.splits if_splits)
next
  case (Take t)
  with assms show ?thesis using take_inv [of c t]
    by (auto simp: cap_step_def split: list.splits if_splits)
next
  case (Capture t grab)
  with assms(3) obtain r' where t: "t < length (cap_threads c)" and r: "r = silent r'"
    and r': "CaptureDesktop_step grab t (ct_pc (cap_threads c ! t)) c = Some r'"
    by (auto simp: cap_step_def split: if_splits)
  then have "ct_pc (cap_threads c ! t) \<noteq> Get_message" by auto
  with t have tid: "cap_tid c = Some t" by (rule inv_current [OF assms(1)])
  then have "running t c" "owned c (ct_pc (cap_threads c ! t))" using assms(1) by (simp_all add: inv_running)
  with r r' show ?thesis using capture_inv capture_no_freed by (cases r') (auto simp: silent_def)
qed (use assms start_inv timer_inv in \<open>auto simp: cap_step_def split: if_splits\<close>)

lemma cap_inv_new: "cap_inv (new_capture width height colors)"
  by (simp add: cap_inv_def new_capture_def CScreenBitmap_def owned_def)

lemma calm_inv: "calm c \<Longrightarrow> cap_inv c"
proof (induction rule: calm.induct)
  case (step c ev c' outs)
  then show ?case using calm_step [of c ev] by fastforce
qed (rule cap_inv_new)

section \<open>A capture of the thread and \<open>CaptureDesktop\<close>\<close>

text \<open>
  How far a capture that began with the screen \<open>s\<close> has come; \<open>pend\<close> is what the window was or will
  be told.
\<close>

definition grabbed :: "cap_grab \<Rightarrow> screen \<Rightarrow> screen" where
  "grabbed grab s = (case grab of None \<Rightarrow> s | Some (info, _) \<Rightarrow> s\<lparr>scr_info := info\<rparr>)"

definition new_bits :: "cap_grab \<Rightarrow> nat option \<Rightarrow> capture \<Rightarrow> bool" where
  "new_bits grab pNew c \<longleftrightarrow> (pNew = None \<longleftrightarrow> grab = None) \<and> Option.bind pNew (cap_mem c) = map_option snd grab"

definition compared :: "cap_grab \<Rightarrow> screen \<Rightarrow> nat \<Rightarrow> nat list \<Rightarrow> bool" where
  "compared grab s count blocks \<longleftrightarrow> (\<exists>info bits old. grab = Some (info, bits) \<and> scr_buffer s = Some old
     \<and> GetModifiedBlocks (grabbed grab s) bits old = Some (count, blocks))"

definition told :: "capture_msg \<Rightarrow> (nat \<times> nat list) list" where
  "told msg = (case msg of ScreenModified count blocks \<Rightarrow> [(count, blocks)] | _ \<Rightarrow> [])"

fun stage :: "cap_grab \<Rightarrow> screen \<Rightarrow> (nat \<times> nat list) list \<Rightarrow> capture \<Rightarrow> cap_pc \<Rightarrow> (nat \<times> nat list) list \<Rightarrow> bool" where
  "stage grab s base c (Grab_screen pLast) pend \<longleftrightarrow> cap_screen c = s \<and> pend = base"
| "stage grab s base c (Set_info pLast info pNew) pend \<longleftrightarrow>
     cap_screen c = s \<and> info = scr_info (grabbed grab s) \<and> new_bits grab pNew c \<and> pend = base"
| "stage grab s base c (Test_last pLast pNew) pend \<longleftrightarrow> cap_screen c = grabbed grab s \<and> new_bits grab pNew c \<and> pend = base"
| "stage grab s base c (Test_window pNew) pend \<longleftrightarrow> cap_screen c = grabbed grab s \<and> new_bits grab pNew c \<and> pend = base"
| "stage grab s base c (Compare a pNew) pend \<longleftrightarrow> cap_screen c = grabbed grab s \<and> new_bits grab pNew c \<and> pend = base"
| "stage grab s base c (Publish a b count blocks) pend \<longleftrightarrow>
     cap_screen c = grabbed grab s \<and> new_bits grab (Some b) c \<and> compared grab s count blocks \<and> pend = base"
| "stage grab s base c (Post_modified count blocks) pend \<longleftrightarrow>
     cap_screen c = (grabbed grab s)\<lparr>scr_buffer := map_option snd grab\<rparr> \<and> compared grab s count blocks \<and> pend = base"
| "stage grab s base c (Set_first pNew) pend \<longleftrightarrow> cap_screen c = grabbed grab s \<and> new_bits grab pNew c \<and> pend = base"
| "stage grab s base c Call_first pend \<longleftrightarrow>
     cap_screen c = (grabbed grab s)\<lparr>scr_buffer := map_option snd grab\<rparr> \<and> scr_buffer s = None \<and> pend = base"
| "stage grab s base c Get_message pend \<longleftrightarrow>
     (\<exists>msg. CaptureDesktop grab s = Some (cap_screen c, msg) \<and> msg \<noteq> ScreenFirstBitmap \<and> pend = base @ told msg)"
| "stage grab s base c Wait_first pend \<longleftrightarrow> CaptureDesktop grab s = Some (cap_screen c, ScreenFirstBitmap) \<and> pend = base"
| "stage grab s base c Returned pend \<longleftrightarrow> False"

lemma stage_cong:
  "cap_screen c' = cap_screen c \<Longrightarrow> cap_mem c' = cap_mem c \<Longrightarrow> stage grab s base c' pc pend = stage grab s base c pc pend"
  by (cases pc) (simp_all add: new_bits_def)

lemma grabbed_fields [simp]:
  "scr_buffer (grabbed grab s) = scr_buffer s" "scr_hWnd (grabbed grab s) = scr_hWnd s" "scr_event (grabbed grab s) = scr_event s"
  by (simp_all add: grabbed_def split: option.splits prod.splits)

lemma cap_screen_fields [simp]:
  "scr_hWnd (cap_screen c) = scr_hWnd (cap_obj c)" "scr_event (cap_screen c) = scr_event (cap_obj c)"
  "scr_info (cap_screen c) = scr_info (cap_obj c)" "scr_buffer (cap_screen c) = Option.bind (cap_buffer c) (cap_mem c)"
  by (simp_all add: cap_screen_def)

lemma GetModifiedBlocks_buffer: "GetModifiedBlocks (cap_obj c) = GetModifiedBlocks (cap_screen c)"
  by (intro ext) (simp add: GetModifiedBlocks_def cap_screen_def)

lemma at_pc_fields [simp]:
  "cap_screen (at_pc t pc c) = cap_screen c" "cap_mem (at_pc t pc c) = cap_mem c" "cap_posted (at_pc t pc c) = cap_posted c"
  "cap_obj (at_pc t pc c) = cap_obj c" "cap_buffer (at_pc t pc c) = cap_buffer c"
  "t < length (cap_threads c) \<Longrightarrow> ct_pc (cap_threads (at_pc t pc c) ! t) = pc"
  by (simp_all add: at_pc_def cap_screen_def)

lemma new_bits_at_pc [simp]: "new_bits grab pNew (at_pc t pc c) = new_bits grab pNew c"
  by (simp add: new_bits_def)

lemma CaptureDesktop_first:
  "scr_hWnd s \<Longrightarrow> scr_buffer s = None \<Longrightarrow>
   CaptureDesktop grab s = Some ((grabbed grab s)\<lparr>scr_buffer := map_option snd grab\<rparr>, ScreenFirstBitmap)"
  by (simp add: CaptureDesktop_def grabbed_def)

lemma CaptureDesktop_compared:
  "scr_hWnd s \<Longrightarrow> compared grab s count blocks \<Longrightarrow>
   CaptureDesktop grab s = Some ((grabbed grab s)\<lparr>scr_buffer := map_option snd grab\<rparr>,
     if scr_event s \<and> count > 0 then ScreenModified count blocks else NoMsg)"
  by (auto simp: CaptureDesktop_def compared_def grabbed_def)

lemma cap_screen_updates:
  "cap_screen (c\<lparr>cap_mem := m\<rparr>) = (cap_screen c)\<lparr>scr_buffer := Option.bind (cap_buffer c) m\<rparr>"
  "cap_screen (c\<lparr>cap_obj := (cap_obj c)\<lparr>scr_info := i\<rparr>\<rparr>) = (cap_screen c)\<lparr>scr_info := i\<rparr>"
  "cap_screen (c\<lparr>cap_buffer := b\<rparr>) = (cap_screen c)\<lparr>scr_buffer := Option.bind b (cap_mem c)\<rparr>"
  "cap_screen (c\<lparr>cap_posted := ms\<rparr>) = cap_screen c" "cap_screen (c\<lparr>cap_fresh := n\<rparr>) = cap_screen c"
  by (simp_all add: cap_screen_def)

lemma stage_step:
  assumes "running t c" and "owned c pc" and "stage grab s base c pc (pre @ cap_posted c)"
    and "CaptureDesktop_step grab t pc c = Some (Inr c')"
  shows "stage grab s base c' (ct_pc (cap_threads c' ! t)) (pre @ cap_posted c')"
proof -
  have hwnd: "scr_hWnd (cap_obj c)" "scr_event (cap_obj c)" and t: "t < length (cap_threads c)"
    using assms(1) by (simp_all add: running_def)
  show ?thesis
  proof (cases pc)
    case (Grab_screen pLast)
    have "cap_mem c (cap_fresh c) = None" using assms(2) by (auto simp: owned_def)
    then have "cap_buffer c \<noteq> Some (cap_fresh c)" using assms(2) by (auto simp: owned_def)
    then have "Option.bind (cap_buffer c) ((cap_mem c)(cap_fresh c \<mapsto> bits)) = Option.bind (cap_buffer c) (cap_mem c)" for bits
      by (cases "cap_buffer c") auto
    then show ?thesis
      using assms(3,4) t unfolding Grab_screen
      by (auto simp: cap_screen_updates grabbed_def new_bits_def cap_screen_def split: option.splits prod.splits)
  next
    case (Set_info pLast info pNew)
    then show ?thesis using assms(3,4) t
      by (auto simp: cap_screen_updates grabbed_def new_bits_def split: option.splits prod.splits)
  next
    case (Compare a pNew)
    then obtain b where "pNew = Some b" using assms(4) by (auto split: option.splits)
    moreover have "scr_buffer (cap_screen c) = scr_buffer s" using assms(3) unfolding Compare by simp
    ultimately show ?thesis using Compare assms(2-4) t
      by (auto simp: compared_def GetModifiedBlocks_buffer new_bits_def owned_def split: option.splits)
  next
    case (Publish a b count blocks)
    then show ?thesis using assms(2-4) t
      by (auto simp: cap_screen_updates new_bits_def owned_def split: if_splits)
  next
    case (Post_modified count blocks)
    have s: "scr_hWnd (cap_screen c) = scr_hWnd s" "scr_event (cap_screen c) = scr_event s"
      using assms(3) unfolding Post_modified by simp_all
    with Post_modified show ?thesis using assms(3,4) t hwnd
      by (auto simp: cap_screen_updates CaptureDesktop_compared told_def)
  next
    case (Set_first pNew)
    then have "scr_buffer (cap_screen c) = None" using assms(2) by (simp add: owned_def)
    moreover have "scr_buffer (cap_screen c) = scr_buffer s" using assms(3) unfolding Set_first by simp
    ultimately show ?thesis using assms(3,4) t unfolding Set_first
      by (auto simp: cap_screen_updates new_bits_def)
  next
    case Call_first
    have "scr_hWnd (cap_screen c) = scr_hWnd s" using assms(3) unfolding Call_first by simp
    with Call_first show ?thesis using assms(3,4) t hwnd by (auto simp: CaptureDesktop_first)
  qed (use assms(3,4) t hwnd in \<open>auto split: option.splits if_splits\<close>)
qed

text \<open>What the window was told by the events of a run.\<close>

fun posts :: "cap_out list \<Rightarrow> (nat \<times> nat list) list" where
  "posts [] = []"
| "posts (Out_modified count blocks # os) = (count, blocks) # posts os"
| "posts (Out_first info buf # os) = posts os"

lemma posts_append [simp]: "posts (xs @ ys) = posts xs @ posts ys"
  by (induction xs rule: posts.induct) simp_all

lemma post_thread_fields [simp]:
  "cap_screen (post_thread u m c) = cap_screen c" "cap_mem (post_thread u m c) = cap_mem c"
  "cap_posted (post_thread u m c) = cap_posted c" "cap_tid (post_thread u m c) = cap_tid c"
  "length (cap_threads (post_thread u m c)) = length (cap_threads c)"
  "t < length (cap_threads c) \<Longrightarrow> ct_pc (cap_threads (post_thread u m c) ! t) = ct_pc (cap_threads c ! t)"
  by (simp_all add: post_thread_def cap_screen_def) (cases "u = t"; simp)

lemma capture_form:
  assumes "CaptureDesktop_step grab t pc c = Some (Inr c')"
  shows "\<exists>pc' c0. c' = at_pc t pc' c0 \<and> pc' \<noteq> Returned \<and> cap_threads c0 = cap_threads c \<and> cap_refs c0 = cap_refs c
    \<and> cap_tid c0 = cap_tid c"
  using assms
  by (cases pc) (auto split: option.splits if_splits; (rule exI)+, (rule conjI, rule refl), simp)+

text \<open>The events beside which a capture is looked at: its own pieces, the timer and the messages of the window.\<close>

definition beside :: "nat \<Rightarrow> cap_grab \<Rightarrow> cap_event set" where
  "beside t grab = {Capture t grab, Ui_timer, Ui_modified}"

lemma beside_stage:
  assumes "cap_inv c" and "cap_tid c = Some t" and "stage grab s base c (ct_pc (cap_threads c ! t)) (pre @ cap_posted c)"
    and "ev \<in> beside t grab" and "cap_step ev c = Some (Inr (c', outs))"
  shows "cap_inv c' \<and> cap_tid c' = Some t \<and> stage grab s base c' (ct_pc (cap_threads c' ! t)) ((pre @ posts outs) @ cap_posted c')"
proof -
  have t: "t < length (cap_threads c)" using assms(1,2) by (simp add: inv_running running_def)
  have inv: "cap_inv c'" using calm_step [OF assms(1) _ assms(5)] assms(4) by (auto simp: beside_def)
  consider "ev = Capture t grab" | "ev = Ui_timer" | "ev = Ui_modified" using assms(4) by (auto simp: beside_def)
  then show ?thesis
  proof cases
    case 1
    then have r: "CaptureDesktop_step grab t (ct_pc (cap_threads c ! t)) c = Some (Inr c')" and "outs = []"
      using assms(5) by (auto simp: cap_step_def split: if_splits)
    moreover have "cap_tid c' = cap_tid c"
      using capture_form [OF r] by (auto simp: at_pc_def)
    ultimately show ?thesis using stage_step [OF _ _ assms(3) r] assms(1,2) inv by (simp add: inv_running)
  next
    case 2
    then have "c' = post_thread t Msg_timer c" "outs = []"
      using assms(2,5) by (auto simp: cap_step_def cap_OnTimer_def split: if_splits)
    then show ?thesis using assms(2,3) t inv by (simp add: stage_cong [of "post_thread t Msg_timer c" c])
  next
    case 3
    then obtain count blocks ms where "cap_posted c = (count, blocks) # ms" "c' = c\<lparr>cap_posted := ms\<rparr>"
      "outs = [Out_modified count blocks]"
      using assms(5) by (auto simp: cap_step_def cap_OnModified_def split: list.splits if_splits)
    then show ?thesis using assms(2,3) inv by (simp add: stage_cong [of "c\<lparr>cap_posted := ms\<rparr>" c] cap_screen_updates)
  qed
qed

lemma beside_run:
  assumes "cap_inv c" and "cap_tid c = Some t" and "stage grab s base c (ct_pc (cap_threads c ! t)) (pre @ cap_posted c)"
    and "set evs \<subseteq> beside t grab" and "cap_run evs c = Some (Inr (c', outs))"
  shows "stage grab s base c' (ct_pc (cap_threads c' ! t)) ((pre @ posts outs) @ cap_posted c')"
  using assms
proof (induction evs arbitrary: c pre outs)
  case (Cons ev evs)
  from Cons.prems(5) obtain c1 o1 o2 where s: "cap_step ev c = Some (Inr (c1, o1))"
    and r: "cap_run evs c1 = Some (Inr (c', o2))" and "outs = o1 @ o2"
    by (auto split: option.splits sum.splits)
  have ev: "ev \<in> beside t grab" and evs: "set evs \<subseteq> beside t grab" using Cons.prems(4) by auto
  from beside_stage [OF Cons.prems(1-3) ev s] Cons.IH [of c1 "pre @ posts o1" o2] r evs \<open>outs = o1 @ o2\<close>
  show ?case by simp
qed simp

section \<open>The thread's loop\<close>

definition loops :: "capture \<Rightarrow> bool" where
  "loops c \<longleftrightarrow> (\<forall>th \<in> set (cap_threads c). ct_pc th \<noteq> Returned) \<and> cap_refs c = 1 + length (cap_threads c)"

lemma set_update_pc: "(\<forall>x \<in> set xs. P x) \<Longrightarrow> P y \<Longrightarrow> \<forall>x \<in> set (xs[i := y]). P x"
  using set_update_subset_insert [of xs i y] by auto

lemma loops_update:
  "loops c \<Longrightarrow> t < length (cap_threads c) \<Longrightarrow> ct_pc th \<noteq> Returned \<Longrightarrow> loops (c\<lparr>cap_threads := (cap_threads c)[t := th]\<rparr>)"
  by (auto simp: loops_def dest!: set_update_subset_insert [THEN subsetD])

lemma loops_pc: "loops c \<Longrightarrow> t < length (cap_threads c) \<Longrightarrow> ct_pc (cap_threads c ! t) \<noteq> Returned"
  by (simp add: loops_def)

lemma loops_at_pc: "loops c \<Longrightarrow> t < length (cap_threads c) \<Longrightarrow> pc \<noteq> Returned \<Longrightarrow> loops (at_pc t pc c)"
  unfolding at_pc_def by (rule loops_update) simp_all

lemma loops_post: "loops c \<Longrightarrow> loops (post_thread t m c)"
proof (cases "t < length (cap_threads c)")
  case True
  then show "loops c \<Longrightarrow> ?thesis" unfolding post_thread_def by (intro loops_update) (simp_all add: loops_pc)
qed (simp add: post_thread_def list_update_beyond)

lemma loops_fields:
  "cap_threads c' = cap_threads c \<Longrightarrow> cap_refs c' = cap_refs c \<Longrightarrow> loops c' = loops c"
  by (simp add: loops_def)

lemma loops_end_thread: "loops c \<Longrightarrow> loops (end_thread c)"
proof (cases "cap_tid c")
  case (Some t)
  assume "loops c"
  then have "loops (post_thread t Msg_close c)" by (rule loops_post)
  with Some show ?thesis by (auto simp: end_thread_def loops_def end_send_def Let_def)
qed (simp add: end_thread_def)

lemma loops_stop: "loops c \<Longrightarrow> cap_StopCapture c = Inr c' \<Longrightarrow> loops c'"
  using loops_end_thread [of c]
  by (auto simp: cap_StopCapture_def Let_def loops_def split: option.splits if_splits)

lemma loops_step: "loops c \<Longrightarrow> cap_step ev c = Some (Inr (c', outs)) \<Longrightarrow> loops c'"
proof (cases ev)
  case (Capture t grab)
  assume l: "loops c" and s: "cap_step ev c = Some (Inr (c', outs))"
  with Capture have t: "t < length (cap_threads c)"
    and r: "CaptureDesktop_step grab t (ct_pc (cap_threads c ! t)) c = Some (Inr c')"
    by (auto simp: cap_step_def split: if_splits)
  from capture_form [OF r] obtain pc' c0 where c': "c' = at_pc t pc' c0" "pc' \<noteq> Returned"
    and same: "cap_threads c0 = cap_threads c" "cap_refs c0 = cap_refs c" by blast
  have "loops c0" using loops_fields [OF same] l by simp
  with c' same(1) t show ?thesis by (simp add: loops_at_pc)
next
  case (Take t)
  assume l: "loops c" and s: "cap_step ev c = Some (Inr (c', outs))"
  have "DoStartCapture_message m c \<noteq> Returned" for m by (cases m) (simp_all add: DoStartCapture_message_def)
  with l s Take show ?thesis by (auto simp: cap_step_def intro!: loops_update split: if_splits list.splits)
next
  case Ui_start
  assume "loops c" and "cap_step ev c = Some (Inr (c', outs))"
  with Ui_start show ?thesis by (auto simp: cap_step_def cap_StartCapture_def loops_def split: if_splits)
next
  case Ui_stop
  assume "loops c" and "cap_step ev c = Some (Inr (c', outs))"
  with Ui_stop show ?thesis by (auto simp: cap_step_def loops_stop)
next
  case (Ui_first t)
  assume "loops c" and "cap_step ev c = Some (Inr (c', outs))"
  with Ui_first show ?thesis by (auto simp: cap_step_def cap_OnFirstBitmap_def loops_at_pc split: if_splits)
next
  case Ui_timer
  assume "loops c" and "cap_step ev c = Some (Inr (c', outs))"
  with Ui_timer show ?thesis by (auto simp: cap_step_def cap_OnTimer_def loops_post split: if_splits option.splits)
next
  case Ui_modified
  assume "loops c" and "cap_step ev c = Some (Inr (c', outs))"
  with Ui_modified show ?thesis
    by (auto simp: cap_step_def cap_OnModified_def loops_def split: list.splits if_splits)
qed

lemma reachable_loops: "cap_reachable c \<Longrightarrow> loops c"
proof (induction rule: cap_reachable.induct)
  case start
  then show ?case by (simp add: loops_def new_capture_def)
qed (rule loops_step)

section \<open>Properties\<close>

text \<open>A capture on a screen of one pixel, started and asked for the first picture.\<close>

definition demo_header :: bitmap_info where
  "demo_header = scr_info (CScreenBitmap 1 1 [])"

definition demo_started :: capture where
  "demo_started = cap_OnTimer (cap_StartCapture (new_capture 1 1 []))"

lemma demo_started_run: "cap_run [Ui_start, Ui_timer] (new_capture 1 1 []) = Some (Inr (demo_started, []))"
  by (simp add: cap_step_def demo_started_def cap_StartCapture_def new_capture_def)

lemma calm_run:
  assumes "calm c" and "Ui_stop \<notin> set evs" and "cap_run evs c = Some (Inr (c', outs))"
  shows "calm c'"
proof (rule cap_runs.run_invariant [where P = calm and E = "- {Ui_stop}", OF assms(1) cap_moves_run [OF assms(3)]])
  show "ev \<in> - {Ui_stop} \<Longrightarrow> calm c \<Longrightarrow> cap_move ev c = Some (Inr c') \<Longrightarrow> calm c'" for ev c c'
    using cap_move_step [of ev c c'] calm.step by blast
qed (use assms(2) in auto)

text \<open>
  C4. A capture by the thread, cut into its pieces and interleaved in any way with the timer and the
  messages of the window, does what \<open>CaptureDesktop\<close> does in one piece: whenever the thread is
  through, the object is the one \<open>CaptureDesktop\<close> gives, the window has been told, or has in its
  queue, exactly that one message in its order, and the thread waits for the window if and only if this was
  the first picture.
\<close>

theorem capture_refines:
  assumes "calm c0" and "t < length (cap_threads c0)" and "ct_pc (cap_threads c0 ! t) = Get_message"
    and "ct_queue (cap_threads c0 ! t) = Msg_timer # ms" and "cap_step (Take t) c0 = Some (Inr (c1, []))"
    and "set evs \<subseteq> beside t grab" and "cap_run evs c1 = Some (Inr (c2, outs))"
    and "ct_pc (cap_threads c2 ! t) \<in> {Get_message, Wait_first}"
  shows "\<exists>msg. CaptureDesktop grab (cap_screen c0) = Some (cap_screen c2, msg)
    \<and> posts outs @ cap_posted c2 = cap_posted c0 @ told msg
    \<and> (ct_pc (cap_threads c2 ! t) = Wait_first \<longleftrightarrow> msg = ScreenFirstBitmap)"
proof -
  have inv: "cap_inv c0" using assms(1) by (rule calm_inv)
  have "\<not> idle_thread (cap_threads c0 ! t)" using assms(4) by (simp add: idle_thread_def)
  then have tid: "cap_tid c0 = Some t" using inv assms(2) by (auto simp: cap_inv_def)
  have c1: "c1 = c0\<lparr>cap_threads := (cap_threads c0)[t := \<lparr>ct_queue = ms, ct_pc = Grab_screen (cap_buffer c0)\<rparr>]\<rparr>"
    using assms(2-5) by (simp add: cap_step_def DoStartCapture_message_def)
  have "cap_inv c1" using calm_step [OF inv _ assms(5)] by simp
  moreover have "stage grab (cap_screen c0) (cap_posted c0) c1 (ct_pc (cap_threads c1 ! t)) ([] @ cap_posted c1)"
    using assms(2) by (simp add: c1 cap_screen_def)
  ultimately have "stage grab (cap_screen c0) (cap_posted c0) c2 (ct_pc (cap_threads c2 ! t)) (posts outs @ cap_posted c2)"
    using beside_run [OF _ _ _ assms(6,7), of _ _ "[]"] tid by (simp add: c1)
  then show ?thesis using assms(8) by (auto simp: told_def)
qed

definition demo_grab :: cap_grab where
  "demo_grab = Some (demo_header, [1, 2, 3, 0])"

definition demo_taken :: capture where
  "demo_taken = demo_started\<lparr>cap_threads := [\<lparr>ct_queue = [], ct_pc = Grab_screen None\<rparr>]\<rparr>"

definition demo_first :: capture where
  "demo_first = demo_started\<lparr>cap_threads := [\<lparr>ct_queue = [], ct_pc = Wait_first\<rparr>], cap_buffer := Some 0,
     cap_mem := [0 \<mapsto> [1, 2, 3, 0]], cap_fresh := 1\<rparr>"

lemmas demo_capture = demo_started_def cap_OnTimer_def cap_StartCapture_def new_capture_def StartCapture_def CScreenBitmap_def
  post_thread_def at_pc_def

lemma demo_take: "cap_step (Take 0) demo_started = Some (Inr (demo_taken, []))"
  by (simp add: cap_step_def demo_taken_def demo_capture DoStartCapture_message_def)

lemma demo_first_run:
  "cap_run [Capture 0 demo_grab, Capture 0 demo_grab, Capture 0 demo_grab, Capture 0 demo_grab, Capture 0 demo_grab,
     Capture 0 demo_grab] demo_taken = Some (Inr (demo_first, []))"
  by (simp add: cap_step_def silent_def demo_taken_def demo_first_def demo_grab_def demo_header_def demo_capture)

lemma demo_started_calm: "calm demo_started"
  using calm_run [OF calm.start _ demo_started_run] by simp

theorem capture_refines_witness:
  "\<exists>msg. CaptureDesktop demo_grab (cap_screen demo_started) = Some (cap_screen demo_first, msg)
    \<and> msg = ScreenFirstBitmap \<and> scr_buffer (cap_screen demo_first) = Some [1, 2, 3, 0]"
proof -
  have "cap_run [Capture 0 demo_grab, Capture 0 demo_grab, Capture 0 demo_grab, Capture 0 demo_grab, Capture 0 demo_grab,
     Capture 0 demo_grab] demo_taken = Some (Inr (demo_first, []))" by (rule demo_first_run)
  from capture_refines [OF demo_started_calm _ _ _ demo_take _ this, of "[]" demo_grab]
  show ?thesis by (auto simp: demo_capture beside_def demo_first_def)
qed



text \<open>
  C16. \<open>StopCapture\<close> does not wait for the thread: when it runs after the thread has tested the window
  and before it has handed over the new picture, the thread compares with, or deletes, the picture that
  \<open>StopCapture\<close> has deleted, whatever state of a calm run this happens in.
\<close>

theorem stop_during_capture_faults:
  assumes "calm c" and "t < length (cap_threads c)"
    and "ct_pc (cap_threads c ! t) \<in> {Compare a (Some b), Publish a b count blocks}"
  shows "\<exists>c'. cap_step Ui_stop c = Some (Inr (c', [])) \<and> cap_step (Capture t grab) c' = Some (Inl Freed_memory)"
proof -
  have inv: "cap_inv c" using assms(1) by (rule calm_inv)
  have tid: "cap_tid c = Some t" using inv_current [OF inv assms(2)] assms(3) by auto
  then have "owned c (ct_pc (cap_threads c ! t))" using inv by (simp add: inv_running)
  then have a: "cap_buffer c = Some a" "cap_mem c a \<noteq> None" using assms(3) by (auto simp: owned_def)
  have "ct_pc (end_send (cap_threads (post_thread t Msg_close c) ! t)) = ct_pc (cap_threads c ! t)"
    using assms(2,3) by (auto simp: end_send_def)
  then show ?thesis using a tid assms(2,3)
    by (auto simp: cap_step_def silent_def cap_StopCapture_def end_thread_def Let_def post_thread_def split: option.splits)
qed

lemma demo_first_calm: "calm demo_first"
proof -
  have "calm demo_taken" by (rule calm.step [OF demo_started_calm demo_take]) simp
  from calm_run [OF this _ demo_first_run] show ?thesis by simp
qed

definition demo_compare :: capture where
  "demo_compare = demo_first\<lparr>cap_threads := [\<lparr>ct_queue = [], ct_pc = Compare 0 (Some 1)\<rparr>],
     cap_mem := [0 \<mapsto> [1, 2, 3, 0], 1 \<mapsto> [1, 2, 3, 0]], cap_fresh := 2\<rparr>"

lemma demo_compare_run:
  "cap_run [Ui_first 0, Ui_timer, Take 0, Capture 0 demo_grab, Capture 0 demo_grab, Capture 0 demo_grab] demo_first
    = Some (Inr (demo_compare, [Out_first demo_header (Some 0)]))"
  by (simp add: cap_step_def silent_def demo_first_def demo_compare_def demo_grab_def demo_header_def demo_capture
      cap_OnFirstBitmap_def DoStartCapture_message_def fun_upd_twist)

theorem stop_during_capture_faults_witness:
  "\<exists>c'. calm demo_compare \<and> cap_step Ui_stop demo_compare = Some (Inr (c', []))
    \<and> cap_step (Capture 0 demo_grab) c' = Some (Inl Freed_memory)"
proof -
  have "calm demo_compare" using calm_run [OF demo_first_calm _ demo_compare_run] by simp
  moreover have "0 < length (cap_threads demo_compare)"
    "ct_pc (cap_threads demo_compare ! 0) \<in> {Compare 0 (Some 1), Publish 0 1 0 []}" by (simp_all add: demo_compare_def)
  ultimately show ?thesis using stop_during_capture_faults by blast
qed

text \<open>
  The capture threads never end: the message that should end one leaves its loop running, so in
  every reachable state each thread that was ever started is still there and holds its reference
  to the object, and every stop and start adds one more.
\<close>

lemma capture_threads_pile_up:
  assumes "cap_reachable c"
  shows "(\<forall>th \<in> set (cap_threads c). ct_pc th \<noteq> Returned) \<and> cap_refs c = 1 + length (cap_threads c)
    \<and> (\<forall>c'. cap_StopCapture c = Inr c' \<longrightarrow> length (cap_threads (cap_StartCapture c')) = length (cap_threads c) + 1)"
proof -
  have "cap_StopCapture c = Inr c' \<Longrightarrow> cap_tid c' = None \<and> length (cap_threads c') = length (cap_threads c)" for c'
    by (auto simp: cap_StopCapture_def end_thread_def Let_def split: option.splits if_splits)
  then show ?thesis using reachable_loops [OF assms] by (auto simp: loops_def cap_StartCapture_def)
qed

lemma reachable_run:
  assumes "cap_reachable c" and "cap_run evs c = Some (Inr (c', outs))"
  shows "cap_reachable c'"
proof (rule cap_runs.run_invariant [where P = cap_reachable, OF assms(1) cap_moves_run [OF assms(2)] subset_UNIV])
  show "cap_reachable c \<Longrightarrow> cap_move ev c = Some (Inr c') \<Longrightarrow> cap_reachable c'" for ev c c'
    using cap_move_step [of ev c c'] cap_reachable.step by blast
qed

lemma capture_threads_pile_up_witness:
  "\<exists>c. cap_run [Ui_start, Ui_stop, Take 0, Ui_start] (new_capture 1 1 []) = Some (Inr (c, []))
    \<and> cap_refs c = 3 \<and> (\<forall>th \<in> set (cap_threads c). ct_pc th \<noteq> Returned)"
proof -
  obtain c where run: "cap_run [Ui_start, Ui_stop, Take 0, Ui_start] (new_capture 1 1 []) = Some (Inr (c, []))"
    and two: "length (cap_threads c) = 2"
    by (simp add: cap_step_def silent_def demo_capture cap_StopCapture_def end_thread_def StopCapture_def
        DoStartCapture_message_def end_send_def)
  have "cap_reachable c" by (rule reachable_run [OF cap_reachable.start run])
  from capture_threads_pile_up [OF this] two run show ?thesis by auto
qed

end
