(* ===== verification/Thread_Pool.thy ===== *)
theory Thread_Pool
  imports Event_Runs
begin

text \<open>
  The thread pool of \<^verbatim>\<open>ftlThreadPool/ftlThreadPool.h\<close> and \<^verbatim>\<open>ftlThreadPool.hpp\<close>: jobs wait in a set
  ordered by priority and number, workers take them, a semaphore counts the jobs and another one asks
  workers to end.  The threads interleave at the sections under the locks and at the waits; a
  worker's place in \<open>_DoJobs\<close> is its program point.  A job is named by its number \<open>m_nJobIndex\<close>;
  what its \<open>Initialize\<close> returns is part of it, and its \<open>Finalize\<close> and \<open>OnCancelJob\<close> delete the
  object, as the comments of the class ask.  Counts are natural numbers, numbers of jobs stay
  below the limit of \<open>LONG\<close>; creating threads, events and semaphores succeeds.
\<close>

section \<open>Jobs and the waiting set\<close>

record job =
  jb_priority :: int
  jb_index :: int
  jb_init :: bool

definition job_less :: "job \<Rightarrow> job \<Rightarrow> bool" where
  "job_less a b =
     (if jb_priority a < jb_priority b then True
      else if jb_priority a > jb_priority b then False
      else if jb_index a < jb_index b then True
      else if jb_index a > jb_index b then False
      else True)"

definition SetJobPriority :: "int \<Rightarrow> job \<Rightarrow> int \<times> job" where
  "SetJobPriority nNewPriority j = (jb_priority j, j\<lparr>jb_priority := nNewPriority\<rparr>)"

text \<open>
  \<open>std::set::insert\<close> with this order: in front of the first greater element, unless the element
  before is not less.
\<close>

fun set_insert :: "job \<Rightarrow> job list \<Rightarrow> job list" where
  "set_insert x [] = [x]"
| "set_insert x (y # ys) =
     (if job_less x y then x # y # ys
      else if ys = [] \<or> job_less x (hd ys) then (if job_less y x then y # x # ys else y # ys)
      else y # set_insert x ys)"

section \<open>State\<close>

text \<open>Where a worker is; \<open>Get_ticket\<close>: it has taken a unit of the semaphore and will lock the waiting set.\<close>

datatype worker_pc =
    Started
  | Wait_work
  | Get_ticket
  | Taken job
  | Counted job
  | Running job
  | Run_ended job
  | Erase job
  | Check_subtract
  | Subtract
  | Leaving
  | Ended

datatype pool_log = OnJobBegin int | OnJobEnd int | Finalize int | OnJobCancel int | OnCancelJob int

text \<open>
  \<open>tp_ids\<close>: the array of thread ids, \<open>None\<close> while it is NULL (the array of handles changes with it);
  a thread's id is its position in \<open>tp_threads\<close> and one.  \<open>tp_obj\<close>: the job objects that are alive,
  with \<open>m_hEventJobStop\<close> (\<open>None\<close>: NULL, otherwise whether it is set).  \<open>tp_submitting\<close>: how many callers
  are in the second half of \<open>SubmitJob\<close>; \<open>tp_cancelling\<close>: the caller who waits in \<open>CancelJob\<close> for the
  semaphore, holding \<open>m_lockWaitingJobs\<close>.
\<close>

record pool =
  tp_min :: nat
  tp_max :: nat
  tp_job_index :: int
  tp_running_jobs :: nat
  tp_cur :: nat
  tp_running_threads :: nat
  tp_ids :: "nat list option"
  tp_threads :: "worker_pc list"
  tp_waiting :: "job list"
  tp_doing :: "int \<Rightarrow> job option"
  tp_obj :: "int \<Rightarrow> (job \<times> bool option) option"
  tp_event_stop :: bool
  tp_event_complete :: bool
  tp_event_continue :: bool
  tp_sem_jobs :: nat
  tp_sem_subtract :: nat
  tp_submitting :: nat
  tp_cancelling :: "int option"
  tp_log :: "pool_log list"

datatype pool_fault = End_iterator | Null_array | Array_overrun | Freed_job

definition CFThreadPool :: pool where
  "CFThreadPool = \<lparr>tp_min = 0, tp_max = 1, tp_job_index = 0, tp_running_jobs = 0, tp_cur = 0, tp_running_threads = 0,
     tp_ids = None, tp_threads = [], tp_waiting = [], tp_doing = (\<lambda>_. None), tp_obj = (\<lambda>_. None),
     tp_event_stop = False, tp_event_complete = True, tp_event_continue = True, tp_sem_jobs = 0, tp_sem_subtract = 0,
     tp_submitting = 0, tp_cancelling = None, tp_log = []\<rparr>"

section \<open>Operations of the pool\<close>

text \<open>One turn of the loop of \<open>_AddJobThread\<close>.\<close>

definition create_thread :: "pool \<Rightarrow> pool_fault + pool" where
  "create_thread s =
     (case tp_ids s of
        None \<Rightarrow> Inl Null_array
      | Some ids \<Rightarrow>
          if tp_cur s \<ge> length ids then Inl Array_overrun
          else Inr (s\<lparr>tp_threads := tp_threads s @ [Started], tp_cur := tp_cur s + 1,
                      tp_ids := Some (ids[tp_cur s := length (tp_threads s) + 1])\<rparr>))"

fun create_threads :: "nat \<Rightarrow> pool \<Rightarrow> pool_fault + pool" where
  "create_threads 0 s = Inr s"
| "create_threads (Suc n) s = (case create_thread s of Inl e \<Rightarrow> Inl e | Inr s \<Rightarrow> create_threads n s)"

definition AddJobThread :: "nat \<Rightarrow> pool \<Rightarrow> pool_fault + bool \<times> pool" where
  "AddJobThread n s =
     (if tp_cur s + n > tp_max s then Inr (False, s)
      else case create_threads n s of Inl e \<Rightarrow> Inl e | Inr s \<Rightarrow> Inr (True, s))"

definition tp_Start :: "nat \<Rightarrow> nat \<Rightarrow> pool \<Rightarrow> pool_fault + bool \<times> pool" where
  "tp_Start nMin nMax s =
     (let s = s\<lparr>tp_min := nMin, tp_max := nMax, tp_event_stop := False, tp_event_complete := False, tp_event_continue := True\<rparr> in
      if tp_ids s \<noteq> None then Inr (True, s)
      else case AddJobThread nMin (s\<lparr>tp_ids := Some (replicate nMax 0)\<rparr>) of
             Inl e \<Rightarrow> Inl e
           | Inr (_, s) \<Rightarrow> Inr (True, s))"

definition tp_Stop :: "pool \<Rightarrow> bool \<times> pool" where
  "tp_Stop s = (True, s\<lparr>tp_event_stop := True\<rparr>)"

text \<open>\<open>Wait\<close> returns when all threads have ended or the time is over.\<close>

definition tp_Wait :: "pool \<Rightarrow> bool \<times> pool" where
  "tp_Wait s = (tp_event_complete s, s\<lparr>tp_ids := None, tp_cur := 0\<rparr>)"

definition tp_Pause :: "pool \<Rightarrow> bool \<times> pool" where
  "tp_Pause s = (True, s\<lparr>tp_event_continue := False\<rparr>)"

definition tp_Resume :: "pool \<Rightarrow> bool \<times> pool" where
  "tp_Resume s = (True, s\<lparr>tp_event_continue := True\<rparr>)"

definition HadRequestStop :: "pool \<Rightarrow> bool" where
  "HadRequestStop s = tp_event_stop s"

definition HadRequestPause :: "pool \<Rightarrow> bool" where
  "HadRequestPause s = (\<not> tp_event_continue s)"

text \<open>What is done with a job that is cancelled before it ran.\<close>

definition cancel_job :: "job \<Rightarrow> pool \<Rightarrow> pool" where
  "cancel_job j s = s\<lparr>tp_log := tp_log s @ [OnJobCancel (jb_index j), OnCancelJob (jb_index j)],
     tp_obj := (tp_obj s)(jb_index j := None)\<rparr>"

text \<open>
  The loop of \<open>ClearUndoWork\<close>: it waits for a unit of the semaphore as long as its time-out and goes on
  without one.
\<close>

fun clear_loop :: "job list \<Rightarrow> pool \<Rightarrow> pool" where
  "clear_loop [] s = s\<lparr>tp_waiting := []\<rparr>"
| "clear_loop (j # js) s = clear_loop js (cancel_job j (s\<lparr>tp_sem_jobs := tp_sem_jobs s - 1\<rparr>))"

definition ClearUndoWork :: "pool \<Rightarrow> pool" where
  "ClearUndoWork s = clear_loop (tp_waiting s) s"

text \<open>\<open>StopAndWait\<close> without interleaving, and \<open>_DestroyPool\<close>, which then closes the handles.\<close>

definition tp_StopAndWait :: "pool \<Rightarrow> bool \<times> pool" where
  "tp_StopAndWait s = tp_Wait (snd (tp_Stop s))"

definition DestroyPool :: "pool \<Rightarrow> pool" where
  "DestroyPool s = ClearUndoWork s"

text \<open>\<open>SubmitJob\<close> before and after it lets other threads run.\<close>

definition SubmitJob_insert :: "int \<Rightarrow> bool \<Rightarrow> pool \<Rightarrow> int \<times> pool" where
  "SubmitJob_insert priority init s =
     (let i = tp_job_index s + 1; j = \<lparr>jb_priority = priority, jb_index = i, jb_init = init\<rparr> in
      (i, s\<lparr>tp_job_index := i, tp_obj := (tp_obj s)(i \<mapsto> (j, None)), tp_waiting := set_insert j (tp_waiting s),
            tp_sem_jobs := tp_sem_jobs s + 1, tp_submitting := tp_submitting s + 1\<rparr>))"

definition SubmitJob_threads :: "pool \<Rightarrow> pool_fault + bool \<times> pool" where
  "SubmitJob_threads s =
     (let s = s\<lparr>tp_submitting := tp_submitting s - 1\<rparr> in
      if tp_running_jobs s = tp_cur s \<and> tp_cur s < tp_max s then AddJobThread 1 s else Inr (True, s))"

text \<open>The branch of \<open>CancelJob\<close> for a job that waits, once the unit of the semaphore is there.\<close>

definition cancel_waiting :: "int \<Rightarrow> pool \<Rightarrow> pool" where
  "cancel_waiting i s =
     (case find (\<lambda>j. jb_index j = i) (tp_waiting s) of
        None \<Rightarrow> s
      | Some j \<Rightarrow> (cancel_job j (s\<lparr>tp_sem_jobs := tp_sem_jobs s - 1\<rparr>))
                  \<lparr>tp_waiting := remove1 j (tp_waiting s), tp_cancelling := None\<rparr>)"

text \<open>\<open>SetEvent\<close> on a NULL handle fails and changes nothing.\<close>

definition RequestCancel :: "int \<Rightarrow> pool \<Rightarrow> pool_fault + pool" where
  "RequestCancel i s =
     (case tp_obj s i of
        None \<Rightarrow> Inl Freed_job
      | Some (j, None) \<Rightarrow> Inr s
      | Some (j, Some _) \<Rightarrow> Inr (s\<lparr>tp_obj := (tp_obj s)(i \<mapsto> (j, Some True))\<rparr>))"

text \<open>Without a result, \<open>CancelJob\<close> is still waiting.\<close>

definition CancelJob :: "int \<Rightarrow> pool \<Rightarrow> pool_fault + bool option \<times> pool" where
  "CancelJob i s =
     (if i \<le> 0 \<or> i > tp_job_index s then Inr (Some False, s)
      else if (\<exists>j \<in> set (tp_waiting s). jb_index j = i) then
        (if tp_sem_jobs s > 0 then Inr (Some True, cancel_waiting i s)
         else Inr (None, s\<lparr>tp_cancelling := Some i\<rparr>))
      else
        case tp_doing s i of
          None \<Rightarrow> Inr (Some True, s)
        | Some j \<Rightarrow> (case RequestCancel i s of Inl e \<Rightarrow> Inl e | Inr s \<Rightarrow> Inr (Some True, s)))"

text \<open>\<open>GetJobWaitType\<close> of a job that asks and does not wait (time-out 0).\<close>

datatype wait_type = ftwtStop | ftwtContinue | ftwtTimeOut

definition GetJobWaitType :: "bool option \<Rightarrow> pool \<Rightarrow> wait_type" where
  "GetJobWaitType job_stop s =
     (if job_stop = Some True \<or> tp_event_stop s then ftwtStop
      else if tp_event_continue s then ftwtContinue
      else ftwtTimeOut)"

section \<open>Workers\<close>

definition set_pc :: "nat \<Rightarrow> worker_pc \<Rightarrow> pool \<Rightarrow> pool" where
  "set_pc t pc s = s\<lparr>tp_threads := (tp_threads s)[t := pc]\<rparr>"

text \<open>\<open>_GetJob\<close>: the wait answers the first object that is signalled; \<open>None\<close> while none is.\<close>

definition GetJob_wait :: "nat \<Rightarrow> pool \<Rightarrow> pool option" where
  "GetJob_wait t s =
     (if tp_event_stop s then Some (set_pc t Leaving s)
      else if tp_sem_jobs s > 0 then Some (set_pc t Get_ticket (s\<lparr>tp_sem_jobs := tp_sem_jobs s - 1\<rparr>))
      else if tp_sem_subtract s > 0 then Some (set_pc t Subtract (s\<lparr>tp_sem_subtract := tp_sem_subtract s - 1\<rparr>))
      else None)"

definition GetJob_take :: "nat \<Rightarrow> pool \<Rightarrow> pool_fault + pool" where
  "GetJob_take t s =
     (case tp_waiting s of
        [] \<Rightarrow> Inl End_iterator
      | j # js \<Rightarrow>
          Inr (set_pc t (Taken j) (s\<lparr>tp_waiting := js,
            tp_doing := (if tp_doing s (jb_index j) = None then (tp_doing s)(jb_index j \<mapsto> j) else tp_doing s)\<rparr>)))"

text \<open>Running a job: \<open>Initialize\<close> with what comes before \<open>Run\<close>, and what comes after \<open>Run\<close>.\<close>

definition begin_job :: "nat \<Rightarrow> job \<Rightarrow> pool \<Rightarrow> pool" where
  "begin_job t j s =
     (if jb_init j
      then set_pc t (Running j) (s\<lparr>tp_obj := (tp_obj s)(jb_index j \<mapsto> (j, Some False)),
             tp_log := tp_log s @ [OnJobBegin (jb_index j)]\<rparr>)
      else set_pc t (Run_ended j) s)"

definition end_job :: "nat \<Rightarrow> job \<Rightarrow> pool \<Rightarrow> pool" where
  "end_job t j s = set_pc t (Run_ended j) (s\<lparr>tp_obj := (tp_obj s)(jb_index j := None),
     tp_log := tp_log s @ [OnJobEnd (jb_index j), Finalize (jb_index j)]\<rparr>)"

definition check_subtract :: "nat \<Rightarrow> pool \<Rightarrow> pool" where
  "check_subtract t s =
     (let bNeedSubtractThread = (tp_waiting s = [] \<and> tp_cur s > tp_min s \<and> \<not> HadRequestStop s) in
      set_pc t Wait_work (if bNeedSubtractThread then s\<lparr>tp_sem_subtract := tp_sem_subtract s + 1\<rparr> else s))"

text \<open>The search for the own id, and the last thread moved to its place.\<close>

fun find_id :: "nat \<Rightarrow> nat list \<Rightarrow> nat" where
  "find_id x [] = 0"
| "find_id x (y # ys) = (if y = x then 0 else Suc (find_id x ys))"

definition subtract_thread :: "nat \<Rightarrow> pool \<Rightarrow> pool" where
  "subtract_thread t s =
     (case tp_ids s of
        None \<Rightarrow> set_pc t Leaving s
      | Some ids \<Rightarrow>
          let index = find_id (t + 1) (take (tp_cur s) ids) in
          if index < tp_cur s
          then set_pc t Leaving (s\<lparr>tp_ids := Some ((ids[index := ids ! (tp_cur s - 1)])[tp_cur s - 1 := 0]), tp_cur := tp_cur s - 1\<rparr>)
          else set_pc t Leaving s)"

definition leave_pool :: "nat \<Rightarrow> pool \<Rightarrow> pool" where
  "leave_pool t s =
     (let n = tp_running_threads s - 1; s = set_pc t Ended (s\<lparr>tp_running_threads := n\<rparr>) in
      if n = 0 then s\<lparr>tp_event_complete := True\<rparr> else s)"

text \<open>One step of \<open>JobThreadProc\<close>; the sections under \<open>m_lockWaitingJobs\<close> wait for a caller that holds it.\<close>

fun worker_step :: "nat \<Rightarrow> worker_pc \<Rightarrow> pool \<Rightarrow> (pool_fault + pool) option" where
  "worker_step t Started s = Some (Inr (set_pc t Wait_work (s\<lparr>tp_running_threads := tp_running_threads s + 1\<rparr>)))"
| "worker_step t Wait_work s = map_option Inr (GetJob_wait t s)"
| "worker_step t Get_ticket s = (if tp_cancelling s \<noteq> None then None else Some (GetJob_take t s))"
| "worker_step t (Taken j) s = Some (Inr (set_pc t (Counted j) (s\<lparr>tp_running_jobs := tp_running_jobs s + 1\<rparr>)))"
| "worker_step t (Counted j) s = Some (Inr (begin_job t j s))"
| "worker_step t (Running j) s = Some (Inr (end_job t j s))"
| "worker_step t (Run_ended j) s = Some (Inr (set_pc t (Erase j) (s\<lparr>tp_running_jobs := tp_running_jobs s - 1\<rparr>)))"
| "worker_step t (Erase j) s = Some (Inr (set_pc t Check_subtract (s\<lparr>tp_doing := (tp_doing s)(jb_index j := None)\<rparr>)))"
| "worker_step t Check_subtract s = (if tp_cancelling s \<noteq> None then None else Some (Inr (check_subtract t s)))"
| "worker_step t Subtract s = Some (Inr (subtract_thread t s))"
| "worker_step t Leaving s = Some (Inr (leave_pool t s))"
| "worker_step t Ended s = None"

lemma wait_stepE:
  assumes "worker_step t Wait_work s = Some (Inr s')"
  obtains (stop) "s' = set_pc t Leaving s"
    | (job) "s' = set_pc t Get_ticket (s\<lparr>tp_sem_jobs := tp_sem_jobs s - 1\<rparr>)"
    | (subtract) "s' = set_pc t Subtract (s\<lparr>tp_sem_subtract := tp_sem_subtract s - 1\<rparr>)"
  using assms by (auto simp: GetJob_wait_def split: if_splits)

section \<open>Interleaving\<close>

datatype pool_event =
    Api_start nat nat
  | Api_stop
  | Api_wait
  | Api_pause
  | Api_resume
  | Api_clear
  | Api_submit int bool
  | Api_submit_threads
  | Api_cancel int
  | Api_cancel_go
  | Worker nat

definition keep_pool :: "pool_fault + 'a \<times> pool \<Rightarrow> pool_fault + pool" where
  "keep_pool r = (case r of Inl e \<Rightarrow> Inl e | Inr (_, s) \<Rightarrow> Inr s)"

text \<open>\<open>None\<close>: the event cannot happen now.\<close>

definition pool_step :: "pool_event \<Rightarrow> pool \<Rightarrow> (pool_fault + pool) option" where
  "pool_step ev s =
     (case ev of
        Api_start nMin nMax \<Rightarrow> Some (keep_pool (tp_Start nMin nMax s))
      | Api_stop \<Rightarrow> Some (Inr (snd (tp_Stop s)))
      | Api_wait \<Rightarrow> Some (Inr (snd (tp_Wait s)))
      | Api_pause \<Rightarrow> Some (Inr (snd (tp_Pause s)))
      | Api_resume \<Rightarrow> Some (Inr (snd (tp_Resume s)))
      | Api_clear \<Rightarrow> if tp_cancelling s \<noteq> None then None else Some (Inr (ClearUndoWork s))
      | Api_submit priority init \<Rightarrow>
          if tp_cancelling s \<noteq> None then None else Some (Inr (snd (SubmitJob_insert priority init s)))
      | Api_submit_threads \<Rightarrow> if tp_submitting s = 0 then None else Some (keep_pool (SubmitJob_threads s))
      | Api_cancel i \<Rightarrow> if tp_cancelling s \<noteq> None \<and> 0 < i \<and> i \<le> tp_job_index s then None else Some (keep_pool (CancelJob i s))
      | Api_cancel_go \<Rightarrow>
          (case tp_cancelling s of
             Some i \<Rightarrow> if tp_sem_jobs s > 0 then Some (Inr (cancel_waiting i s)) else None
           | None \<Rightarrow> None)
      | Worker t \<Rightarrow> if t < length (tp_threads s) then worker_step t (tp_threads s ! t) s else None)"

fun pool_run :: "pool_event list \<Rightarrow> pool \<Rightarrow> (pool_fault + pool) option" where
  "pool_run [] s = Some (Inr s)"
| "pool_run (ev # evs) s =
     (case pool_step ev s of
        Some (Inr s) \<Rightarrow> pool_run evs s
      | r \<Rightarrow> r)"

interpretation pool_runs: event_runs pool_step pool_run
  by unfold_locales (auto split: option.splits sum.splits)

section \<open>The order of the waiting set\<close>

definition before :: "job \<Rightarrow> job \<Rightarrow> bool" where
  "before a b \<longleftrightarrow> jb_priority a < jb_priority b \<or> jb_priority a = jb_priority b \<and> jb_index a < jb_index b"

lemma job_less_before: "jb_index a \<noteq> jb_index b \<Longrightarrow> job_less a b = before a b"
  by (auto simp: job_less_def before_def)

lemma before_trans: "before a b \<Longrightarrow> before b c \<Longrightarrow> before a c"
  by (auto simp: before_def)

lemma before_total: "jb_index a \<noteq> jb_index b \<Longrightarrow> before a b \<or> before b a"
  by (auto simp: before_def)

lemma before_asym: "before a b \<Longrightarrow> \<not> before b a"
  by (auto simp: before_def)

lemma before_distinct: "sorted_wrt before xs \<Longrightarrow> distinct xs"
  by (induction xs) (auto simp: before_def)

lemma sorted_wrt_remove1: "sorted_wrt P xs \<Longrightarrow> sorted_wrt P (remove1 x xs)"
  by (induction xs) (auto dest: notin_set_remove1 [rotated])

lemma set_insert_new:
  assumes "\<forall>y \<in> set ys. jb_index y \<noteq> jb_index x"
  shows "set (set_insert x ys) = insert x (set ys)" and "length (set_insert x ys) = Suc (length ys)"
proof -
  have "set (set_insert x ys) = insert x (set ys) \<and> length (set_insert x ys) = Suc (length ys)"
    using assms
  proof (induction x ys rule: set_insert.induct)
    case (2 x y ys)
    then have "job_less x y \<or> job_less y x"
      by (metis before_total job_less_before list.set_intros(1))
    with 2 show ?case by auto
  qed simp
  then show "set (set_insert x ys) = insert x (set ys)" "length (set_insert x ys) = Suc (length ys)" by simp_all
qed

lemma set_insert_sorted:
  assumes "sorted_wrt before ys" and "\<forall>y \<in> set ys. jb_index y \<noteq> jb_index x"
  shows "sorted_wrt before (set_insert x ys)"
  using assms
proof (induction x ys rule: set_insert.induct)
  case (2 x y ys)
  have less: "job_less x y = before x y" "job_less y x = before y x"
    and tail: "\<forall>z \<in> set ys. jb_index z \<noteq> jb_index x"
    and s: "sorted_wrt before ys" "\<forall>z \<in> set ys. before y z"
    using 2 by (auto simp: job_less_before)
  show ?case
  proof (cases "before x y")
    case True
    with 2 less show ?thesis by (auto intro: before_trans)
  next
    case False
    then have yx: "before y x" using before_total [of x y] 2 by auto
    show ?thesis
    proof (cases "ys = [] \<or> job_less x (hd ys)")
      case True
      then have "\<forall>z \<in> set ys. before x z"
        using s tail by (cases ys) (auto simp: job_less_before intro: before_trans)
      with True False less yx s show ?thesis by auto
    next
      case later: False
      then have ih: "sorted_wrt before (set_insert x ys)"
        using "2.IH" False less later s tail by auto
      have mem: "set (set_insert x ys) = insert x (set ys)" by (rule set_insert_new [OF tail])
      have "\<forall>z \<in> set (set_insert x ys). before y z" using mem s(2) yx by auto
      with ih later False less show ?thesis by auto
    qed
  qed
qed simp

section \<open>The semaphore counts the waiting jobs\<close>

definition count_pc :: "(worker_pc \<Rightarrow> bool) \<Rightarrow> pool \<Rightarrow> nat" where
  "count_pc P s = length (filter P (tp_threads s))"

lemma count_update:
  "t < length xs \<Longrightarrow> length (filter P (xs[t := y])) + of_bool (P (xs ! t)) = length (filter P xs) + of_bool (P y)"
proof (induction xs arbitrary: t)
  case (Cons x xs)
  then show ?case by (cases t) auto
qed simp

lemma count_set_pc:
  "t < length (tp_threads s) \<Longrightarrow> count_pc P (set_pc t pc s) + of_bool (P (tp_threads s ! t)) = count_pc P s + of_bool (P pc)"
  by (simp add: count_pc_def set_pc_def count_update)

lemma count_pos: "t < length (tp_threads s) \<Longrightarrow> P (tp_threads s ! t) \<Longrightarrow> 0 < count_pc P s"
  by (auto simp: count_pc_def filter_empty_conv)

abbreviation tickets :: "pool \<Rightarrow> nat" where
  "tickets \<equiv> count_pc (\<lambda>pc. pc = Get_ticket)"

definition sem_ok :: "pool \<Rightarrow> bool" where
  "sem_ok s \<longleftrightarrow> length (tp_waiting s) = tp_sem_jobs s + tickets s \<and> sorted_wrt before (tp_waiting s)
     \<and> (\<forall>j \<in> set (tp_waiting s). 0 < jb_index j \<and> jb_index j \<le> tp_job_index s)
     \<and> (\<forall>i. tp_cancelling s = Some i \<longrightarrow> i \<in> jb_index ` set (tp_waiting s)) \<and> 0 \<le> tp_job_index s"

lemma set_pc_fields [simp]:
  "tp_waiting (set_pc t pc s) = tp_waiting s" "tp_sem_jobs (set_pc t pc s) = tp_sem_jobs s"
  "tp_job_index (set_pc t pc s) = tp_job_index s" "tp_cancelling (set_pc t pc s) = tp_cancelling s"
  "tp_doing (set_pc t pc s) = tp_doing s" "tp_obj (set_pc t pc s) = tp_obj s" "tp_log (set_pc t pc s) = tp_log s"
  "tp_running_jobs (set_pc t pc s) = tp_running_jobs s" "tp_running_threads (set_pc t pc s) = tp_running_threads s"
  "tp_ids (set_pc t pc s) = tp_ids s" "tp_cur (set_pc t pc s) = tp_cur s" "tp_max (set_pc t pc s) = tp_max s"
  "tp_min (set_pc t pc s) = tp_min s" "tp_sem_subtract (set_pc t pc s) = tp_sem_subtract s"
  "tp_event_stop (set_pc t pc s) = tp_event_stop s" "tp_submitting (set_pc t pc s) = tp_submitting s"
  "tp_threads (set_pc t pc s) = (tp_threads s)[t := pc]"
  by (simp_all add: set_pc_def)

text \<open>The steps of a worker that leave the waiting set and its semaphore alone.\<close>

lemma sem_ok_pc:
  assumes "sem_ok s" and "t < length (tp_threads s)" and "tp_threads s ! t \<noteq> Get_ticket" and "pc \<noteq> Get_ticket"
    and "tp_waiting s' = tp_waiting s" "tp_sem_jobs s' = tp_sem_jobs s" "tp_job_index s' = tp_job_index s"
      "tp_cancelling s' = tp_cancelling s" "tp_threads s' = (tp_threads s)[t := pc]"
  shows "sem_ok s'"
  using assms count_update [OF assms(2), of "\<lambda>pc. pc = Get_ticket" pc] by (simp add: sem_ok_def count_pc_def)

lemma worker_keeps:
  assumes "worker_step t pc s = Some r" and "pc \<noteq> Get_ticket" and "pc = Wait_work \<longrightarrow> tp_event_stop s \<or> tp_sem_jobs s = 0"
  shows "\<exists>s' pc'. r = Inr s' \<and> pc' \<noteq> Get_ticket \<and> tp_threads s' = (tp_threads s)[t := pc'] \<and> tp_waiting s' = tp_waiting s
    \<and> tp_sem_jobs s' = tp_sem_jobs s \<and> tp_job_index s' = tp_job_index s \<and> tp_cancelling s' = tp_cancelling s"
proof (cases pc)
  case Wait_work
  with assms show ?thesis by (fastforce simp: GetJob_wait_def split: if_splits)
next
  case (Counted j)
  with assms show ?thesis by (cases "jb_init j") (fastforce simp: begin_job_def)+
next
  case Subtract
  with assms show ?thesis by (cases "tp_ids s") (fastforce simp: subtract_thread_def Let_def split: if_splits)+
next
  case Check_subtract
  with assms show ?thesis by (fastforce simp: check_subtract_def Let_def split: if_splits)
qed (use assms in \<open>force simp: end_job_def leave_pool_def Let_def split: if_splits\<close>)+

lemma sem_ok_worker:
  assumes "sem_ok s" and "t < length (tp_threads s)" and "worker_step t (tp_threads s ! t) s = Some r"
  shows "\<exists>s'. r = Inr s' \<and> sem_ok s'"
proof -
  consider "tp_threads s ! t = Get_ticket" | "tp_threads s ! t = Wait_work" "\<not> tp_event_stop s" "0 < tp_sem_jobs s"
    | "tp_threads s ! t \<noteq> Get_ticket" "tp_threads s ! t = Wait_work \<longrightarrow> tp_event_stop s \<or> tp_sem_jobs s = 0" by fastforce
  then show ?thesis
  proof cases
    case 1
    have "0 < tickets s" by (rule count_pos [OF assms(2)]) (simp add: 1)
    then obtain j js where w: "tp_waiting s = j # js" using assms(1) by (cases "tp_waiting s") (auto simp: sem_ok_def)
    have free: "tp_cancelling s = None" using assms(3) 1 by (auto split: if_splits)
    with w 1 assms count_update [OF assms(2), of "\<lambda>pc. pc = Get_ticket" "Taken j"] show ?thesis
      by (auto simp: GetJob_take_def sem_ok_def count_pc_def)
  next
    case 2
    with assms count_update [OF assms(2), of "\<lambda>pc. pc = Get_ticket" Get_ticket] show ?thesis
      by (auto simp: GetJob_wait_def sem_ok_def count_pc_def)
  next
    case 3
    from worker_keeps [OF assms(3) 3] obtain s' pc' where s': "r = Inr s'" "pc' \<noteq> Get_ticket"
      "tp_threads s' = (tp_threads s)[t := pc']" "tp_waiting s' = tp_waiting s" "tp_sem_jobs s' = tp_sem_jobs s"
      "tp_job_index s' = tp_job_index s" "tp_cancelling s' = tp_cancelling s" by blast
    then have "sem_ok s'" using sem_ok_pc [OF assms(1,2) 3(1) s'(2)] by simp
    with s'(1) show ?thesis by blast
  qed
qed

text \<open>
  What a caller has to see to: the pool is started once before it is stopped and waited for, no job
  is submitted to a pool that is not started, \<open>ClearUndoWork\<close> finds no worker on its way to a job, and
  \<open>CancelJob\<close> no job that was deleted and not yet taken out of the table.
\<close>

definition orderly :: "pool_event \<Rightarrow> pool \<Rightarrow> bool" where
  "orderly ev s =
     (case ev of
        Api_start nMin nMax \<Rightarrow> tp_ids s = None \<and> tp_cur s = 0
      | Api_clear \<Rightarrow> tickets s = 0
      | Api_submit_threads \<Rightarrow> tp_ids s \<noteq> None
      | Api_cancel i \<Rightarrow> tp_doing s i = None \<or> tp_obj s i \<noteq> None
      | _ \<Rightarrow> True)"

inductive pool_reachable :: "pool \<Rightarrow> bool" where
  init: "pool_reachable CFThreadPool"
| next_event: "pool_reachable s \<Longrightarrow> orderly ev s \<Longrightarrow> pool_step ev s = Some (Inr s') \<Longrightarrow> pool_reachable s'"

text \<open>New threads.\<close>

lemma create_threads_spec:
  "create_threads n s = Inr s' \<Longrightarrow> \<exists>ids. map_option length ids = map_option length (tp_ids s)
    \<and> s' = s\<lparr>tp_threads := tp_threads s @ replicate n Started, tp_cur := tp_cur s + n, tp_ids := ids\<rparr>"
proof (induction n arbitrary: s)
  case (Suc n)
  from Suc.prems obtain ids0 where i: "tp_ids s = Some ids0" "tp_cur s < length ids0"
    and r: "create_threads n (s\<lparr>tp_threads := tp_threads s @ [Started], tp_cur := tp_cur s + 1,
        tp_ids := Some (ids0[tp_cur s := length (tp_threads s) + 1])\<rparr>) = Inr s'"
    by (auto simp: create_thread_def split: option.splits if_splits)
  from Suc.IH [OF r] show ?case using i by (auto simp: replicate_app_Cons_same)
qed (auto intro!: exI [of _ "tp_ids s'"])

lemma create_threads_ok:
  "tp_ids s = Some ids \<Longrightarrow> tp_cur s + n \<le> length ids \<Longrightarrow> \<exists>s'. create_threads n s = Inr s'"
proof (induction n arbitrary: s ids)
  case (Suc n)
  then show ?case by (auto simp: create_thread_def)
qed simp

text \<open>A pool that differs in nothing but new threads, their array and the settings.\<close>

definition same_jobs :: "pool \<Rightarrow> pool \<Rightarrow> bool" where
  "same_jobs s s' \<longleftrightarrow> tp_waiting s' = tp_waiting s \<and> tp_sem_jobs s' = tp_sem_jobs s \<and> tp_job_index s' = tp_job_index s
     \<and> tp_cancelling s' = tp_cancelling s \<and> tp_doing s' = tp_doing s \<and> tp_obj s' = tp_obj s \<and> tp_log s' = tp_log s
     \<and> tp_running_jobs s' = tp_running_jobs s \<and> tp_running_threads s' = tp_running_threads s
     \<and> (\<exists>n. tp_threads s' = tp_threads s @ replicate n Started)"

lemma AddJobThread_same: "AddJobThread n s = Inr (b, s') \<Longrightarrow> same_jobs s s'"
  by (auto simp: AddJobThread_def same_jobs_def dest!: create_threads_spec split: if_splits sum.splits intro: exI [of _ 0])

lemma same_jobs_trans: "same_jobs s s1 \<Longrightarrow> same_jobs s1 s2 \<Longrightarrow> same_jobs s s2"
  by (auto simp: same_jobs_def replicate_add [symmetric])

lemma same_jobs_refl: "same_jobs s s"
  by (auto simp: same_jobs_def intro: exI [of _ 0])

definition about_threads :: "pool_event \<Rightarrow> bool" where
  "about_threads ev \<longleftrightarrow> (case ev of Api_start nMin nMax \<Rightarrow> True | Api_stop \<Rightarrow> True | Api_wait \<Rightarrow> True | Api_pause \<Rightarrow> True
     | Api_resume \<Rightarrow> True | Api_submit_threads \<Rightarrow> True | _ \<Rightarrow> False)"

lemma same_jobs_change:
  "same_jobs (s\<lparr>tp_min := a, tp_max := b, tp_event_stop := c, tp_event_complete := d, tp_event_continue := e, tp_ids := f\<rparr>) s' = same_jobs s s'"
  "same_jobs (s\<lparr>tp_min := a, tp_max := b, tp_event_stop := c, tp_event_complete := d, tp_event_continue := e\<rparr>) s' = same_jobs s s'"
  "same_jobs (s\<lparr>tp_submitting := g\<rparr>) s' = same_jobs s s'"
  by (simp_all add: same_jobs_def)

lemma about_threads_same:
  assumes "about_threads ev" and "pool_step ev s = Some (Inr s')"
  shows "same_jobs s s'"
proof (cases ev)
  case (Api_start nMin nMax)
  with assms(2) show ?thesis
    by (auto simp: pool_step_def tp_Start_def keep_pool_def Let_def same_jobs_change dest!: AddJobThread_same
        split: if_splits sum.splits) (auto simp: same_jobs_def intro: exI [of _ 0])
next
  case Api_submit_threads
  with assms(2) show ?thesis
    by (auto simp: pool_step_def SubmitJob_threads_def keep_pool_def Let_def same_jobs_change dest!: AddJobThread_same
        split: if_splits sum.splits) (auto simp: same_jobs_def intro: exI [of _ 0])
qed (use assms in \<open>auto simp: about_threads_def pool_step_def tp_Stop_def tp_Wait_def tp_Pause_def tp_Resume_def same_jobs_def
      intro: exI [of _ 0]\<close>)

lemma sem_ok_same: "sem_ok s \<Longrightarrow> same_jobs s s' \<Longrightarrow> sem_ok s'"
  by (auto simp: sem_ok_def same_jobs_def count_pc_def filter_replicate)

section \<open>Every job is in one place\<close>

text \<open>The jobs whose objects the pool has given back, in order.\<close>

fun ends :: "pool_log list \<Rightarrow> int list" where
  "ends [] = []"
| "ends (Finalize i # l) = i # ends l"
| "ends (OnCancelJob i # l) = i # ends l"
| "ends (_ # l) = ends l"

lemma ends_append [simp]: "ends (l @ m) = ends l @ ends m"
  by (induction l rule: ends.induct) simp_all

text \<open>The job a worker has taken and not yet erased from the table, and the state of its object meanwhile.\<close>

fun held :: "worker_pc \<Rightarrow> job option" where
  "held (Taken j) = Some j"
| "held (Counted j) = Some j"
| "held (Running j) = Some j"
| "held (Run_ended j) = Some j"
| "held (Erase j) = Some j"
| "held _ = None"

fun obj_ok :: "worker_pc \<Rightarrow> (job \<times> bool option) option \<Rightarrow> bool" where
  "obj_ok (Taken j) ob \<longleftrightarrow> ob = Some (j, None)"
| "obj_ok (Counted j) ob \<longleftrightarrow> ob = Some (j, None)"
| "obj_ok (Running j) ob \<longleftrightarrow> jb_init j \<and> (\<exists>b. ob = Some (j, Some b))"
| "obj_ok (Run_ended j) ob \<longleftrightarrow> ob = (if jb_init j then None else Some (j, None))"
| "obj_ok (Erase j) ob \<longleftrightarrow> ob = (if jb_init j then None else Some (j, None))"
| "obj_ok _ ob \<longleftrightarrow> True"

definition hold :: "pool \<Rightarrow> nat \<Rightarrow> job option" where
  "hold s t = (if t < length (tp_threads s) then held (tp_threads s ! t) else None)"

definition jobs_ok :: "pool \<Rightarrow> bool" where
  "jobs_ok s \<longleftrightarrow>
     (\<forall>i j. tp_doing s i = Some j \<longleftrightarrow> jb_index j = i \<and> (\<exists>t. hold s t = Some j))
     \<and> (\<forall>t u j k. hold s t = Some j \<longrightarrow> hold s u = Some k \<longrightarrow> jb_index j = jb_index k \<longrightarrow> t = u)
     \<and> (\<forall>t j. hold s t = Some j \<longrightarrow> 0 < jb_index j \<and> jb_index j \<le> tp_job_index s
          \<and> obj_ok (tp_threads s ! t) (tp_obj s (jb_index j)))
     \<and> (\<forall>j \<in> set (tp_waiting s). tp_obj s (jb_index j) = Some (j, None) \<and> tp_doing s (jb_index j) = None)
     \<and> distinct (ends (tp_log s)) \<and> set (ends (tp_log s)) = {i. 0 < i \<and> i \<le> tp_job_index s \<and> tp_obj s i = None}
     \<and> (\<forall>i j e. tp_obj s i = Some (j, e) \<longrightarrow> 0 < i \<and> i \<le> tp_job_index s \<and> jb_index j = i
          \<and> (j \<in> set (tp_waiting s) \<or> tp_doing s i = Some j \<or> \<not> jb_init j))"

lemma jobs_okD:
  assumes "jobs_ok s"
  shows "\<And>i j. tp_doing s i = Some j \<longleftrightarrow> jb_index j = i \<and> (\<exists>t. hold s t = Some j)"
    and "\<And>t u j k. hold s t = Some j \<Longrightarrow> hold s u = Some k \<Longrightarrow> jb_index j = jb_index k \<Longrightarrow> t = u"
    and "\<And>t j. hold s t = Some j \<Longrightarrow> 0 < jb_index j \<and> jb_index j \<le> tp_job_index s \<and> obj_ok (tp_threads s ! t) (tp_obj s (jb_index j))"
    and "\<And>j. j \<in> set (tp_waiting s) \<Longrightarrow> tp_obj s (jb_index j) = Some (j, None) \<and> tp_doing s (jb_index j) = None"
    and "distinct (ends (tp_log s))" and "set (ends (tp_log s)) = {i. 0 < i \<and> i \<le> tp_job_index s \<and> tp_obj s i = None}"
    and "\<And>i j e. tp_obj s i = Some (j, e) \<Longrightarrow> 0 < i \<and> i \<le> tp_job_index s \<and> jb_index j = i
          \<and> (j \<in> set (tp_waiting s) \<or> tp_doing s i = Some j \<or> \<not> jb_init j)"
  using assms unfolding jobs_ok_def by blast+

lemma hold_pc:
  "tp_threads s' = (tp_threads s)[t := pc] \<Longrightarrow> t < length (tp_threads s) \<Longrightarrow> hold s' = (hold s)(t := held pc)"
  by (auto simp: hold_def fun_eq_iff)

lemma hold_same: "same_jobs s s' \<Longrightarrow> hold s' = hold s"
  by (auto simp: same_jobs_def hold_def fun_eq_iff nth_append)

lemma jobs_ok_cong:
  assumes "jobs_ok s" and "hold s' = hold s" and "\<And>t j. hold s t = Some j \<Longrightarrow> tp_threads s' ! t = tp_threads s ! t"
    and "tp_waiting s' = tp_waiting s" "tp_job_index s' = tp_job_index s" "tp_doing s' = tp_doing s" "tp_obj s' = tp_obj s"
      "tp_log s' = tp_log s"
  shows "jobs_ok s'"
proof -
  note D = jobs_okD [OF assms(1)]
  show ?thesis unfolding jobs_ok_def assms(2,4-8)
  proof (intro conjI allI impI ballI)
    show "\<And>i j. (tp_doing s i = Some j) = (jb_index j = i \<and> (\<exists>t. hold s t = Some j))" by (rule D(1))
    show "\<And>t u j k. hold s t = Some j \<Longrightarrow> hold s u = Some k \<Longrightarrow> jb_index j = jb_index k \<Longrightarrow> t = u" by (rule D(2))
    show "\<And>t j. hold s t = Some j \<Longrightarrow> obj_ok (tp_threads s' ! t) (tp_obj s (jb_index j))"
      using D(3) assms(3) by simp
  qed (use D(3-7) in blast)+
qed

lemma jobs_ok_same:
  assumes "jobs_ok s" and same: "same_jobs s s'"
  shows "jobs_ok s'"
proof (rule jobs_ok_cong [OF assms(1) hold_same [OF same]])
  show "hold s t = Some j \<Longrightarrow> tp_threads s' ! t = tp_threads s ! t" for t j
    using same by (auto simp: same_jobs_def hold_def nth_append split: if_splits)
qed (use same in \<open>simp_all add: same_jobs_def\<close>)

text \<open>A step of a worker that holds no job before and after.\<close>

lemma jobs_ok_idle:
  assumes "jobs_ok s" and "t < length (tp_threads s)" and "held (tp_threads s ! t) = None" and "held pc = None"
    and "tp_waiting s' = tp_waiting s" "tp_job_index s' = tp_job_index s" "tp_doing s' = tp_doing s" "tp_obj s' = tp_obj s"
      "tp_log s' = tp_log s" "tp_threads s' = (tp_threads s)[t := pc]"
  shows "jobs_ok s'"
proof (rule jobs_ok_cong [OF assms(1)])
  show "hold s' = hold s" using hold_pc [OF assms(10,2)] assms(2-4) by (auto simp: fun_eq_iff hold_def)
  show "hold s u = Some j \<Longrightarrow> tp_threads s' ! u = tp_threads s ! u" for u j
    using assms(3,10) by (cases "u = t") (auto simp: hold_def split: if_splits)
qed (use assms in simp_all)

text \<open>A step of a worker with its job, which may give the object another state and write to the log.\<close>

lemma jobs_ok_hold:
  assumes ok: "jobs_ok s" and t: "t < length (tp_threads s)" and j: "held (tp_threads s ! t) = Some j" "held pc = Some j"
    and obj: "obj_ok pc ob" "ob = None \<or> fst (the ob) = j"
    and ends: "ends l = (if ob = None \<and> tp_obj s (jb_index j) \<noteq> None then [jb_index j] else [])"
      "ob = None \<or> tp_obj s (jb_index j) \<noteq> None"
    and s': "tp_waiting s' = tp_waiting s" "tp_job_index s' = tp_job_index s" "tp_doing s' = tp_doing s"
      "tp_obj s' = (tp_obj s)(jb_index j := ob)" "tp_log s' = tp_log s @ l" "tp_threads s' = (tp_threads s)[t := pc]"
  shows "jobs_ok s'"
proof -
  note D = jobs_okD [OF ok]
  have hj: "hold s t = Some j" using t j(1) by (simp add: hold_def)
  have h: "hold s' = hold s" using hold_pc [OF s'(6) t] hj j(2) by (auto simp: fun_eq_iff)
  have dj: "tp_doing s (jb_index j) = Some j" using D(1) hj by blast
  show ?thesis unfolding jobs_ok_def h s'(1-3)
  proof (intro conjI allI impI ballI)
    fix u k assume u: "hold s u = Some k"
    show "0 < jb_index k" "jb_index k \<le> tp_job_index s" using D(3) [OF u] by simp_all
    show "obj_ok (tp_threads s' ! u) (tp_obj s' (jb_index k))"
    proof (cases "u = t")
      case True
      with u hj s' t obj show ?thesis by simp
    next
      case False
      then have "jb_index k \<noteq> jb_index j" using D(2) [OF u hj] by blast
      with False D(3) [OF u] s' show ?thesis by simp
    qed
  next
    fix k assume k: "k \<in> set (tp_waiting s)"
    from D(4) [OF k] dj have "jb_index k \<noteq> jb_index j" by auto
    with D(4) [OF k] s' show "tp_obj s' (jb_index k) = Some (k, None)" "tp_doing s (jb_index k) = None" by simp_all
  next
    show "distinct (ends (tp_log s'))" using D(5,6) ends s' by auto
    show "set (ends (tp_log s')) = {i. 0 < i \<and> i \<le> tp_job_index s \<and> tp_obj s' i = None}"
    proof (cases "ob = None \<and> tp_obj s (jb_index j) \<noteq> None")
      case True
      then have "ends (tp_log s') = ends (tp_log s) @ [jb_index j]" using ends(1) s'(5) by simp
      then show ?thesis using D(3) [OF hj] D(6) True s'(4) by auto
    next
      case False
      then have "ends (tp_log s') = ends (tp_log s)" using ends(1) s'(5) by simp
      moreover have "(tp_obj s' i = None) = (tp_obj s i = None)" for i
        using False ends(2) unfolding s'(4) by (metis fun_upd_apply)
      ultimately show ?thesis using D(6) by simp
    qed
  next
    fix i k e assume o: "tp_obj s' i = Some (k, e)"
    show "0 < i" "i \<le> tp_job_index s" "jb_index k = i" "k \<in> set (tp_waiting s) \<or> tp_doing s i = Some k \<or> \<not> jb_init k"
      using o D(3) [OF hj] D(7) [of i k e] dj obj(2) s'(4) by (auto split: if_splits)
  qed (use D in \<open>auto simp: s'\<close>)
qed

lemma jobs_ok_take:
  assumes ok: "jobs_ok s" and t: "t < length (tp_threads s)" and none: "held (tp_threads s ! t) = None"
    and w: "tp_waiting s = j # js" and dist: "distinct (map jb_index (tp_waiting s))" and range: "0 < jb_index j" "jb_index j \<le> tp_job_index s"
    and s': "tp_waiting s' = js" "tp_job_index s' = tp_job_index s" "tp_doing s' = (tp_doing s)(jb_index j \<mapsto> j)"
      "tp_obj s' = tp_obj s" "tp_log s' = tp_log s" "tp_threads s' = (tp_threads s)[t := Taken j]"
  shows "jobs_ok s'"
proof -
  note D = jobs_okD [OF ok]
  have h: "hold s' = (hold s)(t := Some j)" using hold_pc [OF s'(6) t] by simp
  have ht: "hold s t = None" using none by (simp add: hold_def)
  have jw: "tp_obj s (jb_index j) = Some (j, None)" "tp_doing s (jb_index j) = None" using D(4) w by auto
  have other: "jb_index k \<noteq> jb_index j" if "hold s u = Some k" for u k using D(1) jw(2) that by force
  have "jb_index j \<notin> jb_index ` set js" using dist w by simp
  then have js: "jb_index k \<noteq> jb_index j" if "k \<in> set js" for k using that by (metis image_eqI)
  show ?thesis unfolding jobs_ok_def h s'(1-5)
  proof (intro conjI allI impI ballI)
    fix i k
    show "((tp_doing s)(jb_index j \<mapsto> j)) i = Some k \<longleftrightarrow> jb_index k = i \<and> (\<exists>u. ((hold s)(t := Some j)) u = Some k)"
    proof (cases "i = jb_index j")
      case True
      then show ?thesis using other by (auto split: if_splits)
    next
      case False
      have "(\<exists>u. ((hold s)(t := Some j)) u = Some k) \<longleftrightarrow> k = j \<or> (\<exists>u. hold s u = Some k)"
        using ht by (metis fun_upd_apply option.distinct(1) option.inject)
      with False D(1) show ?thesis by auto
    qed
  next
    fix u v k l
    assume "((hold s)(t := Some j)) u = Some k" "((hold s)(t := Some j)) v = Some l" "jb_index k = jb_index l"
    then show "u = v" using other D(2) by (auto split: if_splits)
  next
    fix u k assume u: "((hold s)(t := Some j)) u = Some k"
    then show "0 < jb_index k" "jb_index k \<le> tp_job_index s" using range D(3) by (auto split: if_splits)
    show "obj_ok (tp_threads s' ! u) (tp_obj s (jb_index k))"
      using u D(3) t jw(1) s'(6) by (cases "u = t") auto
  next
    fix k assume k: "k \<in> set js"
    with D(4) w show "tp_obj s (jb_index k) = Some (k, None)" by simp
    from k D(4) w js show "((tp_doing s)(jb_index j \<mapsto> j)) (jb_index k) = None" by simp
  next
    fix i k e assume o: "tp_obj s i = Some (k, e)"
    from D(7) [OF o] w jw show "0 < i" "i \<le> tp_job_index s" "jb_index k = i"
      "k \<in> set js \<or> ((tp_doing s)(jb_index j \<mapsto> j)) i = Some k \<or> \<not> jb_init k" by auto
  qed (use D in blast)+
qed

lemma jobs_ok_erase:
  assumes ok: "jobs_ok s" and t: "t < length (tp_threads s)" and j: "tp_threads s ! t = Erase j"
    and s': "tp_waiting s' = tp_waiting s" "tp_job_index s' = tp_job_index s" "tp_doing s' = (tp_doing s)(jb_index j := None)"
      "tp_obj s' = tp_obj s" "tp_log s' = tp_log s" "tp_threads s' = (tp_threads s)[t := Check_subtract]"
  shows "jobs_ok s'"
proof -
  note D = jobs_okD [OF ok]
  have h: "hold s' = (hold s)(t := None)" using hold_pc [OF s'(6) t] by simp
  have ht: "hold s t = Some j" using j t by (simp add: hold_def)
  have other: "jb_index k \<noteq> jb_index j" if "hold s u = Some k" "u \<noteq> t" for u k using D(2) [OF that(1) ht] that(2) by blast
  have obj: "tp_obj s (jb_index j) = (if jb_init j then None else Some (j, None))" using D(3) [OF ht] j by simp
  show ?thesis unfolding jobs_ok_def h s'(1-5)
  proof (intro conjI allI impI ballI)
    fix i k
    show "((tp_doing s)(jb_index j := None)) i = Some k \<longleftrightarrow> jb_index k = i \<and> (\<exists>u. ((hold s)(t := None)) u = Some k)"
    proof (cases "i = jb_index j")
      case True
      then show ?thesis using other by (auto split: if_splits)
    next
      case False
      have eq: "jb_index k = i \<and> (\<exists>u. ((hold s)(t := None)) u = Some k) \<longleftrightarrow> jb_index k = i \<and> (\<exists>u. hold s u = Some k)"
        using ht False by (metis fun_upd_apply option.distinct(1) option.inject)
      show ?thesis unfolding eq using D(1) [of i k] False by simp
    qed
  next
    fix u v k l
    assume "((hold s)(t := None)) u = Some k" "((hold s)(t := None)) v = Some l" "jb_index k = jb_index l"
    then show "u = v" using D(2) by (auto split: if_splits)
  next
    fix u k assume u: "((hold s)(t := None)) u = Some k"
    then show "0 < jb_index k" "jb_index k \<le> tp_job_index s" using D(3) by (auto split: if_splits)
    show "obj_ok (tp_threads s' ! u) (tp_obj s (jb_index k))" using u D(3) s'(6) by (auto split: if_splits)
  next
    fix k assume k: "k \<in> set (tp_waiting s)"
    with D(4) show "tp_obj s (jb_index k) = Some (k, None)" by simp
    from k D(4) show "((tp_doing s)(jb_index j := None)) (jb_index k) = None" by simp
  next
    fix i k e assume o: "tp_obj s i = Some (k, e)"
    from D(7) [OF o] show "0 < i" "i \<le> tp_job_index s" "jb_index k = i" by blast+
    have "i = jb_index j \<Longrightarrow> \<not> jb_init k" using o obj by (cases "jb_init j") simp_all
    with D(7) [OF o] show "k \<in> set (tp_waiting s) \<or> ((tp_doing s)(jb_index j := None)) i = Some k \<or> \<not> jb_init k"
      by (cases "i = jb_index j") simp_all
  qed (use D in blast)+
qed

text \<open>Jobs taken out of the waiting set and deleted.\<close>

lemma jobs_ok_drop:
  assumes ok: "jobs_ok s" and dist: "distinct (map jb_index (tp_waiting s))"
    and js: "distinct (map jb_index js)" "set js \<subseteq> set (tp_waiting s)"
    and range: "\<forall>j \<in> set js. 0 < jb_index j \<and> jb_index j \<le> tp_job_index s"
    and s': "set (tp_waiting s') = set (tp_waiting s) - set js" "tp_job_index s' = tp_job_index s" "tp_doing s' = tp_doing s"
      "tp_obj s' = (\<lambda>i. if i \<in> jb_index ` set js then None else tp_obj s i)" "ends (tp_log s') = ends (tp_log s) @ map jb_index js"
      "tp_threads s' = tp_threads s"
  shows "jobs_ok s'"
proof -
  note D = jobs_okD [OF ok]
  have h: "hold s' = hold s" using s'(6) by (simp add: hold_def fun_eq_iff)
  have out: "i \<in> jb_index ` set js \<Longrightarrow> tp_obj s i \<noteq> None \<and> tp_doing s i = None" for i
    using D(4) js(2) by auto
  have inj: "inj_on jb_index (set (tp_waiting s))" using dist by (simp add: distinct_map)
  show ?thesis unfolding jobs_ok_def h s'(2,3,6)
  proof (intro conjI allI impI ballI)
    fix u k assume u: "hold s u = Some k"
    then have "tp_doing s (jb_index k) = Some k" using D(1) by blast
    then have "jb_index k \<notin> jb_index ` set js" using out by fastforce
    then show "obj_ok (tp_threads s ! u) (tp_obj s' (jb_index k))" using D(3) [OF u] s'(4) by simp
  next
    fix k assume k: "k \<in> set (tp_waiting s')"
    then have "k \<in> set (tp_waiting s)" "k \<notin> set js" using s'(1) by auto
    then have "jb_index k \<notin> jb_index ` set js" using inj js(2) by (auto dest: inj_onD)
    then show "tp_obj s' (jb_index k) = Some (k, None)" using D(4) [of k] k s' by simp
    show "tp_doing s (jb_index k) = None" using D(4) [of k] k s'(1) by simp
  next
    have "set (ends (tp_log s)) \<inter> jb_index ` set js = {}" using D(6) out by blast
    then show "distinct (ends (tp_log s'))" using s'(5) js(1) D(5) by auto
    show "set (ends (tp_log s')) = {i. 0 < i \<and> i \<le> tp_job_index s \<and> tp_obj s' i = None}"
      using s'(4,5) D(6) range by auto
  next
    fix i k e assume o: "tp_obj s' i = Some (k, e)"
    then have i: "i \<notin> jb_index ` set js" "tp_obj s i = Some (k, e)" using s'(4) by (auto split: if_splits)
    then have "k \<notin> set js" using D(7) [OF i(2)] by auto
    then show "k \<in> set (tp_waiting s') \<or> tp_doing s i = Some k \<or> \<not> jb_init k" using D(7) [OF i(2)] s'(1) by auto
    show "0 < i" "i \<le> tp_job_index s" "jb_index k = i" using D(7) [OF i(2)] by blast+
  qed (use D in blast)+
qed

lemma sem_ok_distinct: "sem_ok s \<Longrightarrow> jobs_ok s \<Longrightarrow> distinct (map jb_index (tp_waiting s))"
proof -
  assume "sem_ok s" and ok: "jobs_ok s"
  then have s: "sorted_wrt before (tp_waiting s)" by (simp add: sem_ok_def)
  have "inj_on jb_index (set (tp_waiting s))"
  proof (rule inj_onI)
    fix x y assume x: "x \<in> set (tp_waiting s)" and y: "y \<in> set (tp_waiting s)" and eq: "jb_index x = jb_index y"
    have "Some (x, None) = tp_obj s (jb_index x)" using jobs_okD(4) [OF ok x] by simp
    also have "\<dots> = Some (y, None)" using jobs_okD(4) [OF ok y] unfolding eq by simp
    finally show "x = y" by simp
  qed
  with before_distinct [OF s] show ?thesis by (simp add: distinct_map)
qed

lemma jobs_ok_worker:
  assumes sem: "sem_ok s" and ok: "jobs_ok s" and t: "t < length (tp_threads s)"
    and step: "worker_step t (tp_threads s ! t) s = Some (Inr s')"
  shows "jobs_ok s'"
proof (cases "tp_threads s ! t")
  case Get_ticket
  with step obtain j js where w: "tp_waiting s = j # js" by (auto simp: GetJob_take_def split: if_splits list.splits)
  have j: "0 < jb_index j" "jb_index j \<le> tp_job_index s" using sem w by (simp_all add: sem_ok_def)
  have "tp_doing s (jb_index j) = None" using jobs_okD(4) [OF ok] w by simp
  with step Get_ticket w show ?thesis
    by (intro jobs_ok_take [OF ok t _ w sem_ok_distinct [OF sem ok] j]) (auto simp: GetJob_take_def split: if_splits)
next
  case (Taken j)
  with jobs_okD(3) [OF ok, of t j] t have "tp_obj s (jb_index j) = Some (j, None)" by (simp add: hold_def)
  with step Taken show ?thesis
    by (intro jobs_ok_hold [OF ok t, where pc = "Counted j" and ob = "Some (j, None)" and l = "[]"]) auto
next
  case (Counted j)
  with jobs_okD(3) [OF ok, of t j] t have o: "tp_obj s (jb_index j) = Some (j, None)" by (simp add: hold_def)
  show ?thesis
  proof (cases "jb_init j")
    case True
    with o step Counted show ?thesis
      by (intro jobs_ok_hold [OF ok t, where pc = "Running j" and ob = "Some (j, Some False)" and l = "[OnJobBegin (jb_index j)]"])
        (auto simp: begin_job_def)
  next
    case False
    with o step Counted show ?thesis
      by (intro jobs_ok_hold [OF ok t, where pc = "Run_ended j" and ob = "Some (j, None)" and l = "[]"]) (auto simp: begin_job_def)
  qed
next
  case (Running j)
  with jobs_okD(3) [OF ok, of t j] t obtain b where "tp_obj s (jb_index j) = Some (j, Some b)" "jb_init j" by (auto simp: hold_def)
  with step Running show ?thesis
    by (intro jobs_ok_hold [OF ok t, where pc = "Run_ended j" and ob = None and l = "[OnJobEnd (jb_index j), Finalize (jb_index j)]"])
      (auto simp: end_job_def)
next
  case (Run_ended j)
  with jobs_okD(3) [OF ok, of t j] t have "tp_obj s (jb_index j) = (if jb_init j then None else Some (j, None))" by (simp add: hold_def)
  with step Run_ended show ?thesis
    by (intro jobs_ok_hold [OF ok t, where pc = "Erase j" and ob = "tp_obj s (jb_index j)" and l = "[]"]) (auto split: if_splits)
next
  case (Erase j)
  with step show ?thesis by (intro jobs_ok_erase [OF ok t Erase]) auto
next
  case Started
  with step show ?thesis by (intro jobs_ok_idle [OF ok t, where pc = Wait_work]) auto
next
  case Wait_work
  note step [unfolded Wait_work]
  then show ?thesis
  proof (cases rule: wait_stepE)
    case stop
    with Wait_work show ?thesis by (intro jobs_ok_idle [OF ok t, of Leaving]) simp_all
  next
    case job
    with Wait_work show ?thesis by (intro jobs_ok_idle [OF ok t, of Get_ticket]) simp_all
  next
    case subtract
    with Wait_work show ?thesis by (intro jobs_ok_idle [OF ok t, of Subtract]) simp_all
  qed
next
  case Check_subtract
  with step show ?thesis
    by (intro jobs_ok_idle [OF ok t, where pc = Wait_work]) (auto simp: check_subtract_def Let_def split: if_splits)
next
  case Subtract
  with step show ?thesis
    by (intro jobs_ok_idle [OF ok t, where pc = Leaving]) (auto simp: subtract_thread_def Let_def split: option.splits if_splits)
next
  case Leaving
  with step show ?thesis by (intro jobs_ok_idle [OF ok t, where pc = Ended]) (auto simp: leave_pool_def Let_def split: if_splits)
next
  case Ended
  with step show ?thesis by simp
qed

section \<open>The callers\<close>

lemma submit_ok:
  assumes sem: "sem_ok s" and ok: "jobs_ok s" and free: "tp_cancelling s = None"
    and s': "SubmitJob_insert priority init s = (i, s')"
  shows "sem_ok s' \<and> jobs_ok s'"
proof -
  let ?j = "\<lparr>jb_priority = priority, jb_index = tp_job_index s + 1, jb_init = init\<rparr>"
  have new: "\<forall>y \<in> set (tp_waiting s). jb_index y \<noteq> jb_index ?j" using sem by (auto simp: sem_ok_def)
  note ins = set_insert_new [OF new] set_insert_sorted [OF _ new]
  note D = jobs_okD [OF ok]
  have h: "hold s' = hold s" and f: "tp_threads s' = tp_threads s" "tp_doing s' = tp_doing s" "tp_log s' = tp_log s"
    "tp_job_index s' = tp_job_index s + 1" "tp_obj s' = (tp_obj s)(tp_job_index s + 1 \<mapsto> (?j, None))"
    "tp_waiting s' = set_insert ?j (tp_waiting s)" "tp_sem_jobs s' = tp_sem_jobs s + 1" "tp_cancelling s' = None"
    using s' free by (auto simp: SubmitJob_insert_def Let_def hold_def fun_eq_iff)
  have pos: "0 \<le> tp_job_index s" using sem by (simp add: sem_ok_def)
  have "sem_ok s'" using sem ins f by (auto simp: sem_ok_def count_pc_def)
  moreover have "jobs_ok s'" unfolding jobs_ok_def h f(1-6)
  proof (intro conjI allI impI ballI)
    fix t j assume t: "hold s t = Some j"
    from D(3) [OF t] show "0 < jb_index j" "jb_index j \<le> tp_job_index s + 1"
      "obj_ok (tp_threads s ! t) (((tp_obj s)(tp_job_index s + 1 \<mapsto> (?j, None))) (jb_index j))" by auto
  next
    fix j assume j: "j \<in> set (set_insert ?j (tp_waiting s))"
    have "tp_doing s (tp_job_index s + 1) = None"
      using D(1) [of "tp_job_index s + 1"] D(3) by (cases "tp_doing s (tp_job_index s + 1)") force+
    with j ins(1) D(4) new
    show "((tp_obj s)(tp_job_index s + 1 \<mapsto> (?j, None))) (jb_index j) = Some (j, None)" "tp_doing s (jb_index j) = None" by auto
  next
    show "set (ends (tp_log s)) = {i. 0 < i \<and> i \<le> tp_job_index s + 1 \<and> ((tp_obj s)(tp_job_index s + 1 \<mapsto> (?j, None))) i = None}"
      unfolding D(6) by (rule Collect_cong) (simp, linarith)
  next
    fix i k e assume o: "((tp_obj s)(tp_job_index s + 1 \<mapsto> (?j, None))) i = Some (k, e)"
    then consider "i = tp_job_index s + 1" "k = ?j" | "tp_obj s i = Some (k, e)" by (auto split: if_splits)
    then have "0 < i \<and> i \<le> tp_job_index s + 1 \<and> jb_index k = i
      \<and> (k \<in> set (set_insert ?j (tp_waiting s)) \<or> tp_doing s i = Some k \<or> \<not> jb_init k)"
    proof cases
      case 1
      with ins(1) pos show ?thesis by simp
    next
      case 2
      from D(7) [OF 2] ins(1) show ?thesis by auto
    qed
    then show "0 < i" "i \<le> tp_job_index s + 1" "jb_index k = i"
      "k \<in> set (set_insert ?j (tp_waiting s)) \<or> tp_doing s i = Some k \<or> \<not> jb_init k" by blast+
  qed (use D in blast)+
  ultimately show ?thesis ..
qed

lemma cancel_waiting_ok:
  assumes sem: "sem_ok s" and ok: "jobs_ok s" and i: "i \<in> jb_index ` set (tp_waiting s)" and pos: "0 < tp_sem_jobs s"
  shows "sem_ok (cancel_waiting i s) \<and> jobs_ok (cancel_waiting i s) \<and> tp_threads (cancel_waiting i s) = tp_threads s"
proof -
  have dist: "distinct (map jb_index (tp_waiting s))" by (rule sem_ok_distinct [OF sem ok])
  obtain j where j: "find (\<lambda>j. jb_index j = i) (tp_waiting s) = Some j"
    using i by (cases "find (\<lambda>j. jb_index j = i) (tp_waiting s)") (auto simp: find_None_iff)
  then have mem: "j \<in> set (tp_waiting s)" "jb_index j = i" by (auto simp: find_Some_iff)
  have "distinct (tp_waiting s)" using dist by (simp add: distinct_map)
  then have "set (remove1 j (tp_waiting s)) = set (tp_waiting s) - {j}" by (rule set_remove1_eq)
  moreover have "length (remove1 j (tp_waiting s)) = length (tp_waiting s) - 1" using mem by (simp add: length_remove1)
  moreover have "sorted_wrt before (remove1 j (tp_waiting s))"
    using sem by (simp add: sem_ok_def sorted_wrt_remove1)
  moreover have "0 < jb_index j \<and> jb_index j \<le> tp_job_index s" using sem mem(1) unfolding sem_ok_def by blast
  moreover have "0 < length (tp_waiting s)" using mem by (cases "tp_waiting s") auto
  ultimately show ?thesis using sem pos j mem
    by (auto simp: sem_ok_def cancel_waiting_def cancel_job_def count_pc_def fun_eq_iff
        intro!: jobs_ok_drop [OF ok dist, of "[j]"])
qed

lemma clear_loop_spec:
  "clear_loop js s = s\<lparr>tp_waiting := [], tp_sem_jobs := tp_sem_jobs s - length js,
     tp_log := tp_log s @ concat (map (\<lambda>j. [OnJobCancel (jb_index j), OnCancelJob (jb_index j)]) js),
     tp_obj := (\<lambda>i. if i \<in> jb_index ` set js then None else tp_obj s i)\<rparr>"
  by (induction js arbitrary: s) (auto simp: cancel_job_def fun_eq_iff)

lemma ends_cancels: "ends (concat (map (\<lambda>j. [OnJobCancel (jb_index j), OnCancelJob (jb_index j)]) js)) = map jb_index js"
  by (induction js) simp_all

lemma clear_ok:
  assumes sem: "sem_ok s" and ok: "jobs_ok s" and free: "tp_cancelling s = None" and none: "tickets s = 0"
  shows "sem_ok (ClearUndoWork s) \<and> jobs_ok (ClearUndoWork s) \<and> tp_threads (ClearUndoWork s) = tp_threads s"
proof -
  have dist: "distinct (map jb_index (tp_waiting s))" by (rule sem_ok_distinct [OF sem ok])
  have "\<forall>j \<in> set (tp_waiting s). 0 < jb_index j \<and> jb_index j \<le> tp_job_index s" using sem by (simp add: sem_ok_def)
  then have "jobs_ok (ClearUndoWork s)"
    by (intro jobs_ok_drop [OF ok dist, of "tp_waiting s"]) (simp_all add: ClearUndoWork_def clear_loop_spec dist ends_cancels)
  then show ?thesis using sem free none by (simp add: sem_ok_def ClearUndoWork_def clear_loop_spec count_pc_def)
qed

lemma request_cancel_ok:
  assumes sem: "sem_ok s" and ok: "jobs_ok s" and j: "tp_doing s i = Some j" and r: "RequestCancel i s = Inr s'"
  shows "sem_ok s' \<and> jobs_ok s' \<and> tp_threads s' = tp_threads s"
proof -
  note D = jobs_okD [OF ok]
  from D(1) j obtain t where t: "hold s t = Some j" "jb_index j = i" by blast
  have o: "obj_ok (tp_threads s ! t) (tp_obj s i)" "held (tp_threads s ! t) = Some j" "t < length (tp_threads s)"
    using D(3) [OF t(1)] t by (auto simp: hold_def split: if_splits)
  show ?thesis
  proof (cases "s' = s")
    case False
    then obtain b where b: "tp_obj s i = Some (j, Some b)" "s' = s\<lparr>tp_obj := (tp_obj s)(i \<mapsto> (j, Some True))\<rparr>"
      using r o(1,2) by (cases "tp_threads s ! t") (auto simp: RequestCancel_def split: option.splits prod.splits if_splits)
    then have run: "tp_threads s ! t = Running j" "jb_init j"
      using o by (cases "tp_threads s ! t"; auto split: if_splits)+
    have "jobs_ok s'"
      by (rule jobs_ok_hold [OF ok o(3), of j "Running j" "Some (j, Some True)" "[]"])
        (use run b t list_update_id [of "tp_threads s" t] in auto)
    then show ?thesis using sem b(2) by (simp add: sem_ok_def count_pc_def)
  qed (use sem ok in simp)
qed

section \<open>The threads\<close>

definition counted :: "worker_pc \<Rightarrow> bool" where
  "counted pc \<longleftrightarrow> (case pc of Counted j \<Rightarrow> True | Running j \<Rightarrow> True | Run_ended j \<Rightarrow> True | _ \<Rightarrow> False)"

definition inside :: "worker_pc \<Rightarrow> bool" where
  "inside pc \<longleftrightarrow> pc \<noteq> Started \<and> pc \<noteq> Ended"

definition threads_ok :: "pool \<Rightarrow> bool" where
  "threads_ok s \<longleftrightarrow> tp_running_jobs s = count_pc counted s \<and> tp_running_threads s = count_pc inside s
     \<and> (case tp_ids s of None \<Rightarrow> tp_cur s = 0 | Some ids \<Rightarrow> length ids = tp_max s \<and> tp_cur s \<le> tp_max s)"

lemma AddJobThread_ok:
  assumes "threads_ok s" and "tp_ids s = Some ids"
  shows "\<exists>b s'. AddJobThread n s = Inr (b, s') \<and> threads_ok s' \<and> tp_ids s' \<noteq> None"
proof (cases "tp_cur s + n > tp_max s")
  case True
  with assms show ?thesis by (auto simp: AddJobThread_def)
next
  case False
  then obtain s' where s': "create_threads n s = Inr s'" using create_threads_ok [OF assms(2), of n] assms by (auto simp: threads_ok_def)
  from create_threads_spec [OF this] False assms show ?thesis
    by (auto simp: AddJobThread_def s' threads_ok_def count_pc_def filter_replicate counted_def inside_def)
qed

lemma threads_ok_fields:
  assumes "threads_ok s" and "t < length (tp_threads s)"
    and "tp_threads s' = (tp_threads s)[t := pc]"
    and "tp_running_jobs s' + of_bool (counted (tp_threads s ! t)) = tp_running_jobs s + of_bool (counted pc)"
    and "tp_running_threads s' + of_bool (inside (tp_threads s ! t)) = tp_running_threads s + of_bool (inside pc)"
    and "tp_max s' = tp_max s" "map_option length (tp_ids s') = map_option length (tp_ids s)" "tp_cur s' \<le> tp_cur s"
  shows "threads_ok s'"
  using assms count_update [OF assms(2), of counted pc] count_update [OF assms(2), of inside pc]
  by (auto simp: threads_ok_def count_pc_def split: option.splits)

lemma threads_ok_worker:
  assumes ok: "threads_ok s" and t: "t < length (tp_threads s)" and step: "worker_step t (tp_threads s ! t) s = Some (Inr s')"
  shows "threads_ok s'"
proof -
  note F = threads_ok_fields [OF ok t]
  have jobs: "counted (tp_threads s ! t) \<Longrightarrow> 0 < tp_running_jobs s" and thr: "inside (tp_threads s ! t) \<Longrightarrow> 0 < tp_running_threads s"
    using ok t count_pos by (auto simp: threads_ok_def)
  note C = counted_def inside_def
  show ?thesis
  proof (cases "tp_threads s ! t")
    case Started
    with step show ?thesis by (intro F [of s' Wait_work]) (auto simp: C)
  next
    case Wait_work
    note step [unfolded Wait_work]
    then show ?thesis
    proof (cases rule: wait_stepE)
      case stop
      with Wait_work show ?thesis by (intro F [of s' Leaving]) (auto simp: C)
    next
      case job
      with Wait_work show ?thesis by (intro F [of s' Get_ticket]) (auto simp: C)
    next
      case subtract
      with Wait_work show ?thesis by (intro F [of s' Subtract]) (auto simp: C)
    qed
  next
    case Get_ticket
    with step obtain j js where "tp_waiting s = j # js" by (auto simp: GetJob_take_def split: if_splits list.splits)
    with step Get_ticket show ?thesis by (intro F [of s' "Taken j"]) (auto simp: C GetJob_take_def split: if_splits)
  next
    case (Taken j)
    with step show ?thesis by (intro F [of s' "Counted j"]) (auto simp: C)
  next
    case (Counted j)
    with step show ?thesis
      by (cases "jb_init j") (intro F [of s' "Running j"] F [of s' "Run_ended j"]; auto simp: C begin_job_def)+
  next
    case (Running j)
    with step show ?thesis by (intro F [of s' "Run_ended j"]) (auto simp: C end_job_def)
  next
    case (Run_ended j)
    with step jobs show ?thesis by (intro F [of s' "Erase j"]) (auto simp: C)
  next
    case (Erase j)
    with step show ?thesis by (intro F [of s' Check_subtract]) (auto simp: C)
  next
    case Check_subtract
    with step show ?thesis by (intro F [of s' Wait_work]) (auto simp: C check_subtract_def Let_def split: if_splits)
  next
    case Subtract
    with step show ?thesis
      by (intro F [of s' Leaving]) (auto simp: C subtract_thread_def Let_def split: option.splits if_splits)
  next
    case Leaving
    with step thr show ?thesis by (intro F [of s' Ended]) (auto simp: C leave_pool_def Let_def split: if_splits)
  next
    case Ended
    with step show ?thesis by simp
  qed
qed

lemma threads_ok_cong:
  "threads_ok s \<Longrightarrow> tp_threads s' = tp_threads s \<Longrightarrow> tp_running_jobs s' = tp_running_jobs s \<Longrightarrow>
   tp_running_threads s' = tp_running_threads s \<Longrightarrow> tp_ids s' = tp_ids s \<Longrightarrow> tp_cur s' = tp_cur s \<Longrightarrow> tp_max s' = tp_max s \<Longrightarrow>
   threads_ok s'"
  by (simp add: threads_ok_def count_pc_def split: option.splits)

lemma cancel_waiting_threads: "threads_ok s \<Longrightarrow> threads_ok (cancel_waiting i s)"
  by (erule threads_ok_cong) (simp_all add: cancel_waiting_def cancel_job_def split: option.splits)

definition pool_ok :: "pool \<Rightarrow> bool" where
  "pool_ok s \<longleftrightarrow> sem_ok s \<and> jobs_ok s \<and> threads_ok s"

lemma about_threads_step:
  assumes "about_threads ev" and "pool_ok s" and "orderly ev s" and "pool_step ev s = Some r"
  shows "\<exists>s'. r = Inr s' \<and> pool_ok s'"
proof -
  have t: "threads_ok s" using assms(2) by (simp add: pool_ok_def)
  have "\<exists>s'. r = Inr s' \<and> threads_ok s'"
  proof (cases ev)
    case (Api_start nMin nMax)
    let ?s = "s\<lparr>tp_min := nMin, tp_max := nMax, tp_event_stop := False, tp_event_complete := False, tp_event_continue := True,
      tp_ids := Some (replicate nMax 0)\<rparr>"
    have ids: "tp_ids s = None" "tp_cur s = 0" using assms(3) Api_start by (simp_all add: orderly_def)
    then have "threads_ok ?s" using t by (simp add: threads_ok_def count_pc_def)
    from AddJobThread_ok [OF this, of "replicate nMax 0" nMin] Api_start assms(4) ids show ?thesis
      by (auto simp: pool_step_def keep_pool_def tp_Start_def Let_def)
  next
    case Api_submit_threads
    let ?s = "s\<lparr>tp_submitting := tp_submitting s - 1\<rparr>"
    obtain ids where ids: "tp_ids s = Some ids" using assms(3) Api_submit_threads by (auto simp: orderly_def)
    have "threads_ok ?s" by (rule threads_ok_cong [OF t]) simp_all
    with AddJobThread_ok [OF this, of ids 1] ids Api_submit_threads assms(4) show ?thesis
      by (auto simp: pool_step_def keep_pool_def SubmitJob_threads_def Let_def split: if_splits)
  qed (use assms(1,4) t in \<open>auto simp: about_threads_def pool_step_def tp_Stop_def tp_Wait_def tp_Pause_def tp_Resume_def
        threads_ok_def count_pc_def split: option.splits\<close>)
  then obtain s' where r: "r = Inr s'" and "threads_ok s'" by blast
  moreover have "same_jobs s s'" using about_threads_same assms(1,4) r by blast
  ultimately show ?thesis using assms(2) sem_ok_same jobs_ok_same by (auto simp: pool_ok_def)
qed

text \<open>One event from a state of the invariant: no fault, and the invariant stays.\<close>

lemma pool_step_ok:
  assumes "pool_ok s" and "orderly ev s" and "pool_step ev s = Some r"
  shows "\<exists>s'. r = Inr s' \<and> pool_ok s'"
proof (cases "about_threads ev")
  case True
  then show ?thesis by (rule about_threads_step [OF _ assms])
next
  case False
  have sem: "sem_ok s" and ok: "jobs_ok s" and thr: "threads_ok s" using assms(1) by (simp_all add: pool_ok_def)
  show ?thesis
  proof (cases ev)
    case (Worker t)
    then have t: "t < length (tp_threads s)" and w: "worker_step t (tp_threads s ! t) s = Some r"
      using assms(3) by (auto simp: pool_step_def split: if_splits)
    from sem_ok_worker [OF sem t w] obtain s' where "r = Inr s'" "sem_ok s'" by blast
    with w jobs_ok_worker [OF sem ok t] threads_ok_worker [OF thr t] show ?thesis by (auto simp: pool_ok_def)
  next
    case Api_clear
    then have "tp_cancelling s = None" and r: "r = Inr (ClearUndoWork s)" and "tickets s = 0"
      using assms(2,3) by (auto simp: pool_step_def orderly_def split: if_splits)
    moreover have "threads_ok (ClearUndoWork s)"
      by (rule threads_ok_cong [OF thr]) (simp_all add: ClearUndoWork_def clear_loop_spec)
    ultimately show ?thesis using clear_ok [OF sem ok] by (simp add: pool_ok_def)
  next
    case (Api_submit priority init)
    then obtain s' where "tp_cancelling s = None" "r = Inr s'" and s': "SubmitJob_insert priority init s = (tp_job_index s + 1, s')"
      using assms(3) by (auto simp: pool_step_def SubmitJob_insert_def Let_def split: if_splits)
    moreover have "threads_ok s'" using s' by (intro threads_ok_cong [OF thr]) (auto simp: SubmitJob_insert_def Let_def)
    ultimately show ?thesis using submit_ok [OF sem ok _ s'] by (simp add: pool_ok_def)
  next
    case Api_cancel_go
    then obtain i where i: "tp_cancelling s = Some i" "0 < tp_sem_jobs s" and r: "r = Inr (cancel_waiting i s)"
      using assms(3) by (auto simp: pool_step_def split: option.splits if_splits)
    then have "i \<in> jb_index ` set (tp_waiting s)" using sem by (simp add: sem_ok_def)
    from cancel_waiting_ok [OF sem ok this i(2)] r cancel_waiting_threads [OF thr] show ?thesis by (simp add: pool_ok_def)
  next
    case (Api_cancel i)
    show ?thesis
    proof (cases "\<exists>j \<in> set (tp_waiting s). jb_index j = i")
      case True
      then have i: "i \<in> jb_index ` set (tp_waiting s)" "0 < i" "i \<le> tp_job_index s" using sem by (auto simp: sem_ok_def)
      show ?thesis
      proof (cases "tp_sem_jobs s = 0")
        case True
        with Api_cancel i assms(3) have "r = Inr (s\<lparr>tp_cancelling := Some i\<rparr>)"
          by (auto simp: pool_step_def keep_pool_def CancelJob_def split: if_splits)
        moreover have "jobs_ok (s\<lparr>tp_cancelling := Some i\<rparr>)" by (rule jobs_ok_cong [OF ok]) (simp_all add: hold_def fun_eq_iff)
        moreover have "threads_ok (s\<lparr>tp_cancelling := Some i\<rparr>)" by (rule threads_ok_cong [OF thr]) simp_all
        ultimately show ?thesis using sem i(1) by (auto simp: pool_ok_def sem_ok_def count_pc_def)
      next
        case False
        with Api_cancel i assms(3) have "r = Inr (cancel_waiting i s)"
          by (auto simp: pool_step_def keep_pool_def CancelJob_def split: if_splits)
        with cancel_waiting_ok [OF sem ok i(1)] False cancel_waiting_threads [OF thr] show ?thesis by (simp add: pool_ok_def)
      qed
    next
      case False
      show ?thesis
      proof (cases "r = Inr s")
        case r: False
        then obtain j where j: "tp_doing s i = Some j"
          and c: "r = (case RequestCancel i s of Inl e \<Rightarrow> Inl e | Inr s \<Rightarrow> Inr s)"
          using Api_cancel assms(3) False
          by (auto simp: pool_step_def keep_pool_def CancelJob_def split: if_splits option.splits sum.splits)
        obtain a b where o: "tp_obj s i = Some (a, b)" using assms(2) Api_cancel j by (auto simp: orderly_def)
        obtain s' where rc: "RequestCancel i s = Inr s'" by (cases b) (auto simp: RequestCancel_def o)
        have "threads_ok s'"
          using rc by (intro threads_ok_cong [OF thr]) (auto simp: RequestCancel_def split: option.splits prod.splits)
        with request_cancel_ok [OF sem ok j rc] c rc show ?thesis by (simp add: pool_ok_def)
      qed (use assms(1) in simp)
    qed
  qed (use False in \<open>simp_all add: about_threads_def\<close>)
qed

lemma pool_reachable_ok: "pool_reachable s \<Longrightarrow> pool_ok s"
proof (induction rule: pool_reachable.induct)
  case init
  show ?case
    by (simp add: pool_ok_def sem_ok_def jobs_ok_def threads_ok_def CFThreadPool_def count_pc_def hold_def)
next
  case (next_event s ev s')
  then show ?case using pool_step_ok by fastforce
qed

section \<open>The work that is left\<close>

text \<open>How many steps a worker has before it is at its wait again, and one more than that for every waiting job.\<close>

fun pc_work :: "worker_pc \<Rightarrow> nat" where
  "pc_work Ended = 0"
| "pc_work Leaving = 1"
| "pc_work Subtract = 2"
| "pc_work Get_ticket = 2"
| "pc_work Wait_work = 3"
| "pc_work Started = 4"
| "pc_work Check_subtract = 4"
| "pc_work (Erase j) = 5"
| "pc_work (Run_ended j) = 6"
| "pc_work (Running j) = 7"
| "pc_work (Counted j) = 8"
| "pc_work (Taken j) = 9"

definition work :: "pool \<Rightarrow> nat" where
  "work s = sum_list (map pc_work (tp_threads s)) + 8 * length (tp_waiting s)"

lemma work_update:
  assumes "t < length (tp_threads s)" and "tp_threads s' = (tp_threads s)[t := pc]"
    and "pc_work pc + 8 * length (tp_waiting s') < pc_work (tp_threads s ! t) + 8 * length (tp_waiting s)"
  shows "work s' < work s"
proof -
  have "pc_work (tp_threads s ! t) \<le> sum_list (map pc_work (tp_threads s))"
    using assms(1) by (intro member_le_sum_list) auto
  then show ?thesis using assms by (simp add: work_def map_update sum_list_update)
qed

lemma worker_work:
  assumes t: "t < length (tp_threads s)" and step: "worker_step t (tp_threads s ! t) s = Some (Inr s')"
  shows "work s' < work s"
proof -
  note F = work_update [OF t, of s']
  show ?thesis
  proof (cases "tp_threads s ! t")
    case Wait_work
    note step [unfolded Wait_work]
    then show ?thesis
    proof (cases rule: wait_stepE)
      case stop
      with Wait_work show ?thesis by (intro F [of Leaving]) simp_all
    next
      case job
      with Wait_work show ?thesis by (intro F [of Get_ticket]) simp_all
    next
      case subtract
      with Wait_work show ?thesis by (intro F [of Subtract]) simp_all
    qed
  next
    case Get_ticket
    with step obtain j js where "tp_waiting s = j # js" by (auto simp: GetJob_take_def split: if_splits list.splits)
    with step Get_ticket show ?thesis by (intro F [of "Taken j"]) (auto simp: GetJob_take_def split: if_splits)
  next
    case (Counted j)
    with step show ?thesis
      by (cases "jb_init j") (intro F [of "Running j"] F [of "Run_ended j"]; auto simp: begin_job_def)+
  next
    case Check_subtract
    with step show ?thesis by (intro F [of Wait_work]) (auto simp: check_subtract_def Let_def split: if_splits)
  next
    case Subtract
    with step show ?thesis by (intro F [of Leaving]) (auto simp: subtract_thread_def Let_def split: option.splits if_splits)
  next
    case Leaving
    with step show ?thesis by (intro F [of Ended]) (auto simp: leave_pool_def Let_def split: if_splits)
  next
    case Started
    with step show ?thesis by (intro F [of Wait_work]) auto
  next
    case (Taken j)
    with step show ?thesis by (intro F [of "Counted j"]) auto
  next
    case (Running j)
    with step show ?thesis by (intro F [of "Run_ended j"]) (auto simp: end_job_def)
  next
    case (Run_ended j)
    with step show ?thesis by (intro F [of "Erase j"]) auto
  next
    case (Erase j)
    with step show ?thesis by (intro F [of Check_subtract]) auto
  qed (use step in simp)
qed

text \<open>Somebody is there for the jobs that wait.\<close>

definition attended :: "pool \<Rightarrow> bool" where
  "attended s \<longleftrightarrow> \<not> tp_event_stop s \<and> tp_cancelling s = None
     \<and> (0 < tp_sem_jobs s \<longrightarrow> (\<exists>pc \<in> set (tp_threads s). pc \<notin> {Subtract, Leaving, Ended}))"

lemma worker_form:
  assumes "worker_step t pc s = Some (Inr s')"
  shows "\<exists>pc'. tp_threads s' = (tp_threads s)[t := pc'] \<and> tp_event_stop s' = tp_event_stop s \<and> tp_cancelling s' = tp_cancelling s
    \<and> tp_job_index s' = tp_job_index s \<and> tp_sem_jobs s' \<le> tp_sem_jobs s
    \<and> (pc' \<in> {Subtract, Leaving, Ended} \<longrightarrow> pc \<in> {Subtract, Leaving, Ended} \<or> tp_event_stop s \<or> tp_sem_jobs s = 0)"
proof (cases pc)
  case Wait_work
  with assms show ?thesis by (fastforce simp: GetJob_wait_def split: if_splits)
next
  case Get_ticket
  with assms show ?thesis by (fastforce simp: GetJob_take_def split: if_splits list.splits)
next
  case (Counted j)
  with assms show ?thesis by (cases "jb_init j") (fastforce simp: begin_job_def)+
next
  case Check_subtract
  with assms show ?thesis by (fastforce simp: check_subtract_def Let_def split: if_splits)
next
  case Subtract
  with assms show ?thesis by (cases "tp_ids s") (fastforce simp: subtract_thread_def Let_def split: if_splits)+
qed (use assms in \<open>force simp: end_job_def leave_pool_def Let_def split: if_splits\<close>)+

lemma attended_worker:
  assumes "attended s" and "t < length (tp_threads s)" and "worker_step t (tp_threads s ! t) s = Some (Inr s')"
  shows "attended s' \<and> tp_job_index s' = tp_job_index s"
proof -
  from worker_form [OF assms(3)] obtain pc' where f: "tp_threads s' = (tp_threads s)[t := pc']"
    "tp_event_stop s' = tp_event_stop s" "tp_cancelling s' = tp_cancelling s" "tp_job_index s' = tp_job_index s"
    "tp_sem_jobs s' \<le> tp_sem_jobs s"
    "pc' \<in> {Subtract, Leaving, Ended} \<longrightarrow> tp_threads s ! t \<in> {Subtract, Leaving, Ended} \<or> tp_event_stop s \<or> tp_sem_jobs s = 0"
    by blast
  have "\<exists>pc \<in> set (tp_threads s'). pc \<notin> {Subtract, Leaving, Ended}" if "0 < tp_sem_jobs s'"
  proof -
    from that f(5) have pos: "0 < tp_sem_jobs s" by simp
    then obtain u where u: "u < length (tp_threads s)" "tp_threads s ! u \<notin> {Subtract, Leaving, Ended}"
      using assms(1) by (auto simp: attended_def in_set_conv_nth)
    show ?thesis
    proof (cases "u = t")
      case True
      then have "pc' \<notin> {Subtract, Leaving, Ended}" using f(6) u(2) pos assms(1) by (auto simp: attended_def)
      moreover have "pc' \<in> set (tp_threads s')" using f(1) assms(2) by (simp add: set_update_memI)
      ultimately show ?thesis by blast
    next
      case False
      then have "tp_threads s' ! u = tp_threads s ! u" "u < length (tp_threads s')" using f(1) u(1) by simp_all
      with u(2) show ?thesis by (metis nth_mem)
    qed
  qed
  then show ?thesis using assms(1) f by (simp add: attended_def)
qed

lemma worker_event:
  assumes "pool_ok s" and "attended s" and "ev \<in> range Worker" and "pool_step ev s = Some r"
  shows "\<exists>s'. r = Inr s' \<and> pool_ok s' \<and> attended s' \<and> tp_job_index s' = tp_job_index s \<and> work s' < work s"
proof -
  obtain t where ev: "ev = Worker t" using assms(3) by auto
  then have "orderly ev s" by (simp add: orderly_def)
  from pool_step_ok [OF assms(1) this assms(4)] obtain s' where s': "r = Inr s'" "pool_ok s'" by blast
  with assms(4) ev have t: "t < length (tp_threads s)" and w: "worker_step t (tp_threads s ! t) s = Some (Inr s')"
    by (auto simp: pool_step_def split: if_splits)
  from s' attended_worker [OF assms(2) t w] worker_work [OF t w] show ?thesis by simp
qed

lemma worker_run:
  assumes "pool_ok s" and "attended s" and "set evs \<subseteq> range Worker" and "pool_run evs s = Some r"
  shows "\<exists>s'. r = Inr s' \<and> pool_ok s' \<and> attended s' \<and> tp_job_index s' = tp_job_index s \<and> length evs + work s' \<le> work s"
proof -
  let ?P = "\<lambda>q. pool_ok q \<and> attended q \<and> tp_job_index q = tp_job_index s"
  have P: "?P s" using assms(1,2) by simp
  have step: "\<exists>q'. r = Inr q' \<and> ?P q' \<and> work q' < work q"
    if "ev \<in> range Worker" "?P q" "pool_step ev q = Some r" for ev q r
    using worker_event [of q ev r] that by fastforce
  obtain s' where s': "r = Inr s'" "?P s'"
    using pool_runs.run_no_fault [where P = ?P, OF P assms(4,3)] step by blast
  have "length evs + work s' \<le> work s"
    by (rule pool_runs.run_measure [where P = ?P, OF P assms(4) [unfolded s'(1)] assms(3)]) (use step in fastforce)
  with s' show ?thesis by blast
qed

lemma idle_done:
  assumes "pool_ok s" and "attended s" and idle: "\<forall>t. pool_step (Worker t) s = None"
  shows "tp_waiting s = []" and "\<And>t. hold s t = None"
proof -
  have free: "tp_cancelling s = None" "\<not> tp_event_stop s" using assms(2) by (simp_all add: attended_def)
  have stuck: "worker_step t (tp_threads s ! t) s = None" if "t < length (tp_threads s)" for t
    using idle that by (auto simp: pool_step_def dest: spec [of _ t])
  have pcs: "tp_threads s ! t = Ended \<or> tp_threads s ! t = Wait_work \<and> tp_sem_jobs s = 0" if "t < length (tp_threads s)" for t
    using stuck [OF that] free by (cases "tp_threads s ! t") (auto simp: GetJob_wait_def split: if_splits)
  show "hold s t = None" for t using pcs [of t] by (auto simp: hold_def)
  have "tickets s = 0"
  proof -
    have "pc \<noteq> Get_ticket" if "pc \<in> set (tp_threads s)" for pc using that pcs by (fastforce simp: in_set_conv_nth)
    then show ?thesis by (auto simp: count_pc_def filter_empty_conv)
  qed
  moreover have "tp_sem_jobs s = 0"
  proof (rule ccontr)
    assume "tp_sem_jobs s \<noteq> 0"
    with assms(2) pcs show False by (fastforce simp: attended_def in_set_conv_nth)
  qed
  ultimately show "tp_waiting s = []" using assms(1) by (simp add: pool_ok_def sem_ok_def)
qed

section \<open>A caller who waits with the lock\<close>

definition blocked :: "int \<Rightarrow> job list \<Rightarrow> pool \<Rightarrow> bool" where
  "blocked i js s \<longleftrightarrow> tp_cancelling s = Some i \<and> tp_sem_jobs s = 0 \<and> tp_waiting s = js \<and> 0 \<le> tp_job_index s"

lemma blocked_step:
  assumes "blocked i js s" and "pool_step ev s = Some (Inr s')" and "i \<in> jb_index ` set js" and "\<forall>j \<in> set js. 0 < jb_index j \<and> jb_index j \<le> tp_job_index s"
  shows "blocked i js s' \<and> tp_job_index s' = tp_job_index s"
proof (cases "about_threads ev")
  case True
  with about_threads_same assms(1,2) show ?thesis by (fastforce simp: blocked_def same_jobs_def)
next
  case False
  show ?thesis
  proof (cases ev)
    case (Worker t)
    with assms(2) have w: "worker_step t (tp_threads s ! t) s = Some (Inr s')" by (auto simp: pool_step_def split: if_splits)
    with assms(1) have pc: "tp_threads s ! t \<noteq> Get_ticket" by (auto simp: blocked_def)
    have "tp_sem_jobs s = 0" using assms(1) by (simp add: blocked_def)
    with worker_keeps [OF w pc] assms(1) show ?thesis by (auto simp: blocked_def)
  next
    case (Api_cancel k)
    with assms have "k \<le> 0 \<or> k > tp_job_index s" by (auto simp: pool_step_def blocked_def split: if_splits)
    with Api_cancel assms(1,2) show ?thesis by (auto simp: pool_step_def keep_pool_def CancelJob_def split: if_splits)
  qed (use assms(1,2) False in \<open>auto simp: pool_step_def blocked_def about_threads_def\<close>)
qed

lemma blocked_run:
  assumes "blocked i js s" and "i \<in> jb_index ` set js" and "\<forall>j \<in> set js. 0 < jb_index j \<and> jb_index j \<le> tp_job_index s"
    and "pool_run evs s = Some (Inr s')"
  shows "blocked i js s'"
proof -
  let ?P = "\<lambda>q. blocked i js q \<and> tp_job_index q = tp_job_index s"
  have "?P s'"
  proof (rule pool_runs.run_invariant [where P = ?P, OF _ assms(4) subset_UNIV])
    show "?P q'" if "?P q" "pool_step ev q = Some (Inr q')" for ev q q'
      using blocked_step [of i js q ev q'] that assms(2,3) by simp
  qed (use assms(1) in simp)
  then show ?thesis by simp
qed

section \<open>Where the pool fails\<close>

text \<open>A job whose \<open>Initialize\<close> fails is dropped: neither finalised nor cancelled, its object stays.\<close>

lemma failed_job_leaks:
  assumes "t < length (tp_threads s)" and "tp_threads s ! t = Counted j" and "\<not> jb_init j"
  shows "\<exists>s'. pool_run [Worker t, Worker t, Worker t] s = Some (Inr s') \<and> tp_doing s' (jb_index j) = None
    \<and> tp_obj s' = tp_obj s \<and> tp_log s' = tp_log s"
  using assms by (simp add: pool_step_def begin_job_def)

text \<open>A job is in the table until after \<open>Finalize\<close> has deleted it.\<close>

lemma cancel_finalised_job_faults:
  assumes "pool_reachable s" and "tp_cancelling s = None" and "t < length (tp_threads s)"
    and "tp_threads s ! t = Run_ended j" and "jb_init j"
  shows "pool_step (Api_cancel (jb_index j)) s = Some (Inl Freed_job)"
proof -
  have ok: "jobs_ok s" using pool_reachable_ok [OF assms(1)] by (simp add: pool_ok_def)
  have h: "hold s t = Some j" using assms(3,4) by (simp add: hold_def)
  note D = jobs_okD [OF ok]
  from D(1) h have d: "tp_doing s (jb_index j) = Some j" by blast
  then have "\<forall>k \<in> set (tp_waiting s). jb_index k \<noteq> jb_index j" using D(4) by fastforce
  with D(3) [OF h] d assms(2,4,5) show ?thesis
    by (auto simp: pool_step_def keep_pool_def CancelJob_def RequestCancel_def)
qed

text \<open>A job that is submitted before \<open>Start\<close>, or after \<open>Wait\<close>, writes to the array that is not there.\<close>

lemma submit_without_start_faults:
  "pool_run [Api_submit 0 True, Api_submit_threads] CFThreadPool = Some (Inl Null_array)"
  by (simp add: pool_step_def CFThreadPool_def SubmitJob_insert_def SubmitJob_threads_def AddJobThread_def create_thread_def
      keep_pool_def Let_def)

text \<open>The steps in which a new worker, or one at its wait, comes to run a job, and those in which it is through.\<close>

definition take_up :: "nat \<Rightarrow> pool_event list" where
  "take_up t = [Worker t, Worker t, Worker t]"

definition go_through :: "nat \<Rightarrow> pool_event list" where
  "go_through t = [Worker t, Worker t, Worker t, Worker t]"

definition submits :: "pool_event list" where
  "submits = [Api_submit 0 True, Api_submit_threads]"

lemmas pool_defs = pool_step_def CFThreadPool_def SubmitJob_insert_def SubmitJob_threads_def AddJobThread_def create_thread_def
  keep_pool_def tp_Start_def GetJob_wait_def GetJob_take_def begin_job_def end_job_def check_subtract_def HadRequestStop_def
  subtract_thread_def leave_pool_def set_pc_def job_less_def take_up_def go_through_def submits_def Let_def eval_nat_numeral

text \<open>A second \<open>Start\<close> raises the limit and keeps the array: the next thread is written behind its end.\<close>

lemma second_start_overruns:
  "pool_run ([Api_start 1 1, Worker 0] @ submits @ take_up 0 @ [Api_start 1 2] @ submits) CFThreadPool = Some (Inl Array_overrun)"
  by (simp add: pool_defs)

text \<open>The event of \<open>Wait\<close> stays set when the pool has come down to no thread and starts one again.\<close>

lemma wait_returns_early:
  "\<exists>s. pool_run ([Api_start 0 1] @ submits @ [Worker 0] @ take_up 0 @ go_through 0 @ [Worker 0, Worker 0, Worker 0, Worker 0]
     @ submits @ [Worker 1] @ take_up 1) CFThreadPool = Some (Inr s) \<and> fst (tp_Wait s) \<and> tp_running_jobs s = 1"
  by (simp add: pool_defs tp_Wait_def)

lemma below_minimum:
  "\<exists>s. pool_run ([Api_start 1 2, Worker 0] @ submits @ take_up 0 @ submits @ [Worker 1] @ take_up 1 @ go_through 0 @ go_through 1
     @ [Worker 0, Worker 1, Worker 0, Worker 0, Worker 1, Worker 1]) CFThreadPool = Some (Inr s)
     \<and> tp_min s = 1 \<and> tp_cur s = 0 \<and> \<not> tp_event_stop s"
  by (simp add: pool_defs)

text \<open>An orderly run, and a pool with one job waiting and one worker on its way to another.\<close>

fun orderly_run :: "pool_event list \<Rightarrow> pool \<Rightarrow> bool" where
  "orderly_run [] s \<longleftrightarrow> True"
| "orderly_run (ev # evs) s \<longleftrightarrow> orderly ev s \<and> (case pool_step ev s of Some (Inr s) \<Rightarrow> orderly_run evs s | _ \<Rightarrow> True)"

lemma reachable_pool_run:
  "pool_reachable s \<Longrightarrow> orderly_run evs s \<Longrightarrow> pool_run evs s = Some (Inr s') \<Longrightarrow> pool_reachable s'"
proof (induction evs arbitrary: s)
  case (Cons ev evs)
  then obtain s1 where "pool_step ev s = Some (Inr s1)" "pool_run evs s1 = Some (Inr s')"
    by (auto split: option.splits sum.splits)
  with Cons show ?case by (auto intro: pool_reachable.next_event)
qed simp

definition demo_pool :: pool where
  "demo_pool = \<lparr>tp_min = 1, tp_max = 1, tp_job_index = 2, tp_running_jobs = 0, tp_cur = 1, tp_running_threads = 1,
     tp_ids = Some [1], tp_threads = [Get_ticket],
     tp_waiting = [\<lparr>jb_priority = 0, jb_index = 1, jb_init = True\<rparr>, \<lparr>jb_priority = 5, jb_index = 2, jb_init = True\<rparr>],
     tp_doing = (\<lambda>_. None),
     tp_obj = [1 \<mapsto> (\<lparr>jb_priority = 0, jb_index = 1, jb_init = True\<rparr>, None), 2 \<mapsto> (\<lparr>jb_priority = 5, jb_index = 2, jb_init = True\<rparr>, None)],
     tp_event_stop = False, tp_event_complete = False, tp_event_continue = True, tp_sem_jobs = 1, tp_sem_subtract = 0,
     tp_submitting = 0, tp_cancelling = None, tp_log = []\<rparr>"

lemma demo_pool_reachable: "pool_reachable demo_pool"
proof (rule reachable_pool_run [OF pool_reachable.init])
  let ?evs = "[Api_start 1 1, Worker 0] @ submits @ [Api_submit 5 True, Api_submit_threads, Worker 0]"
  show "pool_run ?evs CFThreadPool = Some (Inr demo_pool)" by (simp add: pool_defs demo_pool_def fun_upd_twist)
  show "orderly_run ?evs CFThreadPool" by (simp add: pool_defs orderly_def)
qed

definition demo_busy :: pool where
  "demo_busy = demo_pool\<lparr>tp_threads := [Get_ticket, Get_ticket], tp_sem_jobs := 0, tp_cur := 2, tp_max := 2, tp_min := 2,
     tp_ids := Some [1, 2], tp_running_threads := 2\<rparr>"

lemma demo_busy_reachable: "pool_reachable demo_busy"
proof (rule reachable_pool_run [OF pool_reachable.init])
  let ?evs = "[Api_start 2 2, Worker 0, Worker 1] @ submits @ [Api_submit 5 True, Api_submit_threads, Worker 0, Worker 1]"
  show "pool_run ?evs CFThreadPool = Some (Inr demo_busy)" by (simp add: pool_defs demo_pool_def demo_busy_def fun_upd_twist)
  show "orderly_run ?evs CFThreadPool" by (simp add: pool_defs orderly_def)
qed

section \<open>Properties\<close>

text \<open>
  C27. The thread pool under any interleaving of callers and workers, if the callers see to what
  \<open>orderly\<close> says: no event faults; the semaphore and the workers on their way to a job account
  for exactly the jobs that wait; these stand in the order of priority and, within one, of submission;
  the table holds exactly the jobs the workers have, each of them once; a job is given back (finalised
  or cancelled) at most once, and one that is not is waiting, with a worker, or failed in
  \<open>Initialize\<close>; and the threads in the array are at most as many as allowed.
\<close>

theorem pool_invariant:
  assumes "pool_reachable s"
  shows "(orderly ev s \<longrightarrow> pool_step ev s \<noteq> Some (Inl e))
    \<and> length (tp_waiting s) = tp_sem_jobs s + tickets s \<and> sorted_wrt before (tp_waiting s)
    \<and> (tp_doing s i = Some j \<longleftrightarrow> jb_index j = i \<and> (\<exists>t. hold s t = Some j))
    \<and> (hold s t = Some j \<and> hold s u = Some k \<and> jb_index j = jb_index k \<longrightarrow> t = u)
    \<and> distinct (ends (tp_log s))
    \<and> (0 < i \<and> i \<le> tp_job_index s \<and> i \<notin> set (ends (tp_log s)) \<longrightarrow>
        (\<exists>j b. tp_obj s i = Some (j, b) \<and> jb_index j = i
           \<and> (j \<in> set (tp_waiting s) \<or> tp_doing s i = Some j \<or> \<not> jb_init j)))
    \<and> (tp_ids s \<noteq> None \<longrightarrow> tp_cur s \<le> tp_max s)"
proof -
  have ok: "pool_ok s" using assms by (rule pool_reachable_ok)
  then have jobs: "jobs_ok s" and sem: "sem_ok s" and thr: "threads_ok s" by (simp_all add: pool_ok_def)
  note D = jobs_okD [OF jobs]
  have "orderly ev s \<Longrightarrow> pool_step ev s \<noteq> Some (Inl e)" using pool_step_ok [OF ok] by blast
  moreover have "0 < i \<and> i \<le> tp_job_index s \<and> i \<notin> set (ends (tp_log s)) \<Longrightarrow>
        \<exists>j b. tp_obj s i = Some (j, b) \<and> jb_index j = i
           \<and> (j \<in> set (tp_waiting s) \<or> tp_doing s i = Some j \<or> \<not> jb_init j)"
    using D(6) D(7) [of i] by (cases "tp_obj s i") auto
  moreover have "tp_ids s \<noteq> None \<longrightarrow> tp_cur s \<le> tp_max s" using thr by (auto simp: threads_ok_def)
  ultimately show ?thesis using sem D(1,2,5) unfolding sem_ok_def by blast
qed

theorem pool_invariant_witness:
  "length (tp_waiting demo_pool) = tp_sem_jobs demo_pool + tickets demo_pool \<and> sorted_wrt before (tp_waiting demo_pool)
    \<and> tp_cur demo_pool \<le> tp_max demo_pool \<and> tp_waiting demo_pool \<noteq> []"
  using pool_invariant [OF demo_pool_reachable] by (auto simp: demo_pool_def)

text \<open>
  C28. A pool that is not stopped and has a worker in its loop gets its jobs done whatever the
  order of the workers' steps: no run of the workers faults or has more steps than \<open>work\<close> says, and
  where none can go on, nothing waits, no worker has a job, and every job submitted was given back,
  apart from those whose \<open>Initialize\<close> failed.
\<close>

theorem pool_drains:
  assumes "pool_reachable s" and "\<not> tp_event_stop s" and "tp_cancelling s = None"
    and "\<exists>pc \<in> set (tp_threads s). pc \<notin> {Subtract, Leaving, Ended}"
    and "set evs \<subseteq> range Worker" and "pool_run evs s = Some r"
  shows "\<exists>s'. r = Inr s' \<and> length evs \<le> work s
    \<and> ((\<forall>t. pool_step (Worker t) s' = None) \<longrightarrow> tp_waiting s' = [] \<and> (\<forall>t. hold s' t = None)
        \<and> (\<forall>i. 0 < i \<and> i \<le> tp_job_index s \<and> i \<notin> set (ends (tp_log s')) \<longrightarrow>
              (\<exists>j b. tp_obj s' i = Some (j, b) \<and> \<not> jb_init j)))"
proof -
  have "attended s" using assms(2-4) by (simp add: attended_def)
  from worker_run [OF pool_reachable_ok [OF assms(1)] this assms(5,6)] obtain s' where s': "r = Inr s'" "pool_ok s'" "attended s'"
    "tp_job_index s' = tp_job_index s" "length evs \<le> work s" by auto
  have "\<exists>j b. tp_obj s' i = Some (j, b) \<and> \<not> jb_init j"
    if idle: "\<forall>t. pool_step (Worker t) s' = None" and i: "0 < i" "i \<le> tp_job_index s" "i \<notin> set (ends (tp_log s'))" for i
  proof -
    note stuck = idle_done [OF s'(2,3) idle]
    note D = jobs_okD [of s']
    have ok: "jobs_ok s'" using s'(2) by (simp add: pool_ok_def)
    then obtain j e where o: "tp_obj s' i = Some (j, e)" using D(6) i s'(4) by (cases "tp_obj s' i") auto
    have "tp_doing s' i \<noteq> Some j" using D(1) [OF ok] stuck(2) by simp
    with D(7) [OF ok o] stuck(1) o show ?thesis by auto
  qed
  with s' idle_done [OF s'(2,3)] show ?thesis by blast
qed

theorem pool_drains_witness:
  "\<exists>s'. pool_run (replicate 15 (Worker 0)) demo_pool = Some (Inr s') \<and> tp_waiting s' = [] \<and> 15 \<le> work demo_pool
    \<and> (\<forall>i. 0 < i \<and> i \<le> 2 \<longrightarrow> i \<in> set (ends (tp_log s')) \<or> (\<exists>j b. tp_obj s' i = Some (j, b) \<and> \<not> jb_init j))"
proof -
  have "pool_run (replicate 15 (Worker 0)) demo_pool = Some (Inr (demo_pool\<lparr>tp_threads := [Wait_work], tp_waiting := [],
    tp_sem_jobs := 0, tp_doing := (\<lambda>_. None), tp_obj := (\<lambda>_. None), tp_log := [OnJobBegin 1, OnJobEnd 1, Finalize 1,
    OnJobBegin 2, OnJobEnd 2, Finalize 2]\<rparr>))" (is "?run = Some (Inr ?s)")
    by (simp add: pool_defs demo_pool_def fun_upd_twist fun_upd_idem)
  moreover have "\<forall>t. pool_step (Worker t) ?s = None" by (simp add: pool_defs demo_pool_def)
  moreover have "\<not> tp_event_stop demo_pool" "tp_cancelling demo_pool = None" "tp_job_index demo_pool = 2"
    "\<exists>pc \<in> set (tp_threads demo_pool). pc \<notin> {Subtract, Leaving, Ended}" by (simp_all add: demo_pool_def)
  ultimately show ?thesis
    using pool_drains [OF demo_pool_reachable _ _ _ _, of "replicate 15 (Worker 0)" "Inr ?s"] by auto
qed

text \<open>
  C29. \<open>CancelJob\<close> can stop the pool for ever: when as many workers have taken a unit of the
  semaphore as jobs are waiting, it waits for a unit while it holds the lock that these workers
  need, and whatever happens afterwards, the job is not cancelled and no waiting job is ever taken.
\<close>

theorem cancel_blocks_pool:
  assumes "pool_reachable s" and "tp_cancelling s = None" and "tp_sem_jobs s = 0" and "j \<in> set (tp_waiting s)"
  shows "\<exists>s'. pool_step (Api_cancel (jb_index j)) s = Some (Inr s')
    \<and> (\<forall>evs s''. pool_run evs s' = Some (Inr s'') \<longrightarrow> tp_waiting s'' = tp_waiting s \<and> tp_cancelling s'' = Some (jb_index j))"
proof -
  have sem: "sem_ok s" using pool_reachable_ok [OF assms(1)] by (simp add: pool_ok_def)
  then have range: "\<forall>k \<in> set (tp_waiting s). 0 < jb_index k \<and> jb_index k \<le> tp_job_index s" by (simp add: sem_ok_def)
  let ?s = "s\<lparr>tp_cancelling := Some (jb_index j)\<rparr>"
  have "pool_step (Api_cancel (jb_index j)) s = Some (Inr ?s)"
    using assms(2-4) range by (auto simp: pool_step_def keep_pool_def CancelJob_def)
  moreover have "blocked (jb_index j) (tp_waiting s) ?s" using assms(3) sem by (simp add: blocked_def sem_ok_def)
  moreover have "jb_index j \<in> jb_index ` set (tp_waiting s)" using assms(4) by simp
  ultimately show ?thesis using blocked_run [of "jb_index j" "tp_waiting s" ?s] range by (auto simp: blocked_def)
qed

theorem cancel_blocks_pool_witness:
  "\<exists>s'. pool_step (Api_cancel 2) demo_busy = Some (Inr s')
    \<and> (\<forall>evs s''. pool_run evs s' = Some (Inr s'') \<longrightarrow> length (tp_waiting s'') = 2)"
  using cancel_blocks_pool [OF demo_busy_reachable, of "\<lparr>jb_priority = 5, jb_index = 2, jb_init = True\<rparr>"]
  by (fastforce simp: demo_busy_def demo_pool_def)

text \<open>
  C30. \<open>ClearUndoWork\<close> goes on when its wait for the semaphore times out: a worker that has taken a unit
  and not yet its job then finds the set empty and reads through its end.
\<close>

theorem clear_then_worker_faults:
  assumes "t < length (tp_threads s)" and "tp_threads s ! t = Get_ticket" and "tp_cancelling s = None"
  shows "\<exists>s'. pool_step Api_clear s = Some (Inr s') \<and> pool_step (Worker t) s' = Some (Inl End_iterator)"
  using assms by (simp add: pool_step_def ClearUndoWork_def clear_loop_spec GetJob_take_def)

theorem clear_then_worker_faults_witness:
  "\<exists>s'. pool_step Api_clear demo_pool = Some (Inr s') \<and> pool_step (Worker 0) s' = Some (Inl End_iterator)"
  using clear_then_worker_faults [of 0 demo_pool] by (simp add: demo_pool_def)

end
