(* ===== verification/Window_Hooks.thy ===== *)
theory Window_Hooks
  imports RD_Prelude
begin

text \<open>
  The hooks on other programs' windows: CWindowHooks (RemoteDesktopServer/WindowHooks.cpp), which
  turns their messages into notifications of what was painted, and the thread of
  CProcessWindowHooks (ProcessWindowHooks.cpp), which is to receive them.  Handles are 32-bit, 0 is
  NULL; what \<open>SetWindowsHookEx\<close> answers and what Windows says about a window are parameters,
  and what is posted to the owner is the result.
\<close>

section \<open>Installing\<close>

record window_hooks =
  wh_owner :: u32
  wh_thread_id :: u32
  wh_CallWndProc :: u32
  wh_CallWndProcRet :: u32
  wh_GetMessage :: u32
  wh_DialogMessage :: u32

definition no_hooks :: window_hooks where
  "no_hooks = \<lparr>wh_owner = 0, wh_thread_id = 0, wh_CallWndProc = 0, wh_CallWndProcRet = 0, wh_GetMessage = 0, wh_DialogMessage = 0\<rparr>"

text \<open>The hooks that are given back with \<open>UnhookWindowsHookEx\<close>, in order.\<close>

definition Uninstall :: "window_hooks \<Rightarrow> window_hooks \<times> u32 list" where
  "Uninstall w =
     (if wh_owner w = 0 then (w, [])
      else (no_hooks, filter (\<lambda>h. h \<noteq> 0) [wh_CallWndProc w, wh_CallWndProcRet w, wh_GetMessage w, wh_DialogMessage w]))"

definition Install :: "u32 \<Rightarrow> u32 \<Rightarrow> u32 \<times> u32 \<times> u32 \<times> u32 \<Rightarrow> window_hooks \<Rightarrow> bool \<times> window_hooks \<times> u32 list" where
  "Install hOwnerWnd dwHookThreadId answers w =
     (case answers of (h1, h2, h3, h4) \<Rightarrow>
        let w = \<lparr>wh_owner = hOwnerWnd, wh_thread_id = dwHookThreadId, wh_CallWndProc = h1, wh_CallWndProcRet = h2,
                 wh_GetMessage = h3, wh_DialogMessage = h4\<rparr> in
        if h1 = 0 \<or> h2 = 0 \<or> h3 = 0 \<or> h4 = 0 then (let (w, gone) = Uninstall w in (False, w, gone)) else (True, w, []))"

section \<open>Notifications\<close>

datatype hook_event = WindowChanged | WindowClientAreaChanged | WindowBorderChanged | RectangleChanged | CursorChanged

text \<open>The messages \<open>ProcessWindowMessage\<close> tells apart; the two numbers are the undocumented ones of pop-up menus.\<close>

datatype win_msg =
    WM_NCPAINT | WM_NCACTIVATE
  | BM_SETCHECK | BM_SETSTATE | EM_SETSEL | WM_CHAR | WM_ENABLE | WM_KEYUP | WM_LBUTTONUP | WM_MBUTTONUP
  | WM_PALETTECHANGED | WM_RBUTTONUP | WM_SYSCOLORCHANGE | WM_SETTEXT | WM_SETFOCUS
  | WM_HSCROLL | WM_VSCROLL
  | WM_WINDOWPOSCHANGING | WM_DESTROY
  | WM_WINDOWPOSCHANGED
  | WM_PAINT
  | Msg_482 | Msg_485
  | WM_NCMOUSEMOVE | WM_MOUSEMOVE
  | Msg_other u32

datatype hook_post = Post_window hook_event win_msg u32 | Post_words hook_event u32 u32

text \<open>What Windows knows of a window: whether it is visible, its rectangle, and the selected item of a pop-up menu.\<close>

record win_info =
  wi_visible :: bool
  wi_rect :: "(int \<times> int \<times> int \<times> int) option"
  wi_prop :: u32

definition NotifyHookOwner :: "hook_post \<Rightarrow> window_hooks \<Rightarrow> hook_post list" where
  "NotifyHookOwner p w = (if wh_owner w \<noteq> 0 then [p] else [])"

definition NotifyWindow :: "u32 \<Rightarrow> win_msg \<Rightarrow> window_hooks \<Rightarrow> hook_post list" where
  "NotifyWindow wnd msg w = NotifyHookOwner (Post_window WindowChanged msg wnd) w"

definition NotifyWindowBorder :: "u32 \<Rightarrow> win_msg \<Rightarrow> window_hooks \<Rightarrow> hook_post list" where
  "NotifyWindowBorder wnd msg w = NotifyHookOwner (Post_window WindowBorderChanged msg wnd) w"

definition NotifyWindowClientArea :: "u32 \<Rightarrow> win_msg \<Rightarrow> window_hooks \<Rightarrow> hook_post list" where
  "NotifyWindowClientArea wnd msg w = NotifyHookOwner (Post_window WindowClientAreaChanged msg wnd) w"

definition NotifyCursor :: "u32 \<Rightarrow> window_hooks \<Rightarrow> hook_post list" where
  "NotifyCursor cursor w = NotifyHookOwner (Post_words CursorChanged 0 cursor) w"

definition MAKELONG :: "u16 \<Rightarrow> u16 \<Rightarrow> u32" where
  "MAKELONG lo hi = ucast lo OR push_bit 16 (ucast hi)"

definition LOWORD :: "u32 \<Rightarrow> u16" where "LOWORD l = ucast l"

definition HIWORD :: "u32 \<Rightarrow> u16" where "HIWORD l = ucast (drop_bit 16 l)"

definition to_SHORT :: "int \<Rightarrow> u16" where "to_SHORT n = word_of_int n"

definition NotifyRectangle :: "int \<times> int \<times> int \<times> int \<Rightarrow> window_hooks \<Rightarrow> hook_post list" where
  "NotifyRectangle rect w =
     (case rect of (left, upper, right, bottom) \<Rightarrow>
        NotifyHookOwner (Post_words RectangleChanged (MAKELONG (to_SHORT left) (to_SHORT upper)) (MAKELONG (to_SHORT right) (to_SHORT bottom))) w)"

definition SB_THUMBTRACK :: u16 where "SB_THUMBTRACK = 5"

definition SB_ENDSCROLL :: u16 where "SB_ENDSCROLL = 8"

definition ProcessWindowMessage :: "win_msg \<Rightarrow> u32 \<Rightarrow> u32 \<Rightarrow> win_info \<Rightarrow> window_hooks \<Rightarrow> hook_post list \<times> win_info" where
  "ProcessWindowMessage msg wnd wParam i w =
     (if \<not> wi_visible i then ([], i)
      else case msg of
        WM_NCPAINT \<Rightarrow> (NotifyWindowBorder wnd msg w, i)
      | WM_NCACTIVATE \<Rightarrow> (NotifyWindowBorder wnd msg w, i)
      | WM_HSCROLL \<Rightarrow> (if LOWORD wParam = SB_THUMBTRACK \<or> LOWORD wParam = SB_ENDSCROLL then NotifyWindow wnd msg w else [], i)
      | WM_VSCROLL \<Rightarrow> (if LOWORD wParam = SB_THUMBTRACK \<or> LOWORD wParam = SB_ENDSCROLL then NotifyWindow wnd msg w else [], i)
      | WM_WINDOWPOSCHANGING \<Rightarrow> (case wi_rect i of None \<Rightarrow> [] | Some r \<Rightarrow> NotifyRectangle r w, i)
      | WM_DESTROY \<Rightarrow> (case wi_rect i of None \<Rightarrow> [] | Some r \<Rightarrow> NotifyRectangle r w, i)
      | WM_WINDOWPOSCHANGED \<Rightarrow> (NotifyWindow wnd msg w, i)
      | Msg_482 \<Rightarrow> (NotifyWindow wnd msg w, i)
      | Msg_485 \<Rightarrow> if wi_prop i \<noteq> wParam then (NotifyWindow wnd msg w, i\<lparr>wi_prop := wParam\<rparr>) else ([], i)
      | WM_NCMOUSEMOVE \<Rightarrow> ([], i)
      | WM_MOUSEMOVE \<Rightarrow> ([], i)
      | Msg_other n \<Rightarrow> ([], i)
      | _ \<Rightarrow> (NotifyWindowClientArea wnd msg w, i))"

text \<open>The four hook procedures; each then calls the next hook.  \<open>action\<close>: the code is \<open>HC_ACTION\<close>.\<close>

definition HookCallWndProc :: "bool \<Rightarrow> win_msg \<Rightarrow> u32 \<Rightarrow> u32 \<Rightarrow> win_info \<Rightarrow> window_hooks \<Rightarrow> hook_post list \<times> win_info" where
  "HookCallWndProc action msg wnd wParam i w = (if action then ProcessWindowMessage msg wnd wParam i w else ([], i))"

definition HookCallWndProcRet :: "bool \<Rightarrow> win_msg \<Rightarrow> u32 \<Rightarrow> u32 \<Rightarrow> win_info \<Rightarrow> window_hooks \<Rightarrow> hook_post list \<times> win_info" where
  "HookCallWndProcRet action msg wnd wParam i w = (if action then ProcessWindowMessage msg wnd wParam i w else ([], i))"

definition PM_REMOVE :: u32 where "PM_REMOVE = 1"

definition HookGetMessage :: "bool \<Rightarrow> u32 \<Rightarrow> win_msg \<Rightarrow> u32 \<Rightarrow> u32 \<Rightarrow> win_info \<Rightarrow> window_hooks \<Rightarrow> hook_post list \<times> win_info" where
  "HookGetMessage action flags msg wnd wParam i w =
     (if action \<and> flags AND PM_REMOVE \<noteq> 0 then ProcessWindowMessage msg wnd wParam i w else ([], i))"

definition HookDialogMessage :: "bool \<Rightarrow> win_msg \<Rightarrow> u32 \<Rightarrow> u32 \<Rightarrow> win_info \<Rightarrow> window_hooks \<Rightarrow> hook_post list \<times> win_info" where
  "HookDialogMessage action msg wnd wParam i w = (if action then ProcessWindowMessage msg wnd wParam i w else ([], i))"

section \<open>The thread of the notifications\<close>

text \<open>
  \<open>pw_event\<close>: \<open>m_hEvent\<close>, \<open>None\<close> once it was closed, otherwise whether it is set; \<open>Wait_forever\<close> is a
  wait for an event nobody sets any more.
\<close>

record process_hooks =
  pw_thread :: bool
  pw_event :: "bool option"
  pw_hwnd :: bool
  pw_close_posted :: bool

definition new_process_hooks :: process_hooks where
  "new_process_hooks = \<lparr>pw_thread = False, pw_event = Some False, pw_hwnd = False, pw_close_posted = False\<rparr>"

text \<open>What the thread does before its loop.\<close>

definition DoHooks_begin :: "process_hooks \<Rightarrow> process_hooks" where
  "DoHooks_begin p = p\<lparr>pw_hwnd := True, pw_event := None\<rparr>"

text \<open>
  The message loop over what \<open>PeekMessage\<close> finds each time it is asked: the messages that are dispatched
  before the thread ends.
\<close>

fun DoHooks_loop :: "'m option list \<Rightarrow> 'm list" where
  "DoHooks_loop [] = []"
| "DoHooks_loop (None # peeks) = []"
| "DoHooks_loop (Some m # peeks) = m # DoHooks_loop peeks"

text \<open>\<open>Start\<close> waits until the thread has come to its loop; a thread that was started before is not started again.\<close>

definition pw_Start :: "bool \<Rightarrow> process_hooks \<Rightarrow> bool \<times> process_hooks" where
  "pw_Start thread_ok p =
     (if pw_thread p then (True, p)
      else if \<not> thread_ok then (False, p)
      else (True, DoHooks_begin (p\<lparr>pw_thread := True\<rparr>)))"

text \<open>\<open>Stop\<close>: a wait for a NULL handle fails at once, one for the event that is not set does not return (\<open>None\<close>).\<close>

definition pw_Stop :: "process_hooks \<Rightarrow> process_hooks option" where
  "pw_Stop p =
     (if pw_event p = Some False then None
      else Some (if pw_hwnd p then p\<lparr>pw_close_posted := True\<rparr> else p))"

definition pw_GetHWND :: "process_hooks \<Rightarrow> bool option" where
  "pw_GetHWND p = (if \<not> pw_hwnd p \<and> pw_event p = Some False then None else Some (pw_hwnd p))"

section \<open>Lemmas\<close>

text \<open>Installing for an owner gives all four hooks, or none and takes back those it got.\<close>

lemma install_all_or_nothing:
  assumes "hOwnerWnd \<noteq> 0" and "Install hOwnerWnd tid (h1, h2, h3, h4) w = (ok, w', gone)"
  shows "if ok then gone = [] \<and> 0 \<notin> {wh_CallWndProc w', wh_CallWndProcRet w', wh_GetMessage w', wh_DialogMessage w'} \<and> wh_owner w' = hOwnerWnd
    else w' = no_hooks \<and> gone = filter (\<lambda>h. h \<noteq> 0) [h1, h2, h3, h4]"
  using assms by (auto simp: Install_def Uninstall_def Let_def split: if_splits)

text \<open>Without an owner a failed \<open>Install\<close> keeps the hooks it got.\<close>

lemma install_without_owner_leaks:
  assumes "h1 \<noteq> 0" and "h2 = 0"
  shows "\<exists>w'. Install 0 tid (h1, h2, h3, h4) w = (False, w', []) \<and> wh_CallWndProc w' = h1"
  using assms by (simp add: Install_def Uninstall_def)

lemma words_roundtrip: "LOWORD (MAKELONG lo hi) = lo" "HIWORD (MAKELONG lo hi) = hi"
proof -
  show "LOWORD (MAKELONG lo hi) = lo"
    unfolding LOWORD_def MAKELONG_def by (rule bit_word_eqI) (auto simp: bit_simps)
  show "HIWORD (MAKELONG lo hi) = hi"
    unfolding HIWORD_def MAKELONG_def
    by (rule bit_word_eqI) (auto simp: bit_simps dest: bit_imp_le_length)
qed

text \<open>A rectangle on the desktop is read back from the notification.\<close>

lemma rectangle_roundtrip:
  assumes "wh_owner w \<noteq> 0" and "\<forall>x \<in> {left, upper, right, bottom}. - (2 ^ 15) \<le> x \<and> x < 2 ^ 15"
  shows "\<exists>a b. NotifyRectangle (left, upper, right, bottom) w = [Post_words RectangleChanged a b]
    \<and> sint (LOWORD a) = left \<and> sint (HIWORD a) = upper \<and> sint (LOWORD b) = right \<and> sint (HIWORD b) = bottom"
proof -
  have "sint (word_of_int x :: u16) = x" if "- (2 ^ 15) \<le> x" "x < 2 ^ 15" for x
    using that by (subst signed_of_int) (simp add: signed_take_bit_int_eq_self)
  with assms show ?thesis by (simp add: NotifyRectangle_def NotifyHookOwner_def words_roundtrip to_SHORT_def)
qed

text \<open>Nothing is posted for an invisible window or without an owner, and at most one thing otherwise.\<close>

lemma at_most_one_post:
  "length (fst (ProcessWindowMessage msg wnd wParam i w)) \<le> (if wi_visible i \<and> wh_owner w \<noteq> 0 then 1 else 0)"
  by (cases msg) (auto simp: ProcessWindowMessage_def NotifyWindow_def NotifyWindowBorder_def NotifyWindowClientArea_def
      NotifyHookOwner_def NotifyRectangle_def split: option.splits prod.splits)

text \<open>The selection of a pop-up menu is told once as long as it stays the same.\<close>

lemma selection_told_once:
  assumes "ProcessWindowMessage Msg_485 wnd item i w = (ps, i')"
  shows "wi_visible i \<Longrightarrow> ProcessWindowMessage Msg_485 wnd item i' w = ([], i')"
  using assms by (auto simp: ProcessWindowMessage_def split: if_splits)

text \<open>
  The thread ends when \<open>PeekMessage\<close> finds its queue empty for the first time: what is posted later,
  the request to close among it, is never dispatched.
\<close>

lemma hooks_thread_ends_when_idle: "DoHooks_loop (map Some ms @ None # later) = ms"
  by (induction ms) simp_all

end
