(* ===== verification/Spec2Isabelle.thy ===== *)
theory Spec2Isabelle
  imports Session Remote_Server Rendezvous Tracker_Invariant Client_Lifecycle Client_Window Compress Server_Lifecycle Capture_Thread Thread_Pool Window_Hooks
begin

text \<open>
  RemoteDesktop is a remote desktop in three programs.  RemoteDesktopServer captures its screen and
  sends the parts of it that change; RemoteDesktopClient shows them in a window and sends mouse and
  clipboard commands back; P2PTracker is a small HTTP server at which servers go on line and viewers
  find them.  This development models the three programs, the protocol code they share in
  \<^verbatim>\<open>common/\<close> and the part of the vendored libevent the tracker's decoding rests
  on.

  \<^bold>\<open>How the parts interact.\<close>  The server's capture (\<open>CScreenBitmap\<close>)
  compares two pictures in blocks of 32 pixels and tells the window, which tells
  \<open>CRemoteServer\<close>, which tells every \<open>CClientConnection\<close>.  A connection merges
  the changes into what its client has not seen yet and, when the client has answered the previous
  picture, cuts the blocks out, builds a command in a \<open>stream_buffer\<close> and queues it for
  libevent.  On the other side the bytes go through \<open>DecodeBuffer\<close>, a factory and a parser
  of the command, and a handler of \<open>CRemoteClient\<close>; the window pastes the blocks and the
  client answers.  Before that, version, logon, compression mode and picture request are exchanged, one
  state of the connection after the other.  Beside this, the server and the viewer each hold an HTTP
  connection to the tracker (\<open>CP2PTrackerClient\<close>): the server registers, the viewer reads
  the list of servers and asks to be connected, the tracker relays the request and the answer.

  \<^bold>\<open>Theories and sources.\<close>

  \<^item> \<open>RD_Prelude\<close>: bytes, 32-bit words and their little-endian images, the memory
  operations of C on byte lists, \<open>atoi\<close>, the error sum and its bind; the locale
  \<open>fixed_codec\<close>, interpreted at each width.
  \<^item> \<open>Stream_Buffer\<close>: \<^verbatim>\<open>common/stream_buffer.h\<close>, every read
  and write with the wrap-around of the 32-bit \<open>size_t\<close> and the allocator as a parameter.
  \<^item> \<open>Commands\<close>: \<^verbatim>\<open>common/def.h\<close> and
  \<^verbatim>\<open>common/cmd.h\<close>, codes, states and the command classes.
  \<^item> \<open>Server_Recv\<close> and \<open>Client_Recv\<close>: the parsers of
  \<^verbatim>\<open>ServerReciveCmd.cpp\<close> and \<^verbatim>\<open>ClientReciveCmd.cpp\<close>,
  their factories, and the unpacking loop of \<^verbatim>\<open>common/jpeg.h\<close>.
  \<^item> \<open>Framing\<close>: \<open>DecodeBuffer\<close> of both sides.
  \<^item> \<open>Screen_Grid\<close>, \<open>Screen\<close>, \<open>Screen_Transfer\<close>:
  \<^verbatim>\<open>ScreenBitmap.cpp\<close>, the cutting loop of
  \<^verbatim>\<open>ClientConnection.cpp\<close> and the pasting loop of the client's
  \<^verbatim>\<open>MainWindow.cpp\<close>.
  \<^item> \<open>Capture_Thread\<close>: the capture thread of
  \<^verbatim>\<open>ScreenBitmap.cpp\<close> beside the thread that owns the window, interleaved
  between the accesses of shared members.
  \<^item> \<open>Server_Connection\<close> and \<open>Client_Connection\<close>:
  \<^verbatim>\<open>ClientConnection.cpp\<close> and \<^verbatim>\<open>RemoteClient.cpp\<close>, every
  handler and every sending function.
  \<^item> \<open>Session\<close>: the two connected, with the bytes cut into reads by the network.
  \<^item> \<open>Ordered_Map\<close>, \<open>Remote_Server\<close>: \<open>std::map\<close>, and
  \<^verbatim>\<open>RemoteServer.cpp\<close> with the counting of
  \<^verbatim>\<open>AutoAddReleasePtr.h\<close> and the callbacks of the server's
  \<^verbatim>\<open>MainWindow.cpp\<close>, as a step relation.
  \<^item> \<open>C_Strings\<close>, \<open>Evutil\<close>, \<open>Evutil_Inet\<close>,
  \<open>Evhttp_Headers\<close>, \<open>Evhttp_Uri\<close>, \<open>Evhttp_Query\<close>: strings as C
  and C++ see them, and from libevent's \<^verbatim>\<open>evutil.c\<close> and
  \<^verbatim>\<open>http.c\<close> the character tables and comparisons, \<open>inet_pton\<close>,
  header lists, percent coding, URIs and queries.
  \<^item> \<open>Http_Buffer\<close>, \<open>Tracker_Decoder\<close>: the HTTP buffer that three
  classes share by copies of one text, and the request decoder of
  \<^verbatim>\<open>HttpClientConnection.cpp\<close>.
  \<^item> \<open>Tracker_Peers\<close>, \<open>Tracker\<close>, \<open>Tracker_Requests\<close>,
  \<open>Tracker_Invariant\<close>: the table of peers, the two request handlers, the connections and
  the server of P2PTracker, and its steps.
  \<^item> \<open>Tracker_Client\<close>, \<open>Tracker_Client_Server\<close>,
  \<open>Tracker_Client_Viewer\<close>: the common part and the two classes of
  \<^verbatim>\<open>RemoteDesktopServer/P2PTrackerClient.cpp\<close> and
  \<^verbatim>\<open>RemoteDesktopClient/P2PTrackerClient.cpp\<close>.
  \<^item> \<open>Rendezvous\<close>: tracker, server and viewer composed; \<open>Keep_Alive\<close>: a
  server's pings and the tracker's timer, over any number of rounds.
  \<^item> \<open>Client_Lifecycle\<close>, \<open>Server_Lifecycle\<close>: the rest of
  \<^verbatim>\<open>RemoteClient.cpp\<close> and \<^verbatim>\<open>RemoteServer.cpp\<close> around the
  connections: starting and stopping, the thread's function, timers, the listener and the calls of the
  tracker client, each as a step relation.
  \<^item> \<open>Client_Window\<close>: where \<open>DrawRemoteDesktop\<close> of the client's
  \<^verbatim>\<open>MainWindow.cpp\<close> puts the picture.
  \<^item> \<open>Compress\<close>: the objects of \<^verbatim>\<open>common/compress_base.h\<close> and
  \<^verbatim>\<open>common/compress_zip.h\<close>, with the checks of arguments of zlib's
  \<open>deflateInit2_\<close> and \<open>inflateReset2\<close>.
  \<^item> \<open>Thread_Pool\<close>: \<^verbatim>\<open>ftlThreadPool/ftlThreadPool.h\<close> and
  \<^verbatim>\<open>ftlThreadPool.hpp\<close>, callers and workers interleaved; \<open>Event_Runs\<close>:
  runs of events, for this theory and for \<open>Capture_Thread\<close>.
  \<^item> \<open>Window_Hooks\<close>: \<^verbatim>\<open>WindowHooks.cpp\<close> and
  \<^verbatim>\<open>ProcessWindowHooks.cpp\<close>.

  \<^bold>\<open>Conventions.\<close>  A class is a record of its members and an operation a function on
  it; a fault of memory (a dereference of NULL, an access out of bounds, an overrun of an array of fixed
  size) is the value \<open>Inl MemFault\<close>, and an exception or an exit the other values of
  \<open>sb_error\<close>; the capture thread and the pool name their faults (\<open>cap_fault\<close>,
  \<open>pool_fault\<close>).  Objects that are shared and counted (\<open>CClientConnection\<close>,
  \<open>CHttpClientConnection\<close>, the two request handlers) live in an explicit heap with their
  counts.  What a call writes to a bufferevent or asks of the window is in the list of outputs it
  returns.  Integers keep their width where the code can overflow.  Names are those of the source, with
  a prefix where two classes share a name (\<open>rc_\<close> the client, \<open>srv_\<close> the
  server, \<open>hc_\<close>, \<open>tk_\<close>, \<open>pt_\<close>, \<open>dig_\<close> the tracker,
  \<open>ts_\<close> and \<open>tc_\<close> its clients, \<open>cp_\<close> and \<open>sp_\<close> the
  programs of client and server around their connections, \<open>cap_\<close> the capture, \<open>tp_\<close> the pool,
  \<open>wh_\<close> and \<open>pw_\<close> the hooks).

  \<^bold>\<open>What the lemmas show.\<close> The scanner reports exactly the blocks that differ; the
  blocks cut out on the server and pasted on the client make the old picture the new one; and a whole
  round over the real code paths, with the bytes cut by the network outside the eight-byte headers,
  keeps window and screen equal (\<open>Screen\<close>, \<open>Screen_Transfer\<close>,
  \<open>Session\<close>).  The capture thread does the same as the capture in one piece, and uses no
  freed picture as long as it is not stopped in the middle (\<open>Capture_Thread\<close>).  Every
  command survives building, serialising, framing and parsing (\<open>Commands\<close>,
  \<open>Framing\<close>, \<open>Server_Recv\<close>, \<open>Client_Recv\<close>).  The handshake is
  required and completes; the connection, the server's table, the tracker and the two programs around
  them have invariants in every reachable state (\<open>Server_Connection\<close>,
  \<open>Remote_Server\<close>, \<open>Tracker_Invariant\<close>, \<open>Client_Lifecycle\<close>,
  \<open>Server_Lifecycle\<close>).  The tracker's decoder takes its requests in any pieces, hands on
  only well-formed ones whatever is sent, and its table of peers refines a map from addresses to their
  ages.  The rendezvous brings a server and a viewer together; the viewer's reads end; a server that
  pings in time stays listed.  The picture is drawn inside the client area, and decoding returns what
  zlib writes.  The thread pool loses no job and runs none twice, and its workers get every waiting job
  done in bounded time.  The other lemmas say where the code fails: headers of commands split between
  reads, commands over the size limit, changes lost by the merge, clients that share one decoder, a
  capture that cannot be restarted, a client that never sends, requests for unknown peers, a table that
  dies with the last connection, status lines split between reads, a stopped server that stays listed,
  the request of the viewer's timer, which the tracker refuses, a ZIP object that never compresses, capture
  threads that never end, a capture stopped in the middle, a pool that cancelling blocks or clearing
  breaks.

  \<^bold>\<open>Interfaces.\<close>  The locales are \<open>fixed_codec\<close>,
  \<open>ordered_table\<close>, \<open>header_list\<close>, \<open>event_runs\<close> and
  \<open>http_class\<close> with its extension \<open>http_monotone\<close>; each is interpreted on the model of the code that provides it.
   The request decoder satisfies \<open>http_monotone\<close>, the response decoder only
  \<open>http_class\<close>: that is why a response can be lost.

  \<^bold>\<open>Termination and bounds.\<close>  No fuel is used.  The recursions are structural or
  carry a measure (the bytes left in a buffer, the blocks left to merge); the workers of the pool have
  one too (\<open>work\<close>); the loop over the list of peers is a \<open>partial_function\<close>
  whose return is proved for every input; the loops over zlib are \<open>partial_function\<close>s too,
  as zlib is a parameter that may go on for ever, and return on every run of \<open>inflate\<close> that
  comes to its end (\<open>inflates\<close> in \<open>Compress\<close>).  The sizes in the statements
  are those of the code: 10485760 bytes of a command, 1070 bytes of a picture's header, 92 and 98
  characters of an address in the buffers of 100, the 31 bits of \<open>atoi\<close>.

  \<^bold>\<open>Not modelled.\<close>  The Win32 parts: windows, messages, drawing, input
  injection, clipboard, resources, logging; calls of them appear as outputs or parameters, and elsewhere
  than in the capture and the pool the callbacks of a class run one after the other, as the event loop
  and \<open>SendMessage\<close> order them.  The sockets, the event loop, the buffers, the DNS and the
  HTTP server of libevent; zlib, libjpeg and libpng, which are vendored libraries the program calls
  (libjpeg, zlib's \<open>deflate\<close> and \<open>inflate\<close> and the allocator are parameters;
  the transfer code makes compression objects and never uses them).  Threads are interleaved in the
  capture and in the thread pool only, with the sections under a lock and the operations of a window in
  one piece.  The proxy in front of the tracker, which adds the address of a peer to a request, is not
  in the repository and is a parameter with its documented behaviour (\<open>forwards\<close> in
  \<open>Tracker_Client\<close>).
\<close>

end
